(* ===== verification/Go_Prelude.thy ===== *)
theory Go_Prelude
  imports Main "HOL-Library.List_Lexorder" "HOL-Library.Char_ord" "HOL-Library.Product_Lexorder"
    "HOL-Library.Multiset"
begin

text \<open>
  The part of Go and of its standard library that the modelled packages use, and the lemmas
  that every component shares.

  A Go \<^verbatim>\<open>string\<close> or \<^verbatim>\<open>[]byte\<close> is a sequence of bytes, which is what \<^typ>\<open>string\<close> (a list of
  8-bit \<^typ>\<open>char\<close>) is. The order of \<open>List_Lexorder\<close> over \<open>Char_ord\<close> is Go's \<^verbatim>\<open><\<close> on strings
  (bytewise, a proper prefix first), so \<^verbatim>\<open>sort.Strings\<close> is \<^const>\<open>sort\<close>.
  Where the source ranges over the runes of a string but tests them against ASCII values only,
  the model ranges over bytes: a byte above \<^verbatim>\<open>0x7f\<close> never decodes to an ASCII rune.
\<close>

named_theorems go_string \<open>characterisations of the string functions of the Go library\<close>
named_theorems go_result \<open>when a checked computation succeeds\<close>

type_synonym path = string

section \<open>Integers\<close>

text \<open>An \<^verbatim>\<open>int64\<close> sum wraps around: two's complement at 64 bits.\<close>

definition wrap64 :: "int \<Rightarrow> int" where
  "wrap64 x = (x + 2 ^ 63) mod 2 ^ 64 - 2 ^ 63"

lemma wrap64_in_range: "- (2 ^ 63) \<le> wrap64 x \<and> wrap64 x < 2 ^ 63"
  by (simp add: wrap64_def)

lemma wrap64_id: "- (2 ^ 63) \<le> x \<Longrightarrow> x < 2 ^ 63 \<Longrightarrow> wrap64 x = x"
  by (simp add: wrap64_def)

section \<open>Bytes\<close>

abbreviation byte :: "char \<Rightarrow> nat" where
  "byte c \<equiv> of_char c"

definition is_digit_byte :: "char \<Rightarrow> bool" where
  "is_digit_byte c \<longleftrightarrow> 48 \<le> byte c \<and> byte c \<le> 57"

definition is_lower_byte :: "char \<Rightarrow> bool" where
  "is_lower_byte c \<longleftrightarrow> 97 \<le> byte c \<and> byte c \<le> 122"

definition is_upper_byte :: "char \<Rightarrow> bool" where
  "is_upper_byte c \<longleftrightarrow> 65 \<le> byte c \<and> byte c \<le> 90"

definition is_control_byte :: "char \<Rightarrow> bool" where
  "is_control_byte c \<longleftrightarrow> byte c < 32 \<or> byte c = 127"

lemma byte_eq_iff [simp]: "(byte c = byte d) = (c = d)"
  by (metis char_of_char)

lemma byte_less_256: "byte c < 256"
proof -
  have "byte c mod 256 < 256" by (rule mod_less_divisor) simp
  then show ?thesis by simp
qed

definition to_lower_byte :: "char \<Rightarrow> char" where
  "to_lower_byte c = (if is_upper_byte c then char_of (byte c + 32) else c)"

text \<open>
  \<^verbatim>\<open>strings.ToLower\<close> and \<^verbatim>\<open>strings.EqualFold\<close>. The model folds ASCII letters and keeps every other
  byte. It agrees with Go whenever one side of the comparison is an ASCII string free of the
  letters \<^verbatim>\<open>k\<close> and \<^verbatim>\<open>s\<close> (the only ASCII letters that have a non-ASCII case partner), as hex digests
  and the lock's flag names without those letters are, and whenever both sides are ASCII.
\<close>

definition to_lower :: "string \<Rightarrow> string" where
  "to_lower = map to_lower_byte"

definition equal_fold :: "string \<Rightarrow> string \<Rightarrow> bool" where
  "equal_fold a b \<longleftrightarrow> to_lower a = to_lower b"

lemma equal_fold_refl [simp]: "equal_fold a a"
  by (simp add: equal_fold_def)

lemma equal_fold_sym: "equal_fold a b \<Longrightarrow> equal_fold b a"
  by (simp add: equal_fold_def)

lemma equal_fold_trans: "equal_fold a b \<Longrightarrow> equal_fold b c \<Longrightarrow> equal_fold a c"
  by (simp add: equal_fold_def)

lemma to_lower_id: "(\<And>c. c \<in> set s \<Longrightarrow> \<not> is_upper_byte c) \<Longrightarrow> to_lower s = s"
  by (induction s) (auto simp: to_lower_def to_lower_byte_def)

section \<open>Searching and cutting strings\<close>

text \<open>\<^verbatim>\<open>strings.IndexByte\<close>, with \<^const>\<open>None\<close> for \<^verbatim>\<open>-1\<close>.\<close>

fun index_byte :: "char \<Rightarrow> string \<Rightarrow> nat option" where
  "index_byte c [] = None"
| "index_byte c (x # xs) = (if x = c then Some 0 else map_option Suc (index_byte c xs))"

text \<open>\<^verbatim>\<open>strings.LastIndexByte\<close>.\<close>

fun last_index_byte :: "char \<Rightarrow> string \<Rightarrow> nat option" where
  "last_index_byte c [] = None"
| "last_index_byte c (x # xs) =
     (case last_index_byte c xs of
        Some i \<Rightarrow> Some (Suc i)
      | None \<Rightarrow> if x = c then Some 0 else None)"

lemma index_byte_None [go_string]: "index_byte c s = None \<longleftrightarrow> c \<notin> set s"
  by (induction s) auto

lemma index_byte_append:
  "c \<notin> set a \<Longrightarrow> index_byte c (a @ c # b) = Some (length a)"
  by (induction a) auto

lemma index_byte_SomeD:
  "index_byte c s = Some i \<Longrightarrow>
     i < length s \<and> c \<notin> set (take i s) \<and> s = take i s @ c # drop (Suc i) s"
proof (induction s arbitrary: i)
  case Nil
  then show ?case by simp
next
  case (Cons x xs)
  then show ?case by (auto split: if_splits)
qed

lemma last_index_byte_None [go_string]: "last_index_byte c s = None \<longleftrightarrow> c \<notin> set s"
  by (induction s) (auto split: option.splits)

lemma last_index_byte_append:
  "c \<notin> set b \<Longrightarrow> last_index_byte c (a @ c # b) = Some (length a)"
proof (induction a)
  case Nil
  then have "last_index_byte c b = None" by (simp add: go_string)
  then show ?case by simp
next
  case (Cons x a)
  then show ?case by simp
qed

lemma last_index_byte_SomeD:
  "last_index_byte c s = Some i \<Longrightarrow>
     i < length s \<and> c \<notin> set (drop (Suc i) s) \<and> s = take i s @ c # drop (Suc i) s"
proof (induction s arbitrary: i)
  case Nil
  then show ?case by simp
next
  case (Cons x xs)
  then show ?case by (auto simp: go_string split: option.splits if_splits)
qed

text \<open>\<^verbatim>\<open>strings.HasPrefix\<close>, \<^verbatim>\<open>strings.CutPrefix\<close> and \<^verbatim>\<open>strings.Split\<close> with a one-byte separator.\<close>

definition has_prefix :: "string \<Rightarrow> string \<Rightarrow> bool" where
  "has_prefix s p \<longleftrightarrow> take (length p) s = p"

lemma has_prefix_iff [go_string]: "has_prefix s p \<longleftrightarrow> (\<exists>t. s = p @ t)"
proof
  assume "has_prefix s p"
  then have "s = p @ drop (length p) s"
    by (metis append_take_drop_id has_prefix_def)
  then show "\<exists>t. s = p @ t" ..
qed (auto simp: has_prefix_def)

definition cut_prefix :: "string \<Rightarrow> string \<Rightarrow> string option" where
  "cut_prefix s p = (if has_prefix s p then Some (drop (length p) s) else None)"

fun split_on :: "char \<Rightarrow> string \<Rightarrow> string list" where
  "split_on c [] = [[]]"
| "split_on c (x # xs) =
     (if x = c then [] # split_on c xs
      else case split_on c xs of [] \<Rightarrow> [[x]] | seg # segs \<Rightarrow> (x # seg) # segs)"

fun join_with :: "string \<Rightarrow> string list \<Rightarrow> string" where
  "join_with sep [] = []"
| "join_with sep [x] = x"
| "join_with sep (x # y # ys) = x @ sep @ join_with sep (y # ys)"

lemma split_on_not_Nil [simp]: "split_on c s \<noteq> []"
  by (induction s) (auto split: list.splits)

lemma split_on_no_sep: "seg \<in> set (split_on c s) \<Longrightarrow> c \<notin> set seg"
proof (induction s arbitrary: seg)
  case Nil
  then show ?case by simp
next
  case (Cons x xs)
  obtain seg0 segs where s: "split_on c xs = seg0 # segs"
    by (meson neq_Nil_conv split_on_not_Nil)
  show ?case
    using Cons by (auto simp: s split: if_splits)
qed

lemma split_on_segment_bytes: "seg \<in> set (split_on c s) \<Longrightarrow> set seg \<subseteq> set s"
proof (induction s arbitrary: seg)
  case Nil
  then show ?case by simp
next
  case (Cons x xs)
  obtain seg0 segs where s: "split_on c xs = seg0 # segs"
    by (meson neq_Nil_conv split_on_not_Nil)
  have hd: "set seg0 \<subseteq> set xs" and tl: "\<And>t. t \<in> set segs \<Longrightarrow> set t \<subseteq> set xs"
    using Cons.IH by (auto simp: s)
  show ?case
    using Cons.prems hd tl by (auto simp: s split: if_splits)
qed

lemma join_split_on: "join_with [c] (split_on c s) = s"
proof (induction s)
  case Nil
  then show ?case by simp
next
  case (Cons x xs)
  obtain seg segs where s: "split_on c xs = seg # segs"
    by (meson neq_Nil_conv split_on_not_Nil)
  show ?case
    using Cons by (cases segs) (auto simp: s)
qed

lemma split_on_append_sep: "split_on c (a @ c # b) = split_on c a @ split_on c b"
proof (induction a)
  case Nil
  then show ?case by simp
next
  case (Cons x a)
  obtain seg segs where s: "split_on c a = seg # segs"
    by (meson neq_Nil_conv split_on_not_Nil)
  show ?case
    using Cons by (auto simp: s)
qed

lemma split_on_no_occurrence: "c \<notin> set a \<Longrightarrow> split_on c a = [a]"
  by (induction a) auto

lemma hd_split_on_Nil: "hd (split_on c s) = [] \<longleftrightarrow> s = [] \<or> hd s = c"
proof (cases s)
  case Nil
  then show ?thesis by simp
next
  case (Cons x xs)
  obtain seg segs where "split_on c xs = seg # segs"
    by (meson neq_Nil_conv split_on_not_Nil)
  then show ?thesis by (simp add: Cons)
qed

text \<open>\<^verbatim>\<open>strconv.Itoa\<close> on a non-negative number.\<close>

fun itoa :: "nat \<Rightarrow> string" where
  "itoa n = (if n < 10 then [char_of (48 + n)] else itoa (n div 10) @ [char_of (48 + n mod 10)])"

declare itoa.simps [simp del]

text \<open>\<^verbatim>\<open>strconv.FormatInt(n, 10)\<close>.\<close>

definition format_int :: "int \<Rightarrow> string" where
  "format_int n = (if n < 0 then CHR ''-'' # itoa (nat (- n)) else itoa (nat n))"

section \<open>Results\<close>

text \<open>
  A Go function that returns \<^verbatim>\<open>error\<close> alone is a function to \<open>'e option\<close>, \<^const>\<open>None\<close> being
  \<^verbatim>\<open>nil\<close>; one that returns a value and an error is a function to \<open>'e + 'a\<close>.
\<close>

text \<open>\<open>if err := f(x); err != nil { return err }\<close> over a list: the first error wins.\<close>

fun first_error :: "('a \<Rightarrow> 'e option) \<Rightarrow> 'a list \<Rightarrow> 'e option" where
  "first_error f [] = None"
| "first_error f (x # xs) = (case f x of Some e \<Rightarrow> Some e | None \<Rightarrow> first_error f xs)"

lemma first_error_None [go_result]: "first_error f xs = None \<longleftrightarrow> (\<forall>x \<in> set xs. f x = None)"
  by (induction xs) (auto split: option.splits)

text \<open>Lists as sets of keys: the \<^verbatim>\<open>seen\<close> maps of the checking loops.\<close>

lemma distinct_map_snoc:
  "distinct (map f (xs @ [x])) \<longleftrightarrow> distinct (map f xs) \<and> f x \<notin> f ` set xs"
  by auto

lemma map_of_distinct_find:
  "distinct (map f xs) \<Longrightarrow> x \<in> set xs \<Longrightarrow> find (\<lambda>y. f y = f x) xs = Some x"
  by (induction xs) auto

text \<open>A loop that appends exactly one element per round.\<close>

lemma concat_map_singletons:
  assumes "\<And>e. e \<in> set es \<Longrightarrow> \<exists>p \<in> A. f e = [p] \<and> g p = e"
  shows "map g (concat (map f es)) = es \<and> set (concat (map f es)) \<subseteq> A"
  using assms
proof (induction es)
  case (Cons e es)
  obtain p where p: "p \<in> A" "f e = [p]" "g p = e" using Cons.prems [of e] by auto
  have "map g (concat (map f es)) = es \<and> set (concat (map f es)) \<subseteq> A"
    by (rule Cons.IH) (rule Cons.prems, simp)
  with p show ?case by simp
qed simp

end
