(* ===== verification/Dpkg_Version.thy ===== *)
theory Dpkg_Version
  imports Go_Prelude
begin

text \<open>
  Debian version comparison, \<^verbatim>\<open>src/core/apt/dpkgversion.go\<close>: the self-contained comparison
  \<^verbatim>\<open>verrevcmp\<close> and \<^verbatim>\<open>compareVersionsFallback\<close>, and \<^verbatim>\<open>CompareVersions\<close> over the third-party package
  \<^verbatim>\<open>pault.ag/go/debian/version\<close>, which is a pair of parameters (its \<^verbatim>\<open>Parse\<close> and its \<^verbatim>\<open>Compare\<close>).
  The loops of \<^verbatim>\<open>verrevcmp\<close> advance two indices; the model passes the two suffixes they denote.

  The comparison is proved equal to an abstract one: a version is a sequence of integers (the
  order values of a run of non-digits, a zero that ends the run, the value of the run of digits,
  and so on), and two versions compare as these sequences do, padded with zeros. That gives the
  laws of an order (the locale \<open>three_way_order\<close>) and Debian Policy's rules.
\<close>

section \<open>The code\<close>

text \<open>\<^verbatim>\<open>sign\<close>.\<close>

definition go_sign :: "int \<Rightarrow> int" where
  "go_sign n = (if n < 0 then -1 else if n > 0 then 1 else 0)"

text \<open>\<^verbatim>\<open>splitEpoch\<close> and \<^verbatim>\<open>splitRevision\<close>.\<close>

definition splitEpoch :: "string \<Rightarrow> string \<times> string" where
  "splitEpoch v =
     (case index_byte (CHR '':'') v of
        Some i \<Rightarrow> (take i v, drop (i + 1) v)
      | None \<Rightarrow> (''0'', v))"

definition splitRevision :: "string \<Rightarrow> string \<times> string" where
  "splitRevision rest =
     (case last_index_byte (CHR ''-'') rest of
        Some i \<Rightarrow> (take i rest, drop (i + 1) rest)
      | None \<Rightarrow> (rest, ''0''))"

text \<open>\<^verbatim>\<open>verOrder\<close>.\<close>

definition verOrder :: "char \<Rightarrow> int" where
  "verOrder b =
     (if b = CHR ''~'' then -1
      else if byte b = 0 then 0
      else if is_digit_byte b then 0
      else if is_lower_byte b \<or> is_upper_byte b then int (byte b)
      else int (byte b) + 256)"

text \<open>\<open>i < len(a) && isDigitByte(a[i])\<close>, and \<open>i < len(a) && !isDigitByte(a[i])\<close>.\<close>

definition at_digit :: "string \<Rightarrow> bool" where
  "at_digit a \<longleftrightarrow> (case a of [] \<Rightarrow> False | x # _ \<Rightarrow> is_digit_byte x)"

definition at_nondigit :: "string \<Rightarrow> bool" where
  "at_nondigit a \<longleftrightarrow> (case a of [] \<Rightarrow> False | x # _ \<Rightarrow> \<not> is_digit_byte x)"

definition order_at :: "string \<Rightarrow> int" where
  "order_at a = (case a of [] \<Rightarrow> 0 | x # _ \<Rightarrow> verOrder x)"

text \<open>
  The inner loop over non-digits: it returns the difference of the first two order values that
  differ, or the two suffixes it stops at.
\<close>

function nondigit_loop :: "string \<Rightarrow> string \<Rightarrow> int + (string \<times> string)" where
  "nondigit_loop a b =
     (if at_nondigit a \<or> at_nondigit b then
        let ac = order_at a; bc = order_at b
        in if ac \<noteq> bc then Inl (ac - bc) else nondigit_loop (tl a) (tl b)
      else Inr (a, b))"
  by pat_completeness auto
termination
  by (relation "measure (\<lambda>(a, b). length a + length b)")
    (auto simp: at_nondigit_def split: list.splits)

declare nondigit_loop.simps [simp del]

text \<open>The loop over two runs of digits, which remembers the first difference.\<close>

fun digit_loop :: "int \<Rightarrow> string \<Rightarrow> string \<Rightarrow> int \<times> string \<times> string" where
  "digit_loop firstDiff (x # a) (y # b) =
     (if is_digit_byte x \<and> is_digit_byte y then
        digit_loop (if firstDiff = 0 then int (byte x) - int (byte y) else firstDiff) a b
      else (firstDiff, x # a, y # b))"
| "digit_loop firstDiff a b = (firstDiff, a, b)"

definition skip_zeros :: "string \<Rightarrow> string" where
  "skip_zeros a = dropWhile (\<lambda>c. c = CHR ''0'') a"

lemma nondigit_loop_lengths:
  "nondigit_loop a b = Inr (a', b') \<Longrightarrow>
     length a' + length b' \<le> length a + length b \<and>
     (at_nondigit a \<or> at_nondigit b \<longrightarrow> length a' + length b' < length a + length b) \<and>
     \<not> at_nondigit a' \<and> \<not> at_nondigit b'"
proof (induction a b rule: nondigit_loop.induct)
  case (1 a b)
  show ?case
  proof (cases "at_nondigit a \<or> at_nondigit b")
    case True
    then have "length (tl a) + length (tl b) < length a + length b"
      by (auto simp: at_nondigit_def split: list.splits)
    moreover have "order_at a = order_at b" and "nondigit_loop (tl a) (tl b) = Inr (a', b')"
      using "1.prems" True by (auto simp: nondigit_loop.simps [of a b] Let_def split: if_splits)
    ultimately show ?thesis
      using "1.IH" True by fastforce
  next
    case False
    with "1.prems" show ?thesis by (auto simp: nondigit_loop.simps [of a b])
  qed
qed

lemma digit_loop_lengths:
  "digit_loop d a b = (d', a', b') \<Longrightarrow> length a' \<le> length a \<and> length b' \<le> length b \<and>
     (at_digit a \<and> \<not> at_digit a' \<longrightarrow> length a' < length a) \<and>
     (at_digit b \<and> \<not> at_digit b' \<longrightarrow> length b' < length b)"
proof (induction d a b rule: digit_loop.induct)
  case (1 d x a y b)
  then show ?case by (fastforce simp: at_digit_def split: if_splits)
qed (auto simp: at_digit_def split: list.splits)

lemma skip_zeros_lengths:
  "length (skip_zeros a) \<le> length a"
  "at_digit a \<Longrightarrow> length (skip_zeros a) < length a \<or> at_digit (skip_zeros a)"
proof -
  show le: "length (skip_zeros a) \<le> length a"
    by (simp add: skip_zeros_def length_dropWhile_le)
  show "length (skip_zeros a) < length a \<or> at_digit (skip_zeros a)" if "at_digit a"
  proof (cases a)
    case (Cons x xs)
    have "length (dropWhile (\<lambda>c. c = CHR ''0'') xs) \<le> length xs" by (rule length_dropWhile_le)
    with that Cons show ?thesis by (simp add: skip_zeros_def at_digit_def)
  qed (use that in \<open>simp add: at_digit_def\<close>)
qed

lemma verrevcmp_shrinks:
  assumes nonempty: "a \<noteq> [] \<or> b \<noteq> []"
    and nd: "nondigit_loop a b = Inr (a1, b1)"
    and dl: "digit_loop 0 (skip_zeros a1) (skip_zeros b1) = (fd, a2, b2)"
    and stop: "\<not> at_digit a2" "\<not> at_digit b2"
  shows "length a2 + length b2 < length a + length b"
proof (cases "at_nondigit a \<or> at_nondigit b")
  case True
  with nondigit_loop_lengths [OF nd] digit_loop_lengths [OF dl]
    skip_zeros_lengths(1) [of a1] skip_zeros_lengths(1) [of b1]
  show ?thesis by linarith
next
  case False
  then have ab: "a1 = a" "b1 = b" using nd by (auto simp: nondigit_loop.simps [of a b])
  from False nonempty have "at_digit a \<or> at_digit b"
    by (auto simp: at_digit_def at_nondigit_def split: list.splits)
  with digit_loop_lengths [OF dl] stop ab
    skip_zeros_lengths [of a1] skip_zeros_lengths [of b1]
  show ?thesis by auto
qed

text \<open>\<^verbatim>\<open>verrevcmp\<close>.\<close>

function verrevcmp :: "string \<Rightarrow> string \<Rightarrow> int" where
  "verrevcmp a b =
     (if a \<noteq> [] \<or> b \<noteq> [] then
        (case nondigit_loop a b of
           Inl d \<Rightarrow> d
         | Inr (a1, b1) \<Rightarrow>
             (case digit_loop 0 (skip_zeros a1) (skip_zeros b1) of
                (firstDiff, a2, b2) \<Rightarrow>
                  if at_digit a2 then 1
                  else if at_digit b2 then -1
                  else if firstDiff \<noteq> 0 then firstDiff
                  else verrevcmp a2 b2))
      else 0)"
  by pat_completeness auto
termination
  by (relation "measure (\<lambda>(a, b). length a + length b)") (auto intro: verrevcmp_shrinks [OF _ _ sym])

declare verrevcmp.simps [simp del]

text \<open>\<^verbatim>\<open>compareVersionsFallback\<close>.\<close>

definition compareVersionsFallback :: "string \<Rightarrow> string \<Rightarrow> int" where
  "compareVersionsFallback a b =
     (let (aEpoch, aRest) = splitEpoch a;
          (bEpoch, bRest) = splitEpoch b;
          c1 = verrevcmp aEpoch bEpoch
      in if c1 \<noteq> 0 then go_sign c1
         else
           let (aUp, aRev) = splitRevision aRest;
               (bUp, bRev) = splitRevision bRest;
               c2 = verrevcmp aUp bUp
           in if c2 \<noteq> 0 then go_sign c2
              else go_sign (verrevcmp aRev bRev))"

text \<open>
  \<^verbatim>\<open>CompareVersions\<close> and \<^verbatim>\<open>EqualVersions\<close>. The parameters are \<^verbatim>\<open>debversion.Parse\<close> (\<^const>\<open>None\<close> for an
  error) and \<^verbatim>\<open>debversion.Compare\<close>.
\<close>

definition CompareVersions ::
  "(string \<Rightarrow> 'v option) \<Rightarrow> ('v \<Rightarrow> 'v \<Rightarrow> int) \<Rightarrow> string \<Rightarrow> string \<Rightarrow> int" where
  "CompareVersions dv_Parse dv_Compare a b =
     (case (dv_Parse a, dv_Parse b) of
        (Some av, Some bv) \<Rightarrow> go_sign (dv_Compare av bv)
      | _ \<Rightarrow> compareVersionsFallback a b)"

definition EqualVersions ::
  "(string \<Rightarrow> 'v option) \<Rightarrow> ('v \<Rightarrow> 'v \<Rightarrow> int) \<Rightarrow> string \<Rightarrow> string \<Rightarrow> bool" where
  "EqualVersions dv_Parse dv_Compare a b \<longleftrightarrow> CompareVersions dv_Parse dv_Compare a b = 0"

section \<open>Three-way orders\<close>

text \<open>
  What a caller of a comparison relies on: on a domain of strings it is antisymmetric and
  transitive, so that its zeros are an equivalence and its negative values a strict order.
\<close>

locale three_way_order =
  fixes dom_ok :: "'a \<Rightarrow> bool"
    and cmp :: "'a \<Rightarrow> 'a \<Rightarrow> int"
  assumes cmp_antisym: "dom_ok x \<Longrightarrow> dom_ok y \<Longrightarrow> sgn (cmp y x) = - sgn (cmp x y)"
    and cmp_trans:
      "dom_ok x \<Longrightarrow> dom_ok y \<Longrightarrow> dom_ok z \<Longrightarrow> cmp x y \<le> 0 \<Longrightarrow> cmp y z \<le> 0 \<Longrightarrow> cmp x z \<le> 0"
begin

lemma cmp_refl: "dom_ok x \<Longrightarrow> cmp x x = 0"
  using cmp_antisym [of x x] by (simp add: sgn_if split: if_splits)

lemma cmp_flip:
  assumes "dom_ok x" "dom_ok y"
  shows "cmp y x \<le> 0 \<longleftrightarrow> 0 \<le> cmp x y" and "cmp y x < 0 \<longleftrightarrow> 0 < cmp x y"
    and "cmp y x = 0 \<longleftrightarrow> cmp x y = 0"
  using cmp_antisym [OF assms] by (auto simp: sgn_if split: if_splits)

lemma cmp_eq_trans:
  "dom_ok x \<Longrightarrow> dom_ok y \<Longrightarrow> dom_ok z \<Longrightarrow> cmp x y = 0 \<Longrightarrow> cmp y z = 0 \<Longrightarrow> cmp x z = 0"
  using cmp_trans [of x y z] cmp_trans [of z y x] cmp_flip(3) [of x y] cmp_flip(3) [of y z]
    cmp_flip(1) [of x z]
  by fastforce

lemma cmp_less_trans:
  assumes "dom_ok x" "dom_ok y" "dom_ok z" "cmp x y < 0" "cmp y z \<le> 0"
  shows "cmp x z < 0"
proof (rule ccontr)
  assume "\<not> cmp x z < 0"
  then have "cmp z x \<le> 0" using cmp_flip(1) assms by force
  then have "cmp y x \<le> 0" using cmp_trans [of y z x] assms by blast
  with assms cmp_flip(1) [of x y] show False by linarith
qed

lemma cmp_le_less_trans:
  assumes "dom_ok x" "dom_ok y" "dom_ok z" "cmp x y \<le> 0" "cmp y z < 0"
  shows "cmp x z < 0"
proof (rule ccontr)
  assume "\<not> cmp x z < 0"
  then have "cmp z x \<le> 0" using cmp_flip(1) assms by force
  then have "cmp z y \<le> 0" using cmp_trans [of z x y] assms by blast
  with assms cmp_flip(1) [of y z] show False by linarith
qed

text \<open>Comparing first by one key and then by another keeps the laws.\<close>

lemma then_antisym:
  assumes "dom_ok x1" "dom_ok y1" "sgn c2' = - sgn c2"
  shows "sgn (if cmp y1 x1 \<noteq> 0 then cmp y1 x1 else c2') =
    - sgn (if cmp x1 y1 \<noteq> 0 then cmp x1 y1 else c2)"
  using cmp_antisym [OF assms(1,2)] cmp_flip(3) [OF assms(1,2)] assms(3) by auto

lemma then_trans:
  assumes d: "dom_ok x1" "dom_ok y1" "dom_ok z1"
    and xy: "(if cmp x1 y1 \<noteq> 0 then cmp x1 y1 else cxy) \<le> 0"
    and yz: "(if cmp y1 z1 \<noteq> 0 then cmp y1 z1 else cyz) \<le> 0"
    and step: "cxy \<le> 0 \<Longrightarrow> cyz \<le> 0 \<Longrightarrow> cxz \<le> 0"
  shows "(if cmp x1 z1 \<noteq> 0 then cmp x1 z1 else cxz) \<le> 0"
proof -
  have le: "cmp x1 y1 \<le> 0" "cmp y1 z1 \<le> 0" using xy yz by (auto split: if_splits)
  then have xz: "cmp x1 z1 \<le> 0" using cmp_trans d by blast
  show ?thesis
  proof (cases "cmp x1 z1 = 0")
    case True
    then have "cmp x1 y1 = 0" "cmp y1 z1 = 0"
      using cmp_less_trans [OF d] cmp_le_less_trans [OF d] le by force+
    with xy yz step True show ?thesis by simp
  next
    case False
    with xz show ?thesis by simp
  qed
qed

end

section \<open>The abstract order\<close>

text \<open>Comparison of two integer sequences, each followed by zeros.\<close>

fun padded_cmp :: "int list \<Rightarrow> int list \<Rightarrow> int" where
  "padded_cmp [] [] = 0"
| "padded_cmp (x # xs) [] = (if x \<noteq> 0 then sgn x else padded_cmp xs [])"
| "padded_cmp [] (y # ys) = (if y \<noteq> 0 then sgn (- y) else padded_cmp [] ys)"
| "padded_cmp (x # xs) (y # ys) = (if x \<noteq> y then sgn (x - y) else padded_cmp xs ys)"

definition head0 :: "int list \<Rightarrow> int" where
  "head0 xs = (case xs of [] \<Rightarrow> 0 | x # _ \<Rightarrow> x)"

lemma padded_cmp_unfold:
  "padded_cmp xs ys =
     (if xs = [] \<and> ys = [] then 0
      else if head0 xs \<noteq> head0 ys then sgn (head0 xs - head0 ys)
      else padded_cmp (tl xs) (tl ys))"
  by (cases xs; cases ys) (auto simp: head0_def)

lemma padded_cmp_antisym: "padded_cmp ys xs = - padded_cmp xs ys"
  by (induction xs ys rule: padded_cmp.induct) (auto simp: sgn_if)

lemma padded_cmp_sgn: "sgn (padded_cmp xs ys) = padded_cmp xs ys"
  by (induction xs ys rule: padded_cmp.induct) auto

lemma padded_cmp_step:
  "padded_cmp xs ys \<le> 0 \<longleftrightarrow>
     head0 xs < head0 ys \<or> head0 xs = head0 ys \<and> padded_cmp (tl xs) (tl ys) \<le> 0"
  by (subst padded_cmp_unfold) (auto simp: head0_def sgn_if)

lemma padded_cmp_trans:
  "padded_cmp xs ys \<le> 0 \<Longrightarrow> padded_cmp ys zs \<le> 0 \<Longrightarrow> padded_cmp xs zs \<le> 0"
proof (induction "length xs + length ys + length zs" arbitrary: xs ys zs rule: less_induct)
  case less
  show ?case
  proof (cases "xs = [] \<and> ys = [] \<and> zs = []")
    case True
    then show ?thesis by simp
  next
    case False
    then have "length (tl xs) + length (tl ys) + length (tl zs) < length xs + length ys + length zs"
      by (cases xs; cases ys; cases zs) auto
    note IH = less.hyps [OF this]
    show ?thesis
      using less.prems IH by (auto simp: padded_cmp_step [of xs ys] padded_cmp_step [of ys zs]
          padded_cmp_step [of xs zs])
  qed
qed

interpretation padded: three_way_order "\<lambda>_. True" padded_cmp
proof unfold_locales
  fix x y z :: "int list"
  show "sgn (padded_cmp y x) = - sgn (padded_cmp x y)" by (subst padded_cmp_antisym) simp
  show "padded_cmp x y \<le> 0 \<Longrightarrow> padded_cmp y z \<le> 0 \<Longrightarrow> padded_cmp x z \<le> 0"
    by (rule padded_cmp_trans)
qed

text \<open>The value of a run of digits, and the sequence of a version.\<close>

definition digit_of :: "char \<Rightarrow> int" where
  "digit_of c = int (byte c) - 48"

fun digits_value :: "string \<Rightarrow> int" where
  "digits_value [] = 0"
| "digits_value (x # xs) = digit_of x * 10 ^ length xs + digits_value xs"

definition nondigits :: "string \<Rightarrow> string" where
  "nondigits s = takeWhile (\<lambda>c. \<not> is_digit_byte c) s"

definition after_nondigits :: "string \<Rightarrow> string" where
  "after_nondigits s = dropWhile (\<lambda>c. \<not> is_digit_byte c) s"

function version_key :: "string \<Rightarrow> int list" where
  "version_key s =
     (if s = [] then []
      else map verOrder (nondigits s) @
           [0, digits_value (takeWhile is_digit_byte (after_nondigits s))] @
           version_key (dropWhile is_digit_byte (after_nondigits s)))"
  by pat_completeness auto
termination
proof (relation "measure length", goal_cases)
  case (2 s)
  then obtain x xs where s: "s = x # xs" by (cases s) auto
  have "length (dropWhile is_digit_byte (dropWhile (\<lambda>c. \<not> is_digit_byte c) xs)) \<le> length xs"
    by (meson le_trans length_dropWhile_le)
  moreover have "length (dropWhile is_digit_byte xs) \<le> length xs" by (rule length_dropWhile_le)
  ultimately show ?case by (auto simp: s after_nondigits_def)
qed simp

declare version_key.simps [simp del]

definition nul_free :: "string \<Rightarrow> bool" where
  "nul_free s \<longleftrightarrow> (\<forall>c \<in> set s. byte c \<noteq> 0)"

section \<open>The comparison refines the abstract order\<close>

lemma verOrder_eq_0: "verOrder c = 0 \<longleftrightarrow> byte c = 0 \<or> is_digit_byte c"
  by (auto simp: verOrder_def is_digit_byte_def)

lemma nul_free_simps [simp]:
  "nul_free []" "nul_free (x # xs) \<longleftrightarrow> byte x \<noteq> 0 \<and> nul_free xs"
  "nul_free (xs @ ys) \<longleftrightarrow> nul_free xs \<and> nul_free ys"
  by (auto simp: nul_free_def)

lemma nul_free_subset: "nul_free s \<Longrightarrow> set t \<subseteq> set s \<Longrightarrow> nul_free t"
  by (auto simp: nul_free_def)

lemma nondigits_simps [simp]:
  "nondigits [] = []" "is_digit_byte x \<Longrightarrow> nondigits (x # xs) = []"
  "\<not> is_digit_byte x \<Longrightarrow> nondigits (x # xs) = x # nondigits xs"
  "after_nondigits [] = []" "is_digit_byte x \<Longrightarrow> after_nondigits (x # xs) = x # xs"
  "\<not> is_digit_byte x \<Longrightarrow> after_nondigits (x # xs) = after_nondigits xs"
  by (simp_all add: nondigits_def after_nondigits_def)

lemma nondigit_loop_spec:
  assumes "nul_free a" "nul_free b"
  shows "case nondigit_loop a b of
      Inl d \<Rightarrow> padded_cmp (map verOrder (nondigits a) @ 0 # xs) (map verOrder (nondigits b) @ 0 # ys)
        = sgn d
    | Inr (a', b') \<Rightarrow> a' = after_nondigits a \<and> b' = after_nondigits b \<and>
        padded_cmp (map verOrder (nondigits a) @ 0 # xs) (map verOrder (nondigits b) @ 0 # ys)
          = padded_cmp xs ys"
  using assms
proof (induction a b rule: nondigit_loop.induct)
  case (1 a b)
  have orders: "order_at a = (if at_nondigit a then verOrder (hd a) else 0)"
    "order_at b = (if at_nondigit b then verOrder (hd b) else 0)"
    by (auto simp: order_at_def at_nondigit_def verOrder_eq_0 split: list.splits)
  have nz: "at_nondigit a \<Longrightarrow> verOrder (hd a) \<noteq> 0" "at_nondigit b \<Longrightarrow> verOrder (hd b) \<noteq> 0"
    using "1.prems" by (auto simp: at_nondigit_def verOrder_eq_0 split: list.splits)
  have nd: "at_nondigit a \<Longrightarrow> nondigits a = hd a # nondigits (tl a) \<and>
      after_nondigits a = after_nondigits (tl a)"
    "at_nondigit b \<Longrightarrow> nondigits b = hd b # nondigits (tl b) \<and>
      after_nondigits b = after_nondigits (tl b)"
    "\<not> at_nondigit a \<Longrightarrow> nondigits a = [] \<and> after_nondigits a = a"
    "\<not> at_nondigit b \<Longrightarrow> nondigits b = [] \<and> after_nondigits b = b"
    by (auto simp: at_nondigit_def split: list.splits)
  show ?case
  proof (cases "(at_nondigit a \<or> at_nondigit b) \<and> order_at a = order_at b")
    case True
    then have both: "at_nondigit a" "at_nondigit b" using orders nz by (auto split: if_splits)
    have "nul_free (tl a)" "nul_free (tl b)"
      using "1.prems" by (cases a; cases b; simp)+
    then have IH: "case nondigit_loop (tl a) (tl b) of
        Inl d \<Rightarrow> padded_cmp (map verOrder (nondigits (tl a)) @ 0 # xs)
          (map verOrder (nondigits (tl b)) @ 0 # ys) = sgn d
      | Inr (a', b') \<Rightarrow> a' = after_nondigits (tl a) \<and> b' = after_nondigits (tl b) \<and>
          padded_cmp (map verOrder (nondigits (tl a)) @ 0 # xs)
            (map verOrder (nondigits (tl b)) @ 0 # ys) = padded_cmp xs ys"
      using "1.IH" [OF _ refl refl] True by simp
    have "nondigit_loop a b = nondigit_loop (tl a) (tl b)"
      using True by (simp add: nondigit_loop.simps [of a b])
    moreover have "verOrder (hd a) = verOrder (hd b)" using True both orders by simp
    ultimately show ?thesis
      using IH nd(1) [OF both(1)] nd(2) [OF both(2)] by (auto split: sum.splits)
  next
    case False
    then show ?thesis
      using orders nz nd by (auto simp: nondigit_loop.simps [of a b] Let_def)
  qed
qed

subsection \<open>Runs of digits\<close>

lemma digits_value_bounds:
  "\<forall>c \<in> set xs. is_digit_byte c \<Longrightarrow> 0 \<le> digits_value xs \<and> digits_value xs < 10 ^ length xs"
proof (induction xs)
  case Nil
  then show ?case by simp
next
  case (Cons x xs)
  then have d: "0 \<le> digit_of x" "digit_of x \<le> 9"
    by (auto simp: digit_of_def is_digit_byte_def)
  have "digit_of x * 10 ^ length xs \<le> 9 * 10 ^ length xs" "0 \<le> digit_of x * 10 ^ length xs"
    using d by (auto intro: mult_right_mono)
  moreover have "0 \<le> digits_value xs" "digits_value xs < 10 ^ length xs" using Cons by auto
  moreover have "(10::int) ^ length (x # xs) = 9 * 10 ^ length xs + 10 ^ length xs" by simp
  ultimately show ?case unfolding digits_value.simps by linarith
qed

lemma digits_value_longer:
  assumes "\<forall>c \<in> set (x # xs). is_digit_byte c" "\<forall>c \<in> set ys. is_digit_byte c"
    and "x \<noteq> CHR ''0''" "length ys < length (x # xs)"
  shows "digits_value ys < digits_value (x # xs)"
proof -
  have "byte x \<noteq> byte (CHR ''0'')" using assms(3) by (simp only: byte_eq_iff not_False_eq_True)
  then have "1 \<le> digit_of x" using assms(1) by (simp add: digit_of_def is_digit_byte_def)
  then have "1 * 10 ^ length xs \<le> digit_of x * 10 ^ length xs" by (intro mult_right_mono) auto
  moreover have "(10::int) ^ length ys \<le> 10 ^ length xs"
    using assms(4) by (intro power_increasing) auto
  moreover have "digits_value ys < 10 ^ length ys" "0 \<le> digits_value xs"
    using digits_value_bounds assms(1,2) by auto
  ultimately show ?thesis unfolding digits_value.simps by linarith
qed

lemma digits_value_head:
  assumes "\<forall>c \<in> set (x # xs). is_digit_byte c" "\<forall>c \<in> set (y # ys). is_digit_byte c"
    and "length xs = length ys" "x \<noteq> y"
  shows "sgn (digits_value (x # xs) - digits_value (y # ys)) = sgn (int (byte x) - int (byte y))"
proof -
  let ?p = "10 ^ length xs :: int"
  have b: "0 \<le> digits_value xs" "digits_value xs < ?p" "0 \<le> digits_value ys" "digits_value ys < ?p"
    using digits_value_bounds [of xs] digits_value_bounds [of ys] assms by auto
  have "byte x \<noteq> byte y" using assms(4) by simp
  then consider "digit_of x + 1 \<le> digit_of y" | "digit_of y + 1 \<le> digit_of x"
    unfolding digit_of_def by linarith
  then show ?thesis
  proof cases
    case 1
    then have "(digit_of x + 1) * ?p \<le> digit_of y * ?p" by (intro mult_right_mono) auto
    with b 1 assms(3) show ?thesis by (simp add: digit_of_def algebra_simps)
  next
    case 2
    then have "(digit_of y + 1) * ?p \<le> digit_of x * ?p" by (intro mult_right_mono) auto
    with b 2 assms(3) show ?thesis by (simp add: digit_of_def algebra_simps)
  qed
qed

abbreviation digit_run :: "string \<Rightarrow> string" where
  "digit_run \<equiv> takeWhile is_digit_byte"

lemma digit_run_digits: "\<forall>c \<in> set (digit_run a). is_digit_byte c"
  by (auto dest: set_takeWhileD)

lemma at_digit_iff: "at_digit a \<longleftrightarrow> digit_run a \<noteq> []"
  by (cases a) (auto simp: at_digit_def)

lemma digit_loop_spec:
  "digit_loop d a b = (d', a', b') \<Longrightarrow>
     (if length (digit_run b) < length (digit_run a) then at_digit a'
      else if length (digit_run a) < length (digit_run b) then \<not> at_digit a' \<and> at_digit b'
      else a' = dropWhile is_digit_byte a \<and> b' = dropWhile is_digit_byte b \<and>
        \<not> at_digit a' \<and> \<not> at_digit b' \<and>
        sgn d' = (if d \<noteq> 0 then sgn d
                  else sgn (digits_value (digit_run a) - digits_value (digit_run b))))"
proof (induction d a b rule: digit_loop.induct)
  case (1 d x a y b)
  show ?case
  proof (cases "is_digit_byte x \<and> is_digit_byte y")
    case True
    with "1.prems" have "digit_loop (if d = 0 then int (byte x) - int (byte y) else d) a b = (d', a', b')"
      by simp
    note IH = "1.IH" [OF True this]
    show ?thesis
    proof (cases "length (digit_run a) = length (digit_run b) \<and> d = 0 \<and> x \<noteq> y")
      case neq: True
      then have "sgn (digits_value (x # digit_run a) - digits_value (y # digit_run b))
          = sgn (int (byte x) - int (byte y))"
        using digits_value_head [of x "digit_run a" y "digit_run b"] True digit_run_digits by simp
      with IH True neq show ?thesis by (auto simp: byte_eq_iff simp del: digits_value.simps)
    next
      case False
      with IH True show ?thesis by (auto split: if_splits)
    qed
  next
    case False
    with "1.prems" show ?thesis by (cases "is_digit_byte x"; cases "is_digit_byte y") (auto simp: at_digit_def)
  qed
qed (auto simp: at_digit_def neq_Nil_conv split: if_splits list.splits)

lemma skip_zeros_spec:
  "digits_value (digit_run (skip_zeros a)) = digits_value (digit_run a)"
  "dropWhile is_digit_byte (skip_zeros a) = dropWhile is_digit_byte a"
  "digit_run (skip_zeros a) = [] \<or> hd (digit_run (skip_zeros a)) \<noteq> CHR ''0''"
proof -
  have zero: "is_digit_byte (CHR ''0'')" "digit_of (CHR ''0'') = 0"
    by (simp_all add: is_digit_byte_def digit_of_def)
  show "digits_value (digit_run (skip_zeros a)) = digits_value (digit_run a)"
    "dropWhile is_digit_byte (skip_zeros a) = dropWhile is_digit_byte a"
    by (induction a) (auto simp: skip_zeros_def zero)
  show "digit_run (skip_zeros a) = [] \<or> hd (digit_run (skip_zeros a)) \<noteq> CHR ''0''"
    by (induction a) (auto simp: skip_zeros_def)
qed

lemma run_comparison:
  assumes dl: "digit_loop 0 (skip_zeros a) (skip_zeros b) = (d, a', b')"
  defines "va \<equiv> digits_value (digit_run a)" and "vb \<equiv> digits_value (digit_run b)"
  shows "at_digit a' \<Longrightarrow> vb < va"
    and "\<not> at_digit a' \<Longrightarrow> at_digit b' \<Longrightarrow> va < vb"
    and "\<not> at_digit a' \<Longrightarrow> \<not> at_digit b' \<Longrightarrow>
      a' = dropWhile is_digit_byte a \<and> b' = dropWhile is_digit_byte b \<and> sgn d = sgn (va - vb)"
proof -
  let ?a = "digit_run (skip_zeros a)" and ?b = "digit_run (skip_zeros b)"
  have v: "va = digits_value ?a" "vb = digits_value ?b"
    by (simp_all add: va_def vb_def skip_zeros_spec)
  note spec = digit_loop_spec [OF dl]
  have longer: "digits_value ys < digits_value xs"
    if "length ys < length xs" "xs = [] \<or> hd xs \<noteq> CHR ''0''"
      "\<forall>c \<in> set xs. is_digit_byte c" "\<forall>c \<in> set ys. is_digit_byte c" for xs ys
    using that by (cases xs) (auto intro!: digits_value_longer simp del: digits_value.simps)
  have la: "length ?b < length ?a \<Longrightarrow> digits_value ?b < digits_value ?a"
    and lb: "length ?a < length ?b \<Longrightarrow> digits_value ?a < digits_value ?b"
    using longer skip_zeros_spec(3) digit_run_digits by blast+
  show "vb < va" if "at_digit a'"
    using that spec la unfolding v by (auto split: if_splits)
  show "va < vb" if "\<not> at_digit a'" "at_digit b'"
    using that spec lb unfolding v by (auto split: if_splits)
  show "a' = dropWhile is_digit_byte a \<and> b' = dropWhile is_digit_byte b \<and> sgn d = sgn (va - vb)"
    if "\<not> at_digit a'" "\<not> at_digit b'"
    using that spec unfolding v by (auto simp: skip_zeros_spec split: if_splits)
qed

subsection \<open>The refinement\<close>

definition key_step :: "string \<Rightarrow> int list" where
  "key_step s = map verOrder (nondigits s) @ 0 # digits_value (digit_run (after_nondigits s)) #
     version_key (dropWhile is_digit_byte (after_nondigits s))"

lemma padded_cmp_key_step:
  "padded_cmp (version_key a) ys = padded_cmp (key_step a) ys"
  "padded_cmp xs (version_key b) = padded_cmp xs (key_step b)"
proof -
  have zeros: "padded_cmp [] zs = padded_cmp [0, 0] zs" for zs
    by (cases zs; cases "tl zs") auto
  have left: "padded_cmp (version_key a) ys = padded_cmp (key_step a) ys" for a ys
  proof (cases "a = []")
    case True
    then show ?thesis
      by (simp add: key_step_def version_key.simps [of "[]"] zeros [of ys])
  next
    case False
    then show ?thesis by (subst version_key.simps) (simp add: key_step_def)
  qed
  show "padded_cmp (version_key a) ys = padded_cmp (key_step a) ys" by (rule left)
  show "padded_cmp xs (version_key b) = padded_cmp xs (key_step b)"
    by (subst (1 2) padded_cmp_antisym) (simp add: left)
qed

lemma nul_free_after: "nul_free s \<Longrightarrow> nul_free (dropWhile is_digit_byte (after_nondigits s))"
  by (rule nul_free_subset) (auto simp: after_nondigits_def dest: set_dropWhileD)

lemma verrevcmp_key:
  "nul_free a \<Longrightarrow> nul_free b \<Longrightarrow>
     sgn (verrevcmp a b) = padded_cmp (version_key a) (version_key b)"
proof (induction a b rule: verrevcmp.induct)
  case (1 a b)
  show ?case
  proof (cases "a = [] \<and> b = []")
    case True
    then show ?thesis by (simp add: verrevcmp.simps version_key.simps)
  next
    case False
    note nd = nondigit_loop_spec [OF "1.prems",
        of "digits_value (digit_run (after_nondigits a)) # version_key (dropWhile is_digit_byte (after_nondigits a))"
        "digits_value (digit_run (after_nondigits b)) # version_key (dropWhile is_digit_byte (after_nondigits b))",
        folded key_step_def]
    show ?thesis
    proof (cases "nondigit_loop a b")
      case (Inl d)
      with nd False show ?thesis by (simp add: verrevcmp.simps [of a b] padded_cmp_key_step)
    next
      case (Inr p)
      obtain a1 b1 where p: "p = (a1, b1)" by (cases p)
      obtain d a2 b2 where dl: "digit_loop 0 (skip_zeros a1) (skip_zeros b1) = (d, a2, b2)"
        by (metis prod_cases3)
      note run = run_comparison [OF dl]
      have a1: "a1 = after_nondigits a" "b1 = after_nondigits b" using nd Inr p by auto
      have step: "verrevcmp a b = (if at_digit a2 then 1 else if at_digit b2 then -1
          else if d \<noteq> 0 then d else verrevcmp a2 b2)"
        using False Inr p dl by (simp add: verrevcmp.simps [of a b])
      have cmp: "padded_cmp (key_step a) (key_step b) =
          padded_cmp (digits_value (digit_run a1) # version_key (dropWhile is_digit_byte a1))
            (digits_value (digit_run b1) # version_key (dropWhile is_digit_byte b1))"
        using nd Inr p a1 by simp
      show ?thesis
      proof (cases "at_digit a2 \<or> at_digit b2 \<or> d \<noteq> 0")
        case True
        then consider "at_digit a2" | "\<not> at_digit a2" "at_digit b2"
          | "\<not> at_digit a2" "\<not> at_digit b2" "d \<noteq> 0" by blast
        then show ?thesis
          by cases (use run in \<open>auto simp: step padded_cmp_key_step cmp sgn_if split: if_splits\<close>)
      next
        case nodigit: False
        then have rest: "a2 = dropWhile is_digit_byte a1" "b2 = dropWhile is_digit_byte b1"
          and eq: "digits_value (digit_run a1) = digits_value (digit_run b1)"
          using run(3) by (auto simp: sgn_if split: if_splits)
        have "sgn (verrevcmp a2 b2) = padded_cmp (version_key a2) (version_key b2)"
          using "1.IH" [OF _ Inr p [symmetric] dl [symmetric] refl] False nodigit "1.prems"
          by (auto simp: rest a1 nul_free_after)
        with nodigit show ?thesis
          by (simp add: step padded_cmp_key_step cmp eq rest)
      qed
    qed
  qed
qed

section \<open>Laws of the comparison\<close>

lemma verrevcmp_le_0:
  assumes "nul_free a" "nul_free b"
  shows "verrevcmp a b \<le> 0 \<longleftrightarrow> padded_cmp (version_key a) (version_key b) \<le> 0"
  using verrevcmp_key [OF assms] by (auto simp: sgn_if split: if_splits)

interpretation vr: three_way_order nul_free verrevcmp
proof unfold_locales
  fix x y z :: string
  assume x: "nul_free x" and y: "nul_free y"
  show "sgn (verrevcmp y x) = - sgn (verrevcmp x y)"
    by (simp add: verrevcmp_key x y) (rule padded_cmp_antisym)
  assume z: "nul_free z" and "verrevcmp x y \<le> 0" "verrevcmp y z \<le> 0"
  then show "verrevcmp x z \<le> 0"
    using padded_cmp_trans by (auto simp: verrevcmp_le_0 x y)
qed

text \<open>The fallback compares three components, one after the other.\<close>

definition version_parts :: "string \<Rightarrow> string \<times> string \<times> string" where
  "version_parts v = (let (e, r) = splitEpoch v; (u, d) = splitRevision r in (e, u, d))"

lemma sgn_go_sign [simp]: "sgn (go_sign n) = sgn n" "go_sign n \<le> 0 \<longleftrightarrow> n \<le> 0" "go_sign n = 0 \<longleftrightarrow> n = 0"
  by (auto simp: go_sign_def)

lemma fallback_parts:
  assumes "version_parts a = (ea, ua, ra)" "version_parts b = (eb, ub, rb)"
  shows "compareVersionsFallback a b = go_sign (
    if verrevcmp ea eb \<noteq> 0 then verrevcmp ea eb
    else if verrevcmp ua ub \<noteq> 0 then verrevcmp ua ub
    else verrevcmp ra rb)"
  using assms by (auto simp: compareVersionsFallback_def version_parts_def Let_def split: prod.splits)

lemma version_parts_nul_free:
  "nul_free v \<Longrightarrow> version_parts v = (e, u, r) \<Longrightarrow> nul_free e \<and> nul_free u \<and> nul_free r"
  by (auto simp: version_parts_def splitEpoch_def splitRevision_def nul_free_def
      dest: in_set_takeD in_set_dropD split: option.splits)

interpretation fallback: three_way_order nul_free compareVersionsFallback
proof unfold_locales
  fix x y z :: string
  assume x: "nul_free x" and y: "nul_free y"
  obtain ex ux rx ey uy ry ez uz rz where parts: "version_parts x = (ex, ux, rx)"
    "version_parts y = (ey, uy, ry)" "version_parts z = (ez, uz, rz)"
    by (metis prod_cases3)
  note ok = version_parts_nul_free [OF x parts(1)] version_parts_nul_free [OF y parts(2)]
  show "sgn (compareVersionsFallback y x) = - sgn (compareVersionsFallback x y)"
    unfolding fallback_parts [OF parts(1,2)] fallback_parts [OF parts(2,1)] sgn_go_sign
    using ok by (intro vr.then_antisym vr.cmp_antisym) auto
  assume z: "nul_free z"
    and le: "compareVersionsFallback x y \<le> 0" "compareVersionsFallback y z \<le> 0"
  note okz = version_parts_nul_free [OF z parts(3)]
  note le' = le [unfolded fallback_parts [OF parts(1,2)] fallback_parts [OF parts(2,3)] sgn_go_sign]
  show "compareVersionsFallback x z \<le> 0"
    unfolding fallback_parts [OF parts(1,3)] sgn_go_sign
  proof (rule vr.then_trans [OF _ _ _ le'])
    assume "(if verrevcmp ux uy \<noteq> 0 then verrevcmp ux uy else verrevcmp rx ry) \<le> 0"
      "(if verrevcmp uy uz \<noteq> 0 then verrevcmp uy uz else verrevcmp ry rz) \<le> 0"
    then show "(if verrevcmp ux uz \<noteq> 0 then verrevcmp ux uz else verrevcmp rx rz) \<le> 0"
    proof (rule vr.then_trans [rotated 3])
      show "verrevcmp rx rz \<le> 0" if "verrevcmp rx ry \<le> 0" "verrevcmp ry rz \<le> 0"
        using that ok okz by (blast intro: vr.cmp_trans)
    qed (use ok okz in auto)
  qed (use ok okz in auto)
qed

lemma padded_cmp_prefix: "padded_cmp (xs @ ys) (xs @ zs) = padded_cmp ys zs"
  by (induction xs) auto

lemma is_digit_tilde: "\<not> is_digit_byte (CHR ''~'')" "verOrder (CHR ''~'') = -1"
  by (simp_all add: is_digit_byte_def verOrder_def)

lemma tilde_key: "padded_cmp (version_key (s @ CHR ''~'' # t)) (version_key s) < 0"
proof (induction s rule: version_key.induct)
  case (1 s)
  let ?u = "CHR ''~'' # t"
  show ?case
  proof (cases "\<exists>c \<in> set s. is_digit_byte c")
    case False
    then have nd: "nondigits (s @ ?u) = s @ nondigits ?u" "nondigits s = s"
      by (auto simp: nondigits_def takeWhile_append)
    have "key_step (s @ ?u) = map verOrder s @ (-1) # tl (key_step ?u)"
      using False by (simp add: key_step_def nd is_digit_tilde after_nondigits_def dropWhile_append)
    moreover obtain K where "key_step s = map verOrder s @ 0 # K"
      by (simp add: key_step_def nd)
    ultimately show ?thesis
      by (simp add: padded_cmp_key_step padded_cmp_prefix)
  next
    case True
    then have "s \<noteq> []" by auto
    have nd: "nondigits (s @ ?u) = nondigits s" "after_nondigits (s @ ?u) = after_nondigits s @ ?u"
      using True by (auto simp: nondigits_def after_nondigits_def takeWhile_append dropWhile_append)
    let ?r = "after_nondigits s"
    have run: "digit_run (?r @ ?u) = digit_run ?r"
      "dropWhile is_digit_byte (?r @ ?u) = dropWhile is_digit_byte ?r @ ?u"
      by (auto simp: takeWhile_append dropWhile_append is_digit_tilde
          intro: takeWhile_eq_all_conv [THEN iffD2, symmetric])
    show ?thesis
      using "1.IH" [OF \<open>s \<noteq> []\<close>]
      by (simp add: padded_cmp_key_step key_step_def nd run padded_cmp_prefix)
  qed
qed

section \<open>Properties\<close>

text \<open>C5. On strings without NUL bytes the sign of \<^verbatim>\<open>verrevcmp\<close> is the comparison of Debian Policy:
  runs of non-digits by their order values (a missing byte is 0, a tilde is below it), runs of
  digits by their numeric value, alternately.\<close>

theorem verrevcmp_is_policy_order:
  assumes "nul_free a" "nul_free b"
  shows "sgn (verrevcmp a b) = padded_cmp (version_key a) (version_key b)"
  using assms by (rule verrevcmp_key)

theorem verrevcmp_is_policy_order_witness:
  "nul_free ''1.0~rc1'' \<and> nul_free ''1.0'' \<and>
     sgn (verrevcmp ''1.0~rc1'' ''1.0'') = padded_cmp (version_key ''1.0~rc1'') (version_key ''1.0'')"
proof -
  have "nul_free ''1.0~rc1''" "nul_free ''1.0''" by (simp_all add: nul_free_def)
  then show ?thesis using verrevcmp_is_policy_order [of "''1.0~rc1''" "''1.0''"] by blast
qed

text \<open>\<^verbatim>\<open>compareVersionsFallback\<close> is a total preorder on strings without NUL bytes: reflexive,
  antisymmetric in its sign and transitive.\<close>

theorem compareVersionsFallback_total_preorder:
  assumes "nul_free x" "nul_free y" "nul_free z"
  shows "compareVersionsFallback x x = 0 \<and>
    compareVersionsFallback y x = - compareVersionsFallback x y \<and>
    (compareVersionsFallback x y \<le> 0 \<longrightarrow> compareVersionsFallback y z \<le> 0 \<longrightarrow>
      compareVersionsFallback x z \<le> 0)"
proof -
  have sign: "sgn (compareVersionsFallback u v) = compareVersionsFallback u v" for u v
    by (auto simp: compareVersionsFallback_def go_sign_def Let_def split: prod.splits)
  have "compareVersionsFallback y x = - compareVersionsFallback x y"
    using fallback.cmp_antisym [OF assms(1,2)] by (simp only: sign)
  with fallback.cmp_refl fallback.cmp_trans assms show ?thesis by blast
qed

theorem compareVersionsFallback_total_preorder_witness:
  "compareVersionsFallback ''1:1.0'' ''2.0'' = - compareVersionsFallback ''2.0'' ''1:1.0'' \<and>
   compareVersionsFallback ''2.0'' ''2.0-1'' \<le> 0 \<and> compareVersionsFallback ''2.0-1'' ''1:1.0'' \<le> 0 \<and>
   compareVersionsFallback ''2.0'' ''1:1.0'' \<le> 0"
proof -
  have nf: "nul_free ''2.0''" "nul_free ''2.0-1''" "nul_free ''1:1.0''" by (simp_all add: nul_free_def)
  have le: "compareVersionsFallback ''2.0'' ''2.0-1'' \<le> 0"
    "compareVersionsFallback ''2.0-1'' ''1:1.0'' \<le> 0" by code_simp+
  show ?thesis
    using compareVersionsFallback_total_preorder [OF nf] le
      compareVersionsFallback_total_preorder [OF nf(1) nf(3) nf(3)] by blast
qed

text \<open>A tilde sorts before everything, the end of the string included: a version that
  continues another with a tilde is older than it.\<close>

theorem tilde_sorts_before_end:
  assumes "nul_free s" "nul_free t"
  shows "verrevcmp (s @ CHR ''~'' # t) s < 0"
proof -
  have "sgn (verrevcmp (s @ CHR ''~'' # t) s) < 0"
    using verrevcmp_key [of "s @ CHR ''~'' # t" s] tilde_key [of s t] assms by simp
  then show ?thesis by (simp add: sgn_if split: if_splits)
qed

theorem tilde_sorts_before_end_witness: "verrevcmp ''1.6~exp1'' ''1.6'' < 0"
  using tilde_sorts_before_end [of "''1.6''" "''exp1''"] by (simp add: nul_free_def)

text \<open>\<^verbatim>\<open>CompareVersions\<close> returns a sign and is antisymmetric whenever the third-party comparison
  is: on strings without NUL bytes, swapping the arguments negates the result, whichever of the
  two implementations answers.\<close>

theorem CompareVersions_antisymmetric:
  assumes "\<And>v w. sgn (dv_Compare w v) = - sgn (dv_Compare v w)"
    and "nul_free a" "nul_free b"
  shows "CompareVersions dv_Parse dv_Compare b a = - CompareVersions dv_Parse dv_Compare a b \<and>
    CompareVersions dv_Parse dv_Compare a b \<in> {-1, 0, 1}"
proof -
  have sign: "sgn (compareVersionsFallback u v) = compareVersionsFallback u v" for u v
    by (auto simp: compareVersionsFallback_def go_sign_def Let_def split: prod.splits)
  have fb: "compareVersionsFallback b a = - compareVersionsFallback a b"
    using fallback.cmp_antisym [OF assms(2,3)] by (simp only: sign)
  have range: "compareVersionsFallback a b \<in> {-1, 0, 1}"
    using sign [of a b] by (auto simp: sgn_if split: if_splits)
  have gs: "go_sign n = sgn n" for n by (simp add: go_sign_def sgn_if)
  show ?thesis
  proof (cases "dv_Parse a = None \<or> dv_Parse b = None")
    case True
    then show ?thesis using fb range by (auto simp: CompareVersions_def split: option.splits)
  next
    case False
    then obtain av bv where "dv_Parse a = Some av" "dv_Parse b = Some bv" by auto
    then show ?thesis
      using assms(1) [of bv av] by (simp add: CompareVersions_def gs) (simp add: sgn_if)
  qed
qed

theorem CompareVersions_antisymmetric_witness:
  "CompareVersions (\<lambda>s. if s = ''1'' then Some (1::int) else None) (-) ''2'' ''1'' =
     - CompareVersions (\<lambda>s. if s = ''1'' then Some (1::int) else None) (-) ''1'' ''2''"
  using CompareVersions_antisymmetric
    [of "(-) :: int \<Rightarrow> int \<Rightarrow> int" "''1''" "''2''" "\<lambda>s. if s = ''1'' then Some (1::int) else None"]
  by (simp add: nul_free_def sgn_if)

text \<open>
  The hypothesis on NUL bytes is needed: \<^verbatim>\<open>verOrder\<close> gives a NUL byte the order value of a digit,
  and the loop over non-digits then skips a digit of the other string.
\<close>

lemma nul_breaks_transitivity:
  "verrevcmp ''10'' [CHR 0x00, CHR ''0''] = 0 \<and> verrevcmp [CHR 0x00, CHR ''0''] ''9'' = 0 \<and>
   verrevcmp ''10'' ''9'' \<noteq> 0"
  by code_simp

end
