(* ===== verification/Dferr.thy ===== *)
theory Dferr
  imports Go_Prelude
begin

text \<open>
  The error taxonomy, \<^verbatim>\<open>src/core/dferr/dferr.go\<close>: the eight classes, their exit codes and names, and the
  walk over an error chain that finds its class. A Go \<^verbatim>\<open>error\<close> is \<^verbatim>\<open>nil\<close> (\<^const>\<open>None\<close>) or a chain:
  an error of this package with its optional cause, an error that wraps another with \<^verbatim>\<open>%w\<close>, or a
  plain one.
\<close>

datatype err_class =
  Success | Usage | Environment | Incomplete | Verification | Resolution | Policy | TargetMismatch

fun class_code :: "err_class \<Rightarrow> int" where
  "class_code Success = 0"
| "class_code Usage = 1"
| "class_code Environment = 2"
| "class_code Incomplete = 3"
| "class_code Verification = 4"
| "class_code Resolution = 5"
| "class_code Policy = 6"
| "class_code TargetMismatch = 7"

fun class_String :: "err_class \<Rightarrow> string" where
  "class_String Success = ''success''"
| "class_String Usage = ''usage''"
| "class_String Environment = ''environment''"
| "class_String Incomplete = ''incomplete''"
| "class_String Verification = ''verification''"
| "class_String Resolution = ''resolution''"
| "class_String Policy = ''policy''"
| "class_String TargetMismatch = ''target-mismatch''"

definition Classes :: "err_class list" where
  "Classes = [Success, Usage, Environment, Incomplete, Verification, Resolution, Policy, TargetMismatch]"

datatype go_error =
    DfError (de_class: err_class) (de_msg: string) (de_hint: string) (de_err: "go_error option")
  | WrapError string go_error
  | PlainError string

fun error_Error :: "go_error \<Rightarrow> string" where
  "error_Error (DfError c msg hint cause) =
     (case cause of
        Some e \<Rightarrow> if msg \<noteq> '''' then msg @ '': '' @ error_Error e else error_Error e
      | None \<Rightarrow> if msg \<noteq> '''' then msg else class_String c)"
| "error_Error (WrapError msg e) = msg @ error_Error e"
| "error_Error (PlainError msg) = msg"

definition New :: "err_class \<Rightarrow> string \<Rightarrow> go_error" where
  "New c msg = DfError c msg '''' None"

definition Wrap :: "err_class \<Rightarrow> go_error option \<Rightarrow> string \<Rightarrow> go_error option" where
  "Wrap c err msg = map_option (\<lambda>e. DfError c msg '''' (Some e)) err"

text \<open>\<^verbatim>\<open>errors.As\<close> with a target of type \<^verbatim>\<open>*Error\<close>: the outermost one of the chain.\<close>

fun as_dferr :: "go_error \<Rightarrow> (err_class \<times> string) option" where
  "as_dferr (DfError c msg hint cause) = Some (c, hint)"
| "as_dferr (WrapError msg e) = as_dferr e"
| "as_dferr (PlainError msg) = None"

definition WithHint :: "go_error \<Rightarrow> string \<Rightarrow> go_error" where
  "WithHint e hint =
     (case e of DfError c msg _ cause \<Rightarrow> DfError c msg hint cause | _ \<Rightarrow> e)"

definition ClassOf :: "go_error option \<Rightarrow> err_class" where
  "ClassOf err =
     (case err of
        None \<Rightarrow> Success
      | Some e \<Rightarrow> (case as_dferr e of Some (c, _) \<Rightarrow> c | None \<Rightarrow> Usage))"

definition ExitCode :: "go_error option \<Rightarrow> int" where
  "ExitCode err = class_code (ClassOf err)"

definition HintOf :: "go_error option \<Rightarrow> string" where
  "HintOf err =
     (case err of
        None \<Rightarrow> ''''
      | Some e \<Rightarrow> (case as_dferr e of Some (_, hint) \<Rightarrow> hint | None \<Rightarrow> ''''))"

definition Is :: "go_error option \<Rightarrow> err_class \<Rightarrow> bool" where
  "Is err c \<longleftrightarrow> err \<noteq> None \<and> ClassOf err = c"

lemma class_code_inj: "class_code c = class_code d \<Longrightarrow> c = d"
  by (cases c; cases d; simp)

lemma Classes_complete: "set Classes = UNIV"
proof -
  have "c \<in> set Classes" for c by (cases c) (simp_all add: Classes_def)
  then show ?thesis by auto
qed

section \<open>Properties\<close>

text \<open>The class of an error is that of its outermost classified layer: wrapping a non-nil error
  gives the wrapper's class and exit code whatever the cause carried, wrapping nil stays nil and
  exits 0, and an unclassified wrapper keeps the class underneath.\<close>

theorem outermost_class_wins:
  "Wrap c None msg = None \<and> ExitCode None = 0 \<and>
   ClassOf (Wrap c (Some e) msg) = c \<and> ExitCode (Wrap c (Some e) msg) = class_code c \<and>
   ClassOf (Some (WrapError msg e)) = ClassOf (Some e) \<and>
   ClassOf (Some (WithHint e hint)) = ClassOf (Some e) \<and>
   ClassOf (Some (PlainError msg)) = Usage"
  by (cases e) (auto simp: Wrap_def ExitCode_def ClassOf_def WithHint_def)

text \<open>Exit codes identify classes: the class list is complete and in exit-code order 0 to 7, no
  two classes share a code or a name, and only a nil error or one classified as success exits 0.\<close>

theorem exit_codes_identify_classes:
  "set Classes = UNIV \<and> map class_code Classes = [0, 1, 2, 3, 4, 5, 6, 7] \<and>
   inj class_code \<and> inj class_String \<and>
   (ExitCode err = 0) = (err = None \<or> Is err Success)"
proof -
  have "c = d" if "class_String c = class_String d" for c d
    using that by (cases c; cases d; simp)
  moreover have "class_code c = 0 \<longleftrightarrow> c = Success" for c by (cases c) auto
  ultimately show ?thesis
    using Classes_complete class_code_inj
    by (auto simp: inj_def Classes_def ExitCode_def Is_def) (auto simp: ClassOf_def)
qed

end
