(* ===== verification/Go_Sort.thy ===== *)
theory Go_Sort
  imports Go_Prelude
begin

text \<open>
  Go's \<^verbatim>\<open>sort.SliceStable\<close> with the caller's \<^verbatim>\<open>less\<close> function, and the contract the artefact writers
  rely on: when \<^verbatim>\<open>less\<close> compares a key, the result is the stable sort by that key, and when the key
  identifies the element the order of the input is immaterial. The locale \<open>keyed_less\<close> is
  interpreted on the \<^verbatim>\<open>less\<close> function of every component that sorts what it writes.
\<close>

fun insert_less :: "('a \<Rightarrow> 'a \<Rightarrow> bool) \<Rightarrow> 'a \<Rightarrow> 'a list \<Rightarrow> 'a list" where
  "insert_less lt x [] = [x]"
| "insert_less lt x (y # ys) = (if lt y x then y # insert_less lt x ys else x # y # ys)"

definition slice_stable :: "('a \<Rightarrow> 'a \<Rightarrow> bool) \<Rightarrow> 'a list \<Rightarrow> 'a list" where
  "slice_stable lt xs = foldr (insert_less lt) xs []"

text \<open>Two lists with the same elements that are sorted by an identifying key are equal.\<close>

lemma sorted_by_key_unique:
  fixes key :: "'a \<Rightarrow> 'k::linorder"
  assumes "sorted (map key xs)" "sorted (map key ys)" "mset xs = mset ys" "inj_on key (set xs)"
  shows "xs = ys"
proof -
  have "mset (map key ys) = mset (map key xs)" using assms(3) by simp
  then have "sort (map key xs) = map key ys" using assms(2) by (rule properties_for_sort)
  with assms(1) have "map key xs = map key ys" by (simp add: sorted_sort_id)
  moreover have "inj_on key (set xs \<union> set ys)"
    using assms(4) mset_eq_setD [OF assms(3)] by simp
  ultimately show ?thesis by (rule map_inj_on)
qed

locale keyed_less =
  fixes lt :: "'a \<Rightarrow> 'a \<Rightarrow> bool" and key :: "'a \<Rightarrow> 'k::linorder"
  assumes less_iff_key: "lt a b \<longleftrightarrow> key a < key b"
begin

lemma insert_less_key: "insert_less lt x ys = insort_key key x ys"
  by (induction ys) (auto simp: less_iff_key not_less)

lemma slice_stable_sort_key: "slice_stable lt xs = sort_key key xs"
  by (simp add: slice_stable_def sort_key_def insert_less_key cong: foldr_cong)

lemma slice_stable_mset: "mset (slice_stable lt xs) = mset xs"
  by (simp add: slice_stable_sort_key)

lemma slice_stable_set: "set (slice_stable lt xs) = set xs"
  by (simp add: slice_stable_sort_key)

lemma slice_stable_sorted: "sorted (map key (slice_stable lt xs))"
  by (simp add: slice_stable_sort_key)

lemma slice_stable_stable:
  "filter (\<lambda>x. key x = k) (slice_stable lt xs) = filter (\<lambda>x. key x = k) xs"
  by (simp add: slice_stable_sort_key sort_key_stable)

lemma slice_stable_idem: "slice_stable lt (slice_stable lt xs) = slice_stable lt xs"
  by (simp add: slice_stable_sort_key sort_key_id_if_sorted)

lemma slice_stable_deterministic:
  assumes "mset xs = mset ys" "inj_on key (set xs)"
  shows "slice_stable lt xs = slice_stable lt ys"
  by (rule sorted_by_key_unique [where key = key])
    (simp_all add: slice_stable_sorted slice_stable_mset slice_stable_set assms)

end

text \<open>\<^verbatim>\<open>sort.Strings\<close>: the comparison of the strings themselves.\<close>

interpretation strings: keyed_less "(<) :: string \<Rightarrow> string \<Rightarrow> bool" "\<lambda>s. s"
  by unfold_locales simp

lemma sort_strings_deterministic: "mset xs = mset ys \<Longrightarrow> sort xs = sort (ys :: string list)"
  by (metis properties_for_sort sorted_sort mset_sort)

end
