(* ===== verification/Lock_Types.thy ===== *)
theory Lock_Types
  imports Go_Prelude
begin

text \<open>
  The lock document, \<^verbatim>\<open>src/core/lock/types.go\<close>: one record per struct, in the order of its fields. The
  string types \<^verbatim>\<open>Backend\<close> and \<^verbatim>\<open>PublisherVerification\<close> are strings, as in the source.
\<close>

definition lock_SchemaVersion :: string where
  "lock_SchemaVersion = ''debark.lock/v1''"

definition lock_FileName :: string where
  "lock_FileName = ''lock.json''"

record lock_target =
  tg_DistroID :: string
  tg_VersionID :: string
  tg_Codename :: string
  tg_Arch :: string
  tg_ForeignArchs :: "string list"
  tg_APTVersion :: string
  tg_DpkgVersion :: string

definition BackendLocal :: string where "BackendLocal = ''local''"
definition BackendContainer :: string where "BackendContainer = ''container''"
definition BackendAuto :: string where "BackendAuto = ''auto''"

record resolver =
  rs_Backend :: string
  rs_Image :: string
  rs_ImageDigest :: string
  rs_APTVersion :: string
  rs_DpkgVersion :: string
  rs_APTOptions :: "string list"
  rs_PhasedUpdates :: string
  rs_InstallRecommends :: bool
  rs_SolverDivergence :: string

definition ReasonRequested :: string where "ReasonRequested = ''requested''"
definition ReasonUpgrade :: string where "ReasonUpgrade = ''upgrade''"
definition ReasonExternal :: string where "ReasonExternal = ''external''"
definition ReasonDependencyOfPrefix :: string where "ReasonDependencyOfPrefix = ''dependency-of:''"

definition VerifiedAPTSigned :: string where "VerifiedAPTSigned = ''apt-signed''"
definition VerifiedURLUnverified :: string where "VerifiedURLUnverified = ''url-unverified''"
definition VerifiedUserDigest :: string where "VerifiedUserDigest = ''user-digest''"
definition VerifiedUserSignature :: string where "VerifiedUserSignature = ''user-signature''"

definition FlagMultiverse :: string where "FlagMultiverse = ''multiverse''"
definition FlagRestricted :: string where "FlagRestricted = ''restricted''"
definition FlagNonFree :: string where "FlagNonFree = ''non-free''"
definition FlagNonFreeFirmware :: string where "FlagNonFreeFirmware = ''non-free-firmware''"
definition FlagNetworkPostinst :: string where "FlagNetworkPostinst = ''network-postinst''"
definition FlagSnapShim :: string where "FlagSnapShim = ''snap-shim''"
definition FlagDKMS :: string where "FlagDKMS = ''dkms''"
definition FlagUserSupplied :: string where "FlagUserSupplied = ''user-supplied''"

lemmas lock_enum_defs = BackendLocal_def BackendContainer_def BackendAuto_def ReasonRequested_def
  ReasonUpgrade_def ReasonExternal_def ReasonDependencyOfPrefix_def VerifiedAPTSigned_def
  VerifiedURLUnverified_def VerifiedUserDigest_def VerifiedUserSignature_def

lemmas lock_flag_defs = FlagMultiverse_def FlagRestricted_def FlagNonFree_def FlagNonFreeFirmware_def
  FlagNetworkPostinst_def FlagSnapShim_def FlagDKMS_def FlagUserSupplied_def

record origin =
  og_URI :: string
  og_LocalPath :: string
  og_Suite :: string
  og_Component :: string
  og_ReleaseDigest :: string
  og_KeyFingerprint :: string

record lock_package =
  pkg_Name :: string
  pkg_Arch :: string
  pkg_Version :: string
  pkg_SourcePackage :: string
  pkg_Filename :: path
  pkg_Size :: int
  pkg_SHA256 :: string
  pkg_Origin :: origin
  pkg_Reason :: string
  pkg_PublisherVerification :: string
  pkg_Flags :: "string list"
  pkg_Essential :: bool

record closed_world =
  cw_Result :: string
  cw_CommandDigest :: string
  cw_OutputDigest :: string
  cw_Detail :: string

definition ClosedWorldOK :: string where "ClosedWorldOK = ''ok''"
definition ClosedWorldFailed :: string where "ClosedWorldFailed = ''failed''"
definition ClosedWorldSkipped :: string where "ClosedWorldSkipped = ''skipped''"

record lock_warning =
  lw_Code :: string
  lw_Message :: string
  lw_Packages :: "string list"

record unresolved =
  un_Input :: string
  un_Kind :: string
  un_Detail :: string
  un_Missing :: "string list"

record lock_stats =
  st_Added :: int
  st_Removed :: int
  st_Unchanged :: int
  st_Bytes :: int
  st_DownloadedBytes :: int

record lock_doc =
  lk_SchemaVersion :: string
  lk_CreatedAt :: string
  lk_SnapshotDigest :: string
  lk_RequestDigest :: string
  lk_Target :: lock_target
  lk_Resolver :: resolver
  lk_Packages :: "lock_package list"
  lk_Install :: "string list"
  lk_ClosedWorld :: closed_world
  lk_Warnings :: "lock_warning list"
  lk_Unresolved :: "unresolved list"
  lk_Stats :: lock_stats

text \<open>The identity of a package, and the install entry that names it.\<close>

definition pkg_ident :: "lock_package \<Rightarrow> string \<times> string" where
  "pkg_ident p = (pkg_Name p, pkg_Arch p)"

definition pkg_key :: "lock_package \<Rightarrow> string \<times> string \<times> string" where
  "pkg_key p = (pkg_Name p, pkg_Arch p, pkg_Version p)"

definition install_entry :: "string \<Rightarrow> string \<Rightarrow> string \<Rightarrow> string" where
  "install_entry name arch version = name @ CHR '':'' # arch @ CHR ''='' # version"

definition pkg_entry :: "lock_package \<Rightarrow> string" where
  "pkg_entry p = install_entry (pkg_Name p) (pkg_Arch p) (pkg_Version p)"

text \<open>The zero values, as Go's composite literals leave the fields they do not name.\<close>

definition zero_origin :: origin where
  "zero_origin = \<lparr>og_URI = '''', og_LocalPath = '''', og_Suite = '''', og_Component = '''',
     og_ReleaseDigest = '''', og_KeyFingerprint = ''''\<rparr>"

definition zero_package :: lock_package where
  "zero_package = \<lparr>pkg_Name = '''', pkg_Arch = '''', pkg_Version = '''', pkg_SourcePackage = '''',
     pkg_Filename = '''', pkg_Size = 0, pkg_SHA256 = '''', pkg_Origin = zero_origin, pkg_Reason = '''',
     pkg_PublisherVerification = '''', pkg_Flags = [], pkg_Essential = False\<rparr>"

definition zero_target :: lock_target where
  "zero_target = \<lparr>tg_DistroID = '''', tg_VersionID = '''', tg_Codename = '''', tg_Arch = '''',
     tg_ForeignArchs = [], tg_APTVersion = '''', tg_DpkgVersion = ''''\<rparr>"

definition zero_resolver :: resolver where
  "zero_resolver = \<lparr>rs_Backend = '''', rs_Image = '''', rs_ImageDigest = '''', rs_APTVersion = '''',
     rs_DpkgVersion = '''', rs_APTOptions = [], rs_PhasedUpdates = '''', rs_InstallRecommends = False,
     rs_SolverDivergence = ''''\<rparr>"

definition zero_lock :: lock_doc where
  "zero_lock = \<lparr>lk_SchemaVersion = '''', lk_CreatedAt = '''', lk_SnapshotDigest = '''',
     lk_RequestDigest = '''', lk_Target = zero_target, lk_Resolver = zero_resolver,
     lk_Packages = [], lk_Install = [],
     lk_ClosedWorld = \<lparr>cw_Result = '''', cw_CommandDigest = '''', cw_OutputDigest = '''', cw_Detail = ''''\<rparr>,
     lk_Warnings = [], lk_Unresolved = [],
     lk_Stats = \<lparr>st_Added = 0, st_Removed = 0, st_Unchanged = 0, st_Bytes = 0, st_DownloadedBytes = 0\<rparr>\<rparr>"

end
