(* ===== verification/Resolve.thy ===== *)
theory Resolve
  imports Go_Sort Lock_Types
begin

text \<open>
  The plan a resolver backend produces (\<^verbatim>\<open>src/core/resolve/types.go\<close>) and the attribution of a
  reason to every selection (\<^verbatim>\<open>src/core/resolve/attribute.go\<close>). A \<^verbatim>\<open>map[string][]string\<close> is a map
  into lists, absent keys reading as \<^verbatim>\<open>nil\<close>; the queue of \<^verbatim>\<open>AttributeReasons\<close> is a list walked by
  index while it grows, as in the source.
\<close>

record selection =
  sel_Name :: string
  sel_Arch :: string
  sel_Version :: string
  sel_SourcePackage :: string
  sel_Section :: string
  sel_Filename :: string
  sel_Size :: int
  sel_SHA256 :: string
  sel_URI :: string
  sel_Origin :: origin
  sel_Reason :: string
  sel_PublisherVerification :: string
  sel_Essential :: bool
  sel_Flags :: "string list"
  sel_StagedPath :: string
  sel_UserSupplied :: bool

record plan =
  pl_Target :: lock_target
  pl_Resolver :: resolver
  pl_Selections :: "selection list"
  pl_Install :: "string list"
  pl_Warnings :: "lock_warning list"
  pl_Unresolved :: "unresolved list"

definition sel_Key :: "selection \<Rightarrow> string" where
  "sel_Key s = sel_Name s @ '':'' @ sel_Arch s"

definition NameVersion :: "selection \<Rightarrow> string" where
  "NameVersion s = sel_Name s @ ''='' @ sel_Version s"

definition DependencyOf :: "string \<Rightarrow> string" where
  "DependencyOf pkg = ReasonDependencyOfPrefix @ pkg"

definition IsDependency :: "string \<Rightarrow> string \<times> bool" where
  "IsDependency reason =
     (case cut_prefix reason ReasonDependencyOfPrefix of Some rest \<Rightarrow> (rest, True) | None \<Rightarrow> ('''', False))"

definition selection_less :: "selection \<Rightarrow> selection \<Rightarrow> bool" where
  "selection_less a b =
     (if sel_Name a \<noteq> sel_Name b then sel_Name a < sel_Name b
      else if sel_Arch a \<noteq> sel_Arch b then sel_Arch a < sel_Arch b
      else sel_Version a < sel_Version b)"

definition SortSelections :: "selection list \<Rightarrow> selection list" where
  "SortSelections s = slice_stable selection_less s"

section \<open>Attribution\<close>

text \<open>The local variables \<^verbatim>\<open>dist\<close>, \<^verbatim>\<open>via\<close> and \<^verbatim>\<open>queue\<close> of \<^verbatim>\<open>AttributeReasons\<close>.\<close>

record bfs =
  b_dist :: "string \<rightharpoonup> nat"
  b_via :: "string \<rightharpoonup> string"
  b_queue :: "string list"

definition visit :: "string list \<Rightarrow> string \<Rightarrow> nat \<Rightarrow> string \<Rightarrow> bfs \<Rightarrow> bfs" where
  "visit known n d v st =
     (if n \<notin> set known then st
      else if b_dist st n \<noteq> None then st
      else st\<lparr>b_dist := (b_dist st)(n \<mapsto> d), b_via := (b_via st)(n \<mapsto> v), b_queue := b_queue st @ [n]\<rparr>)"

definition seed_roots :: "string list \<Rightarrow> string list \<Rightarrow> bfs" where
  "seed_roots known sortedRoots =
     foldl (\<lambda>st r. visit known r 0 r st) \<lparr>b_dist = Map.empty, b_via = Map.empty, b_queue = []\<rparr> sortedRoots"

text \<open>The body of the queue loop: the sorted dependencies of the current name.\<close>

definition deps_of :: "(string \<rightharpoonup> string list) \<Rightarrow> string \<Rightarrow> string list" where
  "deps_of deps cur = (case deps cur of None \<Rightarrow> [] | Some ds \<Rightarrow> ds)"

definition expand :: "string list \<Rightarrow> (string \<rightharpoonup> string list) \<Rightarrow> string \<Rightarrow> bfs \<Rightarrow> bfs" where
  "expand known deps cur st =
     foldl (\<lambda>st n. visit known n (Suc (the (b_dist st cur))) (the (b_via st cur)) st) st
       (sort (deps_of deps cur))"

definition unseen :: "string list \<Rightarrow> bfs \<Rightarrow> nat" where
  "unseen known st = length (filter (\<lambda>n. b_dist st n = None) known)"

lemma unseen_visit: "length (b_queue (visit known n d v st)) + unseen known (visit known n d v st)
    \<le> length (b_queue st) + unseen known st"
proof (cases "n \<in> set known \<and> b_dist st n = None")
  case True
  let ?new = "\<lambda>m. ((b_dist st)(n \<mapsto> d)) m = None" and ?old = "\<lambda>m. b_dist st m = None"
  have eq: "filter ?new known = filter (\<lambda>m. m \<noteq> n) (filter ?old known)"
    by (auto intro: filter_cong)
  have "n \<in> set (filter ?old known)" using True by simp
  then have "length (filter ?new known) < length (filter ?old known)"
    unfolding eq by (rule length_filter_less) simp
  with True show ?thesis by (simp add: visit_def unseen_def)
qed (auto simp: visit_def)

lemma unseen_foldl_visit:
  "length (b_queue (foldl (\<lambda>st n. visit known n (f st) (g st) st) st ns)) +
     unseen known (foldl (\<lambda>st n. visit known n (f st) (g st) st) st ns)
     \<le> length (b_queue st) + unseen known st"
proof (induction ns arbitrary: st)
  case (Cons n ns)
  show ?case
    using Cons [of "visit known n (f st) (g st) st"] unseen_visit [of known n "f st" "g st" st] by simp
qed simp

lemma queue_foldl_visit:
  "length (b_queue st) \<le> length (b_queue (foldl (\<lambda>st n. visit known n (f st) (g st) st) st ns))"
proof (induction ns arbitrary: st)
  case (Cons n ns)
  show ?case using Cons [of "visit known n (f st) (g st) st"] by (auto simp: visit_def split: if_splits)
qed simp

function walk_queue :: "string list \<Rightarrow> (string \<rightharpoonup> string list) \<Rightarrow> bfs \<Rightarrow> nat \<Rightarrow> bfs" where
  "walk_queue known deps st i =
     (if i < length (b_queue st)
      then walk_queue known deps (expand known deps (b_queue st ! i) st) (Suc i)
      else st)"
  by pat_completeness auto

termination
proof (relation "measure (\<lambda>(known, deps, st, i). length (b_queue st) + unseen known st - i)")
  fix known deps and st :: bfs and i :: nat
  assume i: "i < length (b_queue st)"
  let ?st = "expand known deps (b_queue st ! i) st"
  have "length (b_queue ?st) + unseen known ?st \<le> length (b_queue st) + unseen known st"
    unfolding expand_def by (rule unseen_foldl_visit)
  with i show "((known, deps, ?st, Suc i), known, deps, st, i)
      \<in> measure (\<lambda>(known, deps, st, i). length (b_queue st) + unseen known st - i)" by auto
qed simp

declare walk_queue.simps [simp del]

definition known_names :: "selection list \<Rightarrow> string list" where
  "known_names selections = map sel_Name selections"

definition attribution :: "string list \<Rightarrow> selection list \<Rightarrow> (string \<rightharpoonup> string list) \<Rightarrow> bfs" where
  "attribution roots selections deps =
     walk_queue (known_names selections) deps (seed_roots (known_names selections) (sort roots)) 0"

definition fallback_root :: "string list \<Rightarrow> string list \<Rightarrow> string" where
  "fallback_root known sortedRoots =
     (let first = (case find (\<lambda>r. r \<in> set known) sortedRoots of Some r \<Rightarrow> r | None \<Rightarrow> '''')
      in if first = '''' \<and> sortedRoots \<noteq> [] then hd sortedRoots else first)"

definition attribute_one :: "(string \<rightharpoonup> string) \<Rightarrow> string \<Rightarrow> selection \<Rightarrow> selection" where
  "attribute_one via fallback s =
     (if sel_Reason s \<noteq> '''' then s
      else case via (sel_Name s) of
        Some origin \<Rightarrow>
          if origin \<noteq> sel_Name s then s\<lparr>sel_Reason := DependencyOf origin\<rparr> else s
      | None \<Rightarrow>
          if fallback \<noteq> '''' \<and> fallback \<noteq> sel_Name s then s\<lparr>sel_Reason := DependencyOf fallback\<rparr> else s)"

definition AttributeReasons ::
  "string list \<Rightarrow> selection list \<Rightarrow> (string \<rightharpoonup> string list) \<Rightarrow> selection list" where
  "AttributeReasons roots selections deps =
     map (attribute_one (b_via (attribution roots selections deps))
           (fallback_root (known_names selections) (sort roots))) selections"

section \<open>The search finds the nearest root\<close>

text \<open>
  \<open>hops known deps r k n\<close>: the selected package \<open>n\<close> is \<open>k\<close> dependency edges away from \<open>r\<close>, all of them
  between selected packages.
\<close>

inductive hops :: "string set \<Rightarrow> (string \<rightharpoonup> string list) \<Rightarrow> string \<Rightarrow> nat \<Rightarrow> string \<Rightarrow> bool"
  for known deps where
  hops_root: "r \<in> known \<Longrightarrow> hops known deps r 0 r"
| hops_edge: "hops known deps r k m \<Longrightarrow> n \<in> set (deps_of deps m) \<Longrightarrow> n \<in> known \<Longrightarrow>
    hops known deps r (Suc k) n"

inductive_cases hops_SucE: "hops known deps r (Suc k) n"
inductive_cases hops_0E: "hops known deps r 0 n"

text \<open>The label of a visited name: its distance, then its root. Labels are compared lexicographically.\<close>

definition label :: "bfs \<Rightarrow> string \<Rightarrow> nat \<times> string" where
  "label st n = (the (b_dist st n), the (b_via st n))"

definition bump :: "nat \<times> string \<Rightarrow> nat \<times> string" where
  "bump l = (Suc (fst l), snd l)"

lemma bump_mono: "a \<le> b \<Longrightarrow> bump a \<le> bump b"
  by (auto simp: bump_def less_eq_prod_def)

lemma le_bump: "a \<le> bump a"
  by (auto simp: bump_def less_eq_prod_def)

text \<open>What holds of the search state throughout.\<close>

definition bfs_wf :: "string list \<Rightarrow> (string \<rightharpoonup> string list) \<Rightarrow> string list \<Rightarrow> bfs \<Rightarrow> bool" where
  "bfs_wf known deps roots st \<longleftrightarrow>
     dom (b_dist st) = set (b_queue st) \<and> dom (b_via st) = set (b_queue st) \<and>
     set (b_queue st) \<subseteq> set known \<and> sorted (map (label st) (b_queue st)) \<and>
     (\<forall>n \<in> set (b_queue st). snd (label st n) \<in> set roots \<and>
        hops (set known) deps (snd (label st n)) (fst (label st n)) n)"

lemma visit_unseen:
  assumes "n \<in> set known" "n \<notin> dom (b_dist st)"
  shows "b_queue (visit known n d v st) = b_queue st @ [n]"
    and "label (visit known n d v st) m = (if m = n then (d, v) else label st m)"
    and "b_dist (visit known n d v st) = (b_dist st)(n \<mapsto> d)"
    and "b_via (visit known n d v st) = (b_via st)(n \<mapsto> v)"
  using assms by (auto simp: visit_def label_def)

lemma visit_seen: "n \<notin> set known \<or> n \<in> dom (b_dist st) \<Longrightarrow> visit known n d v st = st"
  by (auto simp: visit_def)

lemma visit_label: "m \<in> dom (b_dist st) \<Longrightarrow> label (visit known n d v st) m = label st m"
  by (auto simp: visit_def label_def)

lemma visit_wf:
  assumes "bfs_wf known deps roots st"
    and "\<forall>m \<in> set (b_queue st). label st m \<le> (d, v)"
    and "v \<in> set roots" "n \<in> set known \<Longrightarrow> hops (set known) deps v d n"
  shows "bfs_wf known deps roots (visit known n d v st)"
proof (cases "n \<in> set known \<and> n \<notin> dom (b_dist st)")
  case True
  then have n: "n \<in> set known" "n \<notin> dom (b_dist st)" by auto
  note v = visit_unseen [OF n, of d v]
  have dom: "dom (b_dist st) = set (b_queue st)" using assms(1) by (simp add: bfs_wf_def)
  then have eq: "map (label (visit known n d v st)) (b_queue st) = map (label st) (b_queue st)"
    using n(2) by (auto simp: v)
  then have "sorted (map (label (visit known n d v st)) (b_queue (visit known n d v st)))"
    unfolding v(1) map_append eq using assms(1,2) by (auto simp: v(2) sorted_append bfs_wf_def)
  then show ?thesis
    using assms n dom by (auto simp: bfs_wf_def v)
qed (use assms(1) visit_seen in auto)

text \<open>Seeding: the roots that are selected, in order, each its own root at distance 0.\<close>

lemma seed_inv:
  assumes "sorted (rs1 @ rs2)" "set (rs1 @ rs2) = set roots"
    and "bfs_wf known deps roots st" "set (b_queue st) = set rs1 \<inter> set known"
    and "\<forall>r \<in> set (b_queue st). label st r = (0, r)"
  shows "let st' = foldl (\<lambda>st r. visit known r 0 r st) st rs2 in
    bfs_wf known deps roots st' \<and> set (b_queue st') = set roots \<inter> set known \<and>
    (\<forall>r \<in> set (b_queue st'). label st' r = (0, r))"
  using assms
proof (induction rs2 arbitrary: rs1 st)
  case Nil
  then show ?case by simp
next
  case (Cons r rs2)
  let ?st = "visit known r 0 r st"
  have dom: "dom (b_dist st) = set (b_queue st)" using Cons.prems(3) by (simp add: bfs_wf_def)
  have "bfs_wf known deps roots ?st"
  proof (rule visit_wf [OF Cons.prems(3)])
    show "\<forall>m \<in> set (b_queue st). label st m \<le> (0, r)"
      using Cons.prems(1,4,5) by (auto simp: sorted_append)
  qed (use Cons.prems(2) in \<open>auto intro: hops_root\<close>)
  moreover have "set (b_queue ?st) = set (rs1 @ [r]) \<inter> set known"
    using Cons.prems(4) dom by (auto simp: visit_def)
  moreover have "\<forall>q \<in> set (b_queue ?st). label ?st q = (0, q)"
    using Cons.prems(5) by (auto simp: visit_def label_def)
  ultimately show ?case
    using Cons.IH [of "rs1 @ [r]" ?st] Cons.prems(1,2) by simp
qed

lemma seed_roots_wf:
  assumes "sorted rs" "set rs = set roots" "st = seed_roots known rs"
  shows "bfs_wf known deps roots st" "set (b_queue st) = set roots \<inter> set known"
    "\<forall>r \<in> set (b_queue st). label st r = (0, r)"
  using seed_inv [of "[]" rs roots known deps "\<lparr>b_dist = Map.empty, b_via = Map.empty, b_queue = []\<rparr>"] assms
  by (auto simp: seed_roots_def bfs_wf_def Let_def)

text \<open>
  The invariant of the queue loop at index \<open>i\<close>: the names before \<open>i\<close> are expanded, and no label in the
  queue exceeds that of the current name by more than one hop.
\<close>

definition walk_inv :: "string list \<Rightarrow> (string \<rightharpoonup> string list) \<Rightarrow> string list \<Rightarrow> bfs \<Rightarrow> nat \<Rightarrow> bool" where
  "walk_inv known deps roots st i \<longleftrightarrow>
     bfs_wf known deps roots st \<and> i \<le> length (b_queue st) \<and>
     (\<forall>r \<in> set roots \<inter> set known. r \<in> set (b_queue st) \<and> label st r = (0, r)) \<and>
     (\<forall>j < i. \<forall>n \<in> set (deps_of deps (b_queue st ! j)) \<inter> set known.
        n \<in> set (b_queue st) \<and> label st n \<le> bump (label st (b_queue st ! j))) \<and>
     (i < length (b_queue st) \<longrightarrow> (\<forall>n \<in> set (b_queue st). label st n \<le> bump (label st (b_queue st ! i))))"

text \<open>One more visited name keeps everything said about the names visited before.\<close>

definition extends :: "bfs \<Rightarrow> bfs \<Rightarrow> bool" where
  "extends st st' \<longleftrightarrow> (\<exists>q. b_queue st' = b_queue st @ q) \<and> (\<forall>m \<in> set (b_queue st). label st' m = label st m)"

lemma extends_refl: "extends st st"
  by (simp add: extends_def)

lemma extends_trans: "extends a b \<Longrightarrow> extends b c \<Longrightarrow> extends a c"
  by (auto simp: extends_def)

lemma extends_visit: "bfs_wf known deps roots st \<Longrightarrow> extends st (visit known n d v st)"
  by (auto simp: extends_def bfs_wf_def visit_def label_def)

lemma expand_loop:
  assumes "bfs_wf known deps roots st" "cur \<in> set (b_queue st)" "set ns \<subseteq> set (deps_of deps cur)"
    and "\<forall>m \<in> set (b_queue st). label st m \<le> bump (label st cur)"
  shows "let st' = foldl (\<lambda>st n. visit known n (Suc (the (b_dist st cur))) (the (b_via st cur)) st) st ns in
    bfs_wf known deps roots st' \<and> extends st st' \<and> set ns \<inter> set known \<subseteq> set (b_queue st') \<and>
    (\<forall>m \<in> set (b_queue st'). label st' m \<le> bump (label st cur))"
  using assms
proof (induction ns arbitrary: st)
  case Nil
  then show ?case by (simp add: extends_refl)
next
  case (Cons n ns)
  let ?d = "Suc (the (b_dist st cur))" and ?v = "the (b_via st cur)"
  let ?st = "visit known n ?d ?v st"
  have dv: "(?d, ?v) = bump (label st cur)" by (simp add: bump_def label_def)
  have cur: "?v \<in> set roots" "hops (set known) deps ?v (the (b_dist st cur)) cur"
    using Cons.prems(1,2) by (auto simp: bfs_wf_def label_def)
  have wf: "bfs_wf known deps roots ?st"
    using Cons.prems(3,4) cur
    by (intro visit_wf [OF Cons.prems(1)]) (auto simp: dv intro: hops_edge)
  have ext: "extends st ?st" by (rule extends_visit [OF Cons.prems(1)])
  then have sub: "cur \<in> set (b_queue ?st)" and lab: "label ?st cur = label st cur"
    using Cons.prems(2) by (auto simp: extends_def)
  have n: "n \<in> set known \<Longrightarrow> n \<in> set (b_queue ?st)"
    using Cons.prems(1) by (auto simp: bfs_wf_def visit_def)
  have "\<forall>m \<in> set (b_queue ?st). label ?st m \<le> bump (label st cur)"
    using Cons.prems(1,4) by (auto simp: bfs_wf_def visit_def label_def bump_def)
  with Cons.IH [of ?st] wf sub lab Cons.prems(3)
  show ?case using n ext by (auto simp: Let_def extends_def)
qed

lemma walk_inv_step:
  assumes inv: "walk_inv known deps roots st i" and i: "i < length (b_queue st)"
  shows "walk_inv known deps roots (expand known deps (b_queue st ! i) st) (Suc i)"
proof -
  let ?cur = "b_queue st ! i" and ?st = "expand known deps (b_queue st ! i) st"
  have le: "\<forall>m \<in> set (b_queue st). label st m \<le> bump (label st ?cur)"
    and wf: "bfs_wf known deps roots st" using inv i by (auto simp: walk_inv_def)
  have e: "bfs_wf known deps roots ?st" "extends st ?st"
    "set (deps_of deps ?cur) \<inter> set known \<subseteq> set (b_queue ?st)"
    "\<forall>m \<in> set (b_queue ?st). label ?st m \<le> bump (label st ?cur)"
    using expand_loop [OF wf _ _ le, of "sort (deps_of deps ?cur)"] i
    by (auto simp: Let_def expand_def)
  have old: "j < length (b_queue st) \<Longrightarrow> b_queue ?st ! j = b_queue st ! j \<and>
      label ?st (b_queue st ! j) = label st (b_queue st ! j)" for j
    using e(2) by (auto simp: extends_def nth_append)
  have keep: "m \<in> set (b_queue st) \<Longrightarrow> m \<in> set (b_queue ?st) \<and> label ?st m = label st m" for m
    using e(2) by (auto simp: extends_def)
  have closed: "n \<in> set (b_queue ?st) \<and> label ?st n \<le> bump (label ?st (b_queue ?st ! j))"
    if j: "j < Suc i" and n: "n \<in> set (deps_of deps (b_queue ?st ! j)) \<inter> set known" for j n
  proof (cases "j = i")
    case True
    with e(3,4) n i old [of j] show ?thesis by auto
  next
    case False
    with j i have j: "j < i" "j < length (b_queue st)" by auto
    with n old [of j] have "n \<in> set (deps_of deps (b_queue st ! j)) \<inter> set known" by simp
    with inv j(1) have "n \<in> set (b_queue st) \<and> label st n \<le> bump (label st (b_queue st ! j))"
      unfolding walk_inv_def by blast
    with keep [of n] old [OF j(2)] show ?thesis by simp
  qed
  have next_le: "label ?st n \<le> bump (label ?st (b_queue ?st ! Suc i))"
    if len: "Suc i < length (b_queue ?st)" and n: "n \<in> set (b_queue ?st)" for n
  proof -
    have "map (label ?st) (b_queue ?st) ! i \<le> map (label ?st) (b_queue ?st) ! Suc i"
      using e(1) len by (intro sorted_nth_mono) (auto simp: bfs_wf_def)
    then have "label st ?cur \<le> label ?st (b_queue ?st ! Suc i)"
      using len old [OF i] by simp
    with e(4) n bump_mono show ?thesis by (meson order_trans)
  qed
  have "i < length (b_queue ?st)" using i e(2) by (auto simp: extends_def)
  with e(1) closed next_le inv keep show ?thesis
    unfolding walk_inv_def by (auto simp: Suc_le_eq)
qed

lemma walk_inv_final:
  "walk_inv known deps roots st i \<Longrightarrow>
     walk_inv known deps roots (walk_queue known deps st i) (length (b_queue (walk_queue known deps st i)))"
proof (induction known deps st i rule: walk_queue.induct)
  case (1 known deps st i)
  show ?case
  proof (cases "i < length (b_queue st)")
    case True
    with 1 walk_inv_step [OF 1(2) True] show ?thesis by (simp add: walk_queue.simps [of known deps st i])
  next
    case False
    with 1(2) have "i = length (b_queue st)" by (simp add: walk_inv_def)
    moreover from False have "walk_queue known deps st i = st" by (subst walk_queue.simps) simp
    ultimately show ?thesis using 1(2) by simp
  qed
qed

text \<open>The root a package is attributed to: fewest hops, then the smallest name.\<close>

definition nearest_root ::
  "string list \<Rightarrow> string set \<Rightarrow> (string \<rightharpoonup> string list) \<Rightarrow> string \<Rightarrow> string \<Rightarrow> bool" where
  "nearest_root roots known deps n r \<longleftrightarrow>
     (\<exists>k. r \<in> set roots \<and> hops known deps r k n \<and>
        (\<forall>r' \<in> set roots. \<forall>k'. hops known deps r' k' n \<longrightarrow> k < k' \<or> k = k' \<and> r \<le> r'))"

lemma nearest_root_unique:
  assumes "nearest_root roots known deps n r" "nearest_root roots known deps n r'"
  shows "r = r'"
proof -
  from assms obtain k k' where "r \<in> set roots" "r' \<in> set roots"
    "hops known deps r k n" "hops known deps r' k' n"
    "\<forall>q \<in> set roots. \<forall>j. hops known deps q j n \<longrightarrow> k < j \<or> k = j \<and> r \<le> q"
    "\<forall>q \<in> set roots. \<forall>j. hops known deps q j n \<longrightarrow> k' < j \<or> k' = j \<and> r' \<le> q"
    unfolding nearest_root_def by blast
  then have "k < k' \<or> k = k' \<and> r \<le> r'" "k' < k \<or> k' = k \<and> r' \<le> r" by blast+
  then show ?thesis by auto
qed

lemma walk_inv_reaches:
  assumes "walk_inv known deps roots st (length (b_queue st))"
    and "hops (set known) deps r k n" "r \<in> set roots"
  shows "n \<in> set (b_queue st) \<and> label st n \<le> (k, r)"
  using assms(2,3)
proof (induction rule: hops.induct)
  case (hops_root r)
  then show ?case using assms(1) by (auto simp: walk_inv_def)
next
  case (hops_edge r k m n)
  then have m: "m \<in> set (b_queue st)" "label st m \<le> (k, r)" by auto
  then obtain j where j: "j < length (b_queue st)" "b_queue st ! j = m" by (auto simp: in_set_conv_nth)
  have "n \<in> set (deps_of deps (b_queue st ! j)) \<inter> set known" using hops_edge j(2) by simp
  with assms(1) j have n: "n \<in> set (b_queue st)" "label st n \<le> bump (label st m)"
    unfolding walk_inv_def by blast+
  have "bump (label st m) \<le> (Suc k, r)" using bump_mono [OF m(2)] by (simp add: bump_def)
  with n show ?case by auto
qed

lemma attribution_inv:
  "walk_inv (known_names sels) deps roots (attribution roots sels deps)
     (length (b_queue (attribution roots sels deps)))"
  unfolding attribution_def
proof (rule walk_inv_final)
  let ?known = "known_names sels" and ?st = "seed_roots (known_names sels) (sort roots)"
  have seed: "bfs_wf ?known deps roots ?st" "set (b_queue ?st) = set roots \<inter> set ?known"
    "\<forall>r \<in> set (b_queue ?st). label ?st r = (0, r)"
    using seed_roots_wf [OF sorted_sort set_sort refl] by auto
  have "label ?st n \<le> bump (label ?st (b_queue ?st ! 0))"
    if "n \<in> set (b_queue ?st)" "0 < length (b_queue ?st)" for n
    using seed(3) that by (simp add: bump_def)
  with seed show "walk_inv ?known deps roots ?st 0"
    by (auto simp: walk_inv_def)
qed

lemma attribution_via:
  "b_via (attribution roots sels deps) n = Some r \<longleftrightarrow> nearest_root roots (sel_Name ` set sels) deps n r"
proof -
  let ?st = "attribution roots sels deps" and ?K = "sel_Name ` set sels"
  note inv = attribution_inv [of sels deps roots]
  have K: "set (known_names sels) = ?K" by (simp add: known_names_def)
  have sound: "nearest_root roots ?K deps n (snd (label ?st n))" if n: "n \<in> set (b_queue ?st)"
  proof -
    have "snd (label ?st n) \<in> set roots" "hops ?K deps (snd (label ?st n)) (fst (label ?st n)) n"
      using n inv by (auto simp: walk_inv_def bfs_wf_def K)
    moreover have "fst (label ?st n) < k' \<or> fst (label ?st n) = k' \<and> snd (label ?st n) \<le> r'"
      if "r' \<in> set roots" "hops ?K deps r' k' n" for r' k'
      using walk_inv_reaches [OF inv, of r' k' n] that by (auto simp: less_eq_prod_def K)
    ultimately show ?thesis unfolding nearest_root_def by blast
  qed
  have dom: "dom (b_via ?st) = set (b_queue ?st)" using inv by (simp add: walk_inv_def bfs_wf_def)
  show ?thesis
  proof
    assume "b_via ?st n = Some r"
    with sound dom show "nearest_root roots ?K deps n r" by (auto simp: label_def)
  next
    assume r: "nearest_root roots ?K deps n r"
    then have n: "n \<in> set (b_queue ?st)"
      using walk_inv_reaches [OF inv] by (auto simp: nearest_root_def K)
    with dom obtain v where "b_via ?st n = Some v" by blast
    with nearest_root_unique [OF sound [OF n] r] show "b_via ?st n = Some r" by (simp add: label_def)
  qed
qed

lemma root_is_own_nearest:
  "n \<in> set roots \<Longrightarrow> n \<in> known \<Longrightarrow> nearest_root roots known deps n n"
  unfolding nearest_root_def
  by (rule exI [of _ 0]) (auto intro: hops_root elim: hops_0E)

lemma nearest_root_exists:
  assumes "r \<in> set roots" "hops known deps r k n" "n \<in> known" "finite known"
  shows "\<exists>r. nearest_root roots known deps n r"
proof -
  let ?P = "\<lambda>k. \<exists>r \<in> set roots. hops known deps r k n"
  define d where "d = (LEAST k. ?P k)"
  have d: "?P d" "\<And>k'. ?P k' \<Longrightarrow> d \<le> k'"
    using assms(1,2) unfolding d_def by (auto intro: LeastI Least_le)
  let ?R = "{r \<in> set roots. hops known deps r d n}"
  have R: "finite ?R" "?R \<noteq> {}" using d(1) by auto
  show ?thesis unfolding nearest_root_def
    using Min_in [OF R] Min_le [OF R(1)] d(2)
    by (intro exI [of _ "Min ?R"] exI [of _ d]) (auto simp: order_le_less)
qed

section \<open>Properties\<close>

definition selection_key :: "selection \<Rightarrow> string \<times> string \<times> string" where
  "selection_key s = (sel_Name s, sel_Arch s, sel_Version s)"

interpretation selections: keyed_less selection_less selection_key
  by unfold_locales (auto simp: selection_less_def selection_key_def less_prod_def')

definition demo_selection :: "string \<Rightarrow> string \<Rightarrow> selection" where
  "demo_selection n reason = \<lparr>sel_Name = n, sel_Arch = ''amd64'', sel_Version = ''1'', sel_SourcePackage = '''',
     sel_Section = '''', sel_Filename = n @ ''_1_amd64.deb'', sel_Size = 1, sel_SHA256 = '''', sel_URI = '''',
     sel_Origin = zero_origin, sel_Reason = reason, sel_PublisherVerification = '''',
     sel_Essential = False, sel_Flags = [], sel_StagedPath = '''', sel_UserSupplied = False\<rparr>"

text \<open>
  \<^verbatim>\<open>SortSelections\<close> is a permutation of its input ordered by name, then architecture, then
  version; and it is insensitive to the order apt reported the files in: two plans with the same
  selections, no two of which share name, architecture and version, are sorted to the same list.
\<close>

theorem SortSelections_deterministic:
  "mset (SortSelections xs) = mset xs \<and> sorted (map selection_key (SortSelections xs)) \<and>
   (mset xs = mset ys \<and> inj_on selection_key (set xs) \<longrightarrow> SortSelections xs = SortSelections ys)"
  using selections.slice_stable_deterministic [of xs ys]
  by (auto simp: SortSelections_def selections.slice_stable_mset selections.slice_stable_sorted)

theorem SortSelections_deterministic_witness:
  "SortSelections [demo_selection ''b'' '''', demo_selection ''a'' ''''] =
   SortSelections [demo_selection ''a'' '''', demo_selection ''b'' '''']"
proof -
  have "mset [demo_selection ''b'' '''', demo_selection ''a'' ''''] =
      mset [demo_selection ''a'' '''', demo_selection ''b'' '''']" by simp
  moreover have "inj_on selection_key (set [demo_selection ''b'' '''', demo_selection ''a'' ''''])"
    by (simp add: selection_key_def demo_selection_def)
  ultimately show ?thesis using SortSelections_deterministic by blast
qed

text \<open>What the reason of a selection becomes, stated on the dependency graph alone.\<close>

definition reason_spec ::
  "string list \<Rightarrow> string set \<Rightarrow> (string \<rightharpoonup> string list) \<Rightarrow> selection \<Rightarrow> string \<Rightarrow> bool" where
  "reason_spec roots known deps s reason \<longleftrightarrow>
     (if sel_Reason s \<noteq> '''' then reason = sel_Reason s
      else if sel_Name s \<in> set roots then reason = ''''
      else if (\<exists>r \<in> set roots. \<exists>k. hops known deps r k (sel_Name s))
      then (\<exists>r. nearest_root roots known deps (sel_Name s) r \<and> reason = DependencyOf r)
      else if set roots = {} then reason = ''''
      else (let reps = (if set roots \<inter> known = {} then set roots else set roots \<inter> known)
            in '''' \<notin> set roots \<longrightarrow> reason = DependencyOf (Min reps)))"

lemma find_sorted_Min:
  assumes "sorted xs" "\<exists>x \<in> set xs. P x"
  shows "find P xs = Some (Min {x \<in> set xs. P x})"
  using assms
proof (induction xs)
  case (Cons x xs)
  show ?case
  proof (cases "P x")
    case True
    have "Min {y \<in> set (x # xs). P y} = x"
      using Cons.prems(1) True by (intro Min_eqI) auto
    with True show ?thesis by simp
  next
    case False
    then have "{y \<in> set (x # xs). P y} = {y \<in> set xs. P y}" by auto
    with Cons False show ?thesis by simp
  qed
qed simp

lemma fallback_root_spec:
  assumes "'''' \<notin> set roots" "set roots \<noteq> {}"
  shows "fallback_root known (sort roots) =
    Min (if set roots \<inter> set known = {} then set roots else set roots \<inter> set known)"
proof (cases "set roots \<inter> set known = {}")
  case True
  then have "find (\<lambda>r. r \<in> set known) (sort roots) = None"
    by (auto simp: find_None_iff)
  moreover have ne: "sort roots \<noteq> []" using assms(2) by (metis set_empty set_sort)
  moreover have "find (\<lambda>r. True) (sort roots) = Some (Min {r \<in> set (sort roots). True})"
    using assms(2) by (intro find_sorted_Min) (simp_all add: ex_in_conv)
  then have "find (\<lambda>r. True) (sort roots) = Some (Min (set roots))" by simp
  then have "hd (sort roots) = Min (set roots)"
    using ne by (cases "sort roots") auto
  ultimately show ?thesis using True by (simp add: fallback_root_def)
next
  case False
  then have "find (\<lambda>r. r \<in> set known) (sort roots) = Some (Min {r \<in> set (sort roots). r \<in> set known})"
    by (intro find_sorted_Min) auto
  moreover have "{r \<in> set (sort roots). r \<in> set known} = set roots \<inter> set known" by auto
  ultimately have f: "find (\<lambda>r. r \<in> set known) (sort roots) = Some (Min (set roots \<inter> set known))" by simp
  have "Min (set roots \<inter> set known) \<in> set roots \<inter> set known"
    using False by (intro Min_in) auto
  then have "Min (set roots \<inter> set known) \<noteq> ''''" using assms(1) by (metis IntD1)
  with f False show ?thesis by (simp add: fallback_root_def)
qed

lemma attribute_one_spec:
  assumes "s \<in> set sels"
  shows "reason_spec roots (sel_Name ` set sels) deps s
    (sel_Reason (attribute_one (b_via (attribution roots sels deps))
       (fallback_root (known_names sels) (sort roots)) s))"
proof -
  let ?K = "sel_Name ` set sels" and ?via = "b_via (attribution roots sels deps)"
  let ?n = "sel_Name s" and ?f = "fallback_root (known_names sels) (sort roots)"
  have n: "?n \<in> ?K" using assms by simp
  have via: "?via ?n = Some r \<longleftrightarrow> nearest_root roots ?K deps ?n r" for r by (rule attribution_via)
  consider "sel_Reason s \<noteq> ''''" | "sel_Reason s = ''''" "?n \<in> set roots"
    | r where "sel_Reason s = ''''" "?n \<notin> set roots" "nearest_root roots ?K deps ?n r"
    | "sel_Reason s = ''''" "?n \<notin> set roots" "\<And>r. \<not> nearest_root roots ?K deps ?n r" by blast
  then show ?thesis
  proof cases
    case 2
    with via [of ?n] root_is_own_nearest [OF 2(2) n] show ?thesis
      by (simp add: attribute_one_def reason_spec_def)
  next
    case 3
    then have "r \<in> set roots" "\<exists>k. hops ?K deps r k ?n" by (auto simp: nearest_root_def)
    with 3 via [of r] show ?thesis by (auto simp: attribute_one_def reason_spec_def)
  next
    case 4
    then have none: "?via ?n = None" using via by (metis option.exhaust)
    have unreach: "\<not> (\<exists>r \<in> set roots. \<exists>k. hops ?K deps r k ?n)"
      using nearest_root_exists 4(3) n by blast
    show ?thesis
    proof (cases "set roots = {} \<or> '''' \<in> set roots")
      case True
      then show ?thesis using 4(1,2) none unreach
        by (auto simp: attribute_one_def reason_spec_def fallback_root_def Let_def)
    next
      case False
      let ?reps = "if set roots \<inter> ?K = {} then set roots else set roots \<inter> ?K"
      have f: "?f = Min ?reps" using False fallback_root_spec [of roots "known_names sels"]
        by (simp add: known_names_def)
      have "Min ?reps \<in> ?reps" using False by (intro Min_in) auto
      then have "?f \<in> set roots" by (simp add: f split: if_splits)
      with False 4(2) have "?f \<noteq> ''''" "?f \<noteq> ?n" by auto
      with False 4(1,2) none unreach f show ?thesis
        by (simp add: attribute_one_def reason_spec_def Let_def)
    qed
  qed (simp add: attribute_one_def reason_spec_def)
qed

lemma hops_start: "hops known deps r k n \<Longrightarrow> r \<in> known"
  by (induction rule: hops.induct)

lemma AttributeReasons_nth:
  assumes "i < length sels"
  shows "\<exists>reason. AttributeReasons roots sels deps ! i = (sels ! i)\<lparr>sel_Reason := reason\<rparr> \<and>
       reason_spec roots (sel_Name ` set sels) deps (sels ! i) reason"
proof -
  let ?r = "AttributeReasons roots sels deps ! i"
  have "?r = (sels ! i)\<lparr>sel_Reason := sel_Reason ?r\<rparr>"
    using assms by (auto simp: AttributeReasons_def attribute_one_def split: option.splits)
  moreover have "reason_spec roots (sel_Name ` set sels) deps (sels ! i) (sel_Reason ?r)"
    using assms attribute_one_spec [of "sels ! i" sels roots deps] by (simp add: AttributeReasons_def)
  ultimately show ?thesis by blast
qed

text \<open>
  C6. \<^verbatim>\<open>AttributeReasons\<close> returns the same selections in the same order, changing nothing but blank
  reasons: an explicit reason is kept, a root stays blank, a package that some root reaches over
  dependency edges is attributed to the root with the fewest hops (the lexicographically smallest
  among equals), and an unexplained one to the smallest root that is itself selected, or to the
  smallest root when none is.
\<close>

theorem AttributeReasons_spec:
  assumes "i < length sels"
  shows "length (AttributeReasons roots sels deps) = length sels \<and>
    (\<exists>reason. AttributeReasons roots sels deps ! i = (sels ! i)\<lparr>sel_Reason := reason\<rparr> \<and>
       reason_spec roots (sel_Name ` set sels) deps (sels ! i) reason)"
  using AttributeReasons_nth [OF assms] by (simp add: AttributeReasons_def)

definition demo_deps :: "string \<rightharpoonup> string list" where
  "demo_deps = [''vlc'' \<mapsto> [''libc'', ''libvlc''], ''mpv'' \<mapsto> [''libass''], ''libvlc'' \<mapsto> [''libass'']]"

definition demo_selections :: "selection list" where
  "demo_selections = [demo_selection ''vlc'' ''requested'', demo_selection ''libass'' '''',
     demo_selection ''mpv'' '''', demo_selection ''libvlc'' '''', demo_selection ''odd'' '''']"

theorem AttributeReasons_spec_witness:
  "map sel_Reason (AttributeReasons [''vlc'', ''mpv'', ''gone''] demo_selections demo_deps) =
     [''requested'', ''dependency-of:mpv'', '''', ''dependency-of:vlc'', ''dependency-of:mpv''] \<and>
   reason_spec [''vlc'', ''mpv'', ''gone''] (sel_Name ` set demo_selections) demo_deps
     (demo_selections ! 1) ''dependency-of:mpv''"
proof -
  let ?r = "AttributeReasons [''vlc'', ''mpv'', ''gone''] demo_selections demo_deps"
  have r: "map sel_Reason ?r =
     [''requested'', ''dependency-of:mpv'', '''', ''dependency-of:vlc'', ''dependency-of:mpv'']"
    by code_simp
  have len: "1 < length demo_selections" by (simp add: demo_selections_def)
  then have "sel_Reason (?r ! 1) = map sel_Reason ?r ! 1" by (simp add: AttributeReasons_def)
  then have "sel_Reason (?r ! 1) = ''dependency-of:mpv''" by (simp only: r) simp
  with AttributeReasons_spec [OF len, of "[''vlc'', ''mpv'', ''gone'']" demo_deps] r
  show ?thesis by auto
qed

text \<open>
  When some root is itself selected (and no root is the empty string), every reason that
  \<^verbatim>\<open>AttributeReasons\<close> fills in names a parent that is among the selections.
\<close>

theorem AttributeReasons_parent_selected:
  assumes "s' \<in> set (AttributeReasons roots sels deps)" "s' \<notin> set sels"
    and "'''' \<notin> set roots" "set roots \<inter> sel_Name ` set sels \<noteq> {}"
  shows "\<exists>p \<in> set sels. sel_Reason s' = DependencyOf (sel_Name p)"
proof -
  obtain i where i: "i < length sels" "s' = AttributeReasons roots sels deps ! i"
    using assms(1) by (auto simp: in_set_conv_nth AttributeReasons_def)
  let ?s = "sels ! i" and ?K = "sel_Name ` set sels"
  obtain reason where r: "s' = ?s\<lparr>sel_Reason := reason\<rparr>" "reason_spec roots ?K deps ?s reason"
    using AttributeReasons_nth [OF i(1), of roots deps] i(2) by blast
  have "?s \<in> set sels" using i(1) by simp
  with assms(2) r(1) have changed: "reason \<noteq> sel_Reason ?s" by (metis selection.surjective selection.update_convs(11))
  have "\<exists>q \<in> ?K. reason = DependencyOf q"
  proof (cases "\<exists>r \<in> set roots. \<exists>k. hops ?K deps r k (sel_Name ?s)")
    case True
    then obtain q where "nearest_root roots ?K deps (sel_Name ?s) q" "reason = DependencyOf q"
      using r(2) changed by (auto simp: reason_spec_def split: if_splits)
    then show ?thesis by (auto simp: nearest_root_def dest: hops_start)
  next
    case False
    have "Min (set roots \<inter> ?K) \<in> set roots \<inter> ?K" using assms(4) by (intro Min_in) auto
    with False show ?thesis
      using r(2) changed assms(3,4) by (auto simp: reason_spec_def Let_def split: if_splits)
  qed
  with r(1) show ?thesis by auto
qed

theorem AttributeReasons_parent_selected_witness:
  "\<exists>p \<in> set demo_selections. sel_Reason ((demo_selections ! 4)\<lparr>sel_Reason := ''dependency-of:mpv''\<rparr>) =
     DependencyOf (sel_Name p)"
proof (rule AttributeReasons_parent_selected)
  let ?r = "AttributeReasons [''vlc'', ''mpv'', ''gone''] demo_selections demo_deps"
  show "(demo_selections ! 4)\<lparr>sel_Reason := ''dependency-of:mpv''\<rparr> \<in> set ?r"
    by code_simp
  show "(demo_selections ! 4)\<lparr>sel_Reason := ''dependency-of:mpv''\<rparr> \<notin> set demo_selections"
    by code_simp
  show "'''' \<notin> set [''vlc'', ''mpv'', ''gone'']"
    "set [''vlc'', ''mpv'', ''gone''] \<inter> sel_Name ` set demo_selections \<noteq> {}"
    by (simp_all add: demo_selections_def demo_selection_def)
qed

text \<open>
  The comment on \<^verbatim>\<open>AttributeReasons\<close> says that the recorded parent always names a package the
  bundle contains. It does not when none of the roots is selected: the parent recorded for an
  unexplained selection is then a package that is not among the selections.
\<close>

theorem AttributeReasons_parent_outside_bundle:
  "\<exists>roots sels deps. \<exists>s \<in> set (AttributeReasons roots sels deps).
     \<exists>q. sel_Reason s = DependencyOf q \<and> q \<notin> sel_Name ` set sels"
proof -
  have "sel_Reason (hd (AttributeReasons [''held''] [demo_selection ''odd'' ''''] Map.empty)) = DependencyOf ''held''"
    "AttributeReasons [''held''] [demo_selection ''odd'' ''''] Map.empty \<noteq> []"
    "''held'' \<notin> sel_Name ` set [demo_selection ''odd'' '''']" by code_simp+
  then show ?thesis by (meson hd_in_set)
qed

end
