(* ===== verification/Go_Text.thy ===== *)
theory Go_Text
  imports Go_Prelude
begin

text \<open>
  The text functions of the Go library that the key, keyring and policy code uses: \<^verbatim>\<open>bufio.Scanner\<close>
  lines, \<^verbatim>\<open>strings.TrimSpace\<close> and \<^verbatim>\<open>strings.Fields\<close>, \<^verbatim>\<open>encoding/hex\<close> and \<^verbatim>\<open>encoding/base64\<close>.
\<close>

section \<open>White space\<close>

text \<open>
  The length of the white-space character a byte string starts with, 0 if it starts with another
  one: the ASCII ones, and the UTF-8 encodings of the others \<^verbatim>\<open>unicode.IsSpace\<close> accepts. None of the
  lead bytes tested here occurs inside another valid encoding, so looking at every byte position is
  what decoding rune by rune does.
\<close>

definition is_ascii_space :: "char \<Rightarrow> bool" where
  "is_ascii_space c \<longleftrightarrow> byte c = 32 \<or> 9 \<le> byte c \<and> byte c \<le> 13"

fun space_len :: "string \<Rightarrow> nat" where
  "space_len (a # b # c # s) =
     (if is_ascii_space a then 1
      else if byte a = 194 \<and> (byte b = 133 \<or> byte b = 160) then 2
      else if byte a = 225 \<and> byte b = 154 \<and> byte c = 128 then 3
      else if byte a = 226 \<and> byte b = 128 \<and> (128 \<le> byte c \<and> byte c \<le> 138 \<or> byte c \<in> {168, 169, 175}) then 3
      else if byte a = 226 \<and> byte b = 129 \<and> byte c = 159 then 3
      else if byte a = 227 \<and> byte b = 128 \<and> byte c = 128 then 3
      else 0)"
| "space_len [a, b] =
     (if is_ascii_space a then 1
      else if byte a = 194 \<and> (byte b = 133 \<or> byte b = 160) then 2 else 0)"
| "space_len [a] = (if is_ascii_space a then 1 else 0)"
| "space_len [] = 0"

lemma space_len_bound: "space_len s \<le> length s"
  by (cases s rule: space_len.cases) auto

lemma space_len_ascii: "space_len (a # s) = 1" if "is_ascii_space a"
  using that by (cases "a # s" rule: space_len.cases) auto

function trim_left :: "string \<Rightarrow> string" where
  "trim_left s = (if space_len s = 0 then s else trim_left (drop (space_len s) s))"
  by pat_completeness auto

termination
proof (relation "measure length")
  fix s
  assume "space_len s \<noteq> 0"
  with space_len_bound [of s] show "(drop (space_len s) s, s) \<in> measure length" by simp
qed simp

declare trim_left.simps [simp del]

text \<open>The length of the white-space character a string ends with.\<close>

definition space_suffix :: "string \<Rightarrow> nat" where
  "space_suffix s =
     (if s \<noteq> [] \<and> space_len (drop (length s - 1) s) = 1 then 1
      else if length s \<ge> 2 \<and> space_len (drop (length s - 2) s) = 2 then 2
      else if length s \<ge> 3 \<and> space_len (drop (length s - 3) s) = 3 then 3
      else 0)"

function trim_right :: "string \<Rightarrow> string" where
  "trim_right s = (if space_suffix s = 0 then s else trim_right (take (length s - space_suffix s) s))"
  by pat_completeness auto

termination
  by (relation "measure length") (auto simp: space_suffix_def split: if_splits)

declare trim_right.simps [simp del]

definition trim_space :: "string \<Rightarrow> string" where
  "trim_space s = trim_right (trim_left s)"

text \<open>\<^verbatim>\<open>strings.Fields\<close>: the maximal runs without white space. \<open>cur\<close> is the run read so far.\<close>

function fields_from :: "string \<Rightarrow> string \<Rightarrow> string list" where
  "fields_from cur s =
     (case s of
        [] \<Rightarrow> if cur = '''' then [] else [cur]
      | c # s' \<Rightarrow>
          if space_len s = 0 then fields_from (cur @ [c]) s'
          else (if cur = '''' then [] else [cur]) @ fields_from '''' (drop (space_len s) s))"
  by pat_completeness auto

termination
  by (relation "measure (\<lambda>(cur, s). length s)") (auto simp: space_len_bound)

declare fields_from.simps [simp del]

definition strings_Fields :: "string \<Rightarrow> string list" where
  "strings_Fields s = fields_from '''' s"

section \<open>bufio.Scanner\<close>

definition newline :: char where
  "newline = CHR 0x0A"

definition drop_cr :: "string \<Rightarrow> string" where
  "drop_cr l = (if l \<noteq> [] \<and> last l = CHR 0x0D then butlast l else l)"

text \<open>
  The tokens of a scanner over lines. Its buffer holds 64 KiB: at the first line that does not fit
  in it together with its newline the scan ends, silently where the caller does not ask for \<^verbatim>\<open>Err\<close>.
\<close>

definition MaxScanTokenSize :: nat where
  "MaxScanTokenSize = 65536"

fun drop_last_empty :: "string list \<Rightarrow> string list" where
  "drop_last_empty ls = (if ls \<noteq> [] \<and> last ls = '''' then butlast ls else ls)"

definition scan_lines :: "string \<Rightarrow> string list" where
  "scan_lines s =
     map drop_cr (takeWhile (\<lambda>l. length l < MaxScanTokenSize) (drop_last_empty (split_on newline s)))"

section \<open>encoding/hex\<close>

definition hex_digit :: "nat \<Rightarrow> char" where
  "hex_digit n = (if n < 10 then char_of (48 + n) else char_of (87 + n))"

fun hex_encode :: "string \<Rightarrow> string" where
  "hex_encode [] = []"
| "hex_encode (c # s) = hex_digit (byte c div 16) # hex_digit (byte c mod 16) # hex_encode s"

section \<open>encoding/base64, the standard alphabet with padding\<close>

definition b64_char :: "nat \<Rightarrow> char" where
  "b64_char n =
     (if n < 26 then char_of (65 + n) else if n < 52 then char_of (71 + n)
      else if n < 62 then char_of (n - 4) else if n = 62 then CHR ''+'' else CHR ''/'')"

definition b64_val :: "char \<Rightarrow> nat option" where
  "b64_val c =
     (if is_upper_byte c then Some (byte c - 65)
      else if is_lower_byte c then Some (byte c - 71)
      else if is_digit_byte c then Some (byte c + 4)
      else if c = CHR ''+'' then Some 62
      else if c = CHR ''/'' then Some 63
      else None)"

abbreviation pad :: char where
  "pad \<equiv> CHR ''=''"

fun b64_encode :: "string \<Rightarrow> string" where
  "b64_encode (a # b # c # s) =
     b64_char (byte a div 4) # b64_char (byte a mod 4 * 16 + byte b div 16) #
     b64_char (byte b mod 16 * 4 + byte c div 64) # b64_char (byte c mod 64) # b64_encode s"
| "b64_encode [a, b] =
     [b64_char (byte a div 4), b64_char (byte a mod 4 * 16 + byte b div 16), b64_char (byte b mod 16 * 4), pad]"
| "b64_encode [a] = [b64_char (byte a div 4), b64_char (byte a mod 4 * 16), pad, pad]"
| "b64_encode [] = []"

text \<open>
  \<^verbatim>\<open>DecodeString\<close> skips carriage returns and newlines; a pad character may only end the last group of
  four, and the bits it leaves over are not inspected.
\<close>

fun b64_quads :: "string \<Rightarrow> string option" where
  "b64_quads [] = Some []"
| "b64_quads (a # b # c # d # s) =
     (case (b64_val a, b64_val b) of
        (Some w, Some x) \<Rightarrow>
          (if c = pad then if d = pad \<and> s = [] then Some [char_of (w * 4 + x div 16)] else None
           else case b64_val c of
             None \<Rightarrow> None
           | Some y \<Rightarrow>
               if d = pad then
                 if s = [] then Some [char_of (w * 4 + x div 16), char_of (x mod 16 * 16 + y div 4)] else None
               else case b64_val d of
                 None \<Rightarrow> None
               | Some z \<Rightarrow>
                   map_option (\<lambda>t. char_of (w * 4 + x div 16) # char_of (x mod 16 * 16 + y div 4) #
                     char_of (y mod 4 * 64 + z) # t) (b64_quads s))
      | _ \<Rightarrow> None)"
| "b64_quads _ = None"

definition b64_decode :: "string \<Rightarrow> string option" where
  "b64_decode s = b64_quads (filter (\<lambda>c. c \<noteq> CHR 0x0A \<and> c \<noteq> CHR 0x0D) s)"

section \<open>Lemmas\<close>

lemma trim_left_id: "space_len s = 0 \<Longrightarrow> trim_left s = s"
  by (simp add: trim_left.simps)

lemma trim_right_id: "space_suffix s = 0 \<Longrightarrow> trim_right s = s"
  by (simp add: trim_right.simps)

definition b64_char_ok :: "nat \<Rightarrow> bool" where
  "b64_char_ok n \<longleftrightarrow> b64_val (b64_char n) = Some n \<and> b64_char n \<noteq> pad \<and> b64_char n \<noteq> CHR 0x0A \<and>
     b64_char n \<noteq> CHR 0x0D \<and> \<not> is_ascii_space (b64_char n) \<and> byte (b64_char n) < 128"

lemma b64_char_ok_less: "n < 64 \<Longrightarrow> b64_char_ok n"
proof -
  have "list_all b64_char_ok [0..<64]" by code_simp
  then have "\<forall>n \<in> {0..<64}. b64_char_ok n" by (simp only: list_all_iff set_upt)
  then show "n < 64 \<Longrightarrow> ?thesis" by (meson atLeastLessThan_iff zero_le)
qed

lemma b64_val_char: "n < 64 \<Longrightarrow> b64_val (b64_char n) = Some n"
  using b64_char_ok_less [of n] by (simp add: b64_char_ok_def)

lemma b64_char_plain:
  "n < 64 \<Longrightarrow> b64_char n \<noteq> pad \<and> b64_char n \<noteq> CHR 0x0A \<and> b64_char n \<noteq> CHR 0x0D \<and>
    \<not> is_ascii_space (b64_char n) \<and> byte (b64_char n) < 128"
  using b64_char_ok_less [of n] by (simp add: b64_char_ok_def)

lemma byte_groups:
  "byte a div 4 < 64" "byte a mod 4 * 16 + byte b div 16 < 64" "byte a mod 4 * 16 < 64"
  "byte b mod 16 * 4 + byte c div 64 < 64" "byte b mod 16 * 4 < 64" "byte c mod 64 < 64"
proof -
  have "byte a mod 4 < 4" "byte b mod 16 < 16" "byte c mod 64 < 64" by (rule mod_less_divisor; simp)+
  moreover have "byte a div 4 < 64" "byte b div 16 < 16" "byte c div 64 < 4"
    using byte_less_256 by (auto intro: less_mult_imp_div_less)
  ultimately show "byte a div 4 < 64" "byte a mod 4 * 16 + byte b div 16 < 64" "byte a mod 4 * 16 < 64"
    "byte b mod 16 * 4 + byte c div 64 < 64" "byte b mod 16 * 4 < 64" "byte c mod 64 < 64"
    by linarith+
qed

lemma byte_regroup:
  "byte b div 16 div 16 = 0" "byte c div 64 div 4 = 0"
  "byte b div 16 mod 16 * 16 + byte b mod 16 = byte b"
  "byte c div 64 mod 4 * 64 + byte c mod 64 = byte c"
proof -
  have "byte b div 16 < 16" "byte c div 64 < 4"
    using byte_less_256 by (auto intro: less_mult_imp_div_less)
  then show "byte b div 16 div 16 = 0" "byte c div 64 div 4 = 0"
    "byte b div 16 mod 16 * 16 + byte b mod 16 = byte b"
    "byte c div 64 mod 4 * 64 + byte c mod 64 = byte c"
    by (simp_all only: mod_less div_less div_mult_mod_eq)
qed

lemma b64_quads_encode: "b64_quads (b64_encode s) = Some s"
  by (induction s rule: b64_encode.induct)
    (simp_all add: b64_val_char b64_char_plain byte_groups byte_regroup)

lemma pad_plain: "\<not> is_ascii_space pad \<and> byte pad < 128"
  by code_simp

lemma b64_encode_bytes:
  "c \<in> set (b64_encode s) \<Longrightarrow> c \<noteq> CHR 0x0A \<and> c \<noteq> CHR 0x0D \<and> \<not> is_ascii_space c \<and> byte c < 128"
  by (induction s rule: b64_encode.induct)
    (auto simp: b64_char_plain byte_groups pad_plain)

lemma b64_roundtrip: "b64_decode (b64_encode s) = Some s"
proof -
  have "filter (\<lambda>c. c \<noteq> CHR 0x0A \<and> c \<noteq> CHR 0x0D) (b64_encode s) = b64_encode s"
    using b64_encode_bytes by (intro filter_True) blast
  then show ?thesis by (simp add: b64_decode_def b64_quads_encode)
qed

end
