(* ===== verification/Key_File.thy ===== *)
theory Key_File
  imports Go_Text
begin

text \<open>
  The native key files (\<^verbatim>\<open>src/core/sign/keyformat.go\<close>) and how a public one is loaded
  (\<^verbatim>\<open>src/core/sign/ed25519.go\<close>). The parameter \<open>sum256\<close> is \<^verbatim>\<open>crypto/sha256\<close> on raw bytes and \<open>from_seed\<close> is
  \<^verbatim>\<open>ed25519.NewKeyFromSeed\<close>.
\<close>

type_synonym raw_hasher = "string \<Rightarrow> string"

definition keyAlgTag :: string where
  "keyAlgTag = ''Ed''"

definition keyIDLen :: nat where
  "keyIDLen = 8"

definition pubKeyLen :: nat where
  "pubKeyLen = 32"

definition privKeyLen :: nat where
  "privKeyLen = 64"

definition pubBlobLen :: nat where
  "pubBlobLen = 2 + keyIDLen + pubKeyLen"

definition privBlobLen :: nat where
  "privBlobLen = 2 + keyIDLen + privKeyLen"

definition untrustedCommentPrefix :: string where
  "untrustedCommentPrefix = ''untrusted comment: ''"

definition labelPublic :: string where
  "labelPublic = ''debark ed25519 public key''"

definition labelPrivate :: string where
  "labelPrivate = ''debark ed25519 secret key''"

definition AlgorithmEd25519 :: string where
  "AlgorithmEd25519 = ''ed25519''"

record public_key =
  pk_KeyID :: string
  pk_Algorithm :: string
  pk_Comment :: string
  pk_Raw :: string
  pk_Source :: path

definition keyIDFromPublic :: "raw_hasher \<Rightarrow> string \<Rightarrow> string" where
  "keyIDFromPublic sum256 pub = take keyIDLen (sum256 pub)"

definition keyIDHex :: "string \<Rightarrow> string" where
  "keyIDHex i = hex_encode i"

text \<open>The comment line of a key file, and the file.\<close>

definition comment_line :: "string \<Rightarrow> string \<Rightarrow> string \<Rightarrow> string" where
  "comment_line label keyIDHexStr comment =
     untrustedCommentPrefix @ label @ '' '' @ keyIDHexStr @ (if comment \<noteq> '''' then '' '' @ comment else '''')"

definition encodeKeyFile :: "string \<Rightarrow> string \<Rightarrow> string \<Rightarrow> string \<Rightarrow> string" where
  "encodeKeyFile label keyIDHexStr comment blob =
     comment_line label keyIDHexStr comment @ [newline] @ b64_encode blob @ [newline]"

definition encodePublicKeyFile :: "raw_hasher \<Rightarrow> string \<Rightarrow> string \<Rightarrow> string" where
  "encodePublicKeyFile sum256 pub comment =
     (let i = keyIDFromPublic sum256 pub
      in encodeKeyFile labelPublic (keyIDHex i) comment (keyAlgTag @ i @ pub))"

text \<open>The private key is the seed followed by the public key; \<^verbatim>\<open>priv.Public()\<close> is its second half.\<close>

definition encodePrivateKeyFile :: "raw_hasher \<Rightarrow> string \<Rightarrow> string \<Rightarrow> string" where
  "encodePrivateKeyFile sum256 priv comment =
     (let i = keyIDFromPublic sum256 (drop 32 priv)
      in encodeKeyFile labelPrivate (keyIDHex i) comment (keyAlgTag @ i @ priv))"

datatype key_error =
    KeyUnreadable | TooFewLines nat | BadBase64
  | BlobLength nat | BadAlgTag string | KeyIDMismatch string string | SeedMismatch
  | NoCommentPrefix | WrongLabel string | CommentIDMismatch string string

definition decodeKeyFile :: "string \<Rightarrow> key_error + string \<times> string" where
  "decodeKeyFile data =
     (let lines = take 2 (filter (\<lambda>l. l \<noteq> '''') (map trim_space (scan_lines data)))
      in if length lines < 2 then Inl (TooFewLines (length lines))
         else case b64_decode (lines ! 1) of
           None \<Rightarrow> Inl BadBase64
         | Some blob \<Rightarrow> Inr (lines ! 0, blob))"

definition parseCommentLine :: "string \<Rightarrow> string \<Rightarrow> key_error + string \<times> string" where
  "parseCommentLine line wantLabel =
     (case cut_prefix line untrustedCommentPrefix of
        None \<Rightarrow> Inl NoCommentPrefix
      | Some rest \<Rightarrow>
          (case cut_prefix rest (wantLabel @ '' '') of
             None \<Rightarrow> Inl (WrongLabel wantLabel)
           | Some rest' \<Rightarrow>
               (case index_byte (CHR '' '') rest' of
                  None \<Rightarrow> Inr (rest', '''')
                | Some i \<Rightarrow> Inr (take i rest', drop (Suc i) rest'))))"

definition parsePublicKeyBlob :: "raw_hasher \<Rightarrow> string \<Rightarrow> key_error + string \<times> string" where
  "parsePublicKeyBlob sum256 blob =
     (if length blob \<noteq> pubBlobLen then Inl (BlobLength (length blob))
      else if take 2 blob \<noteq> keyAlgTag then Inl (BadAlgTag (take 2 blob))
      else let stored = take keyIDLen (drop 2 blob);
               pub = drop (2 + keyIDLen) blob;
               i = keyIDFromPublic sum256 pub
           in if i \<noteq> stored then Inl (KeyIDMismatch stored i) else Inr (i, pub))"

definition parsePrivateKeyBlob :: "raw_hasher \<Rightarrow> (string \<Rightarrow> string) \<Rightarrow> string \<Rightarrow> key_error + string \<times> string" where
  "parsePrivateKeyBlob sum256 from_seed blob =
     (if length blob \<noteq> privBlobLen then Inl (BlobLength (length blob))
      else if take 2 blob \<noteq> keyAlgTag then Inl (BadAlgTag (take 2 blob))
      else let stored = take keyIDLen (drop 2 blob);
               priv = drop (2 + keyIDLen) blob
           in if from_seed (take 32 priv) \<noteq> priv then Inl SeedMismatch
              else let i = keyIDFromPublic sum256 (drop 32 priv)
                   in if i \<noteq> stored then Inl (KeyIDMismatch stored i) else Inr (i, priv))"

text \<open>\<open>raw\<close> is what \<^verbatim>\<open>os.ReadFile\<close> returned.\<close>

definition loadPublicKeyFile :: "raw_hasher \<Rightarrow> path \<Rightarrow> string option \<Rightarrow> key_error + public_key" where
  "loadPublicKeyFile sum256 file raw =
     (case raw of
        None \<Rightarrow> Inl KeyUnreadable
      | Some bytes \<Rightarrow>
          (case decodeKeyFile bytes of
             Inl e \<Rightarrow> Inl e
           | Inr (line, blob) \<Rightarrow>
               (case parsePublicKeyBlob sum256 blob of
                  Inl e \<Rightarrow> Inl e
                | Inr (i, pub) \<Rightarrow>
                    (case parseCommentLine line labelPublic of
                       Inl e \<Rightarrow> Inl e
                     | Inr (commentKeyID, comment) \<Rightarrow>
                         if \<not> equal_fold commentKeyID (keyIDHex i)
                         then Inl (CommentIDMismatch commentKeyID (keyIDHex i))
                         else Inr \<lparr>pk_KeyID = keyIDHex i, pk_Algorithm = AlgorithmEd25519,
                           pk_Comment = comment, pk_Raw = pub, pk_Source = file\<rparr>))))"

section \<open>Lemmas\<close>

lemma plain_ascii_no_space:
  assumes "\<forall>c \<in> set s. \<not> is_ascii_space c \<and> byte c < 128"
  shows "space_len s = 0"
  using assms by (cases s rule: space_len.cases) auto

lemma plain_ascii_trim:
  assumes "\<forall>c \<in> set s. \<not> is_ascii_space c \<and> byte c < 128"
  shows "trim_space s = s"
proof -
  have "space_len (drop n s) = 0" for n
    using assms by (intro plain_ascii_no_space) (auto dest: in_set_dropD)
  then have "space_suffix s = 0" by (simp add: space_suffix_def)
  with plain_ascii_no_space [OF assms] show ?thesis
    by (simp add: trim_space_def trim_left_id trim_right_id)
qed

lemma cut_prefix_append [simp]: "cut_prefix (p @ s) p = Some s"
  by (simp add: cut_prefix_def has_prefix_def)

lemma cut_prefix_Some: "cut_prefix s p = Some t \<longleftrightarrow> s = p @ t"
  by (auto simp: cut_prefix_def has_prefix_def) (metis append_take_drop_id)

lemma hex_digit_plain: "n < 16 \<Longrightarrow> hex_digit n \<noteq> CHR '' '' \<and> hex_digit n \<noteq> newline \<and> hex_digit n \<noteq> CHR 0x0D"
proof -
  have "list_all (\<lambda>n. hex_digit n \<noteq> CHR '' '' \<and> hex_digit n \<noteq> newline \<and> hex_digit n \<noteq> CHR 0x0D) [0..<16]"
    by code_simp
  then have "\<forall>n \<in> {0..<16}. hex_digit n \<noteq> CHR '' '' \<and> hex_digit n \<noteq> newline \<and> hex_digit n \<noteq> CHR 0x0D"
    by (simp only: list_all_iff set_upt)
  then show "n < 16 \<Longrightarrow> ?thesis" by (meson atLeastLessThan_iff zero_le)
qed

lemma hex_encode_plain: "c \<in> set (hex_encode s) \<Longrightarrow> c \<noteq> CHR '' '' \<and> c \<noteq> newline \<and> c \<noteq> CHR 0x0D"
proof (induction s)
  case (Cons x s)
  have "byte x div 16 < 16" using byte_less_256 by (auto intro: less_mult_imp_div_less)
  moreover have "byte x mod 16 < 16" by (rule mod_less_divisor) simp
  ultimately have "hex_digit (byte x div 16) \<noteq> CHR '' '' \<and> hex_digit (byte x div 16) \<noteq> newline \<and>
      hex_digit (byte x div 16) \<noteq> CHR 0x0D" "hex_digit (byte x mod 16) \<noteq> CHR '' '' \<and>
      hex_digit (byte x mod 16) \<noteq> newline \<and> hex_digit (byte x mod 16) \<noteq> CHR 0x0D"
    by (simp_all only: hex_digit_plain simp_thms)
  with Cons show ?case by (auto simp del: of_char_eq_iff)
qed simp

lemma b64_encode_not_empty: "s \<noteq> [] \<Longrightarrow> b64_encode s \<noteq> []"
  by (cases s rule: b64_encode.cases) auto

lemma length_b64_encode: "length (b64_encode s) \<le> 2 * length s + 4"
  by (induction s rule: b64_encode.induct) auto

text \<open>
  A comment fits a key file when it holds no line break, when the line it is written on is shorter
  than the scanner's buffer and when trimming white space leaves that line alone.
\<close>

definition comment_fits :: "string \<Rightarrow> string \<Rightarrow> string \<Rightarrow> bool" where
  "comment_fits label idHex comment \<longleftrightarrow>
     newline \<notin> set comment \<and> CHR 0x0D \<notin> set comment \<and>
     length (comment_line label idHex comment) < MaxScanTokenSize \<and>
     trim_space (comment_line label idHex comment) = comment_line label idHex comment"

lemma scan_two_lines:
  assumes "newline \<notin> set a" "newline \<notin> set b" "CHR 0x0D \<notin> set a" "CHR 0x0D \<notin> set b"
    and "length a < MaxScanTokenSize" "length b < MaxScanTokenSize"
  shows "scan_lines (a @ [newline] @ b @ [newline]) = [a, b]"
proof -
  have "split_on newline (a @ [newline] @ b @ [newline]) = [a, b, '''']"
    using assms(1,2) by (simp add: split_on_append_sep split_on_no_occurrence)
  moreover have "drop_cr x = x" if "CHR 0x0D \<notin> set x" for x
    using that by (cases "x = []") (auto simp: drop_cr_def dest: last_in_set)
  ultimately show ?thesis using assms by (simp add: scan_lines_def)
qed

lemma comment_line_bytes:
  assumes "c \<in> set (comment_line label idHex comment)"
  shows "c \<in> set untrustedCommentPrefix \<union> set label \<union> {CHR '' ''} \<union> set idHex \<union> set comment"
  using assms by (auto simp: comment_line_def split: if_splits)

lemma decode_encoded:
  assumes "comment_fits label idHex comment" "newline \<notin> set label \<union> set idHex"
    "CHR 0x0D \<notin> set label \<union> set idHex" "blob \<noteq> []" "length blob < 30000"
  shows "decodeKeyFile (encodeKeyFile label idHex comment blob) = Inr (comment_line label idHex comment, blob)"
proof -
  let ?l = "comment_line label idHex comment" and ?b = "b64_encode blob"
  have pre: "newline \<notin> set untrustedCommentPrefix \<union> {CHR '' ''}" "CHR 0x0D \<notin> set untrustedCommentPrefix \<union> {CHR '' ''}"
    by code_simp+
  have l: "newline \<notin> set ?l" "CHR 0x0D \<notin> set ?l"
    using comment_line_bytes [of newline label idHex comment] comment_line_bytes [of "CHR 0x0D" label idHex comment]
      pre assms(1-3) by (auto simp: comment_fits_def)
  have b: "newline \<notin> set ?b" "CHR 0x0D \<notin> set ?b" "\<forall>c \<in> set ?b. \<not> is_ascii_space c \<and> byte c < 128"
    using b64_encode_bytes by (auto simp: newline_def)
  have "length ?b < MaxScanTokenSize"
    using length_b64_encode [of blob] assms(5) by (simp add: MaxScanTokenSize_def)
  then have "scan_lines (?l @ [newline] @ ?b @ [newline]) = [?l, ?b]"
    using assms(1) l b by (intro scan_two_lines) (auto simp: comment_fits_def)
  moreover have "trim_space ?l = ?l" "?l \<noteq> ''''" using assms(1)
    by (auto simp: comment_fits_def comment_line_def)
  moreover have "trim_space ?b = ?b" "?b \<noteq> ''''"
    using plain_ascii_trim [OF b(3)] b64_encode_not_empty [OF assms(4)] by auto
  ultimately show ?thesis by (simp add: decodeKeyFile_def encodeKeyFile_def b64_roundtrip)
qed

lemma parse_comment_line:
  assumes "CHR '' '' \<notin> set idHex"
  shows "parseCommentLine (comment_line label idHex comment) label = Inr (idHex, comment)"
proof -
  have 1: "cut_prefix (comment_line label idHex comment) untrustedCommentPrefix =
      Some ((label @ '' '') @ idHex @ (if comment \<noteq> '''' then '' '' @ comment else ''''))"
    by (simp add: comment_line_def)
  show ?thesis
    using assms index_byte_append [OF assms, of comment] index_byte_None [of "CHR '' ''" idHex]
    by (simp only: parseCommentLine_def 1 cut_prefix_append option.case) auto
qed

lemma parsePublicKeyBlob_Inr:
  "parsePublicKeyBlob sum256 blob = Inr (i, pub) \<longleftrightarrow>
     length blob = pubBlobLen \<and> take 2 blob = keyAlgTag \<and> pub = drop (2 + keyIDLen) blob \<and>
     i = keyIDFromPublic sum256 pub \<and> i = take keyIDLen (drop 2 blob)"
  by (auto simp: parsePublicKeyBlob_def Let_def)

lemma parse_encoded_blob:
  assumes "length pub = pubKeyLen" "length (keyIDFromPublic sum256 pub) = keyIDLen"
  shows "parsePublicKeyBlob sum256 (keyAlgTag @ keyIDFromPublic sum256 pub @ pub) =
    Inr (keyIDFromPublic sum256 pub, pub)"
  using assms by (simp add: parsePublicKeyBlob_Inr keyAlgTag_def pubBlobLen_def keyIDLen_def)

lemma load_encoded:
  assumes "length pub = pubKeyLen" "length (sum256 pub) \<ge> 8"
    and "comment_fits labelPublic (hex_encode (take 8 (sum256 pub))) comment"
  shows "loadPublicKeyFile sum256 file (Some (encodePublicKeyFile sum256 pub comment)) =
    Inr \<lparr>pk_KeyID = hex_encode (take 8 (sum256 pub)), pk_Algorithm = AlgorithmEd25519,
      pk_Comment = comment, pk_Raw = pub, pk_Source = file\<rparr>"
proof -
  let ?i = "keyIDFromPublic sum256 pub"
  have i: "?i = take 8 (sum256 pub)" "length ?i = keyIDLen"
    using assms(2) by (simp_all add: keyIDFromPublic_def keyIDLen_def)
  have len: "length (keyAlgTag @ ?i @ pub) < 30000" "keyAlgTag @ ?i @ pub \<noteq> []"
    using assms(1) i(2) by (simp_all add: keyAlgTag_def keyIDLen_def pubKeyLen_def)
  have lab: "newline \<notin> set labelPublic" "CHR 0x0D \<notin> set labelPublic" by code_simp+
  have hex: "newline \<notin> set (keyIDHex ?i)" "CHR 0x0D \<notin> set (keyIDHex ?i)" "CHR '' '' \<notin> set (keyIDHex ?i)"
    using hex_encode_plain by (auto simp: keyIDHex_def)
  have "decodeKeyFile (encodePublicKeyFile sum256 pub comment) =
      Inr (comment_line labelPublic (keyIDHex ?i) comment, keyAlgTag @ ?i @ pub)"
    unfolding encodePublicKeyFile_def Let_def using assms(3) lab hex len
    by (intro decode_encoded) (simp_all add: keyIDHex_def i(1))
  then show ?thesis
    using parse_encoded_blob [OF assms(1) i(2)] parse_comment_line [OF hex(3)]
    by (simp add: loadPublicKeyFile_def) (simp add: keyIDHex_def i(1))
qed

section \<open>Properties\<close>

text \<open>
  The identity of a loaded key is that of its material: when \<^verbatim>\<open>loadPublicKeyFile\<close> accepts a file, the
  key id is the hex form of the first eight bytes of the hash of the 32-byte key in it, whatever the
  id the file's blob or comment line carries.
\<close>

theorem loaded_key_id_is_derived:
  assumes "loadPublicKeyFile sum256 file raw = Inr k"
  shows "length (pk_Raw k) = pubKeyLen \<and> pk_Algorithm k = AlgorithmEd25519 \<and> pk_Source k = file \<and>
    pk_KeyID k = hex_encode (take 8 (sum256 (pk_Raw k)))"
proof -
  from assms obtain bytes line blob i pub where "decodeKeyFile bytes = Inr (line, blob)"
    and b: "parsePublicKeyBlob sum256 blob = Inr (i, pub)"
    and k: "pk_KeyID k = keyIDHex i" "pk_Algorithm k = AlgorithmEd25519" "pk_Raw k = pub" "pk_Source k = file"
    by (auto simp: loadPublicKeyFile_def split: option.splits sum.splits prod.splits if_splits)
  then show ?thesis
    by (auto simp: parsePublicKeyBlob_Inr keyIDHex_def keyIDFromPublic_def keyIDLen_def pubBlobLen_def)
qed

definition demo_pub :: string where
  "demo_pub = replicate 32 CHR ''k''"

definition demo_sum :: raw_hasher where
  "demo_sum s = replicate 32 (if s = demo_pub then CHR ''Z'' else CHR ''0'')"

definition demo_key_file :: string where
  "demo_key_file = encodePublicKeyFile demo_sum demo_pub ''release 2026''"

text \<open>
  Round trip: a public key file that \<^verbatim>\<open>encodePublicKeyFile\<close> wrote is loaded back as the same key,
  under the derived id and with the same comment, for every comment that fits on its line.
\<close>

theorem public_key_file_roundtrip:
  assumes "length pub = pubKeyLen" "length (sum256 pub) \<ge> 8"
    and "comment_fits labelPublic (hex_encode (take 8 (sum256 pub))) comment"
  shows "loadPublicKeyFile sum256 file (Some (encodePublicKeyFile sum256 pub comment)) =
    Inr \<lparr>pk_KeyID = hex_encode (take 8 (sum256 pub)), pk_Algorithm = AlgorithmEd25519,
      pk_Comment = comment, pk_Raw = pub, pk_Source = file\<rparr>"
  by (rule load_encoded [of "pub" "sum256" "comment" "file", OF assms])

lemma demo_comment_fits:
  "comment_fits labelPublic (hex_encode (take 8 (demo_sum demo_pub))) ''release 2026''"
proof -
  let ?l = "comment_line labelPublic (hex_encode (take 8 (demo_sum demo_pub))) ''release 2026''"
  have "length ?l = 74" "trim_space ?l = ?l"
    "newline \<notin> set ''release 2026''" "CHR 0x0D \<notin> set ''release 2026''" by code_simp+
  then show ?thesis by (simp add: comment_fits_def MaxScanTokenSize_def)
qed

theorem public_key_file_roundtrip_witness:
  "loadPublicKeyFile demo_sum ''op.pub'' (Some demo_key_file) =
    Inr \<lparr>pk_KeyID = hex_encode (take 8 (demo_sum demo_pub)), pk_Algorithm = AlgorithmEd25519,
      pk_Comment = ''release 2026'', pk_Raw = demo_pub, pk_Source = ''op.pub''\<rparr>"
  unfolding demo_key_file_def
proof (rule public_key_file_roundtrip)
  show "comment_fits labelPublic (hex_encode (take 8 (demo_sum demo_pub))) ''release 2026''"
    by (rule demo_comment_fits)
qed (simp_all add: demo_pub_def demo_sum_def pubKeyLen_def)

theorem loaded_key_id_is_derived_witness:
  "\<exists>k. loadPublicKeyFile demo_sum ''op.pub'' (Some demo_key_file) = Inr k \<and>
     pk_KeyID k = hex_encode (take 8 (demo_sum (pk_Raw k)))"
proof -
  have "length demo_pub = pubKeyLen" "length (demo_sum demo_pub) \<ge> 8"
    by (simp_all add: demo_pub_def demo_sum_def pubKeyLen_def)
  from load_encoded [of demo_pub demo_sum "''release 2026''" "''op.pub''", OF this demo_comment_fits] obtain k
    where k: "loadPublicKeyFile demo_sum ''op.pub'' (Some demo_key_file) = Inr k"
    unfolding demo_key_file_def by blast
  with loaded_key_id_is_derived [OF k] show ?thesis by blast
qed

end
