(* ===== verification/Go_Path.thy ===== *)
theory Go_Path
  imports Go_Prelude
begin

text \<open>
  The standard library's \<^verbatim>\<open>path.Clean\<close> and \<^verbatim>\<open>utf8.ValidString\<close> as the modelled packages use them, and
  the contract of a path check (the locale \<open>path_gate\<close>): what it accepts names a file below the
  directory it is joined to, under exactly one name.
\<close>

section \<open>path.Clean\<close>

text \<open>
  The segments already written, last one first, and what one more segment does to them: an empty
  segment or a dot is dropped, a dot-dot removes the last segment unless that is itself a
  dot-dot, and at the start it is dropped in a rooted path and kept in a relative one.
\<close>

definition clean_step :: "bool \<Rightarrow> string list \<Rightarrow> string \<Rightarrow> string list" where
  "clean_step rooted st seg =
     (if seg = '''' \<or> seg = ''.'' then st
      else if seg = ''..'' then
        (case st of
           [] \<Rightarrow> if rooted then [] else [''..'']
         | t # ts \<Rightarrow> if t = ''..'' then ''..'' # st else ts)
      else seg # st)"

definition clean_segs :: "bool \<Rightarrow> string list \<Rightarrow> string list" where
  "clean_segs rooted segs = rev (foldl (clean_step rooted) [] segs)"

abbreviation slash :: char where
  "slash \<equiv> CHR ''/''"

definition path_Clean :: "path \<Rightarrow> path" where
  "path_Clean p =
     (if p = '''' then ''.''
      else
        let rooted = (hd p = slash);
            out = join_with [slash] (clean_segs rooted (split_on slash p))
        in if rooted then slash # out else if out = '''' then ''.'' else out)"

text \<open>\<^verbatim>\<open>filepath.Join\<close> and \<^verbatim>\<open>filepath.Dir\<close> on a Unix path.\<close>

definition filepath_Join :: "path list \<Rightarrow> path" where
  "filepath_Join ps =
     (let elems = filter (\<lambda>p. p \<noteq> '''') ps
      in if elems = [] then '''' else path_Clean (join_with [slash] elems))"

definition filepath_Dir :: "path \<Rightarrow> path" where
  "filepath_Dir p =
     (case last_index_byte slash p of None \<Rightarrow> ''.'' | Some i \<Rightarrow> path_Clean (take (Suc i) p))"

definition safe_segment :: "string \<Rightarrow> bool" where
  "safe_segment s \<longleftrightarrow> s \<noteq> '''' \<and> s \<noteq> ''.'' \<and> s \<noteq> ''..''"

definition safe_rel_path :: "path \<Rightarrow> bool" where
  "safe_rel_path p \<longleftrightarrow> (\<forall>seg \<in> set (split_on slash p). safe_segment seg)"

lemma foldl_clean_safe:
  "\<forall>s \<in> set segs. safe_segment s \<Longrightarrow> foldl (clean_step r) st segs = rev segs @ st"
  by (induction segs arbitrary: st) (auto simp: clean_step_def safe_segment_def)

lemma clean_segs_append_safe:
  "\<forall>s \<in> set ps. safe_segment s \<Longrightarrow> clean_segs r (bs @ ps) = clean_segs r bs @ ps"
  by (simp add: clean_segs_def foldl_clean_safe)

lemma clean_segs_safe: "\<forall>s \<in> set ps. safe_segment s \<Longrightarrow> clean_segs r ps = ps"
  using clean_segs_append_safe [of ps r "[]"] by (simp add: clean_segs_def)

lemma join_with_append:
  "xs \<noteq> [] \<Longrightarrow> ys \<noteq> [] \<Longrightarrow> join_with sep (xs @ ys) = join_with sep xs @ sep @ join_with sep ys"
proof (induction xs)
  case (Cons x xs)
  then show ?case by (cases xs; cases ys) auto
qed simp

lemma safe_rel_path_hd: "safe_rel_path p \<Longrightarrow> p \<noteq> '''' \<and> hd p \<noteq> slash"
  by (metis hd_in_set hd_split_on_Nil safe_rel_path_def safe_segment_def split_on_not_Nil)

lemma path_Clean_safe: "safe_rel_path p \<Longrightarrow> path_Clean p = p"
  using safe_rel_path_hd [of p]
  by (simp add: path_Clean_def safe_rel_path_def clean_segs_safe join_split_on)

lemma foldl_clean_nonempty:
  "\<forall>s \<in> set st. s \<noteq> '''' \<Longrightarrow> \<forall>s \<in> set (foldl (clean_step r) st segs). s \<noteq> ''''"
proof (induction segs arbitrary: st)
  case (Cons seg segs)
  have "\<forall>s \<in> set (clean_step r st seg). s \<noteq> ''''"
    using Cons.prems by (auto simp: clean_step_def split: list.splits)
  from Cons.IH [OF this] show ?case by simp
qed simp

text \<open>Joining a safe path to a directory only appends it to the cleaned directory.\<close>

lemma path_Clean_join:
  assumes "safe_rel_path p" "dir \<noteq> ''''" "clean_segs (hd dir = slash) (split_on slash dir) \<noteq> []"
  shows "path_Clean (dir @ slash # p) = path_Clean dir @ slash # p"
proof -
  let ?r = "hd dir = slash" and ?ds = "split_on slash dir"
  have hd: "hd (dir @ slash # p) = hd dir" using assms(2) by simp
  have "clean_segs ?r (split_on slash (dir @ slash # p)) = clean_segs ?r ?ds @ split_on slash p"
    using assms(1) by (simp add: split_on_append_sep safe_rel_path_def clean_segs_append_safe)
  then have join: "join_with [slash] (clean_segs ?r (split_on slash (dir @ slash # p)))
      = join_with [slash] (clean_segs ?r ?ds) @ slash # p"
    using assms(3) by (simp add: join_with_append join_split_on)
  have "join_with [slash] (clean_segs ?r ?ds) \<noteq> ''''"
  proof -
    obtain x xs where "clean_segs ?r ?ds = x # xs" using assms(3) by (cases "clean_segs ?r ?ds") auto
    moreover from this foldl_clean_nonempty [of "[]" ?r ?ds] have "x \<noteq> ''''"
      by (fastforce simp: clean_segs_def)
    ultimately show ?thesis by (cases xs) auto
  qed
  with join assms(2) show ?thesis
    by (cases ?r) (auto simp: path_Clean_def hd Let_def)
qed

lemma path_Clean_trailing: "p \<noteq> [] \<Longrightarrow> path_Clean (p @ [slash]) = path_Clean p"
proof -
  assume p: "p \<noteq> []"
  have "split_on slash (p @ [slash]) = split_on slash p @ ['''']"
    using split_on_append_sep [of slash p "[]"] by simp
  then show ?thesis using p by (simp add: path_Clean_def clean_segs_def clean_step_def)
qed

text \<open>A directory that is neither the root nor the current directory.\<close>

definition named_dir :: "path \<Rightarrow> bool" where
  "named_dir dir \<longleftrightarrow> dir \<noteq> '''' \<and> path_Clean dir \<noteq> ''.'' \<and> path_Clean dir \<noteq> ''/''"

lemma named_dir_segs:
  "named_dir dir \<Longrightarrow> dir \<noteq> '''' \<and> clean_segs (hd dir = slash) (split_on slash dir) \<noteq> []"
  by (auto simp: named_dir_def path_Clean_def Let_def split: if_splits)

section \<open>Cleaned relative paths are safe\<close>

lemma clean_stack_shape:
  assumes "\<forall>s \<in> set segs. slash \<notin> set s"
  shows "\<exists>k ss. foldl (clean_step False) [] segs = ss @ replicate k ''..'' \<and>
    (\<forall>s \<in> set ss. safe_segment s \<and> slash \<notin> set s)"
  using assms
proof (induction segs rule: rev_induct)
  case Nil
  then show ?case by (metis append_Nil empty_iff foldl_Nil list.set(1) replicate_0)
next
  case (snoc s segs)
  then obtain k ss where st: "foldl (clean_step False) [] segs = ss @ replicate k ''..''"
    and ss: "\<forall>s \<in> set ss. safe_segment s \<and> slash \<notin> set s" by auto
  show ?case
  proof (cases "safe_segment s")
    case True
    then have "foldl (clean_step False) [] (segs @ [s]) = (s # ss) @ replicate k ''..''"
      by (simp add: st clean_step_def safe_segment_def)
    with True ss snoc.prems show ?thesis by (metis in_set_conv_decomp set_ConsD)
  next
    case False
    show ?thesis
    proof (cases "s = ''..''")
      case dd: True
      show ?thesis
      proof (cases ss)
        case Nil
        have "foldl (clean_step False) [] (segs @ [s]) = [] @ replicate (Suc k) ''..''"
          by (cases k) (simp_all add: st Nil dd clean_step_def)
        then show ?thesis by (metis empty_iff list.set(1))
      next
        case (Cons t ts)
        then have "foldl (clean_step False) [] (segs @ [s]) = ts @ replicate k ''..''"
          using ss by (simp add: st dd clean_step_def safe_segment_def)
        with ss Cons show ?thesis by (metis list.set_intros(2))
      qed
    next
      case False
      then have "foldl (clean_step False) [] (segs @ [s]) = ss @ replicate k ''..''"
        using \<open>\<not> safe_segment s\<close> by (simp add: st clean_step_def safe_segment_def)
      with ss show ?thesis by blast
    qed
  qed
qed

lemma split_on_join:
  "xs \<noteq> [] \<Longrightarrow> \<forall>x \<in> set xs. c \<notin> set x \<Longrightarrow> split_on c (join_with [c] xs) = xs"
proof (induction xs)
  case (Cons x xs)
  then show ?case
    by (cases xs) (auto simp: split_on_no_occurrence split_on_append_sep)
qed simp

lemma clean_relative_safe:
  assumes "path_Clean q = p" "q \<noteq> ''''" "hd q \<noteq> slash"
    and "p \<noteq> ''.''" "p \<noteq> ''..''" "\<not> has_prefix p ''../''"
  shows "safe_rel_path p"
proof -
  obtain k ss where st: "foldl (clean_step False) [] (split_on slash q) = ss @ replicate k ''..''"
    and ss: "\<forall>s \<in> set ss. safe_segment s \<and> slash \<notin> set s"
    using clean_stack_shape [of "split_on slash q"] split_on_no_sep by blast
  let ?segs = "replicate k ''..'' @ rev ss"
  have cs: "clean_segs False (split_on slash q) = ?segs" by (simp add: clean_segs_def st)
  have p: "p = join_with [slash] ?segs" and ne: "?segs \<noteq> []"
    using assms by (auto simp: path_Clean_def cs Let_def split: if_splits)
  have "k = 0"
  proof (rule ccontr)
    assume "k \<noteq> 0"
    then obtain j where k: "k = Suc j" by (cases k) auto
    show False
    proof (cases "replicate j ''..'' @ rev ss")
      case Nil
      with p k assms(5) show False by simp
    next
      case (Cons x xs)
      with p k have "p = ''../'' @ join_with [slash] (x # xs)" by simp
      with assms(6) show False by (auto simp: has_prefix_iff)
    qed
  qed
  then have "split_on slash p = rev ss"
    using p ne ss split_on_join [of "rev ss" slash] by simp
  with ss show ?thesis by (simp add: safe_rel_path_def)
qed

lemmas cleaned_relative_safe = clean_relative_safe [where q = p and p = p for p]

section \<open>The contract of a path check\<close>

locale path_gate =
  fixes check :: "path \<Rightarrow> 'e option"
  assumes accepts_safe: "check p = None \<Longrightarrow> safe_rel_path p"
begin

lemma accepted_confined:
  assumes "check p = None" "named_dir dir"
  shows "path_Clean (dir @ slash # p) = path_Clean dir @ slash # p"
  using path_Clean_join [OF accepts_safe] assms named_dir_segs by blast

lemma accepted_one_name:
  assumes "check p = None" "check q = None" "named_dir dir"
    and "path_Clean (dir @ slash # p) = path_Clean (dir @ slash # q)"
  shows "p = q"
  using assms by (simp add: accepted_confined)

lemma accepted_clean: "check p = None \<Longrightarrow> path_Clean p = p"
  by (rule path_Clean_safe [OF accepts_safe])

end

section \<open>utf8.ValidString\<close>

definition cont_byte :: "char \<Rightarrow> bool" where
  "cont_byte c \<longleftrightarrow> 128 \<le> byte c \<and> byte c \<le> 191"

text \<open>The accepted second bytes after a lead byte of three or of four.\<close>

definition lead3 :: "char \<Rightarrow> char \<Rightarrow> bool" where
  "lead3 a b \<longleftrightarrow>
     byte a = 224 \<and> 160 \<le> byte b \<and> byte b \<le> 191 \<or>
     (225 \<le> byte a \<and> byte a \<le> 236 \<or> byte a = 238 \<or> byte a = 239) \<and> cont_byte b \<or>
     byte a = 237 \<and> 128 \<le> byte b \<and> byte b \<le> 159"

definition lead4 :: "char \<Rightarrow> char \<Rightarrow> bool" where
  "lead4 a b \<longleftrightarrow>
     byte a = 240 \<and> 144 \<le> byte b \<and> byte b \<le> 191 \<or>
     241 \<le> byte a \<and> byte a \<le> 243 \<and> cont_byte b \<or>
     byte a = 244 \<and> 128 \<le> byte b \<and> byte b \<le> 143"

fun utf8_ValidString :: "string \<Rightarrow> bool" where
  "utf8_ValidString [] = True"
| "utf8_ValidString (a # s) =
     (if byte a < 128 then utf8_ValidString s
      else case s of
        [] \<Rightarrow> False
      | b # s1 \<Rightarrow>
          if 194 \<le> byte a \<and> byte a \<le> 223 \<and> cont_byte b then utf8_ValidString s1
          else case s1 of
            [] \<Rightarrow> False
          | c # s2 \<Rightarrow>
              if lead3 a b \<and> cont_byte c then utf8_ValidString s2
              else case s2 of
                [] \<Rightarrow> False
              | d # s3 \<Rightarrow> lead4 a b \<and> cont_byte c \<and> cont_byte d \<and> utf8_ValidString s3)"

lemma utf8_valid_ascii: "\<forall>c \<in> set s. byte c < 128 \<Longrightarrow> utf8_ValidString (s @ t) = utf8_ValidString t"
  by (induction s) auto

end
