(* ===== verification/Digest.thy ===== *)
theory Digest
  imports Go_Prelude
begin

text \<open>
  \<^verbatim>\<open>src/core/digest/digest.go\<close>. The hash itself, \<^verbatim>\<open>crypto/sha256\<close> followed by \<^verbatim>\<open>hex.EncodeToString\<close>, is a
  parameter \<open>sha256\<close> of every definition that hashes: a function from bytes to a string. What the
  code relies on, that the string is 64 lowercase hex digits, is the hypothesis \<open>hex_hash sha256\<close>.
  No theorem assumes that the function is injective.
\<close>

type_synonym hasher = "string \<Rightarrow> string"

definition is_hex_byte :: "char \<Rightarrow> bool" where
  "is_hex_byte c \<longleftrightarrow> c \<in> set ''0123456789abcdef''"

text \<open>\<^verbatim>\<open>Valid\<close> and \<^verbatim>\<open>Equal\<close>.\<close>

definition digest_Valid :: "string \<Rightarrow> bool" where
  "digest_Valid s \<longleftrightarrow> length s = 64 \<and> list_all is_hex_byte s"

definition digest_Equal :: "string \<Rightarrow> string \<Rightarrow> bool" where
  "digest_Equal a b \<longleftrightarrow> equal_fold a b"

definition hex_hash :: "hasher \<Rightarrow> bool" where
  "hex_hash sha256 \<longleftrightarrow> (\<forall>b. digest_Valid (sha256 b))"

lemma hex_not_upper: "is_hex_byte c \<Longrightarrow> \<not> is_upper_byte c"
  by (auto simp: is_hex_byte_def is_upper_byte_def)

lemma digest_Valid_lower: "digest_Valid s \<Longrightarrow> to_lower s = s"
  by (rule to_lower_id) (auto simp: digest_Valid_def list_all_iff hex_not_upper)

text \<open>Two valid digests are equal in the sense of \<^verbatim>\<open>Equal\<close> exactly if they are the same string.\<close>

lemma digest_Equal_valid:
  "digest_Valid a \<Longrightarrow> digest_Valid b \<Longrightarrow> digest_Equal a b \<longleftrightarrow> a = b"
  by (auto simp: digest_Equal_def equal_fold_def digest_Valid_lower)

lemma digest_Equal_sym: "digest_Equal a b \<Longrightarrow> digest_Equal b a"
  by (simp add: digest_Equal_def equal_fold_sym)

lemma digest_Equal_trans: "digest_Equal a b \<Longrightarrow> digest_Equal b c \<Longrightarrow> digest_Equal a c"
  unfolding digest_Equal_def by (rule equal_fold_trans)

text \<open>A concrete hash-shaped function, for witnesses.\<close>

definition toy_hash :: hasher where
  "toy_hash b = replicate 62 (CHR ''0'') @
     [if b = '''' then CHR ''0'' else CHR ''a'', if length b mod 2 = 0 then CHR ''0'' else CHR ''1'']"

lemma toy_hash_hex: "hex_hash toy_hash"
  by (simp add: hex_hash_def digest_Valid_def toy_hash_def list_all_iff is_hex_byte_def)

end
