(* ===== verification/Bundle_Tree.thy ===== *)
theory Bundle_Tree
  imports Go_Sort Go_Path Digest
begin

text \<open>
  The directory tree of a bundle as the manifest builder and the verifier see it: \<^verbatim>\<open>filepath.WalkDir\<close>
  over it, and what opening one of its entries gives. An \<open>entry\<close> is a directory (with the error
  \<^verbatim>\<open>os.ReadDir\<close> reports on it, if any, and the entries it still returned), a regular file with its
  bytes, a regular file that cannot be read, or anything else (a symbolic link, a device, a socket),
  with its mode string, whether \<^verbatim>\<open>os.Stat\<close> succeeds on it and what opening it yields. The tree does not
  change while one operation runs over it.
\<close>

datatype read_result = ReadOK string | ReadNotExist | ReadError string

datatype entry =
    Dir "string option" "(string \<times> entry) list"
  | RegularFile string
  | UnreadableFile int string
  | Special string bool read_result

fun is_dir :: "entry \<Rightarrow> bool" where
  "is_dir (Dir _ _) = True"
| "is_dir _ = False"

fun is_regular :: "entry \<Rightarrow> bool" where
  "is_regular (RegularFile _) = True"
| "is_regular (UnreadableFile _ _) = True"
| "is_regular _ = False"

fun read_entry :: "entry \<Rightarrow> read_result" where
  "read_entry (Dir _ _) = ReadError ''is a directory''"
| "read_entry (RegularFile b) = ReadOK b"
| "read_entry (UnreadableFile _ msg) = ReadError msg"
| "read_entry (Special _ _ r) = r"

text \<open>The size \<^verbatim>\<open>os.Stat\<close> reports, where it succeeds.\<close>

fun stat_entry :: "entry \<Rightarrow> int option" where
  "stat_entry (Dir _ _) = Some 4096"
| "stat_entry (RegularFile b) = Some (int (length b))"
| "stat_entry (UnreadableFile n _) = Some n"
| "stat_entry (Special _ ok r) =
     (if ok then Some (case r of ReadOK b \<Rightarrow> int (length b) | _ \<Rightarrow> 0) else None)"

text \<open>A file directly below the root.\<close>

fun root_entry :: "entry \<Rightarrow> string \<Rightarrow> entry option" where
  "root_entry (Dir _ es) name = map_of es name"
| "root_entry _ name = None"

definition root_read :: "entry \<Rightarrow> string \<Rightarrow> read_result" where
  "root_read t name = (case root_entry t name of None \<Rightarrow> ReadNotExist | Some e \<Rightarrow> read_entry e)"

definition root_stat :: "entry \<Rightarrow> string \<Rightarrow> int option" where
  "root_stat t name = (case root_entry t name of None \<Rightarrow> None | Some e \<Rightarrow> stat_entry e)"

text \<open>\<^verbatim>\<open>digest.SHA256File\<close>: the hash and the number of bytes read.\<close>

definition SHA256File :: "hasher \<Rightarrow> entry \<Rightarrow> string + string \<times> int" where
  "SHA256File sha256 e =
     (case read_entry e of
        ReadOK b \<Rightarrow> Inr (sha256 b, int (length b))
      | ReadNotExist \<Rightarrow> Inl ''file does not exist''
      | ReadError msg \<Rightarrow> Inl msg)"

section \<open>filepath.WalkDir\<close>

definition rel_join :: "path \<Rightarrow> string \<Rightarrow> path" where
  "rel_join p n = (if p = '''' then n else p @ [slash] @ n)"

datatype walk_event = Visit path entry | VisitErr path string

text \<open>
  The calls of the callback, in order: a directory, then its read error if there is one, then its
  entries in lexical order. Paths are relative to the root, which itself is the empty path.
\<close>

lemma entry_size_in_dir [termination_simp]:
  "x \<in> set es \<Longrightarrow> size (snd x) < Suc (size_option size err + size_list (size_prod size size) es)"
  by (induction es) (auto simp: less_Suc_eq_le)

fun walk :: "path \<Rightarrow> entry \<Rightarrow> walk_event list" where
  "walk p (Dir err es) =
     Visit p (Dir err es) #
     (case err of None \<Rightarrow> [] | Some msg \<Rightarrow> [VisitErr p msg]) @
     concat (map (\<lambda>x. walk (rel_join p (fst x)) (snd x)) (sort_key fst es))"
| "walk p e = [Visit p e]"

text \<open>The visited entries that are not directories.\<close>

fun event_leaf :: "walk_event \<Rightarrow> (path \<times> entry) list" where
  "event_leaf (Visit p e) = (if is_dir e then [] else [(p, e)])"
| "event_leaf (VisitErr _ _) = []"

definition leaves :: "entry \<Rightarrow> (path \<times> entry) list" where
  "leaves t = concat (map event_leaf (walk '''' t))"

text \<open>The entry a path of names leads to.\<close>

fun tree_lookup :: "entry \<Rightarrow> string list \<Rightarrow> entry option" where
  "tree_lookup e [] = Some e"
| "tree_lookup (Dir err es) (n # ns) =
     (case map_of es n of None \<Rightarrow> None | Some e \<Rightarrow> tree_lookup e ns)"
| "tree_lookup e (n # ns) = None"

text \<open>Names in one directory are distinct, are not empty and contain no slash.\<close>

fun wf_tree :: "entry \<Rightarrow> bool" where
  "wf_tree (Dir err es) \<longleftrightarrow> distinct (map fst es) \<and>
     (\<forall>x \<in> set es. fst x \<noteq> '''' \<and> slash \<notin> set (fst x) \<and> wf_tree (snd x))"
| "wf_tree e \<longleftrightarrow> True"

section \<open>Lemmas\<close>

definition good_names :: "string list \<Rightarrow> bool" where
  "good_names ns \<longleftrightarrow> (\<forall>n \<in> set ns. n \<noteq> '''' \<and> slash \<notin> set n)"

text \<open>A path of names joined with slashes is read back by splitting it.\<close>

definition names_path :: "string list \<Rightarrow> path" where
  "names_path ns = join_with [slash] ns"

lemma names_path_Nil [simp]: "names_path [] = ''''"
  by (simp add: names_path_def)

lemma join_with_snoc: "xs \<noteq> [] \<Longrightarrow> join_with s (xs @ [x]) = join_with s xs @ s @ x"
proof (induction xs)
  case (Cons y ys)
  then show ?case by (cases ys) auto
qed simp

lemma names_path_empty: "good_names ns \<Longrightarrow> names_path ns = '''' \<longleftrightarrow> ns = []"
proof (cases ns)
  case (Cons n ms)
  then show "good_names ns \<Longrightarrow> ?thesis"
    by (cases ms) (auto simp: names_path_def good_names_def)
qed simp

lemma rel_join_names: "good_names ns \<Longrightarrow> rel_join (names_path ns) n = names_path (ns @ [n])"
  using names_path_empty [of ns]
  by (cases "ns = []") (auto simp: rel_join_def names_path_def join_with_snoc)

lemma split_names_path: "ns \<noteq> [] \<Longrightarrow> good_names ns \<Longrightarrow> split_on slash (names_path ns) = ns"
  unfolding names_path_def by (rule split_on_join) (auto simp: good_names_def)

lemma names_path_inj:
  assumes "good_names ns" "good_names ms" "names_path ns = names_path ms"
  shows "ns = ms"
  by (metis assms names_path_empty split_names_path)

lemma good_names_append [simp]: "good_names (xs @ ys) \<longleftrightarrow> good_names xs \<and> good_names ys"
  by (auto simp: good_names_def)

lemma good_names_Cons [simp]: "good_names (n # ns) \<longleftrightarrow> n \<noteq> '''' \<and> slash \<notin> set n \<and> good_names ns"
  by (auto simp: good_names_def)

lemma good_names_Nil [simp]: "good_names []"
  by (simp add: good_names_def)

lemma lookup_good_names:
  "wf_tree t \<Longrightarrow> tree_lookup t ns = Some e \<Longrightarrow> good_names ns"
proof (induction t ns rule: tree_lookup.induct)
  case (2 err es n ns)
  then obtain e' where e': "map_of es n = Some e'" "tree_lookup e' ns = Some e"
    by (auto split: option.splits)
  then have "(n, e') \<in> set es" by (simp add: map_of_SomeD)
  with 2(2) have "n \<noteq> ''''" "slash \<notin> set n" "wf_tree e'" by auto
  with 2(1) [OF e'(1) this(3) e'(2)] show ?case by (simp add: good_names_def)
qed (auto simp: good_names_def)

lemma lookup_append: "tree_lookup t (ns @ ms) = (case tree_lookup t ns of None \<Rightarrow> None | Some e \<Rightarrow> tree_lookup e ms)"
  by (induction t ns rule: tree_lookup.induct) (auto split: option.split)

lemma wf_tree_lookup: "wf_tree t \<Longrightarrow> tree_lookup t ns = Some e \<Longrightarrow> wf_tree e"
proof (induction t ns rule: tree_lookup.induct)
  case (2 err es n ns)
  then obtain e' where e': "map_of es n = Some e'" "tree_lookup e' ns = Some e" by (auto split: option.splits)
  then have "(n, e') \<in> set es" by (simp add: map_of_SomeD)
  with 2(2) have "wf_tree e'" by auto
  with 2(1) [OF e'(1)] e'(2) show ?case by blast
qed auto

lemma lookup_child:
  assumes "distinct (map fst es)"
  shows "(\<exists>n ns. P n ns \<and> tree_lookup (Dir err es) (n # ns) = Some e) \<longleftrightarrow>
    (\<exists>x \<in> set es. \<exists>ns. P (fst x) ns \<and> tree_lookup (snd x) ns = Some e)"
proof
  assume "\<exists>n ns. P n ns \<and> tree_lookup (Dir err es) (n # ns) = Some e"
  then obtain n ns e' where "P n ns" "map_of es n = Some e'" "tree_lookup e' ns = Some e"
    by (auto split: option.splits)
  then show "\<exists>x \<in> set es. \<exists>ns. P (fst x) ns \<and> tree_lookup (snd x) ns = Some e"
    by (intro bexI [of _ "(n, e')"] exI [of _ ns]) (auto dest: map_of_SomeD)
next
  assume "\<exists>x \<in> set es. \<exists>ns. P (fst x) ns \<and> tree_lookup (snd x) ns = Some e"
  then obtain n e' ns where "(n, e') \<in> set es" "P n ns" "tree_lookup e' ns = Some e" by auto
  with assms show "\<exists>n ns. P n ns \<and> tree_lookup (Dir err es) (n # ns) = Some e"
    by (intro exI [of _ n] exI [of _ ns]) auto
qed

text \<open>The walk visits exactly the entries of the tree, each under the path of its names.\<close>

lemma walk_visits:
  assumes "wf_tree t" "good_names ps"
  shows "Visit q e \<in> set (walk (names_path ps) t) \<longleftrightarrow>
    (\<exists>ns. q = names_path (ps @ ns) \<and> tree_lookup t ns = Some e)"
  using assms
proof (induction "names_path ps" t arbitrary: ps rule: walk.induct)
  case (1 err es)
  have IH: "x \<in> set es \<Longrightarrow> Visit q e \<in> set (walk (rel_join (names_path ps) (fst x)) (snd x)) \<longleftrightarrow>
      (\<exists>ns. q = names_path (ps @ fst x # ns) \<and> tree_lookup (snd x) ns = Some e)" for x
    using 1(1) [of x "ps @ [fst x]"] 1(2,3) by (auto simp: rel_join_names)
  have "(\<exists>ns. q = names_path (ps @ ns) \<and> tree_lookup (Dir err es) ns = Some e) \<longleftrightarrow>
      (q = names_path ps \<and> e = Dir err es) \<or>
      (\<exists>n ns. q = names_path (ps @ n # ns) \<and> tree_lookup (Dir err es) (n # ns) = Some e)"
    (is "?L \<longleftrightarrow> ?R")
  proof
    assume ?L
    then obtain ns where "q = names_path (ps @ ns)" "tree_lookup (Dir err es) ns = Some e" by blast
    then show ?R by (cases ns) auto
  next
    assume ?R
    then show ?L by (metis append_Nil2 tree_lookup.simps(1))
  qed
  also have "(\<exists>n ns. q = names_path (ps @ n # ns) \<and> tree_lookup (Dir err es) (n # ns) = Some e) \<longleftrightarrow>
      (\<exists>x \<in> set es. \<exists>ns. q = names_path (ps @ fst x # ns) \<and> tree_lookup (snd x) ns = Some e)"
    using 1(2) by (intro lookup_child) simp
  finally show ?case using IH by (auto split: option.splits)
qed (auto elim: tree_lookup.elims intro: exI [of _ "[]"])

lemma distinct_concat_map:
  assumes "distinct (map fst xs)" "\<And>x. x \<in> set xs \<Longrightarrow> distinct (g x)"
    and "\<And>x y. x \<in> set xs \<Longrightarrow> y \<in> set xs \<Longrightarrow> fst x \<noteq> fst y \<Longrightarrow> set (g x) \<inter> set (g y) = {}"
  shows "distinct (concat (map g xs))"
  using assms
proof (induction xs)
  case (Cons x xs)
  have "distinct (concat (map g xs))" by (rule Cons.IH) (use Cons.prems in auto)
  moreover have "set (g x) \<inter> set (g y) = {}" if "y \<in> set xs" for y
    using that Cons.prems(1) by (intro Cons.prems(3)) (auto simp: rev_image_eqI)
  ultimately show ?case using Cons.prems(2) [of x] by auto
qed simp

lemma leaves_walk: "(q, e) \<in> set (concat (map event_leaf evs)) \<longleftrightarrow> Visit q e \<in> set evs \<and> \<not> is_dir e"
proof (induction evs)
  case (Cons ev evs)
  then show ?case by (cases ev) auto
qed simp

lemma leaves_iff:
  assumes "wf_tree t"
  shows "(q, e) \<in> set (leaves t) \<longleftrightarrow> (\<exists>ns. q = names_path ns \<and> tree_lookup t ns = Some e \<and> \<not> is_dir e)"
  using walk_visits [OF assms, of "[]" q e] unfolding leaves_def leaves_walk by auto

lemma leaf_paths_concat:
  "map fst (concat (map event_leaf (concat (map w xs)))) =
   concat (map (\<lambda>x. map fst (concat (map event_leaf (w x)))) xs)"
  by (induction xs) simp_all

lemma leaf_paths_distinct:
  assumes "wf_tree t" "good_names ps"
  shows "distinct (map fst (concat (map event_leaf (walk (names_path ps) t))))"
  using assms
proof (induction "names_path ps" t arbitrary: ps rule: walk.induct)
  case (1 err es)
  let ?L = "\<lambda>x. map fst (concat (map event_leaf (walk (rel_join (names_path ps) (fst x)) (snd x))))"
  have child: "good_names (ps @ [fst x])" "wf_tree (snd x)"
    "rel_join (names_path ps) (fst x) = names_path (ps @ [fst x])" if "x \<in> set es" for x
    using 1(2,3) that by (auto simp: rel_join_names)
  have paths: "q \<in> set (?L x) \<Longrightarrow> \<exists>ns. q = names_path (ps @ fst x # ns) \<and> good_names (ps @ fst x # ns)"
    if x: "x \<in> set es" for x q
  proof -
    let ?evs = "walk (rel_join (names_path ps) (fst x)) (snd x)"
    assume "q \<in> set (?L x)"
    then have "q \<in> fst ` set (concat (map event_leaf ?evs))" by (simp only: set_map)
    then obtain e where "(q, e) \<in> set (concat (map event_leaf ?evs))" by (auto simp del: set_concat)
    then have "Visit q e \<in> set ?evs" unfolding leaves_walk by simp
    then obtain ns where "q = names_path (ps @ fst x # ns)" "tree_lookup (snd x) ns = Some e"
      using walk_visits [OF child(2,1) [OF x], of q e] child(3) [OF x] by auto
    with child(1,2) [OF x] lookup_good_names show ?thesis by fastforce
  qed
  have "distinct (concat (map ?L (sort_key fst es)))"
  proof (rule distinct_concat_map)
    have "mset (map fst (sort_key fst es)) = mset (map fst es)" by simp
    then have "distinct (map fst (sort_key fst es)) = distinct (map fst es)"
      by (rule mset_eq_imp_distinct_iff)
    with 1(2) show "distinct (map fst (sort_key fst es))" by simp
    show "distinct (?L x)" if "x \<in> set (sort_key fst es)" for x
      using 1(1) [of x "ps @ [fst x]"] child [of x] that by simp
    fix x y
    assume xy: "x \<in> set (sort_key fst es)" "y \<in> set (sort_key fst es)" "fst x \<noteq> fst y"
    show "set (?L x) \<inter> set (?L y) = {}"
    proof (rule ccontr)
      assume "\<not> ?thesis"
      then obtain q where "q \<in> set (?L x)" "q \<in> set (?L y)" by blast
      then obtain ns ms where "names_path (ps @ fst x # ns) = names_path (ps @ fst y # ms)"
        "good_names (ps @ fst x # ns)" "good_names (ps @ fst y # ms)"
        using paths xy(1,2) by (metis set_sort)
      with names_path_inj xy(3) show False by blast
    qed
  qed
  then show ?case
    unfolding leaf_paths_concat [symmetric] by (simp split: option.splits)
qed simp_all

lemma leaves_distinct: "wf_tree t \<Longrightarrow> distinct (map fst (leaves t))"
  using leaf_paths_distinct [of t "[]"] by (simp add: leaves_def)

end
