(* ===== verification/Manifest.thy ===== *)
theory Manifest
  imports Bundle_Tree Dferr
begin

text \<open>
  The manifest package (\<^verbatim>\<open>src/core/manifest/types.go\<close> and \<^verbatim>\<open>api.go\<close>): the document types, the path rule
  \<^verbatim>\<open>checkFilePath\<close>, \<^verbatim>\<open>Build\<close> over the bundle tree, and \<^verbatim>\<open>Load\<close> and \<^verbatim>\<open>LoadSignature\<close>. The JSON decoders
  and the canonical transform are the fields of the record \<open>doc_codec\<close>.
\<close>

section \<open>The documents\<close>

record tool =
  tl_Name :: string
  tl_Version :: string
  tl_BuildDigest :: string
  tl_Edition :: string

record manifest_target =
  mt_DistroID :: string
  mt_VersionID :: string
  mt_Codename :: string
  mt_Arch :: string
  mt_ForeignArchs :: "string list"

record repository =
  rp_PackagesSHA256 :: string
  rp_PackagesGzSHA256 :: string
  rp_ReleaseSHA256 :: string
  rp_InReleaseSHA256 :: string
  rp_ReleaseGPGSHA256 :: string
  rp_PackageCount :: int
  rp_PoolBytes :: int

record manifest_file =
  mf_Path :: path
  mf_Size :: int
  mf_SHA256 :: string

record manifest =
  mn_SchemaVersion :: string
  mn_BundleID :: string
  mn_CreatedAt :: string
  mn_FormatVersion :: int
  mn_Tool :: tool
  mn_SnapshotDigest :: string
  mn_LockDigest :: string
  mn_Repository :: repository
  mn_Files :: "manifest_file list"
  mn_Target :: manifest_target
  mn_SBOMRef :: string
  mn_EvidenceRef :: string

record signature =
  sg_SignerKind :: string
  sg_KeyID :: string
  sg_Algorithm :: string
  sg_CreatedAt :: string
  sg_Signature :: string
  sg_Comment :: string

record signature_file =
  sf_Schema :: string
  sf_ManifestSHA256 :: string
  sf_Signatures :: "signature list"

definition manifest_SchemaVersion :: string where
  "manifest_SchemaVersion = ''debark.manifest/v1''"

definition SignatureSchemaVersion :: string where
  "SignatureSchemaVersion = ''debark.signature/v1''"

definition manifest_FileName :: string where
  "manifest_FileName = ''debark.manifest.json''"

definition SigFileName :: string where
  "SigFileName = ''debark.manifest.sig''"

definition SignPurpose :: string where
  "SignPurpose = ''debark.manifest/v1''"

definition CurrentFormatVersion :: int where
  "CurrentFormatVersion = 1"

text \<open>
  \<open>dc_top\<close> is the key set of the top-level object (\<^verbatim>\<open>json.Unmarshal\<close> into a map of raw messages),
  \<open>dc_manifest\<close> and \<open>dc_signature\<close> the typed decodes, \<open>dc_transform\<close> is \<^verbatim>\<open>canonical.Transform\<close> and
  \<open>dc_pair\<close> the canonical digest of the object with a lock digest and a timestamp.
\<close>

record doc_codec =
  dc_top :: "string \<Rightarrow> string list option"
  dc_manifest :: "string \<Rightarrow> manifest option"
  dc_signature :: "string \<Rightarrow> signature_file option"
  dc_transform :: "string \<Rightarrow> string option"
  dc_pair :: "string \<Rightarrow> string \<Rightarrow> string option"

section \<open>The path rule\<close>

datatype path_error =
    PathEmpty | PathTooLong | PathNotUTF8 | PathBackslash | PathControl char
  | PathAbsolute | PathDrive | PathEscapes | PathNotClean path

definition path_byte_error :: "char \<Rightarrow> path_error option" where
  "path_byte_error c =
     (if c = CHR 0x5C then Some PathBackslash
      else if is_control_byte c then Some (PathControl c) else None)"

definition checkFilePath :: "path \<Rightarrow> path_error option" where
  "checkFilePath p =
     (if p = '''' then Some PathEmpty
      else if length p > 4096 then Some PathTooLong
      else if \<not> utf8_ValidString p then Some PathNotUTF8
      else case first_error path_byte_error p of
        Some e \<Rightarrow> Some e
      | None \<Rightarrow>
          if hd p = slash then Some PathAbsolute
          else if length p \<ge> 2 \<and> p ! 1 = CHR '':'' then Some PathDrive
          else if p = ''.'' \<or> p = ''..'' \<or> p = ''./'' \<or> length p \<ge> 3 \<and> take 3 p = ''../''
          then Some PathEscapes
          else if path_Clean p \<noteq> p then Some (PathNotClean (path_Clean p))
          else None)"

section \<open>Checking and loading a manifest\<close>

datatype doc_error =
    NoFilesKey
  | BadPath nat path_error
  | DuplicatePath nat path
  | NegativeSize nat path int
  | BadSHA256 nat path string

fun check_files :: "path list \<Rightarrow> nat \<Rightarrow> manifest_file list \<Rightarrow> doc_error option" where
  "check_files seen i [] = None"
| "check_files seen i (f # fs) =
     (case checkFilePath (mf_Path f) of
        Some e \<Rightarrow> Some (BadPath i e)
      | None \<Rightarrow>
          if mf_Path f \<in> set seen then Some (DuplicatePath i (mf_Path f))
          else if mf_Size f < 0 then Some (NegativeSize i (mf_Path f) (mf_Size f))
          else if \<not> digest_Valid (mf_SHA256 f) then Some (BadSHA256 i (mf_Path f) (mf_SHA256 f))
          else check_files (mf_Path f # seen) (Suc i) fs)"

definition checkDocument :: "manifest \<Rightarrow> string list \<Rightarrow> doc_error option" where
  "checkDocument m keys =
     (if ''files'' \<notin> set keys then Some NoFilesKey else check_files [] 0 (mn_Files m))"

datatype manifest_error =
    MNotExist | MReadFailed string | MTooLarge | MNotObject | MDecodeFailed
  | MNoSchemaKey | MUnknownSchema string | MDocument doc_error | MCanonicalise

fun manifest_error_class :: "manifest_error \<Rightarrow> err_class" where
  "manifest_error_class MTooLarge = Verification"
| "manifest_error_class (MDocument _) = Verification"
| "manifest_error_class _ = Usage"

text \<open>\<^verbatim>\<open>errors.Is(err, ErrUnknownSchema)\<close>.\<close>

fun is_unknown_schema :: "manifest_error \<Rightarrow> bool" where
  "is_unknown_schema MNoSchemaKey = True"
| "is_unknown_schema (MUnknownSchema _) = True"
| "is_unknown_schema _ = False"

definition maxManifestSize :: nat where
  "maxManifestSize = 16 * 2 ^ 20"

definition readBounded :: "read_result \<Rightarrow> manifest_error + string" where
  "readBounded r =
     (case r of
        ReadNotExist \<Rightarrow> Inl MNotExist
      | ReadError msg \<Rightarrow> Inl (MReadFailed msg)
      | ReadOK raw \<Rightarrow> if maxManifestSize + 1 - length raw = 0 then Inl MTooLarge else Inr raw)"

definition manifest_Load :: "doc_codec \<Rightarrow> entry \<Rightarrow> manifest_error + manifest \<times> string" where
  "manifest_Load cd tree =
     (case readBounded (root_read tree manifest_FileName) of
        Inl e \<Rightarrow> Inl e
      | Inr raw \<Rightarrow>
          (case dc_top cd raw of
             None \<Rightarrow> Inl MNotObject
           | Some keys \<Rightarrow>
               (case dc_manifest cd raw of
                  None \<Rightarrow> Inl MDecodeFailed
                | Some m \<Rightarrow>
                    if ''schema_version'' \<notin> set keys then Inl MNoSchemaKey
                    else if mn_SchemaVersion m \<noteq> manifest_SchemaVersion
                    then Inl (MUnknownSchema (mn_SchemaVersion m))
                    else case checkDocument m keys of
                      Some e \<Rightarrow> Inl (MDocument e)
                    | None \<Rightarrow>
                        (case dc_transform cd raw of
                           None \<Rightarrow> Inl MCanonicalise
                         | Some canon \<Rightarrow> Inr (m, canon)))))"

text \<open>A missing signature file is not an error.\<close>

definition LoadSignature :: "doc_codec \<Rightarrow> entry \<Rightarrow> manifest_error + signature_file option" where
  "LoadSignature cd tree =
     (case root_read tree SigFileName of
        ReadNotExist \<Rightarrow> Inr None
      | ReadError msg \<Rightarrow> Inl (MReadFailed msg)
      | ReadOK raw \<Rightarrow>
          (case dc_signature cd raw of
             None \<Rightarrow> Inl MDecodeFailed
           | Some sig \<Rightarrow>
               if sf_Schema sig \<noteq> SignatureSchemaVersion then Inl (MUnknownSchema (sf_Schema sig))
               else Inr (Some sig)))"

section \<open>Building a manifest\<close>

record build_input =
  bi_Dir :: string
  bi_SnapshotDigest :: string
  bi_LockDigest :: string
  bi_Repository :: repository
  bi_Target :: manifest_target
  bi_Tool :: tool
  bi_CreatedAt :: string
  bi_SBOMRef :: string
  bi_EvidenceRef :: string

datatype build_error =
    DirRequired | BuildStatFailed | NotADirectory
  | WalkFailed string | Cancelled | BadName path path_error | HashFailed path string

text \<open>One call of the walk function; \<open>cancelled\<close> is whether the context is done when it runs.\<close>

fun build_step ::
  "hasher \<Rightarrow> (path \<Rightarrow> bool) \<Rightarrow> walk_event \<Rightarrow> manifest_file list \<Rightarrow> build_error + manifest_file list" where
  "build_step sha256 cancelled (VisitErr p msg) fs = Inl (WalkFailed msg)"
| "build_step sha256 cancelled (Visit rel e) fs =
     (if cancelled rel then Inl Cancelled
      else if is_dir e then Inr fs
      else if rel = manifest_FileName \<or> rel = SigFileName then Inr fs
      else case checkFilePath rel of
        Some err \<Rightarrow> Inl (BadName rel err)
      | None \<Rightarrow>
          (case SHA256File sha256 e of
             Inl msg \<Rightarrow> Inl (HashFailed rel msg)
           | Inr (h, sz) \<Rightarrow> Inr (fs @ [\<lparr>mf_Path = rel, mf_Size = sz, mf_SHA256 = h\<rparr>])))"

fun build_walk ::
  "hasher \<Rightarrow> (path \<Rightarrow> bool) \<Rightarrow> walk_event list \<Rightarrow> manifest_file list \<Rightarrow> build_error + manifest_file list" where
  "build_walk sha256 cancelled [] fs = Inr fs"
| "build_walk sha256 cancelled (ev # evs) fs =
     (case build_step sha256 cancelled ev fs of
        Inl e \<Rightarrow> Inl e
      | Inr fs' \<Rightarrow> build_walk sha256 cancelled evs fs')"

definition NewBundleID :: "doc_codec \<Rightarrow> string \<Rightarrow> string \<Rightarrow> string" where
  "NewBundleID cd lockDigest createdAt =
     (case dc_pair cd lockDigest createdAt of
        None \<Rightarrow> ''''
      | Some d \<Rightarrow> if length d < 16 then d else take 16 d)"

text \<open>
  The comparison \<^verbatim>\<open>Build\<close> passes to \<^verbatim>\<open>sort.Slice\<close>. That sort is not stable, which makes no difference here:
  no two files of one walk have the same path.
\<close>

definition file_less :: "manifest_file \<Rightarrow> manifest_file \<Rightarrow> bool" where
  "file_less a b \<longleftrightarrow> mf_Path a < mf_Path b"

definition manifest_Build ::
  "hasher \<Rightarrow> doc_codec \<Rightarrow> (path \<Rightarrow> bool) \<Rightarrow> build_input \<Rightarrow> entry option \<Rightarrow> build_error + manifest" where
  "manifest_Build sha256 cd cancelled inp root =
     (if bi_Dir inp = '''' then Inl DirRequired
      else case root of
        None \<Rightarrow> Inl BuildStatFailed
      | Some tree \<Rightarrow>
          if \<not> is_dir tree then Inl NotADirectory
          else case build_walk sha256 cancelled (walk '''' tree) [] of
            Inl e \<Rightarrow> Inl e
          | Inr fs \<Rightarrow> Inr \<lparr>
              mn_SchemaVersion = manifest_SchemaVersion,
              mn_BundleID = NewBundleID cd (bi_LockDigest inp) (bi_CreatedAt inp),
              mn_CreatedAt = bi_CreatedAt inp,
              mn_FormatVersion = CurrentFormatVersion,
              mn_Tool = bi_Tool inp,
              mn_SnapshotDigest = bi_SnapshotDigest inp,
              mn_LockDigest = bi_LockDigest inp,
              mn_Repository = bi_Repository inp,
              mn_Files = slice_stable file_less fs,
              mn_Target = bi_Target inp,
              mn_SBOMRef = bi_SBOMRef inp,
              mn_EvidenceRef = bi_EvidenceRef inp\<rparr>)"

section \<open>Lemmas\<close>

lemma path_byte_error_None [go_result]:
  "path_byte_error c = None \<longleftrightarrow> c \<noteq> CHR 0x5C \<and> \<not> is_control_byte c"
  by (simp add: path_byte_error_def)

lemma take3_has_prefix: "has_prefix p ''../'' \<longleftrightarrow> 3 \<le> length p \<and> take 3 p = ''../''"
proof
  assume "has_prefix p ''../''"
  then show "3 \<le> length p \<and> take 3 p = ''../''" by (auto simp: has_prefix_iff)
next
  assume "3 \<le> length p \<and> take 3 p = ''../''"
  then show "has_prefix p ''../''" by (metis append_take_drop_id has_prefix_iff)
qed

lemma checkFilePath_None:
  assumes "checkFilePath p = None"
  shows "safe_rel_path p" "length p \<le> 4096" "utf8_ValidString p" "\<forall>c \<in> set p. \<not> is_control_byte c"
proof -
  have p: "p \<noteq> ''''" "length p \<le> 4096" "utf8_ValidString p" "first_error path_byte_error p = None"
    "hd p \<noteq> slash" "p \<noteq> ''.''" "p \<noteq> ''..''" "\<not> (3 \<le> length p \<and> take 3 p = ''../'')" "path_Clean p = p"
    using assms by (auto simp: checkFilePath_def not_less split: if_splits option.splits)
  then show "safe_rel_path p" by (intro cleaned_relative_safe) (simp_all add: take3_has_prefix)
  show "length p \<le> 4096" "utf8_ValidString p" by (fact p)+
  show "\<forall>c \<in> set p. \<not> is_control_byte c" using p(4) by (simp add: go_result)
qed

interpretation manifest_gate: path_gate checkFilePath
  by unfold_locales (rule checkFilePath_None)

definition file_ok :: "manifest_file \<Rightarrow> bool" where
  "file_ok f \<longleftrightarrow> checkFilePath (mf_Path f) = None \<and> 0 \<le> mf_Size f \<and> digest_Valid (mf_SHA256 f)"

lemma check_files_None:
  "check_files seen i fs = None \<longleftrightarrow>
     (\<forall>f \<in> set fs. file_ok f) \<and> distinct (map mf_Path fs) \<and> set (map mf_Path fs) \<inter> set seen = {}"
  by (induction seen i fs rule: check_files.induct) (auto simp: file_ok_def split: option.splits)

lemma checkDocument_None:
  "checkDocument m keys = None \<longleftrightarrow>
     ''files'' \<in> set keys \<and> (\<forall>f \<in> set (mn_Files m). file_ok f) \<and> distinct (map mf_Path (mn_Files m))"
  by (simp add: checkDocument_def check_files_None)

lemma manifest_Load_Inr:
  "manifest_Load cd tree = Inr (m, canon) \<longleftrightarrow>
     (\<exists>raw keys. root_read tree manifest_FileName = ReadOK raw \<and> length raw \<le> maxManifestSize \<and>
        dc_top cd raw = Some keys \<and> dc_manifest cd raw = Some m \<and> ''schema_version'' \<in> set keys \<and>
        mn_SchemaVersion m = manifest_SchemaVersion \<and> checkDocument m keys = None \<and>
        dc_transform cd raw = Some canon)"
  by (auto simp: manifest_Load_def readBounded_def split: read_result.splits option.splits if_splits)

text \<open>What the walk of \<^verbatim>\<open>Build\<close> collects.\<close>

definition covered :: "path \<Rightarrow> bool" where
  "covered p \<longleftrightarrow> p \<noteq> manifest_FileName \<and> p \<noteq> SigFileName"

definition describes :: "hasher \<Rightarrow> manifest_file \<Rightarrow> path \<times> entry \<Rightarrow> bool" where
  "describes sha256 f x \<longleftrightarrow>
     mf_Path f = fst x \<and> (\<exists>b. read_entry (snd x) = ReadOK b \<and> mf_Size f = int (length b) \<and> mf_SHA256 f = sha256 b)"

lemma build_walk_Inr:
  assumes "build_walk sha256 cancelled evs fs0 = Inr fs"
  shows "\<exists>new. fs = fs0 @ new \<and> (\<forall>f \<in> set new. checkFilePath (mf_Path f) = None) \<and>
    list_all2 (describes sha256) new (filter (\<lambda>x. covered (fst x)) (concat (map event_leaf evs)))"
  using assms
proof (induction evs arbitrary: fs0)
  case (Cons ev evs)
  then obtain fs1 where step: "build_step sha256 cancelled ev fs0 = Inr fs1"
    and rest: "build_walk sha256 cancelled evs fs1 = Inr fs" by (auto split: sum.splits)
  have new: "\<exists>n1. fs1 = fs0 @ n1 \<and> (\<forall>f \<in> set n1. checkFilePath (mf_Path f) = None) \<and>
      list_all2 (describes sha256) n1 (filter (\<lambda>x. covered (fst x)) (event_leaf ev))"
    using step
    by (cases ev) (auto simp: covered_def describes_def SHA256File_def
        split: if_splits option.splits sum.splits read_result.splits)
  from new Cons.IH [OF rest] show ?case
    by (auto intro: list_all2_appendI)
qed simp

interpretation files_by_path: keyed_less file_less mf_Path
  by unfold_locales (simp add: file_less_def)

lemma list_all2_describes:
  assumes "list_all2 (describes sha256) fs xs"
  shows "map mf_Path fs = map fst xs"
    and "f \<in> set fs \<Longrightarrow> \<exists>x \<in> set xs. describes sha256 f x"
  using assms by (induction rule: list_all2_induct) (auto simp: describes_def)

lemma manifest_Build_Inr:
  assumes "manifest_Build sha256 cd cancelled inp (Some tree) = Inr m"
  obtains fs where "is_dir tree" "mn_Files m = slice_stable file_less fs"
    "\<forall>f \<in> set fs. checkFilePath (mf_Path f) = None"
    "list_all2 (describes sha256) fs (filter (\<lambda>x. covered (fst x)) (leaves tree))"
proof -
  from assms obtain fs where dir: "is_dir tree" and m: "mn_Files m = slice_stable file_less fs"
    and w: "build_walk sha256 cancelled (walk '''' tree) [] = Inr fs"
    by (auto simp: manifest_Build_def split: if_splits sum.splits)
  show thesis
    by (rule that [of fs]) (use dir m build_walk_Inr [OF w] in \<open>auto simp: leaves_def\<close>)
qed

text \<open>The files of a built manifest: one per covered leaf of the tree, with its size and hash.\<close>

lemma built_files:
  assumes "wf_tree tree" "manifest_Build sha256 cd cancelled inp (Some tree) = Inr m"
  shows "sorted (map mf_Path (mn_Files m))" "distinct (map mf_Path (mn_Files m))"
    and "mf_Path ` set (mn_Files m) = {p \<in> fst ` set (leaves tree). covered p}"
    and "f \<in> set (mn_Files m) \<Longrightarrow> checkFilePath (mf_Path f) = None"
    and "f \<in> set (mn_Files m) \<Longrightarrow> \<exists>x \<in> set (leaves tree). covered (fst x) \<and> describes sha256 f x"
proof -
  from assms(2) obtain fs where m: "mn_Files m = slice_stable file_less fs"
    and ok: "\<forall>f \<in> set fs. checkFilePath (mf_Path f) = None"
    and d: "list_all2 (describes sha256) fs (filter (\<lambda>x. covered (fst x)) (leaves tree))"
    by (rule manifest_Build_Inr)
  have paths: "map mf_Path fs = map fst (filter (\<lambda>x. covered (fst x)) (leaves tree))"
    by (rule list_all2_describes(1) [OF d])
  have set_m: "set (mn_Files m) = set fs" by (simp add: m files_by_path.slice_stable_set)
  show "sorted (map mf_Path (mn_Files m))" by (simp add: m files_by_path.slice_stable_sorted)
  have "mset (map mf_Path (mn_Files m)) = mset (map mf_Path fs)"
    by (simp add: m files_by_path.slice_stable_mset)
  then have "distinct (map mf_Path (mn_Files m)) = distinct (map mf_Path fs)"
    by (rule mset_eq_imp_distinct_iff)
  then show "distinct (map mf_Path (mn_Files m))"
    using leaves_distinct [OF assms(1)] by (simp add: paths distinct_map_filter)
  have "mf_Path ` set (mn_Files m) = set (map mf_Path fs)" by (simp add: set_m)
  then show "mf_Path ` set (mn_Files m) = {p \<in> fst ` set (leaves tree). covered p}"
    unfolding paths by auto
  show "f \<in> set (mn_Files m) \<Longrightarrow> checkFilePath (mf_Path f) = None" using ok by (simp add: set_m)
  show "f \<in> set (mn_Files m) \<Longrightarrow> \<exists>x \<in> set (leaves tree). covered (fst x) \<and> describes sha256 f x"
    using list_all2_describes(2) [OF d, of f] unfolding set_m set_filter by blast
qed

lemma built_files_ok:
  assumes "wf_tree tree" "hex_hash sha256" "manifest_Build sha256 cd cancelled inp (Some tree) = Inr m"
    and "f \<in> set (mn_Files m)"
  shows "file_ok f"
  using built_files(4,5) [OF assms(1,3,4)] assms(2) by (auto simp: file_ok_def describes_def hex_hash_def)

section \<open>Properties\<close>

definition demo_tree :: entry where
  "demo_tree = Dir None [(''repo'', Dir None [(''Packages'', RegularFile ''idx''),
     (''pool'', Dir None [(''a.deb'', RegularFile ''deb'')])]), (''lock.json'', RegularFile ''{}''),
     (''debark.manifest.json'', RegularFile ''m'')]"

definition demo_repository :: repository where
  "demo_repository = \<lparr>rp_PackagesSHA256 = '''', rp_PackagesGzSHA256 = '''', rp_ReleaseSHA256 = '''',
     rp_InReleaseSHA256 = '''', rp_ReleaseGPGSHA256 = '''', rp_PackageCount = 0, rp_PoolBytes = 0\<rparr>"

definition demo_input :: build_input where
  "demo_input = \<lparr>bi_Dir = ''/b'', bi_SnapshotDigest = '''', bi_LockDigest = toy_hash ''{}'',
     bi_Repository = demo_repository, bi_Target = \<lparr>mt_DistroID = ''debian'', mt_VersionID = ''12'',
       mt_Codename = ''bookworm'', mt_Arch = ''amd64'', mt_ForeignArchs = []\<rparr>,
     bi_Tool = \<lparr>tl_Name = ''debark'', tl_Version = ''1'', tl_BuildDigest = '''', tl_Edition = ''community''\<rparr>,
     bi_CreatedAt = ''2026-01-01T00:00:00Z'', bi_SBOMRef = '''', bi_EvidenceRef = ''''\<rparr>"

text \<open>A codec that reads every document as the given manifest.\<close>

definition one_manifest_codec :: "manifest \<Rightarrow> doc_codec" where
  "one_manifest_codec m = \<lparr>dc_top = (\<lambda>_. Some [''schema_version'', ''files'']), dc_manifest = (\<lambda>_. Some m),
     dc_signature = (\<lambda>_. None), dc_transform = Some, dc_pair = (\<lambda>a b. Some a)\<rparr>"

definition no_doc_codec :: doc_codec where
  "no_doc_codec = \<lparr>dc_top = (\<lambda>_. None), dc_manifest = (\<lambda>_. None), dc_signature = (\<lambda>_. None),
     dc_transform = (\<lambda>_. None), dc_pair = (\<lambda>a b. Some a)\<rparr>"

definition demo_manifest :: manifest where
  "demo_manifest = (case manifest_Build toy_hash no_doc_codec (\<lambda>_. False) demo_input (Some demo_tree) of
     Inr m \<Rightarrow> m | Inl _ \<Rightarrow> \<lparr>mn_SchemaVersion = '''', mn_BundleID = '''', mn_CreatedAt = '''', mn_FormatVersion = 0,
       mn_Tool = bi_Tool demo_input, mn_SnapshotDigest = '''', mn_LockDigest = '''',
       mn_Repository = demo_repository, mn_Files = [], mn_Target = bi_Target demo_input,
       mn_SBOMRef = '''', mn_EvidenceRef = ''''\<rparr>)"

lemma demo_manifest_built:
  "manifest_Build toy_hash no_doc_codec (\<lambda>_. False) demo_input (Some demo_tree) = Inr demo_manifest"
  by code_simp

lemma demo_tree_wf: "wf_tree demo_tree"
  by code_simp

text \<open>
  A path \<^verbatim>\<open>checkFilePath\<close> accepts, joined to the bundle directory, stays below it and is already
  clean, and two accepted paths that name the same file are the same string: the manifest covers
  each file of the bundle under exactly one name.
\<close>

theorem checkFilePath_confines:
  assumes "checkFilePath p = None" "checkFilePath q = None" "named_dir dir"
  shows "path_Clean (dir @ ''/'' @ p) = path_Clean dir @ ''/'' @ p \<and>
    (path_Clean (dir @ ''/'' @ p) = path_Clean (dir @ ''/'' @ q) \<longrightarrow> p = q)"
  using manifest_gate.accepted_confined [OF assms(1,3)] manifest_gate.accepted_one_name [OF assms] by simp

theorem checkFilePath_confines_witness:
  "path_Clean (''/mnt/./b'' @ ''/'' @ ''repo/Packages'') = ''/mnt/b/repo/Packages'' \<and>
   checkFilePath ''repo/./Packages'' = Some (PathNotClean ''repo/Packages'')"
proof -
  have "checkFilePath ''repo/Packages'' = None" "named_dir ''/mnt/./b''" "path_Clean ''/mnt/./b'' = ''/mnt/b''"
    "checkFilePath ''repo/./Packages'' = Some (PathNotClean ''repo/Packages'')" by code_simp+
  with checkFilePath_confines [of "''repo/Packages''" "''repo/Packages''" "''/mnt/./b''"]
  show ?thesis by simp
qed

text \<open>
  A manifest that \<^verbatim>\<open>Build\<close> produces lists, in path order and each once, exactly the entries of the
  tree that are not directories and not the manifest or its signature, and records for each the
  size and the hash of the bytes that opening it yields.
\<close>

theorem Build_lists_the_tree:
  assumes "wf_tree tree" "manifest_Build sha256 cd cancelled inp (Some tree) = Inr m"
  shows "sorted (map mf_Path (mn_Files m)) \<and> distinct (map mf_Path (mn_Files m)) \<and>
    mf_Path ` set (mn_Files m) = {names_path ns | ns e. tree_lookup tree ns = Some e \<and> \<not> is_dir e \<and>
      names_path ns \<noteq> manifest_FileName \<and> names_path ns \<noteq> SigFileName} \<and>
    list_all (\<lambda>f. \<exists>ns e b. mf_Path f = names_path ns \<and> tree_lookup tree ns = Some e \<and>
      read_entry e = ReadOK b \<and> mf_Size f = int (length b) \<and> mf_SHA256 f = sha256 b) (mn_Files m)"
proof -
  have "fst ` set (leaves tree) = {names_path ns | ns e. tree_lookup tree ns = Some e \<and> \<not> is_dir e}"
    using leaves_iff [OF assms(1)] by (force simp: image_iff)
  then have "mf_Path ` set (mn_Files m) = {names_path ns | ns e. tree_lookup tree ns = Some e \<and> \<not> is_dir e \<and>
      names_path ns \<noteq> manifest_FileName \<and> names_path ns \<noteq> SigFileName}"
    unfolding built_files(3) [OF assms] by (auto simp: covered_def)
  moreover have "\<exists>ns e b. mf_Path f = names_path ns \<and> tree_lookup tree ns = Some e \<and>
      read_entry e = ReadOK b \<and> mf_Size f = int (length b) \<and> mf_SHA256 f = sha256 b"
    if "f \<in> set (mn_Files m)" for f
    using built_files(5) [OF assms that] leaves_iff [OF assms(1)] by (fastforce simp: describes_def)
  ultimately show ?thesis using built_files(1,2) [OF assms] by (simp add: list_all_iff)
qed

theorem Build_lists_the_tree_witness:
  "map mf_Path (mn_Files demo_manifest) = [''lock.json'', ''repo/Packages'', ''repo/pool/a.deb''] \<and>
   sorted (map mf_Path (mn_Files demo_manifest))"
proof -
  have "map mf_Path (mn_Files demo_manifest) = [''lock.json'', ''repo/Packages'', ''repo/pool/a.deb'']"
    by code_simp
  with Build_lists_the_tree [OF demo_tree_wf demo_manifest_built] show ?thesis by blast
qed

text \<open>
  C34. The package's own output survives its own input check: a manifest \<^verbatim>\<open>Build\<close> produced from the
  tree, written in a form the JSON decoder reads back, is accepted by \<^verbatim>\<open>Load\<close> unless it is larger than
  16 MiB.
\<close>

theorem Build_then_Load:
  assumes "wf_tree tree" "hex_hash sha256" "manifest_Build sha256 cd cancelled inp (Some tree) = Inr m"
    and "root_read tree' manifest_FileName = ReadOK raw" "length raw \<le> maxManifestSize"
    and "dc_manifest cd' raw = Some m" "dc_transform cd' raw = Some canon"
    and "dc_top cd' raw = Some keys" "{''schema_version'', ''files''} \<subseteq> set keys"
  shows "manifest_Load cd' tree' = Inr (m, canon)"
proof -
  have "mn_SchemaVersion m = manifest_SchemaVersion"
    using assms(3) by (auto simp: manifest_Build_def split: if_splits sum.splits)
  moreover have "checkDocument m keys = None"
    unfolding checkDocument_None
    using assms(9) built_files_ok [OF assms(1-3)] built_files(2) [OF assms(1,3)] by blast
  ultimately show ?thesis using assms(4-9) by (simp add: manifest_Load_Inr)
qed

theorem Build_then_Load_witness:
  "manifest_Load (one_manifest_codec demo_manifest) demo_tree = Inr (demo_manifest, ''m'')"
proof (rule Build_then_Load [OF demo_tree_wf toy_hash_hex demo_manifest_built])
  show "root_read demo_tree manifest_FileName = ReadOK ''m''" by code_simp
  show "{''schema_version'', ''files''} \<subseteq> set [''schema_version'', ''files'']" by (simp only: list.set)
qed (simp_all add: one_manifest_codec_def maxManifestSize_def)

end
