(* ===== verification/Sign.thy ===== *)
theory Sign
  imports Key_File Manifest
begin

text \<open>
  The verifying half of the signing seam: \<^verbatim>\<open>src/core/sign/iface.go\<close> (\<^verbatim>\<open>SigningInput\<close>, \<^verbatim>\<open>KeySource\<close>),
  \<^verbatim>\<open>api.go\<close> (\<^verbatim>\<open>VerifierFor\<close>, \<^verbatim>\<open>buildEd25519TrustSet\<close>), \<^verbatim>\<open>verifier.go\<close>, \<^verbatim>\<open>ed25519.go\<close> and the decision of
  \<^verbatim>\<open>gpg.go\<close> over gpg's status output; and the native signer. The operating system, the Ed25519
  arithmetic and the gpg program are the fields of the record \<open>sign_env\<close>. A resolved path is the list
  of its names below the root directory.
\<close>

section \<open>Environment and key sources\<close>

record key_source =
  ks_Files :: "path list"
  ks_Dirs :: "path list"
  ks_GPGKeyring :: path
  ks_AllowSameMedia :: bool

text \<open>
  \<open>se_sum256\<close> is SHA-256 on raw bytes and \<open>se_ed25519\<close> is \<^verbatim>\<open>ed25519.Verify\<close> (key, message, signature).
  \<open>se_resolve\<close> is \<^verbatim>\<open>resolveReal\<close>, \<open>se_ident\<close> the file identity \<^verbatim>\<open>os.Stat\<close> returns (what \<^verbatim>\<open>os.SameFile\<close>
  compares), \<open>se_read\<close> is \<^verbatim>\<open>os.ReadFile\<close> and \<open>se_readdir\<close> is \<^verbatim>\<open>os.ReadDir\<close> (name, is a directory).
  \<open>se_keyring\<close> is \<^verbatim>\<open>os.Stat\<close> on a keyring path with its \<^verbatim>\<open>IsDir\<close>. \<open>se_gpg\<close> runs
  \<^verbatim>\<open>gpg --verify\<close> with the keyring arguments on a signature and a payload and returns its standard
  output and whether it failed; \<open>se_gpg_found\<close> and \<open>se_tmp\<close> are whether the binary exists and whether
  the temporary files can be written.
\<close>

record sign_env =
  se_sum256 :: raw_hasher
  se_ed25519 :: "string \<Rightarrow> string \<Rightarrow> string \<Rightarrow> bool"
  se_resolve :: "path \<Rightarrow> string list"
  se_ident :: "string list \<Rightarrow> nat option"
  se_read :: "path \<Rightarrow> string option"
  se_readdir :: "path \<Rightarrow> (string \<times> bool) list option"
  se_keyring :: "path \<Rightarrow> bool option"
  se_gpg_found :: bool
  se_tmp :: bool
  se_gpg :: "string list \<Rightarrow> string \<Rightarrow> string \<Rightarrow> string \<times> bool"

definition SigningInput :: "string \<Rightarrow> string \<Rightarrow> string" where
  "SigningInput purpose canonical = purpose @ [CHR 0x00] @ canonical"

definition SignerEd25519File :: string where
  "SignerEd25519File = ''ed25519-file''"

definition SignerGPG :: string where
  "SignerGPG = ''gpg''"

definition SignerPluginPrefix :: string where
  "SignerPluginPrefix = ''plugin:''"

section \<open>Same media\<close>

definition abs_string :: "string list \<Rightarrow> string" where
  "abs_string ns = ''/'' @ join_with ''/'' ns"

definition textualPathContains :: "string list \<Rightarrow> string list \<Rightarrow> bool" where
  "textualPathContains parent child \<longleftrightarrow>
     abs_string parent = abs_string child \<or> has_prefix (abs_string child) (abs_string parent @ ''/'')"

text \<open>The loop up the parent chain; the parent of the root directory is the root directory.\<close>

function contains_from :: "sign_env \<Rightarrow> nat \<Rightarrow> string list \<Rightarrow> bool" where
  "contains_from env pfi p =
     (if se_ident env p = Some pfi then True
      else if p = [] then False
      else contains_from env pfi (butlast p))"
  by pat_completeness auto

termination
  by (relation "measure (\<lambda>(env, pfi, p). length p)") auto

declare contains_from.simps [simp del]

definition pathContains :: "sign_env \<Rightarrow> string list \<Rightarrow> string list \<Rightarrow> bool" where
  "pathContains env parent child =
     (case se_ident env parent of
        None \<Rightarrow> textualPathContains parent child
      | Some pfi \<Rightarrow> contains_from env pfi child)"

definition sameMedia :: "sign_env \<Rightarrow> path \<Rightarrow> path \<Rightarrow> bool" where
  "sameMedia env candidate bundleRoot =
     (let c = se_resolve env candidate; b = se_resolve env bundleRoot
      in pathContains env b c \<or> pathContains env c b)"

section \<open>The trust set\<close>

datatype verifier_error =
    BundlePathRequired | SameMediaKey path | KeyFileError path key_error | KeyringDirUnreadable path
  | AmbiguousKeyID string path path | GPGKeyringUnreadable path | GPGKeyringIsDir path

fun verifier_error_class :: "verifier_error \<Rightarrow> err_class" where
  "verifier_error_class (SameMediaKey _) = Verification"
| "verifier_error_class _ = Usage"

fun load_files :: "sign_env \<Rightarrow> path list \<Rightarrow> verifier_error + public_key list" where
  "load_files env [] = Inr []"
| "load_files env (f # fs) =
     (case loadPublicKeyFile (se_sum256 env) f (se_read env f) of
        Inl e \<Rightarrow> Inl (KeyFileError f e)
      | Inr pk \<Rightarrow> (case load_files env fs of Inl e \<Rightarrow> Inl e | Inr pks \<Rightarrow> Inr (pk # pks)))"

definition has_suffix :: "string \<Rightarrow> string \<Rightarrow> bool" where
  "has_suffix s t \<longleftrightarrow> length t \<le> length s \<and> drop (length s - length t) s = t"

text \<open>The key files of a keyring directory.\<close>

definition keyring_files :: "path \<Rightarrow> (string \<times> bool) list \<Rightarrow> path list" where
  "keyring_files dir entries =
     map (\<lambda>e. path_Clean (dir @ ''/'' @ fst e)) (filter (\<lambda>e. \<not> (snd e \<or> \<not> has_suffix (fst e) ''.pub'')) entries)"

fun load_dirs :: "sign_env \<Rightarrow> path list \<Rightarrow> verifier_error + public_key list" where
  "load_dirs env [] = Inr []"
| "load_dirs env (d # ds) =
     (case se_readdir env d of
        None \<Rightarrow> Inl (KeyringDirUnreadable d)
      | Some entries \<Rightarrow>
          (case load_files env (keyring_files d entries) of
             Inl e \<Rightarrow> Inl e
           | Inr pks \<Rightarrow> (case load_dirs env ds of Inl e \<Rightarrow> Inl e | Inr rest \<Rightarrow> Inr (pks @ rest))))"

definition loadPublicKeysFrom :: "sign_env \<Rightarrow> key_source \<Rightarrow> verifier_error + public_key list" where
  "loadPublicKeysFrom env ks =
     (case load_files env (ks_Files ks) of
        Inl e \<Rightarrow> Inl e
      | Inr fs \<Rightarrow> (case load_dirs env (ks_Dirs ks) of Inl e \<Rightarrow> Inl e | Inr ds \<Rightarrow> Inr (fs @ ds)))"

text \<open>\<^verbatim>\<open>buildEd25519TrustSet\<close>: the loop with its maps \<^verbatim>\<open>ed\<close> and \<^verbatim>\<open>from\<close>.\<close>

fun trust_loop ::
  "(string \<rightharpoonup> string) \<Rightarrow> (string \<rightharpoonup> path) \<Rightarrow> public_key list \<Rightarrow> verifier_error + (string \<rightharpoonup> string)" where
  "trust_loop ed src [] = Inr ed"
| "trust_loop ed src (k # ks) =
     (if pk_Algorithm k \<noteq> AlgorithmEd25519 \<or> length (pk_Raw k) \<noteq> pubKeyLen then trust_loop ed src ks
      else let i = to_lower (pk_KeyID k) in
        case ed i of
          Some prev \<Rightarrow>
            if prev = pk_Raw k then trust_loop ed src ks
            else Inl (AmbiguousKeyID i (case src i of None \<Rightarrow> '''' | Some p \<Rightarrow> p) (pk_Source k))
        | None \<Rightarrow> trust_loop (ed(i \<mapsto> pk_Raw k)) (src(i \<mapsto> pk_Source k)) ks)"

definition buildEd25519TrustSet :: "public_key list \<Rightarrow> verifier_error + (string \<rightharpoonup> string)" where
  "buildEd25519TrustSet keys = trust_loop Map.empty Map.empty keys"

record composite_verifier =
  cv_ed25519Keys :: "string \<rightharpoonup> string"
  cv_keyringArgs :: "string list"

definition newGPGVerifier :: "sign_env \<Rightarrow> path \<Rightarrow> verifier_error + string list" where
  "newGPGVerifier env gpgKeyring =
     (if gpgKeyring = '''' then Inr []
      else case se_keyring env gpgKeyring of
        None \<Rightarrow> Inl (GPGKeyringUnreadable gpgKeyring)
      | Some True \<Rightarrow> Inl (GPGKeyringIsDir gpgKeyring)
      | Some False \<Rightarrow> Inr [''--no-default-keyring'', ''--keyring'', gpgKeyring])"

definition key_candidates :: "key_source \<Rightarrow> path list" where
  "key_candidates ks =
     ks_Files ks @ ks_Dirs ks @ (if ks_GPGKeyring ks \<noteq> '''' then [ks_GPGKeyring ks] else [])"

definition VerifierFor :: "sign_env \<Rightarrow> key_source \<Rightarrow> path \<Rightarrow> verifier_error + composite_verifier" where
  "VerifierFor env ks bundlePath =
     (if bundlePath = '''' then Inl BundlePathRequired
      else case (if ks_AllowSameMedia ks then None
                 else find (\<lambda>c. sameMedia env c bundlePath) (key_candidates ks)) of
        Some c \<Rightarrow> Inl (SameMediaKey c)
      | None \<Rightarrow>
          (case loadPublicKeysFrom env ks of
             Inl e \<Rightarrow> Inl e
           | Inr keys \<Rightarrow>
               (case buildEd25519TrustSet keys of
                  Inl e \<Rightarrow> Inl e
                | Inr ed \<Rightarrow>
                    (case newGPGVerifier env (ks_GPGKeyring ks) of
                       Inl e \<Rightarrow> Inl e
                     | Inr args \<Rightarrow> Inr \<lparr>cv_ed25519Keys = ed, cv_keyringArgs = args\<rparr>))))"

section \<open>Checking one signature block\<close>

datatype sig_fault =
    AlgorithmContradiction | SigMalformedBase64 | SigWrongLength nat | SigDoesNotVerify
  | GPGRejected string | GPGExitNonZero | GPGOtherKey string

text \<open>\<open>FaultEnvironment\<close> is a check that could not be attempted.\<close>

datatype sign_error = UntrustedKey | FaultVerification sig_fault | FaultEnvironment string

definition verifyEd25519Signature ::
  "sign_env \<Rightarrow> (string \<rightharpoonup> string) \<Rightarrow> string \<Rightarrow> string \<Rightarrow> signature \<Rightarrow> sign_error option" where
  "verifyEd25519Signature env trusted purpose canon sig =
     (case trusted (to_lower (sg_KeyID sig)) of
        None \<Rightarrow> Some UntrustedKey
      | Some pub \<Rightarrow>
          (case b64_decode (sg_Signature sig) of
             None \<Rightarrow> Some (FaultVerification SigMalformedBase64)
           | Some raw \<Rightarrow>
               if length raw \<noteq> 64 then Some (FaultVerification (SigWrongLength (length raw)))
               else if \<not> se_ed25519 env pub (SigningInput purpose canon) raw
               then Some (FaultVerification SigDoesNotVerify)
               else None))"

subsection \<open>gpg\<close>

record gpg_status =
  gs_signingKey :: string
  gs_primaryKey :: string
  gs_valid :: bool
  gs_rejected :: string
  gs_noPublicKey :: bool
  gs_sawStatus :: bool

definition to_upper_byte :: "char \<Rightarrow> char" where
  "to_upper_byte c = (if is_lower_byte c then char_of (byte c - 32) else c)"

definition to_upper :: "string \<Rightarrow> string" where
  "to_upper = map to_upper_byte"

definition is_hex_any :: "char \<Rightarrow> bool" where
  "is_hex_any c \<longleftrightarrow> is_digit_byte c \<or> 97 \<le> byte c \<and> byte c \<le> 102 \<or> 65 \<le> byte c \<and> byte c \<le> 70"

definition isHexFingerprint :: "string \<Rightarrow> bool" where
  "isHexFingerprint s \<longleftrightarrow> length s \<ge> 32 \<and> list_all is_hex_any s"

definition validsigPrimaryKey :: "string list \<Rightarrow> string" where
  "validsigPrimaryKey fs =
     (if length fs > 10 \<and> isHexFingerprint (fs ! 10) then to_upper (fs ! 10)
      else if length fs > 9 \<and> isHexFingerprint (last fs) then to_upper (last fs)
      else '''')"

definition rejectingKeywords :: "string list" where
  "rejectingKeywords = [''BADSIG'', ''REVKEYSIG'', ''EXPKEYSIG'', ''EXPSIG'']"

definition status_fields :: "string \<Rightarrow> string list" where
  "status_fields line = (case cut_prefix line ''[GNUPG:] '' of None \<Rightarrow> [] | Some rest \<Rightarrow> strings_Fields rest)"

definition status_line :: "gpg_status \<Rightarrow> string \<Rightarrow> gpg_status" where
  "status_line st line =
     (case status_fields line of
        [] \<Rightarrow> st
      | kw # args \<Rightarrow>
          let st = st\<lparr>gs_sawStatus := True\<rparr>; fs = kw # args in
          if kw = ''VALIDSIG'' then
            (let st = (if length fs > 1 then st\<lparr>gs_signingKey := to_upper (fs ! 1), gs_valid := True\<rparr> else st)
             in st\<lparr>gs_primaryKey := validsigPrimaryKey fs\<rparr>)
          else if kw \<in> set rejectingKeywords then st\<lparr>gs_rejected := kw\<rparr>
          else if kw = ''ERRSIG'' then
            (if length fs > 6 \<and> fs ! 6 = ''9'' then st\<lparr>gs_noPublicKey := True\<rparr>
             else st\<lparr>gs_rejected := ''ERRSIG''\<rparr>)
          else if kw = ''NO_PUBKEY'' then st\<lparr>gs_noPublicKey := True\<rparr>
          else st)"

definition zero_status :: gpg_status where
  "zero_status = \<lparr>gs_signingKey = '''', gs_primaryKey = '''', gs_valid = False, gs_rejected = '''',
     gs_noPublicKey = False, gs_sawStatus = False\<rparr>"

definition parseVerifyStatus :: "string \<Rightarrow> gpg_status" where
  "parseVerifyStatus out = foldl status_line zero_status (scan_lines out)"

definition fingerprintMatches :: "string \<Rightarrow> string \<Rightarrow> string \<Rightarrow> bool" where
  "fingerprintMatches claimed signingKey primaryKey =
     (if claimed = '''' then False
      else if signingKey \<noteq> '''' \<and> equal_fold claimed signingKey then True
      else primaryKey \<noteq> '''' \<and> equal_fold claimed primaryKey)"

definition gpg_verify ::
  "sign_env \<Rightarrow> string list \<Rightarrow> string \<Rightarrow> string \<Rightarrow> signature \<Rightarrow> sign_error option" where
  "gpg_verify env keyringArgs purpose canon sig =
     (if \<not> se_gpg_found env then Some (FaultEnvironment ''gpg binary not found on PATH'')
      else case b64_decode (sg_Signature sig) of
        None \<Rightarrow> Some (FaultVerification SigMalformedBase64)
      | Some rawSig \<Rightarrow>
          if \<not> se_tmp env then Some (FaultEnvironment ''temporary files'')
          else let (out, runErr) = se_gpg env keyringArgs rawSig (SigningInput purpose canon);
                   st = parseVerifyStatus out
               in if gs_rejected st \<noteq> '''' then Some (FaultVerification (GPGRejected (gs_rejected st)))
                  else if gs_noPublicKey st \<and> \<not> gs_valid st then Some UntrustedKey
                  else if \<not> gs_valid st \<and> \<not> gs_sawStatus st \<and> runErr
                  then Some (FaultEnvironment ''gpg could not check the signature'')
                  else if \<not> gs_valid st then Some UntrustedKey
                  else if runErr then Some (FaultVerification GPGExitNonZero)
                  else if \<not> fingerprintMatches (sg_KeyID sig) (gs_signingKey st) (gs_primaryKey st)
                  then Some (FaultVerification (GPGOtherKey (gs_signingKey st)))
                  else None)"

subsection \<open>Routing\<close>

definition isPluginSignerKind :: "string \<Rightarrow> bool" where
  "isPluginSignerKind kind \<longleftrightarrow> has_prefix kind SignerPluginPrefix \<and> length kind > length SignerPluginPrefix"

definition compositeVerifier_Verify ::
  "sign_env \<Rightarrow> composite_verifier \<Rightarrow> string \<Rightarrow> string \<Rightarrow> signature \<Rightarrow> sign_error option" where
  "compositeVerifier_Verify env v purpose canon sig =
     (if sg_SignerKind sig = SignerGPG then gpg_verify env (cv_keyringArgs v) purpose canon sig
      else if sg_SignerKind sig = SignerEd25519File then
        (if sg_Algorithm sig \<noteq> '''' \<and> \<not> equal_fold (sg_Algorithm sig) AlgorithmEd25519
         then Some (FaultVerification AlgorithmContradiction)
         else verifyEd25519Signature env (cv_ed25519Keys v) purpose canon sig)
      else if isPluginSignerKind (sg_SignerKind sig) \<and> equal_fold (sg_Algorithm sig) AlgorithmEd25519
      then verifyEd25519Signature env (cv_ed25519Keys v) purpose canon sig
      else Some UntrustedKey)"

section \<open>The native signer\<close>

record ed25519_signer =
  es_keyID :: string
  es_priv :: string

text \<open>\<open>sign\<close> is \<^verbatim>\<open>ed25519.Sign\<close>, \<open>cancelled\<close> whether the context is done, \<open>now\<close> the time stamp.\<close>

definition signer_Sign ::
  "(string \<Rightarrow> string \<Rightarrow> string) \<Rightarrow> bool \<Rightarrow> string \<Rightarrow> ed25519_signer \<Rightarrow> string \<Rightarrow> string \<Rightarrow> signature option" where
  "signer_Sign sign cancelled now s purpose canon =
     (if cancelled then None
      else Some \<lparr>sg_SignerKind = SignerEd25519File, sg_KeyID = es_keyID s, sg_Algorithm = AlgorithmEd25519,
        sg_CreatedAt = now, sg_Signature = b64_encode (sign (es_priv s) (SigningInput purpose canon)),
        sg_Comment = ''''\<rparr>)"

section \<open>Lemmas\<close>

definition usable_key :: "public_key \<Rightarrow> bool" where
  "usable_key k \<longleftrightarrow> pk_Algorithm k = AlgorithmEd25519 \<and> length (pk_Raw k) = pubKeyLen"

text \<open>The keys that claim an id.\<close>

definition claims :: "public_key list \<Rightarrow> string \<Rightarrow> string \<Rightarrow> bool" where
  "claims keys i raw \<longleftrightarrow> (\<exists>k \<in> set keys. usable_key k \<and> to_lower (pk_KeyID k) = i \<and> pk_Raw k = raw)"

lemma claims_Cons:
  "claims (k # ks) i raw \<longleftrightarrow>
     usable_key k \<and> to_lower (pk_KeyID k) = i \<and> pk_Raw k = raw \<or> claims ks i raw"
  by (auto simp: claims_def)

text \<open>What the map and the keys still to come say of an id.\<close>

definition says :: "(string \<rightharpoonup> string) \<Rightarrow> public_key list \<Rightarrow> string \<Rightarrow> string \<Rightarrow> bool" where
  "says ed ks i raw \<longleftrightarrow> ed i = Some raw \<or> claims ks i raw"

lemma trust_loop_Inr:
  "trust_loop ed src ks = Inr ed' \<longleftrightarrow>
     (\<forall>i raw raw'. says ed ks i raw \<longrightarrow> says ed ks i raw' \<longrightarrow> raw = raw') \<and>
     (\<forall>i raw. ed' i = Some raw \<longleftrightarrow> says ed ks i raw)"
proof (induction ed src ks rule: trust_loop.induct)
  case (1 ed src)
  have "ed = ed' \<longleftrightarrow> (\<forall>i raw. ed' i = Some raw \<longleftrightarrow> ed i = Some raw)"
    by (metis not_None_eq ext)
  then show ?case by (simp add: says_def claims_def)
next
  case (2 ed src k ks)
  let ?i = "to_lower (pk_KeyID k)"
  show ?case
  proof (cases "usable_key k")
    case False
    then have u: "pk_Algorithm k \<noteq> AlgorithmEd25519 \<or> length (pk_Raw k) \<noteq> pubKeyLen"
      by (auto simp: usable_key_def)
    have c: "says ed (k # ks) = says ed ks"
      using False by (intro ext) (simp add: says_def claims_Cons)
    have eq: "trust_loop ed src (k # ks) = trust_loop ed src ks" using u by simp
    show ?thesis unfolding eq c by (rule 2(1) [OF u])
  next
    case usable: True
    then have u: "\<not> (pk_Algorithm k \<noteq> AlgorithmEd25519 \<or> length (pk_Raw k) \<noteq> pubKeyLen)"
      by (simp add: usable_key_def)
    show ?thesis
    proof (cases "ed ?i")
      case None
      let ?ed = "ed(?i \<mapsto> pk_Raw k)"
      have c: "says ed (k # ks) = says ?ed ks"
        using None usable by (intro ext) (auto simp: says_def claims_Cons)
      have eq: "trust_loop ed src (k # ks) = trust_loop ?ed (src(?i \<mapsto> pk_Source k)) ks"
        using u None by (simp add: Let_def)
      show ?thesis unfolding eq c by (rule 2(2) [OF u refl None])
    next
      case (Some prev)
      show ?thesis
      proof (cases "prev = pk_Raw k")
        case True
        have c: "says ed (k # ks) = says ed ks"
          using Some True usable by (intro ext) (auto simp: says_def claims_Cons)
        have eq: "trust_loop ed src (k # ks) = trust_loop ed src ks" using u Some True by (simp add: Let_def)
        show ?thesis unfolding eq c by (rule 2(3) [OF u refl Some True])
      next
        case False
        have "says ed (k # ks) ?i prev" "says ed (k # ks) ?i (pk_Raw k)"
          using Some usable by (simp_all add: says_def claims_Cons)
        moreover have "trust_loop ed src (k # ks) \<noteq> Inr ed'"
          using u Some False by (simp add: Let_def)
        ultimately show ?thesis using False by blast
      qed
    qed
  qed
qed

lemma verifyEd25519_None:
  "verifyEd25519Signature env trusted purpose canon sig = None \<longleftrightarrow>
     (\<exists>pub raw. trusted (to_lower (sg_KeyID sig)) = Some pub \<and> b64_decode (sg_Signature sig) = Some raw \<and>
        length raw = 64 \<and> se_ed25519 env pub (SigningInput purpose canon) raw)"
  by (auto simp: verifyEd25519Signature_def split: option.splits)

lemma gpg_verify_None:
  assumes "gpg_verify env args purpose canon sig = None"
  obtains rawSig out where "b64_decode (sg_Signature sig) = Some rawSig"
    "se_gpg env args rawSig (SigningInput purpose canon) = (out, False)"
    "gs_valid (parseVerifyStatus out)" "gs_rejected (parseVerifyStatus out) = ''''"
    "fingerprintMatches (sg_KeyID sig) (gs_signingKey (parseVerifyStatus out)) (gs_primaryKey (parseVerifyStatus out))"
  using assms by (auto simp: gpg_verify_def Let_def split: if_splits option.splits prod.splits)

text \<open>The rejected keyword is sticky: once a disqualifying line is read the field is never empty again.\<close>

lemma status_line_rejected:
  "gs_rejected st \<noteq> '''' \<Longrightarrow> gs_rejected (status_line st line) \<noteq> ''''"
  by (auto simp: status_line_def Let_def rejectingKeywords_def split: list.splits)

lemma status_lines_rejected:
  "gs_rejected st \<noteq> '''' \<Longrightarrow> gs_rejected (foldl status_line st ls) \<noteq> ''''"
  by (induction ls arbitrary: st) (simp_all add: status_line_rejected)

lemma rejecting_line:
  assumes "l \<in> set ls" "status_fields l \<noteq> []" "hd (status_fields l) \<in> set rejectingKeywords"
  shows "gs_rejected (foldl status_line st ls) \<noteq> ''''"
proof -
  from assms(1) obtain xs ys where ls: "ls = xs @ l # ys" by (auto simp: in_set_conv_decomp)
  obtain kw args where fs: "status_fields l = kw # args" using assms(2) by (cases "status_fields l") auto
  with assms(3) have kw: "kw \<in> set rejectingKeywords" by simp
  then have "kw \<noteq> ''VALIDSIG''" "kw \<noteq> ''''" by (auto simp: rejectingKeywords_def)
  with fs kw have "gs_rejected (status_line (foldl status_line st xs) l) \<noteq> ''''"
    by (simp add: status_line_def Let_def)
  then show ?thesis by (simp add: ls status_lines_rejected)
qed

lemma status_line_valid:
  "gs_valid (status_line st line) \<Longrightarrow> gs_valid st \<or> (\<exists>args. status_fields line = ''VALIDSIG'' # args \<and> args \<noteq> [])"
  by (auto simp: status_line_def Let_def split: list.splits if_splits)

lemma status_lines_valid:
  "gs_valid (foldl status_line st ls) \<Longrightarrow>
     gs_valid st \<or> (\<exists>l \<in> set ls. \<exists>args. status_fields l = ''VALIDSIG'' # args \<and> args \<noteq> [])"
proof (induction ls arbitrary: st)
  case (Cons l ls)
  then show ?case using status_line_valid [of st l] by fastforce
qed simp

lemma SigningInput_inj:
  assumes "CHR 0x00 \<notin> set p" "CHR 0x00 \<notin> set q" "SigningInput p a = SigningInput q b"
  shows "p = q \<and> a = b"
proof -
  from index_byte_append [OF assms(1), of a] index_byte_append [OF assms(2), of b] assms(3) have "length p = length q" by (simp add: SigningInput_def)
  with assms(3) show ?thesis by (simp add: SigningInput_def)
qed

lemma contains_from_iff: "contains_from env pfi p \<longleftrightarrow> (\<exists>k \<le> length p. se_ident env (take k p) = Some pfi)"
proof (induction env pfi p rule: contains_from.induct)
  case (1 env pfi p)
  show ?case
  proof (cases "se_ident env p = Some pfi")
    case True
    then show ?thesis by (subst contains_from.simps) (auto intro: exI [of _ "length p"])
  next
    case False
    show ?thesis
    proof (cases "p = []")
      case True
      with False show ?thesis by (subst contains_from.simps) simp
    next
      case ne: False
      have "(\<exists>k \<le> length p. se_ident env (take k p) = Some pfi) \<longleftrightarrow>
          (\<exists>k \<le> length (butlast p). se_ident env (take k (butlast p)) = Some pfi)"
      proof -
        obtain q x where p: "p = q @ [x]" using ne by (cases p rule: rev_cases) auto
        have "(\<exists>k \<le> Suc (length q). se_ident env (take k p) = Some pfi) \<longleftrightarrow>
            (\<exists>k \<le> length q. se_ident env (take k p) = Some pfi) \<or> se_ident env (take (Suc (length q)) p) = Some pfi"
          by (auto simp: le_Suc_eq)
        with False show ?thesis by (auto simp: p)
      qed
      with 1 False ne show ?thesis by (subst contains_from.simps) simp
    qed
  qed
qed

lemma same_media_cong:
  assumes "se_ident env = se_ident env'" "se_resolve env = se_resolve env'"
  shows "sameMedia env c b = sameMedia env' c b"
proof -
  have "contains_from env pfi p = contains_from env' pfi p" for pfi p
    by (simp add: contains_from_iff assms(1))
  then have "pathContains env x y = pathContains env' x y" for x y
    by (simp add: pathContains_def assms(1) split: option.splits)
  then show ?thesis by (simp add: sameMedia_def assms(2))
qed

section \<open>Properties\<close>

definition demo_env :: sign_env where
  "demo_env = \<lparr>se_sum256 = demo_sum, se_ed25519 = (\<lambda>pub msg sig. sig = replicate 64 CHR ''s''),
     se_resolve = split_on slash, se_ident = (\<lambda>p. None),
     se_read = (\<lambda>p. None), se_readdir = (\<lambda>p. None), se_keyring = (\<lambda>p. Some False),
     se_gpg_found = True, se_tmp = True,
     se_gpg = (\<lambda>args sig msg. (''[GNUPG:] VALIDSIG AB01 0 0 0 4 0 1 10 00'' @ [newline], False))\<rparr>"

definition demo_key :: public_key where
  "demo_key = \<lparr>pk_KeyID = ''5A'', pk_Algorithm = ''ed25519'', pk_Comment = '''', pk_Raw = demo_pub, pk_Source = ''a.pub''\<rparr>"

definition demo_verifier :: composite_verifier where
  "demo_verifier = \<lparr>cv_ed25519Keys = [''5a'' \<mapsto> demo_pub], cv_keyringArgs = []\<rparr>"

definition demo_block :: signature where
  "demo_block = \<lparr>sg_SignerKind = ''ed25519-file'', sg_KeyID = ''5A'', sg_Algorithm = ''ed25519'',
     sg_CreatedAt = '''', sg_Signature = b64_encode (replicate 64 CHR ''s''), sg_Comment = ''''\<rparr>"

text \<open>
  C26. The trust set is unambiguous: \<^verbatim>\<open>buildEd25519TrustSet\<close> succeeds exactly when no two different usable
  keys share an id up to letter case, and then the map holds under each id exactly the key material
  that claims it, independently of the order the key files were read in.
\<close>

theorem trust_set_exact:
  "(\<exists>ed. buildEd25519TrustSet keys = Inr ed) = (\<forall>i raw raw'. claims keys i raw \<and> claims keys i raw' \<longrightarrow> raw = raw') \<and>
   (buildEd25519TrustSet keys = Inr ed \<longrightarrow> (\<forall>i raw. ed i = Some raw \<longleftrightarrow> claims keys i raw))"
proof -
  have *: "buildEd25519TrustSet keys = Inr ed \<longleftrightarrow>
      (\<forall>i raw raw'. claims keys i raw \<longrightarrow> claims keys i raw' \<longrightarrow> raw = raw') \<and>
      (\<forall>i raw. ed i = Some raw \<longleftrightarrow> claims keys i raw)" for ed
    by (simp add: buildEd25519TrustSet_def trust_loop_Inr says_def)
  have "\<exists>ed. \<forall>i raw. ed i = Some raw \<longleftrightarrow> claims keys i raw"
    if u: "\<forall>i raw raw'. claims keys i raw \<longrightarrow> claims keys i raw' \<longrightarrow> raw = raw'"
  proof (intro exI allI)
    fix i raw
    show "(\<lambda>i. if \<exists>raw. claims keys i raw then Some (THE raw. claims keys i raw) else None) i = Some raw \<longleftrightarrow>
        claims keys i raw"
      using u by (auto intro: the_equality) (metis theI)
  qed
  then show ?thesis unfolding * by blast
qed

theorem trust_set_exact_witness:
  "buildEd25519TrustSet [demo_key, demo_key\<lparr>pk_KeyID := ''5a''\<rparr>] = Inr [''5a'' \<mapsto> demo_pub] \<and>
   claims [demo_key, demo_key\<lparr>pk_KeyID := ''5a''\<rparr>] ''5a'' demo_pub \<and>
   (\<forall>ed. buildEd25519TrustSet [demo_key, demo_key\<lparr>pk_Raw := replicate 32 CHR ''x''\<rparr>] \<noteq> Inr ed)"
proof -
  have low: "to_lower ''5A'' = ''5a''" "to_lower ''5a'' = ''5a''" by code_simp+
  have b: "buildEd25519TrustSet [demo_key, demo_key\<lparr>pk_KeyID := ''5a''\<rparr>] = Inr [''5a'' \<mapsto> demo_pub]"
    by (simp add: buildEd25519TrustSet_def demo_key_def AlgorithmEd25519_def pubKeyLen_def demo_pub_def low)
  have "\<forall>ed. buildEd25519TrustSet [demo_key, demo_key\<lparr>pk_Raw := replicate 32 CHR ''x''\<rparr>] \<noteq> Inr ed"
    by (simp add: buildEd25519TrustSet_def demo_key_def AlgorithmEd25519_def pubKeyLen_def demo_pub_def low)
  with b trust_set_exact [of "[demo_key, demo_key\<lparr>pk_KeyID := ''5a''\<rparr>]" "[''5a'' \<mapsto> demo_pub]"]
  show ?thesis by (metis fun_upd_same)
qed

text \<open>
  C15. A block the composite verifier accepts is vouched for by the check that ran: either it is a gpg
  block, or the operator's trust set holds a key under the block's id and the Ed25519 check of that
  key over the purpose, a NUL byte and the canonical bytes passed, on a block that names no other
  algorithm.
\<close>

theorem accepted_block_checked:
  assumes "compositeVerifier_Verify env v purpose canon sig = None" "sg_SignerKind sig \<noteq> SignerGPG"
  shows "(\<exists>pub raw. cv_ed25519Keys v (to_lower (sg_KeyID sig)) = Some pub \<and>
      b64_decode (sg_Signature sig) = Some raw \<and> length raw = 64 \<and>
      se_ed25519 env pub (purpose @ [CHR 0x00] @ canon) raw) \<and>
    (sg_Algorithm sig = '''' \<and> sg_SignerKind sig = SignerEd25519File \<or> equal_fold (sg_Algorithm sig) ''ed25519'')"
  using assms
  by (auto simp: compositeVerifier_Verify_def verifyEd25519_None SigningInput_def AlgorithmEd25519_def
      split: if_splits)

theorem accepted_block_checked_witness:
  "cv_ed25519Keys demo_verifier (to_lower (sg_KeyID demo_block)) = Some demo_pub \<and>
   (\<exists>pub raw. cv_ed25519Keys demo_verifier (to_lower (sg_KeyID demo_block)) = Some pub \<and>
      se_ed25519 demo_env pub (''p'' @ [CHR 0x00] @ ''c'') raw)"
proof -
  have "to_lower ''5A'' = ''5a''" by code_simp
  then have t: "cv_ed25519Keys demo_verifier (to_lower (sg_KeyID demo_block)) = Some demo_pub"
    by (simp add: demo_verifier_def demo_block_def)
  then have "verifyEd25519Signature demo_env (cv_ed25519Keys demo_verifier) ''p'' ''c'' demo_block = None"
    unfolding verifyEd25519_None by (simp add: demo_block_def b64_roundtrip demo_env_def)
  then have "compositeVerifier_Verify demo_env demo_verifier ''p'' ''c'' demo_block = None"
    by (simp add: compositeVerifier_Verify_def demo_block_def SignerGPG_def SignerEd25519File_def AlgorithmEd25519_def)
  from accepted_block_checked [OF this] t show ?thesis
    by (auto simp: demo_block_def SignerGPG_def)
qed



text \<open>
  Domain separation: two signing inputs agree only if both the purposes and the payloads do, as
  long as no purpose contains a NUL byte; \<^verbatim>\<open>SignPurpose\<close> contains none.
\<close>

theorem signing_input_domain_separation:
  assumes "CHR 0x00 \<notin> set purpose"
  shows "CHR 0x00 \<notin> set SignPurpose \<and>
    (SigningInput SignPurpose canon = SigningInput purpose payload \<longleftrightarrow> SignPurpose = purpose \<and> canon = payload)"
proof -
  have n: "CHR 0x00 \<notin> set SignPurpose" by code_simp
  with SigningInput_inj [OF n assms] show ?thesis by blast
qed

theorem signing_input_domain_separation_witness:
  "SigningInput SignPurpose ''x'' \<noteq> SigningInput ''debark.evidence/v1'' ''x''"
proof -
  have "CHR 0x00 \<notin> set ''debark.evidence/v1''" "SignPurpose \<noteq> ''debark.evidence/v1''" by code_simp+
  with signing_input_domain_separation show ?thesis by blast
qed

text \<open>
  Keys that travel with the bundle are refused: when \<^verbatim>\<open>VerifierFor\<close> succeeds without the explicit
  override, no ancestor of any key source is the bundle directory (by file identity), and no
  ancestor of the bundle directory is a key source.
\<close>

theorem VerifierFor_keys_off_media:
  assumes "VerifierFor env ks bundlePath = Inr v" "\<not> ks_AllowSameMedia ks"
    and "c \<in> set (key_candidates ks)"
    and "se_ident env (se_resolve env bundlePath) = Some b" "se_ident env (se_resolve env c) = Some k"
  shows "(\<forall>n. se_ident env (take n (se_resolve env c)) \<noteq> Some b) \<and>
    (\<forall>n. se_ident env (take n (se_resolve env bundlePath)) \<noteq> Some k)"
proof -
  have "find (\<lambda>c. sameMedia env c bundlePath) (key_candidates ks) = None"
    using assms(1,2) by (auto simp: VerifierFor_def split: if_splits option.splits)
  then have "\<not> sameMedia env c bundlePath" using assms(3) by (simp add: find_None_iff)
  then have "\<not> contains_from env b (se_resolve env c)" "\<not> contains_from env k (se_resolve env bundlePath)"
    using assms(4,5) by (auto simp: sameMedia_def pathContains_def Let_def)
  then show ?thesis unfolding contains_from_iff
    by (metis nle_le take_all)
qed

definition media_env :: sign_env where
  "media_env = demo_env\<lparr>se_ident := (\<lambda>p. if p = [''usb'', ''b''] then Some 1 else if p = [''k''] then Some 2 else Some 3),
     se_resolve := (\<lambda>p. if p = ''/usb/b'' then [''usb'', ''b''] else [''k'']), se_readdir := (\<lambda>p. Some [])\<rparr>"

theorem VerifierFor_keys_off_media_witness:
  "\<forall>n. se_ident media_env (take n (se_resolve media_env ''/k'')) \<noteq> Some 1"
proof -
  let ?ks = "\<lparr>ks_Files = [], ks_Dirs = [''/k''], ks_GPGKeyring = '''', ks_AllowSameMedia = False\<rparr>"
  have "sameMedia media_env ''/k'' ''/usb/b'' = False" by code_simp
  then have "VerifierFor media_env ?ks ''/usb/b'' = Inr \<lparr>cv_ed25519Keys = Map.empty, cv_keyringArgs = []\<rparr>"
    by (simp add: VerifierFor_def key_candidates_def loadPublicKeysFrom_def)
      (simp add: media_env_def keyring_files_def buildEd25519TrustSet_def newGPGVerifier_def)
  from VerifierFor_keys_off_media [OF this, of "''/k''" 1 2] show ?thesis
    by (simp add: key_candidates_def media_env_def)
qed

end
