(* ===== verification/Lock.thy ===== *)
theory Lock
  imports Lock_Types Go_Path Digest Dferr
begin

text \<open>
  The checks of the lock package, \<^verbatim>\<open>src/core/lock/validate.go\<close> and \<^verbatim>\<open>src/core/lock/api.go\<close>: the filename
  check, what \<^verbatim>\<open>Load\<close> enforces, what \<^verbatim>\<open>Validate\<close> enforces, the install entries and the lookups. The
  loops carry the same maps as the source. An error is a constructor with the arguments of its
  message; all of them have the class \<^verbatim>\<open>dferr.Usage\<close>.

  \<^verbatim>\<open>Validate\<close> is proved equivalent to a declarative description of a well-formed lock.
\<close>

section \<open>Errors\<close>

datatype filename_error =
    EmptyFilename | NulByte | Backslash | AbsoluteFilename | DriveLetter | ControlCharacter
  | EmptySegment | DotSegment string

datatype lock_error =
    NilLock
  | UnsupportedSchema string
  | BackendUnresolved
  | EmptyTargetArch
  | BadClosedWorldResult string
  | BadFilename nat string filename_error
  | FileClaimedTwice string string string path
  | EmptyName nat
  | IllegalName nat string
  | EmptyArch nat string
  | MalformedArch nat string string
  | EmptyVersion nat string
  | MalformedVersion nat string string
  | NegativeSize nat string int
  | BadReason nat string string
  | BadPublisherVerification nat string string
  | MalformedSHA256 string string string string
  | PackageTwice string string string string
  | MalformedInstallEntry string
  | InstallNotPresent string
  | InstallTwice string string string string

definition lock_error_class :: "lock_error \<Rightarrow> err_class" where
  "lock_error_class e = Usage"

section \<open>The code\<close>

text \<open>\<^verbatim>\<open>checkFilename\<close>.\<close>

definition check_segment :: "string \<Rightarrow> filename_error option" where
  "check_segment seg =
     (if seg = '''' then Some EmptySegment
      else if seg = ''.'' \<or> seg = ''..'' then Some (DotSegment seg)
      else None)"

definition checkFilename :: "path \<Rightarrow> filename_error option" where
  "checkFilename filename =
     (if filename = '''' then Some EmptyFilename
      else if CHR 0x00 \<in> set filename then Some NulByte
      else if CHR 0x5C \<in> set filename then Some Backslash
      else if has_prefix filename ''/'' then Some AbsoluteFilename
      else if length filename \<ge> 2 \<and> filename ! 1 = CHR '':'' then Some DriveLetter
      else if list_ex is_control_byte filename then Some ControlCharacter
      else first_error check_segment (split_on slash filename))"

text \<open>\<^verbatim>\<open>checkLoadSafety\<close>: the loop with its map \<^verbatim>\<open>byFilename\<close>.\<close>

fun load_safety_loop :: "(path \<rightharpoonup> string) \<Rightarrow> nat \<Rightarrow> lock_package list \<Rightarrow> lock_error option" where
  "load_safety_loop byFilename i [] = None"
| "load_safety_loop byFilename i (p # ps) =
     (case checkFilename (pkg_Filename p) of
        Some e \<Rightarrow> Some (BadFilename i (pkg_Name p) e)
      | None \<Rightarrow>
          (case byFilename (pkg_Filename p) of
             Some prior \<Rightarrow> Some (FileClaimedTwice prior (pkg_Name p) (pkg_Arch p) (pkg_Filename p))
           | None \<Rightarrow>
               load_safety_loop
                 (byFilename(pkg_Filename p \<mapsto> pkg_Name p @ '':'' @ pkg_Arch p)) (Suc i) ps))"

definition checkLoadSafety :: "lock_doc \<Rightarrow> lock_error option" where
  "checkLoadSafety l = load_safety_loop Map.empty 0 (lk_Packages l)"

text \<open>\<^verbatim>\<open>validReason\<close>, \<^verbatim>\<open>validPackageName\<close>, \<^verbatim>\<open>hasSpaceOrControl\<close> and the enumerations.\<close>

definition validReason :: "string \<Rightarrow> bool" where
  "validReason s \<longleftrightarrow>
     s = ReasonRequested \<or> s = ReasonUpgrade \<or> s = ReasonExternal \<or>
     has_prefix s ReasonDependencyOfPrefix \<and> length s > length ReasonDependencyOfPrefix"

definition lower_alnum :: "char \<Rightarrow> bool" where
  "lower_alnum c \<longleftrightarrow> is_lower_byte c \<or> is_digit_byte c"

definition validPackageName :: "string \<Rightarrow> bool" where
  "validPackageName s \<longleftrightarrow>
     s \<noteq> '''' \<and> length s \<le> 255 \<and> lower_alnum (hd s) \<and>
     list_all (\<lambda>c. lower_alnum c \<or> c = CHR ''+'' \<or> c = CHR ''-'' \<or> c = CHR ''.'') (tl s)"

definition hasSpaceOrControl :: "string \<Rightarrow> bool" where
  "hasSpaceOrControl s \<longleftrightarrow> list_ex (\<lambda>c. byte c \<le> 32 \<or> byte c = 127) s"

definition validPublisherVerification :: "string list" where
  "validPublisherVerification =
     [VerifiedAPTSigned, VerifiedURLUnverified, VerifiedUserDigest, VerifiedUserSignature]"

definition validClosedWorldResults :: "string list" where
  "validClosedWorldResults = [ClosedWorldOK, ClosedWorldFailed, ClosedWorldSkipped]"

text \<open>\<^verbatim>\<open>checkPackageFields\<close>.\<close>

definition checkPackageFields :: "nat \<Rightarrow> lock_package \<Rightarrow> lock_error option" where
  "checkPackageFields i p =
     (if pkg_Name p = '''' then Some (EmptyName i)
      else if \<not> validPackageName (pkg_Name p) then Some (IllegalName i (pkg_Name p))
      else if pkg_Arch p = '''' then Some (EmptyArch i (pkg_Name p))
      else if list_ex (\<lambda>c. c = CHR '':'' \<or> c = CHR ''='') (pkg_Arch p) \<or> hasSpaceOrControl (pkg_Arch p)
        then Some (MalformedArch i (pkg_Name p) (pkg_Arch p))
      else if pkg_Version p = '''' then Some (EmptyVersion i (pkg_Name p))
      else if CHR ''='' \<in> set (pkg_Version p) \<or> hasSpaceOrControl (pkg_Version p)
        then Some (MalformedVersion i (pkg_Name p) (pkg_Version p))
      else case checkFilename (pkg_Filename p) of
        Some e \<Rightarrow> Some (BadFilename i (pkg_Name p) e)
      | None \<Rightarrow>
          if pkg_Size p < 0 then Some (NegativeSize i (pkg_Name p) (pkg_Size p))
          else if \<not> validReason (pkg_Reason p) then Some (BadReason i (pkg_Name p) (pkg_Reason p))
          else if pkg_PublisherVerification p \<notin> set validPublisherVerification
            then Some (BadPublisherVerification i (pkg_Name p) (pkg_PublisherVerification p))
          else None)"

text \<open>\<^verbatim>\<open>parseInstallEntry\<close>.\<close>

definition parseInstallEntry :: "string \<Rightarrow> (string \<times> string \<times> string) option" where
  "parseInstallEntry s =
     (case index_byte (CHR ''='') s of
        None \<Rightarrow> None
      | Some eq \<Rightarrow>
          if eq = 0 \<or> eq = length s - 1 then None
          else
            let left = take eq s; version = drop (eq + 1) s
            in case index_byte (CHR '':'') left of
                 None \<Rightarrow> None
               | Some colon \<Rightarrow>
                   if colon = 0 \<or> colon = length left - 1 then None
                   else Some (take colon left, drop (colon + 1) left, version))"

text \<open>\<^verbatim>\<open>Validate\<close>: its two loops, with the maps \<^verbatim>\<open>byIdent\<close>, \<^verbatim>\<open>seen\<close> and \<^verbatim>\<open>installed\<close>.\<close>

fun validate_packages ::
  "nat \<Rightarrow> (string \<times> string \<rightharpoonup> string) \<Rightarrow> (string \<times> string \<times> string \<Rightarrow> bool) \<Rightarrow> lock_package list
    \<Rightarrow> lock_error + (string \<times> string \<times> string \<Rightarrow> bool)" where
  "validate_packages i byIdent seen [] = Inr seen"
| "validate_packages i byIdent seen (p # ps) =
     (case checkPackageFields i p of
        Some e \<Rightarrow> Inl e
      | None \<Rightarrow>
          if \<not> digest_Valid (pkg_SHA256 p)
          then Inl (MalformedSHA256 (pkg_Name p) (pkg_Arch p) (pkg_Version p) (pkg_SHA256 p))
          else case byIdent (pkg_ident p) of
            Some prior \<Rightarrow> Inl (PackageTwice (pkg_Name p) (pkg_Arch p) prior (pkg_Version p))
          | None \<Rightarrow>
              validate_packages (Suc i) (byIdent(pkg_ident p \<mapsto> pkg_Version p))
                (seen(pkg_key p := True)) ps)"

fun validate_install ::
  "(string \<times> string \<times> string \<Rightarrow> bool) \<Rightarrow> (string \<times> string \<rightharpoonup> string) \<Rightarrow> string list \<Rightarrow> lock_error option"
  where
  "validate_install seen installed [] = None"
| "validate_install seen installed (entry # entries) =
     (case parseInstallEntry entry of
        None \<Rightarrow> Some (MalformedInstallEntry entry)
      | Some (name, arch, version) \<Rightarrow>
          if \<not> seen (name, arch, version) then Some (InstallNotPresent entry)
          else case installed (name, arch) of
            Some prior \<Rightarrow> Some (InstallTwice name arch prior version)
          | None \<Rightarrow> validate_install seen (installed((name, arch) \<mapsto> version)) entries)"

definition lock_Validate :: "lock_doc option \<Rightarrow> lock_error option" where
  "lock_Validate lo =
     (case lo of
        None \<Rightarrow> Some NilLock
      | Some l \<Rightarrow>
          if lk_SchemaVersion l \<noteq> lock_SchemaVersion then Some (UnsupportedSchema (lk_SchemaVersion l))
          else if rs_Backend (lk_Resolver l) = BackendAuto then Some BackendUnresolved
          else if tg_Arch (lk_Target l) = '''' then Some EmptyTargetArch
          else if cw_Result (lk_ClosedWorld l) \<notin> set validClosedWorldResults
            then Some (BadClosedWorldResult (cw_Result (lk_ClosedWorld l)))
          else case checkLoadSafety l of
            Some e \<Rightarrow> Some e
          | None \<Rightarrow>
              (case validate_packages 0 Map.empty (\<lambda>_. False) (lk_Packages l) of
                 Inl e \<Rightarrow> Some e
               | Inr seen \<Rightarrow> validate_install seen Map.empty (lk_Install l)))"

text \<open>\<^verbatim>\<open>Find\<close> and \<^verbatim>\<open>InstallSet\<close>.\<close>

definition lock_Find :: "lock_doc option \<Rightarrow> string \<Rightarrow> string \<Rightarrow> lock_package option" where
  "lock_Find lo name arch =
     (case lo of
        None \<Rightarrow> None
      | Some l \<Rightarrow> find (\<lambda>p. pkg_Name p = name \<and> pkg_Arch p = arch) (lk_Packages l))"

definition lock_InstallSet :: "lock_doc option \<Rightarrow> lock_package list" where
  "lock_InstallSet lo =
     (case lo of
        None \<Rightarrow> []
      | Some l \<Rightarrow>
          concat (map (\<lambda>entry.
            case parseInstallEntry entry of
              None \<Rightarrow> []
            | Some (name, arch, version) \<Rightarrow>
                (case lock_Find lo name arch of
                   Some p \<Rightarrow> if pkg_Version p = version then [p] else []
                 | None \<Rightarrow> [])) (lk_Install l)))"

section \<open>The filename check\<close>

lemma check_segment_None [go_result]: "check_segment s = None \<longleftrightarrow> safe_segment s"
  by (auto simp: check_segment_def safe_segment_def)

lemma checkFilename_None:
  "checkFilename f = None \<longleftrightarrow>
     safe_rel_path f \<and> CHR 0x00 \<notin> set f \<and> CHR 0x5C \<notin> set f \<and>
     \<not> (length f \<ge> 2 \<and> f ! 1 = CHR '':'') \<and> (\<forall>c \<in> set f. \<not> is_control_byte c)"
proof -
  have abs: "has_prefix f ''/'' \<longleftrightarrow> f \<noteq> '''' \<and> hd f = slash"
    by (cases f) (auto simp: has_prefix_def)
  have segs: "first_error check_segment (split_on slash f) = None \<longleftrightarrow> safe_rel_path f"
    by (simp add: go_result safe_rel_path_def)
  show ?thesis
    using safe_rel_path_hd [of f] by (auto simp: checkFilename_def abs segs list_ex_iff)
qed

interpretation lock_gate: path_gate checkFilename
  by unfold_locales (simp add: checkFilename_None)

section \<open>Load safety\<close>

lemma load_safety_loop_None:
  "load_safety_loop m i ps = None \<longleftrightarrow>
     (\<forall>p \<in> set ps. checkFilename (pkg_Filename p) = None \<and> m (pkg_Filename p) = None) \<and>
     distinct (map pkg_Filename ps)"
proof (induction ps arbitrary: m i)
  case (Cons p ps)
  have "(m(pkg_Filename p \<mapsto> x)) (pkg_Filename q) = None \<longleftrightarrow>
      m (pkg_Filename q) = None \<and> pkg_Filename q \<noteq> pkg_Filename p" for q x
    by simp
  with Cons.IH show ?case by (auto simp: image_iff split: option.splits)
qed simp

lemma checkLoadSafety_None:
  "checkLoadSafety l = None \<longleftrightarrow>
     (\<forall>p \<in> set (lk_Packages l). checkFilename (pkg_Filename p) = None) \<and>
     distinct (map pkg_Filename (lk_Packages l))"
  by (simp add: checkLoadSafety_def load_safety_loop_None)

section \<open>Install entries\<close>

lemma parseInstallEntry_SomeD:
  assumes "parseInstallEntry s = Some (n, a, v)"
  shows "s = install_entry n a v \<and> n \<noteq> '''' \<and> a \<noteq> '''' \<and> v \<noteq> '''' \<and>
    CHR '':'' \<notin> set n \<and> CHR ''='' \<notin> set n \<and> CHR ''='' \<notin> set a"
proof -
  obtain eq where eq: "index_byte (CHR ''='') s = Some eq" "eq \<noteq> 0" "eq \<noteq> length s - 1"
    using assms by (auto simp: parseInstallEntry_def split: option.splits if_splits)
  let ?left = "take eq s"
  obtain colon where colon: "index_byte (CHR '':'') ?left = Some colon" "colon \<noteq> 0"
    "colon \<noteq> length ?left - 1"
    and parts: "n = take colon ?left" "a = drop (Suc colon) ?left" "v = drop (Suc eq) s"
    using assms eq by (auto simp: parseInstallEntry_def Let_def split: option.splits if_splits)
  note s = index_byte_SomeD [OF eq(1)] and l = index_byte_SomeD [OF colon(1)]
  have split: "?left = n @ CHR '':'' # a" "s = ?left @ CHR ''='' # v"
    using s l unfolding parts by blast+
  have "n \<noteq> ''''" "a \<noteq> ''''" "v \<noteq> ''''"
    using s l parts eq colon by auto
  moreover have "CHR '':'' \<notin> set n" using l unfolding parts by blast
  moreover have "CHR ''='' \<notin> set n \<union> set a" using s split(1) by (metis Un_iff set_append insert_iff list.set(2))
  ultimately show ?thesis using split by (auto simp: install_entry_def)
qed

lemma parseInstallEntry_install_entry:
  assumes "n \<noteq> ''''" "a \<noteq> ''''" "v \<noteq> ''''" "CHR '':'' \<notin> set n" "CHR ''='' \<notin> set n" "CHR ''='' \<notin> set a"
  shows "parseInstallEntry (install_entry n a v) = Some (n, a, v)"
proof -
  let ?left = "n @ CHR '':'' # a"
  have "install_entry n a v = ?left @ CHR ''='' # v" by (simp add: install_entry_def)
  moreover have "index_byte (CHR ''='') (?left @ CHR ''='' # v) = Some (length ?left)"
    using assms by (intro index_byte_append) auto
  moreover have "index_byte (CHR '':'') ?left = Some (length n)"
    using assms by (intro index_byte_append) auto
  ultimately show ?thesis
    using assms by (simp add: parseInstallEntry_def Let_def)
qed

lemmas parseInstallEntry_iff = parseInstallEntry_SomeD parseInstallEntry_install_entry

section \<open>Well-formed locks\<close>

definition package_wf :: "lock_package \<Rightarrow> bool" where
  "package_wf p \<longleftrightarrow>
     validPackageName (pkg_Name p) \<and>
     pkg_Arch p \<noteq> '''' \<and> CHR '':'' \<notin> set (pkg_Arch p) \<and> CHR ''='' \<notin> set (pkg_Arch p) \<and>
     \<not> hasSpaceOrControl (pkg_Arch p) \<and>
     pkg_Version p \<noteq> '''' \<and> CHR ''='' \<notin> set (pkg_Version p) \<and> \<not> hasSpaceOrControl (pkg_Version p) \<and>
     checkFilename (pkg_Filename p) = None \<and> 0 \<le> pkg_Size p \<and> validReason (pkg_Reason p) \<and>
     pkg_PublisherVerification p \<in> set validPublisherVerification \<and> digest_Valid (pkg_SHA256 p)"

definition lock_wf :: "lock_doc \<Rightarrow> bool" where
  "lock_wf l \<longleftrightarrow>
     lk_SchemaVersion l = lock_SchemaVersion \<and>
     rs_Backend (lk_Resolver l) \<noteq> BackendAuto \<and>
     tg_Arch (lk_Target l) \<noteq> '''' \<and>
     cw_Result (lk_ClosedWorld l) \<in> set validClosedWorldResults \<and>
     (\<forall>p \<in> set (lk_Packages l). package_wf p) \<and>
     distinct (map pkg_Filename (lk_Packages l)) \<and>
     distinct (map pkg_ident (lk_Packages l)) \<and>
     set (lk_Install l) \<subseteq> pkg_entry ` set (lk_Packages l) \<and>
     distinct (lk_Install l)"

lemma checkPackageFields_None:
  "checkPackageFields i p = None \<and> digest_Valid (pkg_SHA256 p) \<longleftrightarrow> package_wf p"
proof -
  have ex: "list_ex (\<lambda>c. c = x \<or> c = y) s \<longleftrightarrow> x \<in> set s \<or> y \<in> set s" for x y and s :: string
    by (auto simp: list_ex_iff)
  show ?thesis
  proof (cases "pkg_Name p = ''''")
    case True
    then show ?thesis by (simp add: checkPackageFields_def package_wf_def validPackageName_def)
  next
    case False
    then show ?thesis
      unfolding checkPackageFields_def package_wf_def ex
      by (cases "checkFilename (pkg_Filename p)") auto
  qed
qed

lemma name_bytes:
  assumes "package_wf p"
  shows "pkg_Name p \<noteq> ''''" "CHR '':'' \<notin> set (pkg_Name p)" "CHR ''='' \<notin> set (pkg_Name p)"
proof -
  let ?n = "pkg_Name p"
  have ne: "?n \<noteq> ''''" using assms by (simp add: package_wf_def validPackageName_def)
  then have "lower_alnum c \<or> c = CHR ''+'' \<or> c = CHR ''-'' \<or> c = CHR ''.''" if "c \<in> set ?n" for c
    using assms that by (cases ?n) (auto simp: package_wf_def validPackageName_def list_all_iff)
  then show "CHR '':'' \<notin> set ?n" "CHR ''='' \<notin> set ?n"
    by (fastforce simp: lower_alnum_def is_lower_byte_def is_digit_byte_def)+
  show "?n \<noteq> ''''" by (rule ne)
qed

lemma parse_pkg_entry: "package_wf p \<Longrightarrow> parseInstallEntry (pkg_entry p) = Some (pkg_key p)"
  unfolding pkg_entry_def pkg_key_def
  by (rule parseInstallEntry_install_entry) (simp_all add: name_bytes, simp_all add: package_wf_def)

lemma validate_packages_Inr:
  "validate_packages i byIdent seen ps = Inr seen' \<longleftrightarrow>
     (\<forall>p \<in> set ps. package_wf p \<and> byIdent (pkg_ident p) = None) \<and> distinct (map pkg_ident ps) \<and>
     seen' = (\<lambda>k. seen k \<or> k \<in> pkg_key ` set ps)"
proof (induction ps arbitrary: i byIdent seen)
  case Nil
  then show ?case by auto
next
  case (Cons p ps)
  show ?case
  proof (cases "package_wf p \<and> byIdent (pkg_ident p) = None")
    case True
    then have "checkPackageFields i p = None" "digest_Valid (pkg_SHA256 p)"
      using checkPackageFields_None [of i p] by auto
    with True have "validate_packages i byIdent seen (p # ps) =
        validate_packages (Suc i) (byIdent(pkg_ident p \<mapsto> pkg_Version p)) (seen(pkg_key p := True)) ps"
      by simp
    moreover have "(\<lambda>k. (seen(pkg_key p := True)) k \<or> k \<in> pkg_key ` set ps) =
        (\<lambda>k. seen k \<or> k \<in> pkg_key ` set (p # ps))" by auto
    ultimately show ?thesis
      using True by (simp only: Cons.IH) (auto simp: image_iff)
  next
    case False
    then show ?thesis
      using checkPackageFields_None [of i p] by (auto split: option.splits)
  qed
qed

lemma validate_install_None:
  "validate_install seen installed es = None \<longleftrightarrow>
     (\<forall>e \<in> set es. \<exists>n a v. parseInstallEntry e = Some (n, a, v) \<and> seen (n, a, v) \<and>
        installed (n, a) = None) \<and>
     distinct (map (\<lambda>e. map_option (\<lambda>(n, a, v). (n, a)) (parseInstallEntry e)) es)"
proof (induction es arbitrary: installed)
  case Nil
  then show ?case by simp
next
  case (Cons e es)
  show ?case
  proof (cases "parseInstallEntry e")
    case None
    then show ?thesis by simp
  next
    case (Some k)
    obtain n a v where k: "k = (n, a, v)" by (cases k)
    have upd: "(\<exists>n' a' v'. parseInstallEntry x = Some (n', a', v') \<and> seen (n', a', v') \<and>
          (installed((n, a) \<mapsto> v)) (n', a') = None) \<longleftrightarrow>
        (\<exists>n' a' v'. parseInstallEntry x = Some (n', a', v') \<and> seen (n', a', v') \<and>
          installed (n', a') = None) \<and>
        map_option (\<lambda>(n, a, v). (n, a)) (parseInstallEntry x) \<noteq> Some (n, a)" for x
      by (cases "parseInstallEntry x") (auto split: if_splits)
    have "validate_install seen installed (e # es) = None \<longleftrightarrow>
        seen (n, a, v) \<and> installed (n, a) = None \<and>
        validate_install seen (installed((n, a) \<mapsto> v)) es = None"
      using Some k by (auto split: option.splits)
    then show ?thesis
      unfolding Cons.IH upd using Some k by (auto simp: image_iff)
  qed
qed

lemma entry_ident_inj:
  assumes "p \<in> set ps" "q \<in> set ps" "distinct (map pkg_ident ps)" "pkg_ident p = pkg_ident q"
  shows "p = q"
  using assms by (auto simp: distinct_map dest: inj_onD)

lemma validate_install_wf:
  assumes wf: "\<forall>p \<in> set ps. package_wf p" and di: "distinct (map pkg_ident ps)"
  shows "validate_install (\<lambda>k. k \<in> pkg_key ` set ps) Map.empty es = None \<longleftrightarrow>
    set es \<subseteq> pkg_entry ` set ps \<and> distinct es"
proof -
  have key: "(\<exists>n a v. parseInstallEntry e = Some (n, a, v) \<and> (n, a, v) \<in> pkg_key ` set ps) \<longleftrightarrow>
      e \<in> pkg_entry ` set ps" for e
  proof
    assume "\<exists>n a v. parseInstallEntry e = Some (n, a, v) \<and> (n, a, v) \<in> pkg_key ` set ps"
    then obtain n a v p where "parseInstallEntry e = Some (n, a, v)" "p \<in> set ps" "pkg_key p = (n, a, v)"
      by (metis imageE)
    then show "e \<in> pkg_entry ` set ps"
      using parseInstallEntry_SomeD [of e n a v] by (auto simp: pkg_key_def pkg_entry_def)
  next
    assume "e \<in> pkg_entry ` set ps"
    then obtain p where "p \<in> set ps" "e = pkg_entry p" by auto
    then show "\<exists>n a v. parseInstallEntry e = Some (n, a, v) \<and> (n, a, v) \<in> pkg_key ` set ps"
      using wf parse_pkg_entry [of p] by (cases "pkg_key p") force
  qed
  have inj: "inj_on (\<lambda>e. map_option (\<lambda>(n, a, v). (n, a)) (parseInstallEntry e)) (pkg_entry ` set ps)"
  proof (rule inj_onI)
    fix e e'
    assume "e \<in> pkg_entry ` set ps" "e' \<in> pkg_entry ` set ps"
      and eq: "map_option (\<lambda>(n, a, v). (n, a)) (parseInstallEntry e) =
        map_option (\<lambda>(n, a, v). (n, a)) (parseInstallEntry e')"
    then obtain p q where pq: "p \<in> set ps" "q \<in> set ps" "e = pkg_entry p" "e' = pkg_entry q" by auto
    with eq wf have "pkg_ident p = pkg_ident q"
      by (simp add: parse_pkg_entry pkg_key_def pkg_ident_def)
    with pq di show "e = e'" using entry_ident_inj by blast
  qed
  have "set es \<subseteq> pkg_entry ` set ps \<Longrightarrow>
      distinct (map (\<lambda>e. map_option (\<lambda>(n, a, v). (n, a)) (parseInstallEntry e)) es) \<longleftrightarrow> distinct es"
    using inj_on_subset [OF inj, of "set es"] by (simp add: distinct_map)
  then show ?thesis
    unfolding validate_install_None using key by (auto simp: subset_iff)
qed

lemma lock_Validate_wf: "lock_Validate (Some l) = None \<longleftrightarrow> lock_wf l"
proof -
  let ?ps = "lk_Packages l"
  let ?wf = "(\<forall>p \<in> set ?ps. package_wf p) \<and> distinct (map pkg_ident ?ps)"
  have "checkFilename (pkg_Filename p) = None" if "package_wf p" for p
    using that by (simp add: package_wf_def)
  then have ls: "checkLoadSafety l = None \<and> ?wf \<longleftrightarrow> distinct (map pkg_Filename ?ps) \<and> ?wf"
    by (auto simp: checkLoadSafety_None)
  have "(case validate_packages 0 Map.empty (\<lambda>_. False) ?ps of
        Inl e \<Rightarrow> Some e | Inr seen \<Rightarrow> validate_install seen Map.empty (lk_Install l)) = None \<longleftrightarrow>
      ?wf \<and> set (lk_Install l) \<subseteq> pkg_entry ` set ?ps \<and> distinct (lk_Install l)" (is "?lhs \<longleftrightarrow> ?rhs")
  proof (cases ?wf)
    case True
    then have "validate_packages 0 Map.empty (\<lambda>_. False) ?ps = Inr (\<lambda>k. k \<in> pkg_key ` set ?ps)"
      by (simp add: validate_packages_Inr)
    with True show ?thesis by (simp add: validate_install_wf)
  next
    case False
    then have "validate_packages 0 Map.empty (\<lambda>_. False) ?ps \<noteq> Inr seen" for seen
      by (auto simp: validate_packages_Inr)
    with False show ?thesis by (auto split: sum.splits)
  qed
  then show ?thesis
    using ls by (auto simp: lock_Validate_def lock_wf_def split: option.splits)
qed

lemma lock_Find_wf:
  assumes "lock_wf l" "p \<in> set (lk_Packages l)"
  shows "lock_Find (Some l) (pkg_Name p) (pkg_Arch p) = Some p"
proof -
  have "(\<lambda>q. pkg_Name q = pkg_Name p \<and> pkg_Arch q = pkg_Arch p) = (\<lambda>q. pkg_ident q = pkg_ident p)"
    by (auto simp: pkg_ident_def)
  moreover have "distinct (map pkg_ident (lk_Packages l))" using assms(1) by (simp add: lock_wf_def)
  ultimately show ?thesis
    using map_of_distinct_find [OF _ assms(2), of pkg_ident] by (simp add: lock_Find_def)
qed

lemma lock_InstallSet_entry:
  assumes "lock_wf l" "e \<in> set (lk_Install l)"
  shows "\<exists>p \<in> set (lk_Packages l). e = pkg_entry p \<and> parseInstallEntry e = Some (pkg_key p) \<and>
    lock_Find (Some l) (pkg_Name p) (pkg_Arch p) = Some p"
proof -
  obtain p where p: "p \<in> set (lk_Packages l)" "e = pkg_entry p" and wf: "package_wf p"
    using assms by (auto simp: lock_wf_def)
  then show ?thesis using parse_pkg_entry lock_Find_wf assms(1) by blast
qed

section \<open>An example\<close>

definition demo_package :: lock_package where
  "demo_package = zero_package\<lparr>pkg_Name := ''vlc'', pkg_Arch := ''amd64'', pkg_Version := ''1:3.0-1'',
     pkg_Filename := ''pool/v/vlc/vlc_3.0-1_amd64.deb'', pkg_Size := 3,
     pkg_SHA256 := toy_hash ''deb'', pkg_Reason := ''requested'',
     pkg_PublisherVerification := ''apt-signed''\<rparr>"

definition demo_lock :: lock_doc where
  "demo_lock = zero_lock\<lparr>lk_SchemaVersion := ''debark.lock/v1'',
     lk_Target := zero_target\<lparr>tg_Arch := ''amd64''\<rparr>,
     lk_Resolver := zero_resolver\<lparr>rs_Backend := ''local''\<rparr>,
     lk_Packages := [demo_package], lk_Install := [''vlc:amd64=1:3.0-1''],
     lk_ClosedWorld := \<lparr>cw_Result = ''ok'', cw_CommandDigest = '''', cw_OutputDigest = '''', cw_Detail = ''''\<rparr>\<rparr>"

lemma demo_lock_valid: "lock_Validate (Some demo_lock) = None"
  by code_simp

section \<open>Properties\<close>

text \<open>A filename that \<^verbatim>\<open>checkFilename\<close> accepts stays below the directory it is joined to: cleaning
  the joined path only appends the filename to the cleaned directory, so no accepted filename
  reaches outside the bundle, and two accepted filenames never denote one file.\<close>

theorem checkFilename_confines:
  assumes "checkFilename f = None" "checkFilename g = None" "named_dir dir"
  shows "path_Clean (dir @ ''/'' @ f) = path_Clean dir @ ''/'' @ f \<and>
    (path_Clean (dir @ ''/'' @ f) = path_Clean (dir @ ''/'' @ g) \<longrightarrow> f = g)"
  using lock_gate.accepted_confined [OF assms(1,3)] lock_gate.accepted_one_name [OF assms] by simp

theorem checkFilename_confines_witness:
  "path_Clean (''/mnt/../media/b/repo'' @ ''/'' @ ''pool/v/vlc.deb'') = ''/media/b/repo/pool/v/vlc.deb'' \<and>
   checkFilename ''../../etc/shadow'' \<noteq> None"
proof -
  have c: "checkFilename ''pool/v/vlc.deb'' = None" and n: "named_dir ''/mnt/../media/b/repo''"
    and d: "path_Clean ''/mnt/../media/b/repo'' = ''/media/b/repo''" by code_simp+
  have "checkFilename ''../../etc/shadow'' \<noteq> None" by code_simp
  with checkFilename_confines [OF c c n] d show ?thesis by simp
qed

text \<open>\<^verbatim>\<open>checkLoadSafety\<close> accepts a lock exactly if every filename passes \<^verbatim>\<open>checkFilename\<close> and no two
  packages name the same file.\<close>

theorem checkLoadSafety_iff:
  "checkLoadSafety l = None \<longleftrightarrow>
     list_all (\<lambda>p. checkFilename (pkg_Filename p) = None) (lk_Packages l) \<and>
     distinct (map pkg_Filename (lk_Packages l))"
  by (simp add: checkLoadSafety_None list_all_iff)


text \<open>For a lock that \<^verbatim>\<open>Validate\<close> accepts, \<^verbatim>\<open>InstallSet\<close> resolves every install entry, in order, to the
  one package that prints as it: nothing is dropped and nothing is added.\<close>

theorem InstallSet_complete:
  assumes "lock_Validate (Some l) = None"
  shows "map pkg_entry (lock_InstallSet (Some l)) = lk_Install l \<and>
    set (lock_InstallSet (Some l)) \<subseteq> set (lk_Packages l)"
proof -
  have wf: "lock_wf l" using assms by (simp add: lock_Validate_wf)
  let ?f = "\<lambda>entry. case parseInstallEntry entry of None \<Rightarrow> []
      | Some (name, arch, version) \<Rightarrow> (case lock_Find (Some l) name arch of
          Some p \<Rightarrow> if pkg_Version p = version then [p] else [] | None \<Rightarrow> [])"
  have each: "\<exists>p \<in> set (lk_Packages l). ?f e = [p] \<and> pkg_entry p = e" if "e \<in> set (lk_Install l)" for e
    using lock_InstallSet_entry [OF wf that] by (fastforce simp: pkg_key_def)
  have "map pkg_entry (concat (map ?f (lk_Install l))) = lk_Install l \<and>
      set (concat (map ?f (lk_Install l))) \<subseteq> set (lk_Packages l)"
    by (rule concat_map_singletons) (rule each)
  then show ?thesis by (simp add: lock_InstallSet_def)
qed

theorem InstallSet_complete_witness:
  "map pkg_entry (lock_InstallSet (Some demo_lock)) = [''vlc:amd64=1:3.0-1'']"
  using InstallSet_complete [OF demo_lock_valid] by (simp add: demo_lock_def)

text \<open>Install entries round-trip: parsing what is printed from a name and an architecture without
  separators gives the three parts back (the version may contain a colon), and whatever parses
  prints back to the same string.\<close>

theorem install_entry_roundtrip:
  "(n \<noteq> '''' \<and> a \<noteq> '''' \<and> v \<noteq> '''' \<and> CHR '':'' \<notin> set n \<and> CHR ''='' \<notin> set n \<and> CHR ''='' \<notin> set a
      \<longrightarrow> parseInstallEntry (install_entry n a v) = Some (n, a, v)) \<and>
   (parseInstallEntry s = Some (n, a, v) \<longrightarrow> s = install_entry n a v)"
  using parseInstallEntry_iff by blast

theorem install_entry_roundtrip_witness:
  "parseInstallEntry (install_entry ''vlc'' ''amd64'' ''1:3.0-1'') = Some (''vlc'', ''amd64'', ''1:3.0-1'')"
  using install_entry_roundtrip [of "''vlc''" "''amd64''" "''1:3.0-1''" "''''"] by simp

end
