(* ===== verification/Lock_File.thy ===== *)
theory Lock_File
  imports Lock
begin

text \<open>
  Reading and writing \<^verbatim>\<open>lock.json\<close>: the document-shape check of \<^verbatim>\<open>src/core/lock/validate.go\<close> over JSON
  values, and \<^verbatim>\<open>Save\<close> and \<^verbatim>\<open>Load\<close> of \<^verbatim>\<open>src/core/lock/api.go\<close>.

  A JSON value keeps its members in document order, repeated keys included, which is how
  \<^verbatim>\<open>checkJSONObject\<close> sees them through \<^verbatim>\<open>json.Decoder\<close>. What \<^verbatim>\<open>encoding/json\<close> and \<^verbatim>\<open>core/canonical\<close> (over
  the third-party \<^verbatim>\<open>gowebpki/jcs\<close>) do between bytes and values is the record \<open>lock_codec\<close> of
  parameters. The Go type a value is checked against is a value of the datatype \<open>gotype\<close>, the
  result of the reflection in \<^verbatim>\<open>jsonFieldsOf\<close>.
\<close>

section \<open>The document shape\<close>

datatype json =
    JNull | JBool bool | JNum string | JStr string
  | JArr "json list"
  | JObj "(string \<times> json) list"

datatype gotype = GoScalar | GoStruct "(string \<times> gotype) list" | GoSlice gotype

datatype shape_error =
    UnknownField string string
  | RepeatedField string string

text \<open>\<^verbatim>\<open>prefix\<close> and \<^verbatim>\<open>joinPath\<close>.\<close>

definition shape_prefix :: "string \<Rightarrow> string" where
  "shape_prefix p = (if p = '''' then '''' else p @ '': '')"

definition joinPath :: "string \<Rightarrow> string \<Rightarrow> string" where
  "joinPath p name = (if p = '''' then name else p @ ''.'' @ name)"

text \<open>\<^verbatim>\<open>checkJSONValue\<close> and \<^verbatim>\<open>checkJSONObject\<close>, with their loops over items and members.\<close>

fun checkJSONValue :: "json \<Rightarrow> gotype \<Rightarrow> string \<Rightarrow> shape_error option"
  and check_items :: "json list \<Rightarrow> gotype \<Rightarrow> string \<Rightarrow> nat \<Rightarrow> shape_error option"
  and checkJSONObject ::
    "(string \<times> json) list \<Rightarrow> (string \<times> gotype) list \<Rightarrow> string \<Rightarrow> string list \<Rightarrow> shape_error option"
  where
  "checkJSONValue (JObj ms) (GoStruct decls) p = checkJSONObject ms decls p []"
| "checkJSONValue (JArr items) (GoSlice t) p = check_items items t p 0"
| "checkJSONValue j t p = None"
| "check_items [] t p i = None"
| "check_items (j # js) t p i =
     (case checkJSONValue j t (p @ ''['' @ itoa i @ '']'') of
        Some e \<Rightarrow> Some e
      | None \<Rightarrow> check_items js t p (Suc i))"
| "checkJSONObject [] decls p seen = None"
| "checkJSONObject ((name, value) # ms) decls p seen =
     (case map_of decls name of
        None \<Rightarrow> Some (UnknownField (shape_prefix p) name)
      | Some ft \<Rightarrow>
          if name \<in> set seen then Some (RepeatedField (shape_prefix p) name)
          else case checkJSONValue value ft (joinPath p name) of
            Some e \<Rightarrow> Some e
          | None \<Rightarrow> checkJSONObject ms decls p (name # seen))"

text \<open>The key sets of \<^verbatim>\<open>debark.lock/v1\<close>, from the struct tags of \<^verbatim>\<open>types.go\<close>.\<close>

definition strings_type :: gotype where
  "strings_type = GoSlice GoScalar"

definition scalars :: "string list \<Rightarrow> (string \<times> gotype) list" where
  "scalars = map (\<lambda>k. (k, GoScalar))"

definition target_type :: gotype where
  "target_type = GoStruct (scalars [''distro_id'', ''version_id'', ''codename'', ''arch''] @
     [(''foreign_archs'', strings_type)] @ scalars [''apt_version'', ''dpkg_version''])"

definition resolver_type :: gotype where
  "resolver_type = GoStruct (scalars [''backend'', ''image'', ''image_digest'', ''apt_version'',
     ''dpkg_version''] @ [(''apt_options'', strings_type)] @
     scalars [''phased_updates'', ''install_recommends'', ''solver_divergence''])"

definition origin_type :: gotype where
  "origin_type = GoStruct (scalars [''uri'', ''local_path'', ''suite'', ''component'',
     ''release_digest'', ''key_fingerprint''])"

definition package_type :: gotype where
  "package_type = GoStruct (scalars [''name'', ''arch'', ''version'', ''source_package'', ''filename'',
     ''size'', ''sha256''] @ [(''origin'', origin_type)] @ scalars [''reason'', ''publisher_verification''] @
     [(''flags'', strings_type)] @ scalars [''essential''])"

definition closed_world_type :: gotype where
  "closed_world_type = GoStruct (scalars [''result'', ''command_digest'', ''output_digest'', ''detail''])"

definition warning_type :: gotype where
  "warning_type = GoStruct (scalars [''code'', ''message''] @ [(''packages'', strings_type)])"

definition unresolved_type :: gotype where
  "unresolved_type = GoStruct (scalars [''input'', ''kind'', ''detail''] @ [(''missing'', strings_type)])"

definition stats_type :: gotype where
  "stats_type = GoStruct (scalars [''added'', ''removed'', ''unchanged'', ''bytes'', ''downloaded_bytes''])"

definition lock_type :: gotype where
  "lock_type = GoStruct (scalars [''schema_version'', ''created_at'', ''snapshot_digest'',
     ''request_digest''] @
     [(''target'', target_type), (''resolver'', resolver_type), (''packages'', GoSlice package_type),
      (''install'', strings_type), (''closed_world_check'', closed_world_type),
      (''warnings'', GoSlice warning_type), (''unresolved'', GoSlice unresolved_type),
      (''stats'', stats_type)])"

section \<open>Save and Load\<close>

text \<open>
  \<open>cd_first\<close> is the first JSON value of a byte string (\<^const>\<open>None\<close> when \<^verbatim>\<open>Decode\<close> fails), \<open>cd_trailing\<close>
  whether anything but white space follows it, \<open>cd_decode\<close> the strict typed decode, \<open>cd_digest\<close>
  and \<open>cd_indent\<close> are \<^verbatim>\<open>canonical.Digest\<close> and \<^verbatim>\<open>canonical.MarshalIndent\<close> of a lock.
\<close>

record lock_codec =
  cd_first :: "string \<Rightarrow> json option"
  cd_trailing :: "string \<Rightarrow> bool"
  cd_decode :: "string \<Rightarrow> lock_doc option"
  cd_digest :: "lock_doc \<Rightarrow> string option"
  cd_indent :: "lock_doc \<Rightarrow> string option"

datatype load_error =
    StatFailed | TooLarge int | ReadFailed
  | NotJSON | BadShape shape_error | TrailingContent
  | DecodeFailed | LoadLockError lock_error

datatype save_error = SaveLockError lock_error | DigestFailed | MarshalFailed | WriteFailed

fun save_error_class :: "save_error \<Rightarrow> err_class" where
  "save_error_class WriteFailed = Environment"
| "save_error_class _ = Usage"

definition maxLockBytes :: int where
  "maxLockBytes = 64 * 2 ^ 20"

definition checkDocumentShape :: "lock_codec \<Rightarrow> string \<Rightarrow> load_error option" where
  "checkDocumentShape cd raw =
     (case cd_first cd raw of
        None \<Rightarrow> Some NotJSON
      | Some doc \<Rightarrow>
          (case checkJSONValue doc lock_type '''' of
             Some e \<Rightarrow> Some (BadShape e)
           | None \<Rightarrow> if cd_trailing cd raw then Some TrailingContent else None))"

text \<open>
  \<^verbatim>\<open>Load\<close>: \<open>statSize\<close> is what \<^verbatim>\<open>os.Stat\<close> said of the file and \<open>content\<close> what \<^verbatim>\<open>os.ReadFile\<close> then
  returned (the file may grow in between, which the second size test is for).
\<close>

definition lock_Load :: "lock_codec \<Rightarrow> int option \<Rightarrow> string option \<Rightarrow> load_error + lock_doc" where
  "lock_Load cd statSize content =
     (case statSize of
        None \<Rightarrow> Inl StatFailed
      | Some sz \<Rightarrow>
          if sz > maxLockBytes then Inl (TooLarge sz)
          else case content of
            None \<Rightarrow> Inl ReadFailed
          | Some raw \<Rightarrow>
              if int (length raw) > maxLockBytes then Inl (TooLarge (int (length raw)))
              else case checkDocumentShape cd raw of
                Some e \<Rightarrow> Inl e
              | None \<Rightarrow>
                  (case cd_decode cd raw of
                     None \<Rightarrow> Inl DecodeFailed
                   | Some l \<Rightarrow>
                       if lk_SchemaVersion l \<noteq> lock_SchemaVersion
                       then Inl (LoadLockError (UnsupportedSchema (lk_SchemaVersion l)))
                       else case checkLoadSafety l of
                         Some e \<Rightarrow> Inl (LoadLockError e)
                       | None \<Rightarrow> Inr l))"

text \<open>\<^verbatim>\<open>Save\<close> returns the digest and what it wrote; \<open>writeOK\<close> is whether the write succeeds.\<close>

definition lock_Save :: "lock_codec \<Rightarrow> bool \<Rightarrow> lock_doc option \<Rightarrow> save_error + (string \<times> string)" where
  "lock_Save cd writeOK lo =
     (case lo of
        None \<Rightarrow> Inl (SaveLockError NilLock)
      | Some l \<Rightarrow>
          if lk_SchemaVersion l \<noteq> lock_SchemaVersion
          then Inl (SaveLockError (UnsupportedSchema (lk_SchemaVersion l)))
          else case checkLoadSafety l of
            Some e \<Rightarrow> Inl (SaveLockError e)
          | None \<Rightarrow>
              (case cd_digest cd l of
                 None \<Rightarrow> Inl DigestFailed
               | Some d \<Rightarrow>
                   (case cd_indent cd l of
                      None \<Rightarrow> Inl MarshalFailed
                    | Some out \<Rightarrow> if writeOK then Inr (d, out) else Inl WriteFailed)))"

section \<open>Lemmas\<close>

text \<open>The shape of a document, declaratively: at every struct the keys are declared and unique.\<close>

fun shape_ok :: "json \<Rightarrow> gotype \<Rightarrow> bool" where
  "shape_ok (JObj ms) (GoStruct decls) \<longleftrightarrow>
     distinct (map fst ms) \<and>
     (\<forall>m \<in> set ms. \<exists>ft. map_of decls (fst m) = Some ft \<and> shape_ok (snd m) ft)"
| "shape_ok (JArr items) (GoSlice t) \<longleftrightarrow> (\<forall>j \<in> set items. shape_ok j t)"
| "shape_ok j t \<longleftrightarrow> True"

lemma check_shape_ok:
  "checkJSONValue j t p = None \<longleftrightarrow> shape_ok j t"
  "check_items js t p i = None \<longleftrightarrow> (\<forall>j \<in> set js. shape_ok j t)"
  "checkJSONObject ms decls p seen = None \<longleftrightarrow>
     distinct (map fst ms) \<and> set (map fst ms) \<inter> set seen = {} \<and>
     (\<forall>m \<in> set ms. \<exists>ft. map_of decls (fst m) = Some ft \<and> shape_ok (snd m) ft)"
proof (induction j t p and js t p i and ms decls p seen
    rule: checkJSONValue_check_items_checkJSONObject.induct)
  fix name p :: string and v ms and decls :: "(string \<times> gotype) list" and seen
  assume v: "\<And>ft. map_of decls name = Some ft \<Longrightarrow> name \<notin> set seen \<Longrightarrow>
      (checkJSONValue v ft (joinPath p name) = None) = shape_ok v ft"
    and ms: "\<And>ft. map_of decls name = Some ft \<Longrightarrow> name \<notin> set seen \<Longrightarrow>
      checkJSONValue v ft (joinPath p name) = None \<Longrightarrow>
      (checkJSONObject ms decls p (name # seen) = None) = (distinct (map fst ms) \<and>
        set (map fst ms) \<inter> set (name # seen) = {} \<and>
        (\<forall>m \<in> set ms. \<exists>ft. map_of decls (fst m) = Some ft \<and> shape_ok (snd m) ft))"
  show "(checkJSONObject ((name, v) # ms) decls p seen = None) = (distinct (map fst ((name, v) # ms)) \<and>
      set (map fst ((name, v) # ms)) \<inter> set seen = {} \<and>
      (\<forall>m \<in> set ((name, v) # ms). \<exists>ft. map_of decls (fst m) = Some ft \<and> shape_ok (snd m) ft))"
  proof (cases "\<exists>ft. map_of decls name = Some ft \<and> name \<notin> set seen \<and> shape_ok v ft")
    case True
    then obtain ft where ft: "map_of decls name = Some ft" "name \<notin> set seen" "shape_ok v ft" by blast
    with v have "checkJSONValue v ft (joinPath p name) = None" by simp
    with ft ms [OF ft(1,2) this] show ?thesis by auto
  next
    case False
    then show ?thesis using v by (cases "map_of decls name") (auto split: option.splits)
  qed
qed (auto split: option.splits)

lemma checkDocumentShape_None:
  "checkDocumentShape cd raw = None \<longleftrightarrow>
     (\<exists>doc. cd_first cd raw = Some doc \<and> shape_ok doc lock_type \<and> \<not> cd_trailing cd raw)"
  by (auto simp: checkDocumentShape_def check_shape_ok(1) [symmetric, of _ _ "''''"] split: option.splits)

lemma lock_Load_Inr:
  "lock_Load cd statSize content = Inr l \<longleftrightarrow>
     (\<exists>sz raw doc. statSize = Some sz \<and> sz \<le> maxLockBytes \<and> content = Some raw \<and>
        int (length raw) \<le> maxLockBytes \<and> cd_first cd raw = Some doc \<and> shape_ok doc lock_type \<and>
        \<not> cd_trailing cd raw \<and> cd_decode cd raw = Some l \<and>
        lk_SchemaVersion l = lock_SchemaVersion \<and> checkLoadSafety l = None)"
  proof -
  have "lock_Load cd statSize content = Inr l \<longleftrightarrow>
     (\<exists>sz raw. statSize = Some sz \<and> sz \<le> maxLockBytes \<and> content = Some raw \<and>
        int (length raw) \<le> maxLockBytes \<and> checkDocumentShape cd raw = None \<and> cd_decode cd raw = Some l \<and>
        lk_SchemaVersion l = lock_SchemaVersion \<and> checkLoadSafety l = None)"
    by (auto simp: lock_Load_def split: option.splits if_splits)
  then show ?thesis by (auto simp: checkDocumentShape_None)
qed

lemma lock_Save_Inr:
  "lock_Save cd w lo = Inr (d, out) \<longleftrightarrow>
     (\<exists>l. lo = Some l \<and> w \<and> lk_SchemaVersion l = lock_SchemaVersion \<and> checkLoadSafety l = None \<and>
        cd_digest cd l = Some d \<and> cd_indent cd l = Some out)"
  by (auto simp: lock_Save_def split: option.splits if_splits)

section \<open>Properties\<close>

text \<open>
  What the codec is relied on for: decoding what \<^verbatim>\<open>MarshalIndent\<close> produced gives the lock back, and
  the produced document is one JSON object with exactly the declared keys and nothing after it. This
  is \<^verbatim>\<open>encoding/json\<close>'s contract for a struct with these tags.
\<close>

definition codec_faithful :: "lock_codec \<Rightarrow> lock_doc \<Rightarrow> bool" where
  "codec_faithful cd l \<longleftrightarrow>
     (case cd_indent cd l of
        None \<Rightarrow> False
      | Some out \<Rightarrow> cd_decode cd out = Some l \<and> \<not> cd_trailing cd out \<and>
          (case cd_first cd out of None \<Rightarrow> False | Some doc \<Rightarrow> shape_ok doc lock_type))"

lemma codec_faithfulE:
  assumes "codec_faithful cd l" "cd_indent cd l = Some out"
  obtains doc where "cd_decode cd out = Some l" "\<not> cd_trailing cd out" "cd_first cd out = Some doc"
    "shape_ok doc lock_type"
  using assms by (auto simp: codec_faithful_def split: option.splits)

text \<open>A codec that knows one lock and one text for it.\<close>

definition one_lock_codec :: "lock_doc \<Rightarrow> string \<Rightarrow> lock_codec" where
  "one_lock_codec l out = \<lparr>
     cd_first = (\<lambda>s. if s = out then Some (JObj [(''schema_version'', JStr lock_SchemaVersion)]) else None),
     cd_trailing = (\<lambda>s. False),
     cd_decode = (\<lambda>s. if s = out then Some l else None),
     cd_digest = (\<lambda>l. Some ''d''),
     cd_indent = (\<lambda>l'. if l' = l then Some out else None)\<rparr>"

lemma one_lock_codec_faithful: "codec_faithful (one_lock_codec l out) l"
  by (simp add: codec_faithful_def one_lock_codec_def lock_type_def scalars_def)

text \<open>
  C35. A lock that \<^verbatim>\<open>Load\<close> returns came from a document of at most 64 MiB whose objects carry, at
  every level of the schema, only declared keys in their exact spelling and each at most once, with
  nothing after the document; it has the supported schema version, every filename in it stays inside
  the bundle and no two packages claim one file.
\<close>

theorem lock_Load_sound:
  assumes "lock_Load cd statSize (Some raw) = Inr l"
  shows "int (length raw) \<le> maxLockBytes \<and>
    (\<exists>doc. cd_first cd raw = Some doc \<and> shape_ok doc lock_type) \<and>
    \<not> cd_trailing cd raw \<and> cd_decode cd raw = Some l \<and>
    lk_SchemaVersion l = lock_SchemaVersion \<and>
    list_all (\<lambda>p. safe_rel_path (pkg_Filename p)) (lk_Packages l) \<and>
    distinct (map pkg_Filename (lk_Packages l))"
  using assms by (auto simp: lock_Load_Inr checkLoadSafety_None checkFilename_None list_all_iff)

theorem lock_Load_sound_witness:
  "safe_rel_path (pkg_Filename (hd (lk_Packages demo_lock)))"
proof -
  have "lock_Load (one_lock_codec demo_lock ''{}'') (Some 2) (Some ''{}'') = Inr demo_lock"
    by code_simp
  from lock_Load_sound [OF this] have "list_all (\<lambda>p. safe_rel_path (pkg_Filename p)) (lk_Packages demo_lock)"
    by blast
  moreover have "lk_Packages demo_lock \<noteq> []" by code_simp
  ultimately show ?thesis by (cases "lk_Packages demo_lock") auto
qed



text \<open>
  \<^verbatim>\<open>Save\<close> has no counterpart of \<^verbatim>\<open>Load\<close>'s size limit: a lock whose indented form is larger than
  \<^verbatim>\<open>maxLockBytes\<close> is written without complaint and can never be loaded, although \<^verbatim>\<open>Save\<close>'s comment
  promises that the package never writes a document it cannot itself open.
\<close>

theorem lock_Save_oversized_unreadable:
  assumes "lock_Save cd w (Some l) = Inr (d, out)" "int (length out) > maxLockBytes"
  shows "lock_Load cd (Some (int (length out))) (Some out) = Inl (TooLarge (int (length out)))"
  using assms by (simp add: lock_Load_def)

theorem lock_Save_oversized_unreadable_witness:
  "lock_Load (one_lock_codec demo_lock (replicate 67108865 CHR ''x'')) (Some 67108865)
     (Some (replicate 67108865 CHR ''x'')) = Inl (TooLarge 67108865)"
proof -
  let ?out = "replicate 67108865 CHR ''x''"
  have safe: "checkLoadSafety demo_lock = None" "lk_SchemaVersion demo_lock = lock_SchemaVersion"
    by code_simp+
  then have s: "lock_Save (one_lock_codec demo_lock ?out) True (Some demo_lock) = Inr (''d'', ?out)"
    by (simp add: lock_Save_Inr one_lock_codec_def)
  have len: "int (length ?out) = 67108865" by (simp only: length_replicate)
  have "int (length ?out) > maxLockBytes" by (simp only: len) (simp add: maxLockBytes_def)
  from lock_Save_oversized_unreadable [OF s this] show ?thesis by (simp only: len)
qed

end
