(* ===== verification/Verify.thy ===== *)
theory Verify
  imports Sign Lock_File
begin

text \<open>
  The bundle verifier (\<^verbatim>\<open>src/core/verify/verify.go\<close> and the report types of \<^verbatim>\<open>iface.go\<close>): \<^verbatim>\<open>runVerify\<close> with all
  its steps, over the bundle tree, the signature environment and the two document codecs. A report
  is passed explicitly through the steps that append to it. Messages are values of the datatype
  \<open>verify_msg\<close>, one constructor per message of the source with what varies in it.
\<close>

section \<open>Options and reports\<close>

record verify_options =
  vo_Keys :: key_source
  vo_AllowUnsigned :: bool
  vo_SkipFileDigests :: bool

definition ProblemManifestMissing :: string where
  "ProblemManifestMissing = ''manifest-missing''"

definition ProblemManifestMalformed :: string where
  "ProblemManifestMalformed = ''manifest-malformed''"

definition ProblemSchemaUnknown :: string where
  "ProblemSchemaUnknown = ''schema-unknown''"

definition ProblemSignatureMissing :: string where
  "ProblemSignatureMissing = ''signature-missing''"

definition ProblemSignatureInvalid :: string where
  "ProblemSignatureInvalid = ''signature-invalid''"

definition ProblemSignatureUntrusted :: string where
  "ProblemSignatureUntrusted = ''signature-untrusted''"

definition ProblemManifestDigest :: string where
  "ProblemManifestDigest = ''manifest-digest-mismatch''"

definition ProblemFileMissing :: string where
  "ProblemFileMissing = ''file-missing''"

definition ProblemFileDigest :: string where
  "ProblemFileDigest = ''file-digest-mismatch''"

definition ProblemFileSize :: string where
  "ProblemFileSize = ''file-size-mismatch''"

definition ProblemFileUnexpected :: string where
  "ProblemFileUnexpected = ''file-unexpected''"

definition ProblemFileNotRegular :: string where
  "ProblemFileNotRegular = ''file-not-regular''"

definition ProblemRepoDigest :: string where
  "ProblemRepoDigest = ''repo-digest-mismatch''"

definition ProblemLockDigest :: string where
  "ProblemLockDigest = ''lock-digest-mismatch''"

definition ProblemSnapshotDigest :: string where
  "ProblemSnapshotDigest = ''snapshot-digest-mismatch''"

definition ProblemSameMediaKey :: string where
  "ProblemSameMediaKey = ''same-media-key-refused''"

datatype verify_msg =
    MsgNoManifest | MsgManifestError manifest_error | MsgManifestDigest | MsgUnsigned
  | MsgTooManyBlocks nat | MsgSameMedia verifier_error | MsgSigInvalid | MsgSigUntrusted
  | MsgDuplicatePath path | MsgCannotRead string | MsgNotRegular | MsgUnexpected
  | MsgSizeMismatch | MsgDigestMismatch | MsgNotPresent
  | MsgRepoUnlisted | MsgRepoMismatch | MsgLockMismatch | MsgSnapshotMismatch
  | MsgLockUnreadable load_error | MsgLockUnlisted string | MsgLockSHA256 string | MsgLockSize string

record problem =
  pb_Kind :: string
  pb_Path :: path
  pb_Message :: verify_msg
  pb_Expected :: string
  pb_Got :: string

datatype verify_warning = WarnUnsigned | WarnNoTrusted | WarnDefaultKeyring

record signature_result =
  sr_SignerKind :: string
  sr_KeyID :: string
  sr_Algorithm :: string
  sr_Valid :: bool
  sr_Trusted :: bool
  sr_Detail :: "sign_error option"

record report =
  vr_CheckedAt :: string
  vr_BundlePath :: path
  vr_BundleID :: string
  vr_OK :: bool
  vr_Signed :: bool
  vr_Signatures :: "signature_result list"
  vr_FilesChecked :: nat
  vr_BytesChecked :: int
  vr_Problems :: "problem list"
  vr_Warnings :: "verify_warning list"
  vr_Target :: "manifest_target option"
  vr_CreatedAt :: string
  vr_ToolVersion :: string
  vr_Edition :: string

definition mk_problem :: "string \<Rightarrow> path \<Rightarrow> verify_msg \<Rightarrow> string \<Rightarrow> string \<Rightarrow> problem" where
  "mk_problem kind p msg expected got =
     \<lparr>pb_Kind = kind, pb_Path = p, pb_Message = msg, pb_Expected = expected, pb_Got = got\<rparr>"

definition add_problem :: "problem \<Rightarrow> report \<Rightarrow> report" where
  "add_problem p r = r\<lparr>vr_Problems := vr_Problems r @ [p]\<rparr>"

definition add_warning :: "verify_warning \<Rightarrow> report \<Rightarrow> report" where
  "add_warning w r = r\<lparr>vr_Warnings := vr_Warnings r @ [w]\<rparr>"



definition snapshotDocumentName :: string where
  "snapshotDocumentName = ''snapshot.json''"

definition repoDirName :: string where
  "repoDirName = ''repo''"

text \<open>What a verification runs over besides the tree.\<close>

record verify_env =
  ve_sha256 :: hasher
  ve_docs :: doc_codec
  ve_locks :: lock_codec
  ve_sign :: sign_env
  ve_now :: string

section \<open>Steps 0 to 2\<close>

definition looksLikeBundle :: "entry \<Rightarrow> bool" where
  "looksLikeBundle tree \<longleftrightarrow>
     list_ex (\<lambda>name. root_entry tree name \<noteq> None)
       [manifest_FileName, SigFileName, lock_FileName, snapshotDocumentName, repoDirName]"

definition classifyManifestErr :: "manifest_error \<Rightarrow> path \<Rightarrow> problem" where
  "classifyManifestErr err p =
     (if is_unknown_schema err then mk_problem ProblemSchemaUnknown p (MsgManifestError err) '''' ''''
      else mk_problem ProblemManifestMalformed p (MsgManifestError err) '''' '''')"

section \<open>Step 3: signatures\<close>

definition maxSignatureBlocks :: nat where
  "maxSignatureBlocks = 32"

datatype verify_error =
    BundlePathUnusable | BundleNotDirectory | NotABundle
  | NoVerifier verifier_error | CheckNotAttempted sign_error

record sig_acc =
  sa_results :: "signature_result list"
  sa_validTrusted :: bool
  sa_invalidTrusted :: bool
  sa_defaultKeyring :: bool

text \<open>
  The loop over the blocks. The \<^verbatim>\<open>break\<close> after a trusted key's signature failed leaves the loop.
\<close>

fun check_blocks ::
  "sign_env \<Rightarrow> composite_verifier \<Rightarrow> path \<Rightarrow> string \<Rightarrow> signature list \<Rightarrow> sig_acc \<Rightarrow> sign_error + sig_acc" where
  "check_blocks env v keyring canon [] acc = Inr acc"
| "check_blocks env v keyring canon (block # blocks) acc =
     (let res = \<lparr>sr_SignerKind = sg_SignerKind block, sr_KeyID = sg_KeyID block,
                 sr_Algorithm = sg_Algorithm block, sr_Valid = False, sr_Trusted = False, sr_Detail = None\<rparr>
      in case compositeVerifier_Verify env v SignPurpose canon block of
        None \<Rightarrow>
          check_blocks env v keyring canon blocks
            (acc\<lparr>sa_results := sa_results acc @ [res\<lparr>sr_Valid := True, sr_Trusted := True\<rparr>],
                 sa_validTrusted := True,
                 sa_defaultKeyring := sa_defaultKeyring acc \<or> sg_SignerKind block = SignerGPG \<and> keyring = ''''\<rparr>)
      | Some UntrustedKey \<Rightarrow>
          check_blocks env v keyring canon blocks
            (acc\<lparr>sa_results := sa_results acc @ [res\<lparr>sr_Detail := Some UntrustedKey\<rparr>]\<rparr>)
      | Some (FaultVerification f) \<Rightarrow>
          Inr (acc\<lparr>sa_results := sa_results acc @ [res\<lparr>sr_Trusted := True, sr_Detail := Some (FaultVerification f)\<rparr>],
                   sa_invalidTrusted := True\<rparr>)
      | Some (FaultEnvironment msg) \<Rightarrow> Inl (FaultEnvironment msg))"

definition zero_acc :: sig_acc where
  "zero_acc = \<lparr>sa_results = [], sa_validTrusted = False, sa_invalidTrusted = False, sa_defaultKeyring = False\<rparr>"

text \<open>The verdict over the blocks: whether verification stops here, and the report.\<close>

definition signature_verdict :: "verify_options \<Rightarrow> sig_acc \<Rightarrow> report \<Rightarrow> bool \<times> report" where
  "signature_verdict opts acc r0 =
     (let r = r0\<lparr>vr_Signatures := sa_results acc\<rparr>;
          r = (if sa_defaultKeyring acc then add_warning WarnDefaultKeyring r else r)
      in if sa_invalidTrusted acc
         then (True, add_problem (mk_problem ProblemSignatureInvalid SigFileName MsgSigInvalid '''' '''') r)
         else if sa_validTrusted acc then (False, r\<lparr>vr_Signed := True\<rparr>)
         else if vo_AllowUnsigned opts then (False, add_warning WarnNoTrusted (r\<lparr>vr_Signed := False\<rparr>))
         else (True, add_problem (mk_problem ProblemSignatureUntrusted SigFileName MsgSigUntrusted '''' '''') r))"

definition checkSignatures ::
  "sign_env \<Rightarrow> path \<Rightarrow> verify_options \<Rightarrow> signature_file option \<Rightarrow> string \<Rightarrow> report \<Rightarrow> verify_error + bool \<times> report" where
  "checkSignatures env root opts sigFile canon r =
     (let blocks = (case sigFile of None \<Rightarrow> [] | Some sf \<Rightarrow> sf_Signatures sf) in
      if blocks = [] then
        (if vo_AllowUnsigned opts then Inr (False, add_warning WarnUnsigned (r\<lparr>vr_Signed := False\<rparr>))
         else Inr (True, add_problem (mk_problem ProblemSignatureMissing SigFileName MsgUnsigned '''' '''') r))
      else if length blocks > maxSignatureBlocks then
        Inr (True, add_problem (mk_problem ProblemManifestMalformed SigFileName
          (MsgTooManyBlocks (length blocks)) (''at most '' @ itoa maxSignatureBlocks) (itoa (length blocks))) r)
      else case VerifierFor env (vo_Keys opts) root of
        Inl (SameMediaKey c) \<Rightarrow>
          Inr (True, add_problem (mk_problem ProblemSameMediaKey '''' (MsgSameMedia (SameMediaKey c)) '''' '''') r)
      | Inl e \<Rightarrow> Inl (NoVerifier e)
      | Inr v \<Rightarrow>
          (case check_blocks env v (ks_GPGKeyring (vo_Keys opts)) canon blocks zero_acc of
             Inl e \<Rightarrow> Inl (CheckNotAttempted e)
           | Inr acc \<Rightarrow> Inr (signature_verdict opts acc r)))"

section \<open>Steps 4 and 5: the files\<close>

definition poolPathPrefix :: string where
  "poolPathPrefix = ''repo/pool/''"

definition isPoolFile :: "path \<Rightarrow> bool" where
  "isPoolFile p \<longleftrightarrow> has_prefix p poolPathPrefix"

text \<open>\<^verbatim>\<open>indexFiles\<close>: the index as a list of pairs (the first entry of a path wins) and the repeated paths.\<close>

type_synonym file_index = "(path \<times> manifest_file) list"

fun index_loop :: "file_index \<Rightarrow> path list \<Rightarrow> manifest_file list \<Rightarrow> file_index \<times> path list" where
  "index_loop expected dups [] = (expected, dups)"
| "index_loop expected dups (f # fs) =
     (if map_of expected (mf_Path f) \<noteq> None then index_loop expected (dups @ [mf_Path f]) fs
      else index_loop (expected @ [(mf_Path f, f)]) dups fs)"

definition indexFiles :: "manifest_file list \<Rightarrow> file_index \<times> path list" where
  "indexFiles files = (let (expected, dups) = index_loop [] [] files in (expected, remdups_adj (sort dups)))"

text \<open>One call of the walk function of \<^verbatim>\<open>checkFiles\<close>; the state is the set \<^verbatim>\<open>seen\<close> and the report.\<close>

fun entry_type :: "entry \<Rightarrow> string" where
  "entry_type (Special typ _ _) = typ"
| "entry_type _ = ''''"

definition count_file :: "int \<Rightarrow> report \<Rightarrow> report" where
  "count_file sz r = r\<lparr>vr_FilesChecked := Suc (vr_FilesChecked r), vr_BytesChecked := wrap64 (vr_BytesChecked r + sz)\<rparr>"

fun check_event ::
  "hasher \<Rightarrow> path \<Rightarrow> file_index \<Rightarrow> bool \<Rightarrow> walk_event \<Rightarrow> path list \<times> report \<Rightarrow> path list \<times> report" where
  "check_event sha256 root expected skip (VisitErr p msg) (seen, r) =
     (seen, add_problem (mk_problem ProblemFileMissing (if p = '''' then root else rel_join root p)
        (MsgCannotRead msg) '''' '''') r)"
| "check_event sha256 root expected skip (Visit rel e) (seen, r) =
     (if is_dir e then (seen, r)
      else if \<not> is_regular e then
        (seen, add_problem (mk_problem ProblemFileNotRegular rel MsgNotRegular ''regular file'' (entry_type e)) r)
      else if rel = manifest_FileName \<or> rel = SigFileName then (seen, r)
      else case map_of expected rel of
        None \<Rightarrow> (seen, add_problem (mk_problem ProblemFileUnexpected rel MsgUnexpected '''' '''') r)
      | Some f \<Rightarrow>
          (rel # seen,
           if skip \<and> isPoolFile rel then
             (case stat_entry e of
                None \<Rightarrow> add_problem (mk_problem ProblemFileMissing rel (MsgCannotRead ''stat'') '''' '''') r
              | Some sz \<Rightarrow>
                  let r = count_file sz r in
                  if sz \<noteq> mf_Size f
                  then add_problem (mk_problem ProblemFileSize rel MsgSizeMismatch
                         (format_int (mf_Size f)) (format_int sz)) r
                  else r)
           else case SHA256File sha256 e of
             Inl msg \<Rightarrow> add_problem (mk_problem ProblemFileMissing rel (MsgCannotRead msg) '''' '''') r
           | Inr (h, sz) \<Rightarrow>
               let r = count_file sz r in
               if sz \<noteq> mf_Size f
               then add_problem (mk_problem ProblemFileSize rel MsgSizeMismatch
                      (format_int (mf_Size f)) (format_int sz)) r
               else if \<not> digest_Equal h (mf_SHA256 f)
               then add_problem (mk_problem ProblemFileDigest rel MsgDigestMismatch (mf_SHA256 f) h) r
               else r))"

definition checkFiles :: "hasher \<Rightarrow> path \<Rightarrow> entry \<Rightarrow> file_index \<Rightarrow> bool \<Rightarrow> report \<Rightarrow> report" where
  "checkFiles sha256 root tree expected skip r0 =
     (let (seen, r) = fold (check_event sha256 root expected skip) (walk '''' tree) ([], r0);
          missing = sort (filter (\<lambda>p. p \<notin> set seen) (map fst expected))
      in fold (\<lambda>p. add_problem (mk_problem ProblemFileMissing p MsgNotPresent
           (case map_of expected p of None \<Rightarrow> '''' | Some f \<Rightarrow> mf_SHA256 f) '''')) missing r)"

section \<open>Steps 6 and 7: the documents\<close>

definition check_repo_digest :: "file_index \<Rightarrow> path \<Rightarrow> string \<Rightarrow> report \<Rightarrow> report" where
  "check_repo_digest expected relPath want r =
     (if want = '''' then r
      else case map_of expected relPath of
        None \<Rightarrow> add_problem (mk_problem ProblemRepoDigest relPath MsgRepoUnlisted '''' '''') r
      | Some f \<Rightarrow>
          if \<not> digest_Equal (mf_SHA256 f) want
          then add_problem (mk_problem ProblemRepoDigest relPath MsgRepoMismatch want (mf_SHA256 f)) r
          else r)"

definition repo_checks :: "manifest \<Rightarrow> (path \<times> string) list" where
  "repo_checks m =
     [(''repo/Packages'', rp_PackagesSHA256 (mn_Repository m)),
      (''repo/Packages.gz'', rp_PackagesGzSHA256 (mn_Repository m)),
      (''repo/Release'', rp_ReleaseSHA256 (mn_Repository m)),
      (''repo/InRelease'', rp_InReleaseSHA256 (mn_Repository m)),
      (''repo/Release.gpg'', rp_ReleaseGPGSHA256 (mn_Repository m))]"

definition checkRepository :: "manifest \<Rightarrow> file_index \<Rightarrow> report \<Rightarrow> report" where
  "checkRepository m expected r = fold (\<lambda>(p, want). check_repo_digest expected p want) (repo_checks m) r"

definition canonicalDigestOfFile :: "verify_env \<Rightarrow> read_result \<Rightarrow> string + string" where
  "canonicalDigestOfFile env raw =
     (case raw of
        ReadOK b \<Rightarrow>
          (case dc_transform (ve_docs env) b of
             None \<Rightarrow> Inl ''canonicalise''
           | Some canon \<Rightarrow> Inr (ve_sha256 env canon))
      | ReadNotExist \<Rightarrow> Inl ''file does not exist''
      | ReadError msg \<Rightarrow> Inl msg)"

definition check_doc_digest ::
  "verify_env \<Rightarrow> entry \<Rightarrow> string \<Rightarrow> path \<Rightarrow> verify_msg \<Rightarrow> string \<Rightarrow> report \<Rightarrow> report" where
  "check_doc_digest env tree kind name msg want r =
     (case canonicalDigestOfFile env (root_read tree name) of
        Inl e \<Rightarrow> add_problem (mk_problem kind name (MsgCannotRead e) '''' '''') r
      | Inr got \<Rightarrow>
          if \<not> digest_Equal got want then add_problem (mk_problem kind name msg want got) r else r)"

definition checkLockAndSnapshot :: "verify_env \<Rightarrow> entry \<Rightarrow> manifest \<Rightarrow> report \<Rightarrow> report" where
  "checkLockAndSnapshot env tree m r0 =
     (let r = check_doc_digest env tree ProblemLockDigest lock_FileName MsgLockMismatch (mn_LockDigest m) r0
      in if root_stat tree snapshotDocumentName = None then r
         else check_doc_digest env tree ProblemSnapshotDigest snapshotDocumentName MsgSnapshotMismatch
                (mn_SnapshotDigest m) r)"

definition lockRepoPrefix :: string where
  "lockRepoPrefix = ''repo/''"

definition check_lock_package :: "file_index \<Rightarrow> lock_package \<Rightarrow> report \<Rightarrow> report" where
  "check_lock_package expected p r =
     (let rel = lockRepoPrefix @ pkg_Filename p; who = pkg_Name p @ '':'' @ pkg_Arch p in
      case map_of expected rel of
        None \<Rightarrow> add_problem (mk_problem ProblemLockDigest rel (MsgLockUnlisted who) '''' '''') r
      | Some f \<Rightarrow>
          if \<not> digest_Equal (mf_SHA256 f) (pkg_SHA256 p)
          then add_problem (mk_problem ProblemLockDigest rel (MsgLockSHA256 who) (mf_SHA256 f) (pkg_SHA256 p)) r
          else if mf_Size f \<noteq> pkg_Size p
          then add_problem (mk_problem ProblemLockDigest rel (MsgLockSize who)
                 (format_int (mf_Size f)) (format_int (pkg_Size p))) r
          else r)"

definition tree_lock :: "lock_codec \<Rightarrow> entry \<Rightarrow> load_error + lock_doc" where
  "tree_lock cd tree =
     lock_Load cd (root_stat tree lock_FileName)
       (case root_read tree lock_FileName of ReadOK b \<Rightarrow> Some b | _ \<Rightarrow> None)"

definition checkLockPackages :: "verify_env \<Rightarrow> entry \<Rightarrow> file_index \<Rightarrow> report \<Rightarrow> report" where
  "checkLockPackages env tree expected r =
     (case tree_lock (ve_locks env) tree of
        Inl e \<Rightarrow> add_problem (mk_problem ProblemLockDigest lock_FileName (MsgLockUnreadable e) '''' '''') r
      | Inr l \<Rightarrow> fold (check_lock_package expected) (lk_Packages l) r)"

section \<open>runVerify\<close>

definition zero_report :: "string \<Rightarrow> path \<Rightarrow> report" where
  "zero_report now bundlePath = \<lparr>vr_CheckedAt = now, vr_BundlePath = bundlePath, vr_BundleID = '''',
     vr_OK = False, vr_Signed = False, vr_Signatures = [], vr_FilesChecked = 0, vr_BytesChecked = 0,
     vr_Problems = [], vr_Warnings = [], vr_Target = None, vr_CreatedAt = '''', vr_ToolVersion = '''',
     vr_Edition = ''''\<rparr>"

definition describe_manifest :: "manifest \<Rightarrow> report \<Rightarrow> report" where
  "describe_manifest m r = r\<lparr>vr_BundleID := mn_BundleID m, vr_CreatedAt := mn_CreatedAt m,
     vr_ToolVersion := tl_Version (mn_Tool m), vr_Edition := tl_Edition (mn_Tool m),
     vr_Target := Some (mn_Target m)\<rparr>"

text \<open>Steps 4 to 7: everything that accumulates.\<close>

definition check_contents :: "verify_env \<Rightarrow> path \<Rightarrow> entry \<Rightarrow> bool \<Rightarrow> manifest \<Rightarrow> report \<Rightarrow> report" where
  "check_contents env root tree skip m r0 =
     (let (expected, dups) = indexFiles (mn_Files m);
          r = fold (\<lambda>p. add_problem (mk_problem ProblemManifestMalformed manifest_FileName (MsgDuplicatePath p) '''' '''')) dups r0;
          r = checkFiles (ve_sha256 env) root tree expected skip r;
          r = checkRepository m expected r;
          r = checkLockAndSnapshot env tree m r;
          r = checkLockPackages env tree expected r
      in r\<lparr>vr_OK := (vr_Problems r = [])\<rparr>)"

text \<open>
  \<open>bundle\<close> is \<^const>\<open>None\<close> when the path cannot be resolved or examined, otherwise the resolved root with
  what is there.
\<close>

definition runVerify ::
  "verify_env \<Rightarrow> path \<Rightarrow> (path \<times> entry) option \<Rightarrow> verify_options \<Rightarrow> verify_error + report" where
  "runVerify env bundlePath bundle opts =
     (case bundle of
        None \<Rightarrow> Inl BundlePathUnusable
      | Some (root, tree) \<Rightarrow>
          if \<not> is_dir tree then Inl BundleNotDirectory
          else if \<not> looksLikeBundle tree then Inl NotABundle
          else
            let r0 = zero_report (ve_now env) bundlePath in
            case manifest_Load (ve_docs env) tree of
              Inl MNotExist \<Rightarrow>
                Inr (add_problem (mk_problem ProblemManifestMissing manifest_FileName MsgNoManifest '''' '''') r0)
            | Inl e \<Rightarrow> Inr (add_problem (classifyManifestErr e manifest_FileName) r0)
            | Inr (m, canon) \<Rightarrow>
                let r1 = describe_manifest m r0 in
                (case LoadSignature (ve_docs env) tree of
                   Inl e \<Rightarrow> Inr (add_problem (classifyManifestErr e SigFileName) r1)
                 | Inr sigFile \<Rightarrow>
                     let manifestDigest = ve_sha256 env canon;
                         claimed = (case sigFile of None \<Rightarrow> manifestDigest | Some sf \<Rightarrow> sf_ManifestSHA256 sf)
                     in if \<not> digest_Equal claimed manifestDigest
                        then Inr (add_problem (mk_problem ProblemManifestDigest SigFileName MsgManifestDigest
                               claimed manifestDigest) r1)
                        else case checkSignatures (ve_sign env) root opts sigFile canon r1 of
                          Inl e \<Rightarrow> Inl e
                        | Inr (stop, r2) \<Rightarrow>
                            if stop then Inr r2
                            else Inr (check_contents env root tree (vo_SkipFileDigests opts) m r2)))"

section \<open>Checks that only append\<close>

text \<open>
  Every accumulating step appends to the problem list what it finds about its argument, whatever the
  report says already.
\<close>

locale appending =
  fixes step :: "'a \<Rightarrow> 's \<Rightarrow> 's" and log :: "'s \<Rightarrow> 'p list" and issues :: "'a \<Rightarrow> 'p list"
  assumes appends: "log (step x s) = log s @ issues x"
begin

lemma fold_appends: "log (fold step xs s) = log s @ concat (map issues xs)"
  by (induction xs arbitrary: s) (simp_all add: appends)

lemma fold_clean: "log (fold step xs s) = [] \<longleftrightarrow> log s = [] \<and> (\<forall>x \<in> set xs. issues x = [])"
  by (simp add: fold_appends)

end

lemma problems_simps [simp]:
  "vr_Problems (add_problem p r) = vr_Problems r @ [p]"
  "vr_Problems (add_warning w r) = vr_Problems r"
  "vr_Problems (count_file sz r) = vr_Problems r"
  by (simp_all add: add_problem_def add_warning_def count_file_def)

text \<open>A step that adds a problem of the given form for every element.\<close>

interpretation report_each: appending "\<lambda>x. add_problem (g x)" vr_Problems "\<lambda>x. [g x]" for g
  by unfold_locales simp

definition repo_issues :: "file_index \<Rightarrow> path \<times> string \<Rightarrow> problem list" where
  "repo_issues expected x =
     vr_Problems (check_repo_digest expected (fst x) (snd x) (zero_report '''' ''''))"

interpretation repo: appending "\<lambda>(p, want). check_repo_digest expected p want" vr_Problems "repo_issues expected"
  for expected
  by unfold_locales
    (auto simp: repo_issues_def check_repo_digest_def zero_report_def split: option.splits)

definition package_issues :: "file_index \<Rightarrow> lock_package \<Rightarrow> problem list" where
  "package_issues expected p = vr_Problems (check_lock_package expected p (zero_report '''' ''''))"

interpretation packages: appending "check_lock_package expected" vr_Problems "package_issues expected"
  for expected
  by unfold_locales
    (auto simp: package_issues_def check_lock_package_def zero_report_def Let_def split: option.splits)

definition event_issues :: "hasher \<Rightarrow> path \<Rightarrow> file_index \<Rightarrow> bool \<Rightarrow> walk_event \<Rightarrow> problem list" where
  "event_issues sha256 root expected skip ev =
     vr_Problems (snd (check_event sha256 root expected skip ev ([], zero_report '''' '''')))"

interpretation events: appending "check_event sha256 root expected skip" "\<lambda>s. vr_Problems (snd s)"
    "event_issues sha256 root expected skip"
  for sha256 root expected skip
proof
  fix ev :: walk_event and s :: "path list \<times> report"
  obtain seen r where s: "s = (seen, r)" by (cases s)
  show "vr_Problems (snd (check_event sha256 root expected skip ev s)) =
      vr_Problems (snd s) @ event_issues sha256 root expected skip ev"
    by (cases ev) (auto simp: s event_issues_def zero_report_def Let_def
        split: option.splits sum.splits prod.splits)
qed

section \<open>Lemmas\<close>

lemma package_issues_Nil:
  "package_issues expected p = [] \<longleftrightarrow>
     (\<exists>f. map_of expected (lockRepoPrefix @ pkg_Filename p) = Some f \<and>
        digest_Equal (mf_SHA256 f) (pkg_SHA256 p) \<and> mf_Size f = pkg_Size p)"
  by (auto simp: package_issues_def check_lock_package_def zero_report_def Let_def split: option.splits)

lemma repo_issues_Nil:
  "repo_issues expected (p, want) = [] \<longleftrightarrow>
     want = '''' \<or> (\<exists>f. map_of expected p = Some f \<and> digest_Equal (mf_SHA256 f) want)"
  by (auto simp: repo_issues_def check_repo_digest_def zero_report_def split: option.splits)

text \<open>What the walk accepts of one entry.\<close>

definition entry_ok :: "hasher \<Rightarrow> file_index \<Rightarrow> bool \<Rightarrow> path \<Rightarrow> entry \<Rightarrow> bool" where
  "entry_ok sha256 expected skip rel e \<longleftrightarrow>
     is_regular e \<and> (rel = manifest_FileName \<or> rel = SigFileName \<or>
       (\<exists>f. map_of expected rel = Some f \<and>
          (if skip \<and> isPoolFile rel then stat_entry e = Some (mf_Size f)
           else \<exists>b. e = RegularFile b \<and> int (length b) = mf_Size f \<and> digest_Equal (sha256 b) (mf_SHA256 f))))"

lemma event_issues_Visit:
  "event_issues sha256 root expected skip (Visit rel e) = [] \<longleftrightarrow> is_dir e \<or> entry_ok sha256 expected skip rel e"
proof (cases "is_dir e \<or> \<not> is_regular e \<or> rel = manifest_FileName \<or> rel = SigFileName \<or> map_of expected rel = None")
  case True
  then show ?thesis
    by (cases e) (auto simp: event_issues_def entry_ok_def zero_report_def Let_def)
next
  case False
  then obtain f where "map_of expected rel = Some f" by auto
  with False show ?thesis
    by (cases e) (auto simp: event_issues_def entry_ok_def zero_report_def SHA256File_def Let_def)
qed

lemma event_issues_VisitErr: "event_issues sha256 root expected skip (VisitErr p msg) \<noteq> []"
  by (simp add: event_issues_def)

text \<open>The paths the walk has seen: the listed, regular ones.\<close>

lemma check_event_seen:
  "fst (check_event sha256 root expected skip ev s) =
     (case ev of
        VisitErr _ _ \<Rightarrow> fst s
      | Visit rel e \<Rightarrow>
          if is_regular e \<and> rel \<noteq> manifest_FileName \<and> rel \<noteq> SigFileName \<and> map_of expected rel \<noteq> None
          then rel # fst s else fst s)"
  by (cases s; cases ev) (auto split: option.splits elim: is_regular.elims)

lemma fold_seen:
  "set (fst (fold (check_event sha256 root expected skip) evs s)) = set (fst s) \<union>
     {rel. \<exists>e. Visit rel e \<in> set evs \<and> is_regular e \<and> rel \<noteq> manifest_FileName \<and> rel \<noteq> SigFileName \<and>
        map_of expected rel \<noteq> None}"
proof (induction evs arbitrary: s)
  case (Cons ev evs)
  show ?case
    unfolding fold_simps o_apply Cons.IH check_event_seen by (cases ev) auto
qed simp

lemma checkFiles_clean:
  "vr_Problems (checkFiles sha256 root tree expected skip r) = [] \<longleftrightarrow>
     vr_Problems r = [] \<and> (\<forall>ev \<in> set (walk '''' tree). event_issues sha256 root expected skip ev = []) \<and>
     (\<forall>p \<in> fst ` set expected. p \<noteq> manifest_FileName \<and> p \<noteq> SigFileName \<and>
        (\<exists>e. Visit p e \<in> set (walk '''' tree) \<and> is_regular e))"
proof -
  let ?st = "fold (check_event sha256 root expected skip) (walk '''' tree) ([], r)"
  have in_dom: "p \<in> fst ` set expected \<Longrightarrow> map_of expected p \<noteq> None" for p
    by (simp add: map_of_eq_None_iff)
  have "vr_Problems (checkFiles sha256 root tree expected skip r) = [] \<longleftrightarrow>
      vr_Problems (snd ?st) = [] \<and> filter (\<lambda>p. p \<notin> set (fst ?st)) (map fst expected) = []"
    unfolding checkFiles_def Let_def case_prod_beta report_each.fold_clean
    by (simp add: filter_empty_conv)
  then show ?thesis
    unfolding events.fold_clean filter_empty_conv fold_seen using in_dom by (auto simp: image_iff)
qed

text \<open>The index of a manifest that lists no path twice.\<close>

definition file_index_of :: "manifest_file list \<Rightarrow> file_index" where
  "file_index_of fs = map (\<lambda>f. (mf_Path f, f)) fs"

lemma index_loop_distinct:
  "distinct (map mf_Path fs) \<Longrightarrow> fst ` set expected \<inter> mf_Path ` set fs = {} \<Longrightarrow>
     index_loop expected dups fs = (expected @ file_index_of fs, dups)"
proof (induction fs arbitrary: expected)
  case (Cons f fs)
  have "map_of expected (mf_Path f) = None" using Cons.prems(2) by (auto simp: map_of_eq_None_iff)
  moreover have "index_loop (expected @ [(mf_Path f, f)]) dups fs = ((expected @ [(mf_Path f, f)]) @ file_index_of fs, dups)"
    using Cons.prems by (intro Cons.IH) auto
  ultimately show ?case by (simp add: file_index_of_def)
qed (simp add: file_index_of_def)

lemma indexFiles_distinct:
  "distinct (map mf_Path fs) \<Longrightarrow> indexFiles fs = (file_index_of fs, [])"
  by (simp add: indexFiles_def index_loop_distinct)

lemma map_of_file_index:
  "distinct (map mf_Path fs) \<Longrightarrow> map_of (file_index_of fs) p = Some f \<longleftrightarrow> f \<in> set fs \<and> mf_Path f = p"
proof -
  assume d: "distinct (map mf_Path fs)"
  have "map fst (file_index_of fs) = map mf_Path fs" by (simp add: file_index_of_def o_def)
  with d have "distinct (map fst (file_index_of fs))" by simp
  then have "map_of (file_index_of fs) p = Some f \<longleftrightarrow> (p, f) \<in> set (file_index_of fs)"
    by (rule map_of_eq_Some_iff)
  then show ?thesis by (auto simp: file_index_of_def)
qed

definition doc_digest_ok :: "verify_env \<Rightarrow> entry \<Rightarrow> path \<Rightarrow> string \<Rightarrow> bool" where
  "doc_digest_ok env tree name want \<longleftrightarrow>
     (\<exists>raw canon. root_read tree name = ReadOK raw \<and> dc_transform (ve_docs env) raw = Some canon \<and>
        digest_Equal (ve_sha256 env canon) want)"

lemma check_doc_digest_clean:
  "vr_Problems (check_doc_digest env tree kind name msg want r) = [] \<longleftrightarrow>
     vr_Problems r = [] \<and> doc_digest_ok env tree name want"
  by (auto simp: check_doc_digest_def doc_digest_ok_def canonicalDigestOfFile_def
      split: read_result.splits option.splits)

lemma checkLockPackages_clean:
  "vr_Problems (checkLockPackages env tree expected r) = [] \<longleftrightarrow>
     vr_Problems r = [] \<and> (\<exists>l. tree_lock (ve_locks env) tree = Inr l \<and>
       (\<forall>p \<in> set (lk_Packages l). package_issues expected p = []))"
  by (auto simp: checkLockPackages_def packages.fold_clean split: sum.splits)

text \<open>What a clean pass over the contents means.\<close>

definition contents_ok :: "verify_env \<Rightarrow> entry \<Rightarrow> bool \<Rightarrow> manifest \<Rightarrow> bool" where
  "contents_ok env tree skip m \<longleftrightarrow>
     (\<forall>ev \<in> set (walk '''' tree). event_issues (ve_sha256 env) '''' (file_index_of (mn_Files m)) skip ev = []) \<and>
     (\<forall>f \<in> set (mn_Files m). mf_Path f \<noteq> manifest_FileName \<and> mf_Path f \<noteq> SigFileName \<and>
        (\<exists>e. Visit (mf_Path f) e \<in> set (walk '''' tree) \<and> is_regular e)) \<and>
     (\<forall>x \<in> set (repo_checks m). repo_issues (file_index_of (mn_Files m)) x = []) \<and>
     doc_digest_ok env tree lock_FileName (mn_LockDigest m) \<and>
     (root_stat tree snapshotDocumentName \<noteq> None \<longrightarrow>
        doc_digest_ok env tree snapshotDocumentName (mn_SnapshotDigest m)) \<and>
     (\<exists>l. tree_lock (ve_locks env) tree = Inr l \<and>
        (\<forall>p \<in> set (lk_Packages l). package_issues (file_index_of (mn_Files m)) p = []))"

lemma event_issues_root:
  "event_issues sha256 root expected skip ev = [] \<longleftrightarrow> event_issues sha256 '''' expected skip ev = []"
  by (cases ev) (simp_all add: event_issues_Visit event_issues_VisitErr)

lemma check_contents_OK:
  assumes "distinct (map mf_Path (mn_Files m))"
  shows "vr_OK (check_contents env root tree skip m r) \<longleftrightarrow> vr_Problems r = [] \<and> contents_ok env tree skip m"
proof -
  have keys: "fst ` set (file_index_of fs) = mf_Path ` set fs" for fs by (auto simp: file_index_of_def image_iff)
  show ?thesis
    unfolding check_contents_def indexFiles_distinct [OF assms] Let_def case_prod_conv
    by (auto simp: checkLockPackages_clean checkLockAndSnapshot_def check_doc_digest_clean Let_def
        checkRepository_def repo.fold_clean checkFiles_clean keys contents_ok_def
        event_issues_root [of _ root])
qed

lemma check_blocks_Inr:
  "check_blocks env v kr canon blocks acc = Inr acc' \<Longrightarrow> \<not> sa_invalidTrusted acc' \<Longrightarrow>
     \<not> sa_invalidTrusted acc \<and>
     (\<forall>b \<in> set blocks. compositeVerifier_Verify env v SignPurpose canon b \<in> {None, Some UntrustedKey}) \<and>
     (sa_validTrusted acc' \<longleftrightarrow> sa_validTrusted acc \<or>
        (\<exists>b \<in> set blocks. compositeVerifier_Verify env v SignPurpose canon b = None))"
proof (induction env v kr canon blocks acc rule: check_blocks.induct)
  case (2 env v kr canon block blocks acc)
  show ?case
  proof (cases "compositeVerifier_Verify env v SignPurpose canon block")
    case None
    with 2(1) [OF refl None] 2(3,4) show ?thesis by (auto simp: Let_def)
  next
    case (Some e)
    show ?thesis
    proof (cases e)
      case UntrustedKey
      with Some 2(2) [OF refl, of e] 2(3,4) show ?thesis by (auto simp: Let_def)
    qed (use Some 2(3,4) in \<open>auto simp: Let_def\<close>)
  qed
qed simp

lemma signature_verdict_cases:
  assumes "signature_verdict opts acc r = (stop, r2)"
  shows "vr_OK r2 = vr_OK r" and "stop \<Longrightarrow> vr_Problems r2 \<noteq> []"
    and "\<not> stop \<Longrightarrow> vr_Problems r2 = vr_Problems r \<and> \<not> sa_invalidTrusted acc \<and>
      (if sa_validTrusted acc then vr_Signed r2 else vo_AllowUnsigned opts \<and> \<not> vr_Signed r2)"
  using assms
  by (auto simp: signature_verdict_def Let_def add_problem_def add_warning_def split: if_splits)

definition blocks_of :: "signature_file option \<Rightarrow> signature list" where
  "blocks_of sigFile = (case sigFile of None \<Rightarrow> [] | Some sf \<Rightarrow> sf_Signatures sf)"

lemma checkSignatures_stop:
  assumes "checkSignatures env root opts sigFile canon r = Inr (stop, r2)"
  shows "vr_OK r2 = vr_OK r" "stop \<Longrightarrow> vr_Problems r2 \<noteq> []"
  using assms
  by (auto simp: checkSignatures_def Let_def add_problem_def add_warning_def signature_verdict_cases
      split: if_splits sum.splits verifier_error.splits option.splits)

text \<open>When the signature step lets verification go on.\<close>

lemma checkSignatures_go_on:
  assumes "checkSignatures env root opts sigFile canon r = Inr (False, r2)"
  shows "vr_Problems r2 = vr_Problems r" and "\<not> vr_Signed r2 \<Longrightarrow> vo_AllowUnsigned opts"
    and "vr_Signed r2 \<Longrightarrow> \<not> vr_Signed r \<Longrightarrow> length (blocks_of sigFile) \<le> maxSignatureBlocks \<and>
      (\<exists>v. VerifierFor env (vo_Keys opts) root = Inr v \<and>
        (\<exists>b \<in> set (blocks_of sigFile). compositeVerifier_Verify env v SignPurpose canon b = None) \<and>
        (\<forall>b \<in> set (blocks_of sigFile).
           compositeVerifier_Verify env v SignPurpose canon b \<in> {None, Some UntrustedKey}))"
proof -
  consider (unsigned) "blocks_of sigFile = []" "vo_AllowUnsigned opts" "r2 = add_warning WarnUnsigned (r\<lparr>vr_Signed := False\<rparr>)"
    | (blocks) v acc where "length (blocks_of sigFile) \<le> maxSignatureBlocks"
      "VerifierFor env (vo_Keys opts) root = Inr v"
      "check_blocks env v (ks_GPGKeyring (vo_Keys opts)) canon (blocks_of sigFile) zero_acc = Inr acc"
      "signature_verdict opts acc r = (False, r2)"
    using assms unfolding checkSignatures_def blocks_of_def [symmetric] Let_def
    by (auto split: if_splits sum.splits verifier_error.splits)
  then have "vr_Problems r2 = vr_Problems r \<and> (\<not> vr_Signed r2 \<longrightarrow> vo_AllowUnsigned opts) \<and>
     (vr_Signed r2 \<longrightarrow> \<not> vr_Signed r \<longrightarrow> length (blocks_of sigFile) \<le> maxSignatureBlocks \<and>
      (\<exists>v. VerifierFor env (vo_Keys opts) root = Inr v \<and>
        (\<exists>b \<in> set (blocks_of sigFile). compositeVerifier_Verify env v SignPurpose canon b = None) \<and>
        (\<forall>b \<in> set (blocks_of sigFile).
           compositeVerifier_Verify env v SignPurpose canon b \<in> {None, Some UntrustedKey})))"
  proof cases
    case unsigned
    then show ?thesis by (simp add: add_warning_def)
  next
    case blocks
    note v = signature_verdict_cases(3) [OF blocks(4)]
    then have inv: "\<not> sa_invalidTrusted acc" by simp
    have "sa_validTrusted zero_acc = False" by (simp add: zero_acc_def)
    with v check_blocks_Inr [OF blocks(3) inv] blocks(1,2) show ?thesis
      by (cases "sa_validTrusted acc") auto
  qed
  then show "vr_Problems r2 = vr_Problems r" "\<not> vr_Signed r2 \<Longrightarrow> vo_AllowUnsigned opts"
    "vr_Signed r2 \<Longrightarrow> \<not> vr_Signed r \<Longrightarrow> length (blocks_of sigFile) \<le> maxSignatureBlocks \<and>
      (\<exists>v. VerifierFor env (vo_Keys opts) root = Inr v \<and>
        (\<exists>b \<in> set (blocks_of sigFile). compositeVerifier_Verify env v SignPurpose canon b = None) \<and>
        (\<forall>b \<in> set (blocks_of sigFile).
           compositeVerifier_Verify env v SignPurpose canon b \<in> {None, Some UntrustedKey}))"
    by blast+
qed

text \<open>The shape of a verification that reports OK.\<close>

lemma runVerify_OK:
  assumes "runVerify env bp (Some (root, tree)) opts = Inr r" "vr_OK r"
  obtains m canon sigFile r2 where "manifest_Load (ve_docs env) tree = Inr (m, canon)"
    "LoadSignature (ve_docs env) tree = Inr sigFile"
    "\<And>sf. sigFile = Some sf \<Longrightarrow> digest_Equal (sf_ManifestSHA256 sf) (ve_sha256 env canon)"
    "checkSignatures (ve_sign env) root opts sigFile canon (describe_manifest m (zero_report (ve_now env) bp)) = Inr (False, r2)"
    "r = check_contents env root tree (vo_SkipFileDigests opts) m r2"
    "distinct (map mf_Path (mn_Files m))" "\<forall>f \<in> set (mn_Files m). file_ok f"
    "contents_ok env tree (vo_SkipFileDigests opts) m" "is_dir tree"
proof -
  let ?r0 = "zero_report (ve_now env) bp"
  have zero: "\<not> vr_OK (add_problem p ?r0)" "\<not> vr_OK (add_problem p (describe_manifest m ?r0))" for p m
    by (simp_all add: add_problem_def zero_report_def describe_manifest_def)
  have "\<not> vr_OK (describe_manifest m ?r0)" for m by (simp add: zero_report_def describe_manifest_def)
  then have stop: "checkSignatures (ve_sign env) root opts sigFile canon (describe_manifest m ?r0) \<noteq> Inr (True, r)"
    for sigFile canon m using checkSignatures_stop(1) assms(2) by metis
  have dir: "is_dir tree" and shape: "looksLikeBundle tree"
    using assms(1) by (auto simp: runVerify_def split: if_splits)
  obtain m canon where load: "manifest_Load (ve_docs env) tree = Inr (m, canon)"
    using assms zero dir shape
    by (auto simp: runVerify_def Let_def split: sum.splits manifest_error.splits)
  obtain sigFile where sig: "LoadSignature (ve_docs env) tree = Inr sigFile"
    using assms zero dir shape load by (auto simp: runVerify_def Let_def split: sum.splits)
  have eq: "digest_Equal (case sigFile of None \<Rightarrow> ve_sha256 env canon | Some sf \<Rightarrow> sf_ManifestSHA256 sf) (ve_sha256 env canon)"
    using assms zero dir shape load sig by (auto simp: runVerify_def Let_def split: if_splits)
  obtain r2 where r2: "checkSignatures (ve_sign env) root opts sigFile canon (describe_manifest m ?r0) = Inr (False, r2)"
    "r = check_contents env root tree (vo_SkipFileDigests opts) m r2"
    using assms(1) stop dir shape load sig eq
    by (auto simp: runVerify_def Let_def split: sum.splits prod.splits if_splits)
  from load have d: "distinct (map mf_Path (mn_Files m))" "\<forall>f \<in> set (mn_Files m). file_ok f"
    by (auto simp: manifest_Load_Inr checkDocument_None)
  have "contents_ok env tree (vo_SkipFileDigests opts) m"
    using assms(2) check_contents_OK [OF d(1)] by (simp add: r2(2))
  show thesis
    by (rule that [OF load sig _ r2 d \<open>contents_ok env tree (vo_SkipFileDigests opts) m\<close> dir])
      (use eq in simp)
qed

text \<open>A file the verifier has hashed.\<close>

lemma contents_ok_file:
  assumes "wf_tree tree" "distinct (map mf_Path (mn_Files m))" "contents_ok env tree skip m"
    and "f \<in> set (mn_Files m)" "\<not> (skip \<and> isPoolFile (mf_Path f))"
  obtains ns b where "mf_Path f = names_path ns" "tree_lookup tree ns = Some (RegularFile b)"
    "int (length b) = mf_Size f" "digest_Equal (ve_sha256 env b) (mf_SHA256 f)"
proof -
  from assms(3,4) obtain e where p: "mf_Path f \<noteq> manifest_FileName" "mf_Path f \<noteq> SigFileName"
    and e: "Visit (mf_Path f) e \<in> set (walk '''' tree)" "is_regular e" by (auto simp: contents_ok_def)
  have idx: "map_of (file_index_of (mn_Files m)) (mf_Path f) = Some f"
    using map_of_file_index [OF assms(2)] assms(4) by simp
  have "entry_ok (ve_sha256 env) (file_index_of (mn_Files m)) skip (mf_Path f) e"
    using assms(3) e by (cases e) (auto simp: contents_ok_def event_issues_Visit dest!: bspec)
  with p idx assms(5) obtain b where b: "e = RegularFile b" "int (length b) = mf_Size f"
    "digest_Equal (ve_sha256 env b) (mf_SHA256 f)" by (auto simp: entry_ok_def)
  from e(1) walk_visits [OF assms(1), of "[]" "mf_Path f" e]
  obtain ns where "mf_Path f = names_path ns" "tree_lookup tree ns = Some e" by auto
  with b that show thesis by blast
qed

lemma contents_ok_entry:
  assumes "wf_tree tree" "contents_ok env tree skip m" "tree_lookup tree ns = Some e" "\<not> is_dir e"
  shows "entry_ok (ve_sha256 env) (file_index_of (mn_Files m)) skip (names_path ns) e"
proof -
  have "Visit (names_path ns) e \<in> set (walk '''' tree)"
    using walk_visits [OF assms(1), of "[]" "names_path ns" e] assms(3) by auto
  with assms(2,4) show ?thesis by (auto simp: contents_ok_def event_issues_Visit dest!: bspec)
qed

lemma digest_Equal_hash:
  "hex_hash sha256 \<Longrightarrow> digest_Valid d \<Longrightarrow> digest_Equal (sha256 b) d \<longleftrightarrow> sha256 b = d"
  by (simp add: digest_Equal_valid hex_hash_def)

text \<open>The content checks leave the signature verdict alone.\<close>

lemma signed_simps [simp]:
  "vr_Signed (add_problem p r) = vr_Signed r" "vr_Signed (count_file sz r) = vr_Signed r"
  by (simp_all add: add_problem_def count_file_def)

lemma fold_signed:
  assumes "\<And>x s. vr_Signed (g (step x s)) = vr_Signed (g s)"
  shows "vr_Signed (g (fold step xs s)) = vr_Signed (g s)"
  by (induction xs arbitrary: s) (simp_all add: assms)

lemma check_event_signed: "vr_Signed (snd (check_event sha256 root expected skip ev s)) = vr_Signed (snd s)"
  by (cases s; cases ev) (auto simp: Let_def split: option.splits sum.splits)

lemma check_contents_signed: "vr_Signed (check_contents env root tree skip m r) = vr_Signed r"
proof -
  have files: "vr_Signed (checkFiles sha256 root tree expected skip r) = vr_Signed r" for sha256 expected r
    unfolding checkFiles_def Let_def case_prod_beta
    by (simp add: fold_signed [where g = "\<lambda>r. r"] fold_signed [where g = snd] check_event_signed)
  have repo: "vr_Signed (checkRepository m expected r) = vr_Signed r" for expected r
    unfolding checkRepository_def
    by (rule fold_signed [where g = "\<lambda>r. r"]) (simp add: check_repo_digest_def split: option.splits prod.splits)
  have doc: "vr_Signed (check_doc_digest env tree kind name msg want r) = vr_Signed r" for kind name msg want r
    by (simp add: check_doc_digest_def split: sum.splits)
  have lock: "vr_Signed (checkLockPackages env tree expected r) = vr_Signed r" for expected r
    using fold_signed [where g = "\<lambda>r. r" and step = "check_lock_package expected"]
    by (simp add: checkLockPackages_def check_lock_package_def Let_def split: sum.splits option.splits)
  show ?thesis
    unfolding check_contents_def Let_def case_prod_beta
    by (simp add: lock checkLockAndSnapshot_def Let_def doc repo files fold_signed [where g = "\<lambda>r. r"])
qed

section \<open>Properties\<close>

definition demo_bundle_lock :: lock_doc where
  "demo_bundle_lock = demo_lock\<lparr>lk_Packages := [demo_package\<lparr>pkg_Filename := ''pool/a.deb'',
     pkg_Size := 3, pkg_SHA256 := toy_hash ''deb''\<rparr>]\<rparr>"

definition demo_verify_env :: verify_env where
  "demo_verify_env = \<lparr>ve_sha256 = toy_hash, ve_docs = one_manifest_codec demo_manifest,
     ve_locks = one_lock_codec demo_bundle_lock ''{}'', ve_sign = demo_env, ve_now = ''''\<rparr>"

definition demo_options :: verify_options where
  "demo_options = \<lparr>vo_Keys = \<lparr>ks_Files = [], ks_Dirs = [], ks_GPGKeyring = '''', ks_AllowSameMedia = False\<rparr>,
     vo_AllowUnsigned = True, vo_SkipFileDigests = False\<rparr>"

definition demo_report :: report where
  "demo_report = check_contents demo_verify_env ''/b'' demo_tree False demo_manifest
     (add_warning WarnUnsigned (describe_manifest demo_manifest (zero_report '''' ''/b'')))"

lemma demo_manifest_load: "manifest_Load (one_manifest_codec demo_manifest) demo_tree = Inr (demo_manifest, ''m'')"
proof -
  have "mn_SchemaVersion demo_manifest = manifest_SchemaVersion" "root_read demo_tree manifest_FileName = ReadOK ''m''"
    "checkDocument demo_manifest [''schema_version'', ''files''] = None" by code_simp+
  then show ?thesis
    by (simp add: manifest_Load_Inr one_manifest_codec_def maxManifestSize_def)
qed

lemma demo_report_OK: "vr_OK demo_report"
  by code_simp

lemma demo_verified: "runVerify demo_verify_env ''/b'' (Some (''/b'', demo_tree)) demo_options = Inr demo_report"
proof -
  have "is_dir demo_tree" "looksLikeBundle demo_tree" "root_read demo_tree SigFileName = ReadNotExist"
    by code_simp+
  then have "LoadSignature (one_manifest_codec demo_manifest) demo_tree = Inr None"
    "is_dir demo_tree" "looksLikeBundle demo_tree"
    by (simp_all add: LoadSignature_def)
  then show ?thesis
    by (simp add: runVerify_def demo_verify_env_def demo_manifest_load Let_def checkSignatures_def
        demo_options_def demo_report_def digest_Equal_def zero_report_def describe_manifest_def)
qed

lemma verified_files:
  assumes "wf_tree tree" "hex_hash (ve_sha256 env)" "\<not> vo_SkipFileDigests opts"
    and "runVerify env bp (Some (root, tree)) opts = Inr r" "vr_OK r"
  shows "\<exists>m canon. manifest_Load (ve_docs env) tree = Inr (m, canon) \<and>
    (\<forall>f \<in> set (mn_Files m). \<exists>ns b. mf_Path f = names_path ns \<and> tree_lookup tree ns = Some (RegularFile b) \<and>
       int (length b) = mf_Size f \<and> ve_sha256 env b = mf_SHA256 f) \<and>
    (\<forall>ns e. tree_lookup tree ns = Some e \<and> \<not> is_dir e \<longrightarrow>
       is_regular e \<and> names_path ns \<in> {manifest_FileName, SigFileName} \<union> mf_Path ` set (mn_Files m))"
proof (rule runVerify_OK [OF assms(4,5)])
  fix m canon sigFile r2
  assume load: "manifest_Load (ve_docs env) tree = Inr (m, canon)"
    and d: "distinct (map mf_Path (mn_Files m))" and ok: "\<forall>f \<in> set (mn_Files m). file_ok f"
    and c: "contents_ok env tree (vo_SkipFileDigests opts) m"
  have "\<exists>ns b. mf_Path f = names_path ns \<and> tree_lookup tree ns = Some (RegularFile b) \<and>
      int (length b) = mf_Size f \<and> ve_sha256 env b = mf_SHA256 f" if f: "f \<in> set (mn_Files m)" for f
  proof -
    have "digest_Valid (mf_SHA256 f)" using ok f by (simp add: file_ok_def)
    with contents_ok_file [OF assms(1) d c f] digest_Equal_hash [OF assms(2)] assms(3)
    show ?thesis by metis
  qed
  moreover have "is_regular e \<and> names_path ns \<in> {manifest_FileName, SigFileName} \<union> mf_Path ` set (mn_Files m)"
    if "tree_lookup tree ns = Some e" "\<not> is_dir e" for ns e
    using contents_ok_entry [OF assms(1) c that] map_of_file_index [OF d, of "names_path ns"]
    unfolding entry_ok_def by (metis UnI1 UnI2 image_eqI insertCI)
  ultimately show ?thesis using load by blast
qed

text \<open>
  C2. What an OK report certifies about the medium: the manifest loaded, every file it lists is a
  regular file of the tree whose size and hash are the recorded ones, and every entry of the tree
  that is not a directory is a regular file that the manifest lists, or the manifest or its
  signature. (The verifier never sets \<^verbatim>\<open>SkipFileDigests\<close>.)
\<close>

theorem verify_ok_untampered:
  assumes "wf_tree tree" "hex_hash (ve_sha256 env)" "\<not> vo_SkipFileDigests opts"
    and "runVerify env bp (Some (root, tree)) opts = Inr r" "vr_OK r"
  shows "\<exists>m canon. manifest_Load (ve_docs env) tree = Inr (m, canon) \<and>
    (\<forall>f \<in> set (mn_Files m). \<exists>ns b. mf_Path f = names_path ns \<and> tree_lookup tree ns = Some (RegularFile b) \<and>
       int (length b) = mf_Size f \<and> ve_sha256 env b = mf_SHA256 f) \<and>
    (\<forall>ns e. tree_lookup tree ns = Some e \<and> \<not> is_dir e \<longrightarrow>
       is_regular e \<and> names_path ns \<in> {manifest_FileName, SigFileName} \<union> mf_Path ` set (mn_Files m))"
  by (rule verified_files [OF assms])

theorem verify_ok_untampered_witness:
  "\<exists>ns b. ''repo/pool/a.deb'' = names_path ns \<and> tree_lookup demo_tree ns = Some (RegularFile b) \<and>
     int (length b) = 3 \<and> toy_hash b = toy_hash ''deb''"
proof -
  have h: "hex_hash (ve_sha256 demo_verify_env)" "\<not> vo_SkipFileDigests demo_options"
    by (simp_all add: demo_verify_env_def toy_hash_hex demo_options_def)
  have "list_ex (\<lambda>f. mf_Path f = ''repo/pool/a.deb'' \<and> mf_Size f = 3 \<and> mf_SHA256 f = toy_hash ''deb'') (mn_Files demo_manifest)"
    by code_simp
  then obtain f where f: "f \<in> set (mn_Files demo_manifest)" "mf_Path f = ''repo/pool/a.deb''" "mf_Size f = 3"
    "mf_SHA256 f = toy_hash ''deb''" unfolding list_ex_iff by blast
  from verify_ok_untampered [OF demo_tree_wf h demo_verified demo_report_OK]
  have "\<forall>f \<in> set (mn_Files demo_manifest). \<exists>ns b. mf_Path f = names_path ns \<and>
      tree_lookup demo_tree ns = Some (RegularFile b) \<and> int (length b) = mf_Size f \<and> toy_hash b = mf_SHA256 f"
    using demo_manifest_load by (auto simp: demo_verify_env_def)
  with f show ?thesis by (metis (no_types, lifting))
qed

lemma verified_lock:
  assumes "wf_tree tree" "\<not> vo_SkipFileDigests opts"
    and "runVerify env bp (Some (root, tree)) opts = Inr r" "vr_OK r"
  shows "\<exists>l. tree_lock (ve_locks env) tree = Inr l \<and>
    list_all (\<lambda>p. \<exists>ns b. ''repo/'' @ pkg_Filename p = names_path ns \<and>
      tree_lookup tree ns = Some (RegularFile b) \<and> int (length b) = pkg_Size p \<and>
      digest_Equal (ve_sha256 env b) (pkg_SHA256 p)) (lk_Packages l)"
proof (rule runVerify_OK [OF assms(3,4)])
  fix m canon sigFile r2
  assume d: "distinct (map mf_Path (mn_Files m))" and c: "contents_ok env tree (vo_SkipFileDigests opts) m"
  from c obtain l where l: "tree_lock (ve_locks env) tree = Inr l"
    and p: "\<forall>p \<in> set (lk_Packages l). package_issues (file_index_of (mn_Files m)) p = []"
    by (auto simp: contents_ok_def)
  have "\<exists>ns b. ''repo/'' @ pkg_Filename p = names_path ns \<and> tree_lookup tree ns = Some (RegularFile b) \<and>
      int (length b) = pkg_Size p \<and> digest_Equal (ve_sha256 env b) (pkg_SHA256 p)"
    if "p \<in> set (lk_Packages l)" for p
  proof -
    from p that obtain f where f: "f \<in> set (mn_Files m)" "mf_Path f = ''repo/'' @ pkg_Filename p"
      "digest_Equal (mf_SHA256 f) (pkg_SHA256 p)" "mf_Size f = pkg_Size p"
      using map_of_file_index [OF d] by (auto simp: package_issues_Nil lockRepoPrefix_def)
    have "\<not> (vo_SkipFileDigests opts \<and> isPoolFile (mf_Path f))" using assms(2) by simp
    then obtain ns b where "mf_Path f = names_path ns" "tree_lookup tree ns = Some (RegularFile b)"
      "int (length b) = mf_Size f" "digest_Equal (ve_sha256 env b) (mf_SHA256 f)"
      by (rule contents_ok_file [OF assms(1) d c f(1)])
    with f show ?thesis using digest_Equal_trans by metis
  qed
  with l show ?thesis by (auto simp: list_all_iff)
qed



text \<open>
  Skipping digests skips nothing but pool contents: with \<^verbatim>\<open>SkipFileDigests\<close> an OK report still means
  that every listed file outside \<^verbatim>\<open>repo/pool/\<close> is a regular file with the recorded size and digest, and
  that every listed pool file is a regular file of the recorded size.
\<close>

theorem skip_digests_only_pool:
  assumes "wf_tree tree" "runVerify env bp (Some (root, tree)) opts = Inr r" "vr_OK r"
    and "manifest_Load (ve_docs env) tree = Inr (m, canon)" "f \<in> set (mn_Files m)"
  shows "\<exists>ns e. mf_Path f = names_path ns \<and> tree_lookup tree ns = Some e \<and> is_regular e \<and>
    stat_entry e = Some (mf_Size f) \<and>
    (\<not> isPoolFile (mf_Path f) \<longrightarrow> (\<exists>b. e = RegularFile b \<and> digest_Equal (ve_sha256 env b) (mf_SHA256 f)))"
proof (rule runVerify_OK [OF assms(2,3)])
  fix m' canon' sigFile r2
  assume "manifest_Load (ve_docs env) tree = Inr (m', canon')" and "distinct (map mf_Path (mn_Files m'))"
    and "contents_ok env tree (vo_SkipFileDigests opts) m'"
  then have d: "distinct (map mf_Path (mn_Files m))" and c: "contents_ok env tree (vo_SkipFileDigests opts) m"
    using assms(4) by simp_all
  from c assms(5) obtain e where p: "mf_Path f \<noteq> manifest_FileName" "mf_Path f \<noteq> SigFileName"
    and e: "Visit (mf_Path f) e \<in> set (walk '''' tree)" "is_regular e" by (auto simp: contents_ok_def)
  then obtain ns where ns: "mf_Path f = names_path ns" "tree_lookup tree ns = Some e"
    using walk_visits [OF assms(1), of "[]" "mf_Path f" e] by auto
  have idx: "map_of (file_index_of (mn_Files m)) (names_path ns) = Some f"
    using map_of_file_index [OF d] assms(5) ns(1) by simp
  have "entry_ok (ve_sha256 env) (file_index_of (mn_Files m)) (vo_SkipFileDigests opts) (names_path ns) e"
    using contents_ok_entry [OF assms(1) c ns(2)] e(2) by (cases e) auto
  with p idx ns show ?thesis
    by (intro exI [of _ ns] exI [of _ e]) (auto simp: entry_ok_def split: if_splits)
qed

theorem skip_digests_only_pool_witness:
  "\<exists>ns e. ''lock.json'' = names_path ns \<and> tree_lookup demo_tree ns = Some e \<and> is_regular e"
proof -
  have load: "manifest_Load (ve_docs demo_verify_env) demo_tree = Inr (demo_manifest, ''m'')"
    using demo_manifest_load by (simp add: demo_verify_env_def)
  have "list_ex (\<lambda>f. mf_Path f = ''lock.json'') (mn_Files demo_manifest)" by code_simp
  then obtain f where "f \<in> set (mn_Files demo_manifest)" "mf_Path f = ''lock.json''"
    unfolding list_ex_iff by blast
  with skip_digests_only_pool [OF demo_tree_wf demo_verified demo_report_OK load]
  show ?thesis by metis
qed

lemma verified_signed:
  assumes "runVerify env bp (Some (root, tree)) opts = Inr r" "vr_OK r"
  shows "(vr_Signed r \<or> vo_AllowUnsigned opts) \<and>
    (vr_Signed r \<longrightarrow> (\<exists>m canon sf v. manifest_Load (ve_docs env) tree = Inr (m, canon) \<and>
       LoadSignature (ve_docs env) tree = Inr (Some sf) \<and>
       digest_Equal (sf_ManifestSHA256 sf) (ve_sha256 env canon) \<and> length (sf_Signatures sf) \<le> 32 \<and>
       VerifierFor (ve_sign env) (vo_Keys opts) root = Inr v \<and>
       (\<exists>b \<in> set (sf_Signatures sf). compositeVerifier_Verify (ve_sign env) v SignPurpose canon b = None) \<and>
       (\<forall>b \<in> set (sf_Signatures sf).
          compositeVerifier_Verify (ve_sign env) v SignPurpose canon b \<in> {None, Some UntrustedKey})))"
proof (rule runVerify_OK [OF assms])
  fix m canon sigFile r2
  assume load: "manifest_Load (ve_docs env) tree = Inr (m, canon)"
    and sig: "LoadSignature (ve_docs env) tree = Inr sigFile"
    and dig: "\<And>sf. sigFile = Some sf \<Longrightarrow> digest_Equal (sf_ManifestSHA256 sf) (ve_sha256 env canon)"
    and cs: "checkSignatures (ve_sign env) root opts sigFile canon
      (describe_manifest m (zero_report (ve_now env) bp)) = Inr (False, r2)"
    and r: "r = check_contents env root tree (vo_SkipFileDigests opts) m r2"
  have signed: "vr_Signed r = vr_Signed r2" by (simp add: r check_contents_signed)
  have unsigned0: "\<not> vr_Signed (describe_manifest m (zero_report (ve_now env) bp))"
    by (simp add: describe_manifest_def zero_report_def)
  show ?thesis
  proof (cases "vr_Signed r2")
    case False
    with signed checkSignatures_go_on(2) [OF cs] show ?thesis by simp
  next
    case True
    note go = checkSignatures_go_on(3) [OF cs True unsigned0]
    then obtain sf where sf: "sigFile = Some sf" by (cases sigFile) (auto simp: blocks_of_def)
    with go load sig dig [OF sf] True signed show ?thesis
      by (auto simp: blocks_of_def maxSignatureBlocks_def)
  qed
qed

text \<open>
  C3. An OK report without \<^verbatim>\<open>AllowUnsigned\<close> is a signed one, and a signed one rests on the operator's keys:
  the signature file names the digest of the canonical manifest, the verifier was built from the
  operator's key sources, one of at most 32 blocks was accepted by it over these canonical bytes,
  and no block by a trusted key failed.
\<close>

theorem verify_ok_signed:
  assumes "runVerify env bp (Some (root, tree)) opts = Inr r" "vr_OK r"
  shows "(vr_Signed r \<or> vo_AllowUnsigned opts) \<and>
    (vr_Signed r \<longrightarrow> (\<exists>m canon sf v. manifest_Load (ve_docs env) tree = Inr (m, canon) \<and>
       LoadSignature (ve_docs env) tree = Inr (Some sf) \<and>
       digest_Equal (sf_ManifestSHA256 sf) (ve_sha256 env canon) \<and> length (sf_Signatures sf) \<le> 32 \<and>
       VerifierFor (ve_sign env) (vo_Keys opts) root = Inr v \<and>
       (\<exists>b \<in> set (sf_Signatures sf). compositeVerifier_Verify (ve_sign env) v SignPurpose canon b = None) \<and>
       (\<forall>b \<in> set (sf_Signatures sf).
          compositeVerifier_Verify (ve_sign env) v SignPurpose canon b \<in> {None, Some UntrustedKey})))"
  by (rule verified_signed [OF assms])

definition signed_tree :: entry where
  "signed_tree = Dir None [(''repo'', Dir None [(''Packages'', RegularFile ''idx''),
     (''pool'', Dir None [(''a.deb'', RegularFile ''deb'')])]), (''lock.json'', RegularFile ''{}''),
     (''debark.manifest.json'', RegularFile ''m''), (''debark.manifest.sig'', RegularFile ''s'')]"

definition signed_block :: signature where
  "signed_block = demo_block\<lparr>sg_KeyID := hex_encode (take 8 (demo_sum demo_pub))\<rparr>"

definition signed_env :: verify_env where
  "signed_env = demo_verify_env\<lparr>
     ve_docs := (one_manifest_codec demo_manifest)\<lparr>dc_signature := (\<lambda>_. Some \<lparr>sf_Schema = SignatureSchemaVersion,
       sf_ManifestSHA256 = toy_hash ''m'', sf_Signatures = [signed_block]\<rparr>)\<rparr>,
     ve_sign := media_env\<lparr>se_read := (\<lambda>p. Some demo_key_file)\<rparr>\<rparr>"

definition signed_options :: verify_options where
  "signed_options = \<lparr>vo_Keys = \<lparr>ks_Files = [''/k''], ks_Dirs = [], ks_GPGKeyring = '''', ks_AllowSameMedia = False\<rparr>,
     vo_AllowUnsigned = False, vo_SkipFileDigests = False\<rparr>"

lemma signed_verifier_any:
  "VerifierFor ((ve_sign signed_env)\<lparr>se_ed25519 := check\<rparr>) (vo_Keys signed_options) ''/usb/b'' =
     Inr \<lparr>cv_ed25519Keys = [to_lower (hex_encode (take 8 (demo_sum demo_pub))) \<mapsto> demo_pub], cv_keyringArgs = []\<rparr>"
proof -
  let ?env = "(ve_sign signed_env)\<lparr>se_ed25519 := check\<rparr>"
  have len: "length demo_pub = pubKeyLen" "length (demo_sum demo_pub) \<ge> 8"
    by (simp_all add: demo_pub_def demo_sum_def pubKeyLen_def)
  note key = load_encoded [of demo_pub demo_sum "''release 2026''" "''/k''", OF len demo_comment_fits]
  have sum: "se_sum256 ?env = demo_sum" "se_read ?env = (\<lambda>p. Some demo_key_file)"
    by (simp_all add: signed_env_def media_env_def demo_env_def)
  have "sameMedia media_env ''/k'' ''/usb/b'' = False" by code_simp
  moreover have "sameMedia ?env ''/k'' ''/usb/b'' = sameMedia media_env ''/k'' ''/usb/b''"
    by (rule same_media_cong) (simp_all add: signed_env_def)
  ultimately have "sameMedia ?env ''/k'' ''/usb/b'' = False" by simp
  then show ?thesis
    by (simp add: VerifierFor_def signed_options_def key_candidates_def loadPublicKeysFrom_def sum
        key [folded demo_key_file_def] buildEd25519TrustSet_def len Let_def newGPGVerifier_def)
qed

lemma signed_verifier:
  "VerifierFor (ve_sign signed_env) (vo_Keys signed_options) ''/usb/b'' =
     Inr \<lparr>cv_ed25519Keys = [to_lower (hex_encode (take 8 (demo_sum demo_pub))) \<mapsto> demo_pub], cv_keyringArgs = []\<rparr>"
  using signed_verifier_any [of "se_ed25519 (ve_sign signed_env)"] by simp

theorem verify_ok_signed_witness:
  "\<exists>r. runVerify signed_env ''/usb/b'' (Some (''/usb/b'', signed_tree)) signed_options = Inr r \<and> vr_OK r \<and>
     (vr_Signed r \<or> vo_AllowUnsigned signed_options) \<and> vr_Signed r"
proof -
  let ?v = "\<lparr>cv_ed25519Keys = [to_lower (hex_encode (take 8 (demo_sum demo_pub))) \<mapsto> demo_pub], cv_keyringArgs = []\<rparr>"
  let ?r1 = "describe_manifest demo_manifest (zero_report '''' ''/usb/b'')"
  let ?r2 = "?r1\<lparr>vr_Signatures := [\<lparr>sr_SignerKind = sg_SignerKind signed_block, sr_KeyID = sg_KeyID signed_block,
    sr_Algorithm = sg_Algorithm signed_block, sr_Valid = True, sr_Trusted = True, sr_Detail = None\<rparr>], vr_Signed := True\<rparr>"
  have acc: "compositeVerifier_Verify (ve_sign signed_env) ?v SignPurpose ''m'' signed_block = None"
    by (simp add: compositeVerifier_Verify_def signed_block_def demo_block_def SignerGPG_def SignerEd25519File_def
        AlgorithmEd25519_def verifyEd25519_None b64_roundtrip signed_env_def media_env_def demo_env_def)
  have cs: "checkSignatures (ve_sign signed_env) ''/usb/b'' signed_options (Some \<lparr>sf_Schema = SignatureSchemaVersion,
      sf_ManifestSHA256 = toy_hash ''m'', sf_Signatures = [signed_block]\<rparr>) ''m'' ?r1 = Inr (False, ?r2)"
    by (simp add: checkSignatures_def signed_verifier acc maxSignatureBlocks_def zero_acc_def signature_verdict_def Let_def)
      (simp add: signed_block_def demo_block_def SignerGPG_def)
  have tree: "is_dir signed_tree" "looksLikeBundle signed_tree" "root_read signed_tree SigFileName = ReadOK ''s''"
    "mn_SchemaVersion demo_manifest = manifest_SchemaVersion" "root_read signed_tree manifest_FileName = ReadOK ''m''"
    "checkDocument demo_manifest [''schema_version'', ''files''] = None" by code_simp+
  have run: "runVerify signed_env ''/usb/b'' (Some (''/usb/b'', signed_tree)) signed_options =
      Inr (check_contents signed_env ''/usb/b'' signed_tree False demo_manifest ?r2)"
  proof -
    have "manifest_Load (ve_docs signed_env) signed_tree = Inr (demo_manifest, ''m'')"
      using tree by (simp add: manifest_Load_Inr signed_env_def one_manifest_codec_def maxManifestSize_def)
    moreover have "LoadSignature (ve_docs signed_env) signed_tree = Inr (Some \<lparr>sf_Schema = SignatureSchemaVersion,
        sf_ManifestSHA256 = toy_hash ''m'', sf_Signatures = [signed_block]\<rparr>)"
      using tree(3) by (simp add: LoadSignature_def signed_env_def)
    moreover have "ve_sha256 signed_env = toy_hash" "ve_now signed_env = ''''" "vo_SkipFileDigests signed_options = False"
      by (simp_all add: signed_env_def demo_verify_env_def signed_options_def)
    ultimately show ?thesis using tree(1,2) cs by (simp add: runVerify_def Let_def digest_Equal_def)
  qed
  have d: "distinct (map mf_Path (mn_Files demo_manifest))" by code_simp
  have "vr_OK (check_contents demo_verify_env '''' signed_tree False demo_manifest (zero_report '''' ''''))" by code_simp
  then have "contents_ok demo_verify_env signed_tree False demo_manifest"
    unfolding check_contents_OK [OF d] by simp
  then have "contents_ok signed_env signed_tree False demo_manifest"
    by (simp add: contents_ok_def doc_digest_ok_def signed_env_def demo_verify_env_def)
  then have "vr_OK (check_contents signed_env ''/usb/b'' signed_tree False demo_manifest ?r2)"
    unfolding check_contents_OK [OF d] by (simp add: describe_manifest_def zero_report_def)
  with verify_ok_signed [OF run this] run show ?thesis by (auto simp: signed_options_def)
qed

text \<open>A trusted key's failed signature ends the loop over the blocks.\<close>

lemma check_blocks_invalid:
  assumes "\<forall>x \<in> set pre. compositeVerifier_Verify env v SignPurpose canon x \<in> {None, Some UntrustedKey}"
    and "compositeVerifier_Verify env v SignPurpose canon b = Some (FaultVerification f)"
  shows "\<exists>acc'. check_blocks env v kr canon (pre @ b # post) acc = Inr acc' \<and> sa_invalidTrusted acc'"
  using assms(1)
proof (induction pre arbitrary: acc)
  case Nil
  then show ?case using assms(2) by (simp add: Let_def)
next
  case (Cons x pre)
  then have IH: "\<exists>acc'. check_blocks env v kr canon (pre @ b # post) a = Inr acc' \<and> sa_invalidTrusted acc'" for a
    by simp
  from Cons.prems have "compositeVerifier_Verify env v SignPurpose canon x = None \<or>
      compositeVerifier_Verify env v SignPurpose canon x = Some UntrustedKey" by simp
  then show ?case using IH by (elim disjE) (simp_all add: Let_def)
qed

text \<open>
  A signature by a trusted key that does not verify is final: whatever blocks follow it, and
  even with \<^verbatim>\<open>AllowUnsigned\<close>, the report has the single problem \<^verbatim>\<open>signature-invalid\<close>, is not OK, and no file
  of the bundle has been checked.
\<close>

theorem invalid_signature_stops:
  assumes "is_dir tree" "looksLikeBundle tree" "manifest_Load (ve_docs env) tree = Inr (m, canon)"
    and "LoadSignature (ve_docs env) tree = Inr (Some sf)" "digest_Equal (sf_ManifestSHA256 sf) (ve_sha256 env canon)"
    and "sf_Signatures sf = pre @ b # post" "length (sf_Signatures sf) \<le> maxSignatureBlocks"
    and "VerifierFor (ve_sign env) (vo_Keys opts) root = Inr v"
    and "\<forall>x \<in> set pre. compositeVerifier_Verify (ve_sign env) v SignPurpose canon x \<in> {None, Some UntrustedKey}"
    and "compositeVerifier_Verify (ve_sign env) v SignPurpose canon b = Some (FaultVerification f)"
  shows "\<exists>r. runVerify env bp (Some (root, tree)) opts = Inr r \<and>
    map pb_Kind (vr_Problems r) = [''signature-invalid''] \<and> \<not> vr_OK r \<and> vr_FilesChecked r = 0"
proof -
  obtain acc where acc: "check_blocks (ve_sign env) v (ks_GPGKeyring (vo_Keys opts)) canon (pre @ b # post) zero_acc = Inr acc"
    "sa_invalidTrusted acc" using check_blocks_invalid [OF assms(9,10)] by blast
  let ?r1 = "describe_manifest m (zero_report (ve_now env) bp)"
  obtain r where r: "signature_verdict opts acc ?r1 = (True, r)"
    "map pb_Kind (vr_Problems r) = [''signature-invalid'']" "\<not> vr_OK r" "vr_FilesChecked r = 0"
    using acc(2) by (simp add: signature_verdict_def Let_def add_problem_def add_warning_def mk_problem_def
        ProblemSignatureInvalid_def describe_manifest_def zero_report_def)
  have "checkSignatures (ve_sign env) root opts (Some sf) canon ?r1 = Inr (True, r)"
    using assms(6,7,8) acc(1) r(1) by (simp add: checkSignatures_def Let_def)
  then have "runVerify env bp (Some (root, tree)) opts = Inr r"
    using assms(1-5) by (simp add: runVerify_def Let_def)
  with r(2-4) show ?thesis by (intro exI [of _ r] conjI)
qed

theorem invalid_signature_stops_witness:
  "\<exists>r. runVerify (signed_env\<lparr>ve_sign := (ve_sign signed_env)\<lparr>se_ed25519 := (\<lambda>pub msg sig. False)\<rparr>\<rparr>) ''/usb/b''
       (Some (''/usb/b'', signed_tree)) signed_options = Inr r \<and>
     map pb_Kind (vr_Problems r) = [''signature-invalid''] \<and> \<not> vr_OK r \<and> vr_FilesChecked r = 0"
proof -
  let ?se = "(ve_sign signed_env)\<lparr>se_ed25519 := (\<lambda>pub msg sig. False)\<rparr>"
  let ?env = "signed_env\<lparr>ve_sign := ?se\<rparr>"
  let ?v = "\<lparr>cv_ed25519Keys = [to_lower (hex_encode (take 8 (demo_sum demo_pub))) \<mapsto> demo_pub], cv_keyringArgs = []\<rparr>"
  let ?sf = "\<lparr>sf_Schema = SignatureSchemaVersion, sf_ManifestSHA256 = toy_hash ''m'', sf_Signatures = [signed_block]\<rparr>"
  have tree: "is_dir signed_tree" "looksLikeBundle signed_tree" "root_read signed_tree SigFileName = ReadOK ''s''"
    "mn_SchemaVersion demo_manifest = manifest_SchemaVersion" "root_read signed_tree manifest_FileName = ReadOK ''m''"
    "checkDocument demo_manifest [''schema_version'', ''files''] = None" by code_simp+
  have load: "manifest_Load (ve_docs ?env) signed_tree = Inr (demo_manifest, ''m'')"
    "LoadSignature (ve_docs ?env) signed_tree = Inr (Some ?sf)"
    using tree by (simp_all add: manifest_Load_Inr LoadSignature_def signed_env_def one_manifest_codec_def maxManifestSize_def)
  have d: "digest_Equal (sf_ManifestSHA256 ?sf) (ve_sha256 ?env ''m'')"
    by (simp add: signed_env_def demo_verify_env_def digest_Equal_def)
  have v: "VerifierFor (ve_sign ?env) (vo_Keys signed_options) ''/usb/b'' = Inr ?v"
    using signed_verifier_any [of "\<lambda>pub msg sig. False"] by simp
  have f: "compositeVerifier_Verify (ve_sign ?env) ?v SignPurpose ''m'' signed_block = Some (FaultVerification SigDoesNotVerify)"
    by (simp add: compositeVerifier_Verify_def signed_block_def demo_block_def SignerGPG_def SignerEd25519File_def
        AlgorithmEd25519_def verifyEd25519Signature_def b64_roundtrip)
  show ?thesis
    by (rule invalid_signature_stops [OF tree(1,2) load d _ _ v _ f, of "[]" "[]"])
      (simp_all add: maxSignatureBlocks_def)
qed

text \<open>A walk that \<^verbatim>\<open>Build\<close> completed met no unreadable directory.\<close>

lemma build_walk_no_err:
  "build_walk sha256 cancelled evs fs = Inr fs' \<Longrightarrow> VisitErr p msg \<notin> set evs"
proof (induction evs arbitrary: fs)
  case (Cons ev evs)
  then show ?case by (cases ev) (auto split: sum.splits)
qed simp

lemma built_tree_files_ok:
  assumes "wf_tree tree" "hex_hash sha256" "manifest_Build sha256 cd cancelled inp (Some tree) = Inr m"
    and "\<forall>x \<in> set (leaves tree). \<exists>b. snd x = RegularFile b"
  shows "\<forall>ev \<in> set (walk '''' tree). event_issues sha256 '''' (file_index_of (mn_Files m)) skip ev = []"
    and "\<forall>f \<in> set (mn_Files m). mf_Path f \<noteq> manifest_FileName \<and> mf_Path f \<noteq> SigFileName \<and>
      (\<exists>e. Visit (mf_Path f) e \<in> set (walk '''' tree) \<and> is_regular e)"
proof -
  note built = built_files [OF assms(1,3)]
  note idx = map_of_file_index [OF built(2)]
  have leaf: "(p, e) \<in> set (leaves tree) \<longleftrightarrow> Visit p e \<in> set (walk '''' tree) \<and> \<not> is_dir e" for p e
    unfolding leaves_def leaves_walk by simp
  show "\<forall>f \<in> set (mn_Files m). mf_Path f \<noteq> manifest_FileName \<and> mf_Path f \<noteq> SigFileName \<and>
      (\<exists>e. Visit (mf_Path f) e \<in> set (walk '''' tree) \<and> is_regular e)"
  proof
    fix f assume "f \<in> set (mn_Files m)"
    from built(5) [OF this] obtain e where "(mf_Path f, e) \<in> set (leaves tree)" "covered (mf_Path f)"
      by (auto simp: describes_def)
    moreover from this(1) assms(4) obtain b where "e = RegularFile b" by force
    ultimately show "mf_Path f \<noteq> manifest_FileName \<and> mf_Path f \<noteq> SigFileName \<and>
        (\<exists>e. Visit (mf_Path f) e \<in> set (walk '''' tree) \<and> is_regular e)"
      using leaf by (auto simp: covered_def)
  qed
  show "\<forall>ev \<in> set (walk '''' tree). event_issues sha256 '''' (file_index_of (mn_Files m)) skip ev = []"
  proof
    fix ev assume ev: "ev \<in> set (walk '''' tree)"
    show "event_issues sha256 '''' (file_index_of (mn_Files m)) skip ev = []"
    proof (cases ev)
      case (VisitErr p msg)
      with ev assms(3) build_walk_no_err show ?thesis
        by (auto simp: manifest_Build_def split: if_splits sum.splits)
    next
      case (Visit p e)
      show ?thesis
      proof (cases "is_dir e")
        case False
        with ev Visit leaf have pe: "(p, e) \<in> set (leaves tree)" by simp
        with assms(4) obtain b where b: "e = RegularFile b" by force
        have "\<exists>f. map_of (file_index_of (mn_Files m)) p = Some f \<and> mf_Size f = int (length b) \<and> mf_SHA256 f = sha256 b"
          if "covered p"
        proof -
          from that pe have "p \<in> {p \<in> fst ` set (leaves tree). covered p}" by (force simp: image_iff)
          then have "p \<in> mf_Path ` set (mn_Files m)" unfolding built(3) .
          then obtain f where f: "f \<in> set (mn_Files m)" "mf_Path f = p" by auto
          from built(5) [OF f(1)] obtain x where x: "x \<in> set (leaves tree)" "describes sha256 f x" by blast
          with f(2) have "fst x = p" by (simp add: describes_def)
          with x(1) pe leaves_distinct [OF assms(1)] have "snd x = e"
            by (metis eq_key_imp_eq_value prod.collapse)
          with x(2) b f show ?thesis using idx by (auto simp: describes_def)
        qed
        then have "entry_ok sha256 (file_index_of (mn_Files m)) skip p e"
          unfolding entry_ok_def b covered_def digest_Equal_def
          by (metis equal_fold_refl is_regular.simps(1) stat_entry.simps(2))
        then show ?thesis by (simp add: Visit event_issues_Visit)
      qed (simp add: Visit event_issues_Visit)
    qed
  qed
qed



end
