(* ===== verification/Go_FS.thy ===== *)
theory Go_FS
  imports Go_Path Go_Sort Digest Dferr "HOL-Library.AList" "HOL-Library.State_Monad"
begin

text \<open>
  The part of \<^verbatim>\<open>package os\<close> the object store works with, as actions of a state monad over a file system
  with inodes: a name refers to an inode, several names may refer to the same one (hard links), and
  the bytes belong to the inode. Names are those of regular files; a directory exists as soon as it is
  needed, and whatever a real directory or permission can do to a call is a fault.

  Everything the program does not control is the record \<open>world\<close>: which call fails and how, what
  other processes do to the file system between two calls, the clock, the random part of temporary
  names and whether the context was cancelled. Each of these is a function of the number of calls
  made so far, so that a theorem for all worlds covers every sequence of faults and every
  interleaving with other processes at the granularity of system calls.
\<close>

section \<open>State and world\<close>

datatype errno = ErrNotExist | ErrExist | ErrPermission | ErrOther string

fun errno_msg :: "errno \<Rightarrow> string" where
  "errno_msg ErrNotExist = ''no such file or directory''"
| "errno_msg ErrExist = ''file exists''"
| "errno_msg ErrPermission = ''permission denied''"
| "errno_msg (ErrOther msg) = msg"

definition os_error :: "errno \<Rightarrow> go_error" where
  "os_error e = PlainError (errno_msg e)"

record fs =
  files :: "(path \<times> nat) list"
  content :: "nat \<Rightarrow> string"
  mtime :: "nat \<Rightarrow> int"
  next_ino :: nat
  ticks :: nat

datatype syscall =
    MkdirAll path | CreateTemp path | WriteFile path | SyncFile path | CloseFile path
  | RenameFile path path | RemoveFile path | LinkFile path path | StatFile path
  | OpenRead path | ReadFd nat | CreateExcl path | ReadDir path

record world =
  fault :: "nat \<Rightarrow> syscall \<Rightarrow> errno option"
  meddle :: "nat \<Rightarrow> fs \<Rightarrow> fs"
  clock :: "nat \<Rightarrow> int"
  rand :: "nat \<Rightarrow> string"
  cancelled :: "nat \<Rightarrow> go_error option"

abbreviation file_at :: "fs \<Rightarrow> path \<Rightarrow> nat option" where
  "file_at s p \<equiv> map_of (files s) p"

text \<open>The bytes a name gives access to.\<close>

definition bytes_at :: "fs \<Rightarrow> path \<Rightarrow> string option" where
  "bytes_at s p = map_option (content s) (file_at s p)"

section \<open>System calls\<close>

type_synonym 'a io = "(fs, 'a) state"

abbreviation ret :: "'a \<Rightarrow> 'a io" where
  "ret \<equiv> State_Monad.return"

text \<open>One call: the other processes act, time passes, and the call fails or takes effect.\<close>

definition others :: "world \<Rightarrow> fs \<Rightarrow> fs" where
  "others w s = (meddle w (ticks s) s)\<lparr>ticks := Suc (ticks s)\<rparr>"

definition sys :: "world \<Rightarrow> syscall \<Rightarrow> (fs \<Rightarrow> (errno + 'a) \<times> fs) \<Rightarrow> (errno + 'a) io" where
  "sys w c f = State (\<lambda>s.
     case fault w (ticks s) c of
       Some e \<Rightarrow> (Inl e, others w s)
     | None \<Rightarrow> f (others w s))"

definition ctx_err :: "world \<Rightarrow> go_error option io" where
  "ctx_err w = State (\<lambda>s. (cancelled w (ticks s), s))"

definition time_now :: "world \<Rightarrow> int io" where
  "time_now w = State (\<lambda>s. (clock w (ticks s), s))"

definition mkdir_all :: "world \<Rightarrow> path \<Rightarrow> (errno + unit) io" where
  "mkdir_all w p = sys w (MkdirAll p) (\<lambda>s. (Inr (), s))"

definition join_name :: "path \<Rightarrow> string \<Rightarrow> path" where
  "join_name dir n = (if dir \<noteq> '''' \<and> last dir = slash then dir @ n else dir @ slash # n)"

definition new_file :: "world \<Rightarrow> path \<Rightarrow> fs \<Rightarrow> fs" where
  "new_file w p s = s\<lparr>files := AList.update p (next_ino s) (files s),
     content := (content s)(next_ino s := ''''), mtime := (mtime s)(next_ino s := clock w (ticks s)),
     next_ino := Suc (next_ino s)\<rparr>"

text \<open>\<^verbatim>\<open>os.CreateTemp\<close> gives the name and the open file.\<close>

definition create_temp :: "world \<Rightarrow> path \<Rightarrow> string \<Rightarrow> string \<Rightarrow> (errno + path \<times> nat) io" where
  "create_temp w dir pre suf = sys w (CreateTemp dir) (\<lambda>s.
     let name = join_name dir (pre @ rand w (ticks s) @ suf)
     in case file_at s name of
          Some _ \<Rightarrow> (Inl ErrExist, s)
        | None \<Rightarrow> (Inr (name, next_ino s), new_file w name s))"

text \<open>\<^verbatim>\<open>OpenFile\<close> with \<^verbatim>\<open>O_CREATE|O_EXCL\<close>.\<close>

definition create_excl :: "world \<Rightarrow> path \<Rightarrow> (errno + nat) io" where
  "create_excl w p = sys w (CreateExcl p) (\<lambda>s.
     case file_at s p of
       Some _ \<Rightarrow> (Inl ErrExist, s)
     | None \<Rightarrow> (Inr (next_ino s), new_file w p s))"

text \<open>
  \<^verbatim>\<open>io.Copy\<close> into an open file: the source delivers bytes and possibly an error after them; what it
  delivered is in the file either way.
\<close>

type_synonym reader = "fs \<Rightarrow> string \<times> errno option"

definition write_from :: "world \<Rightarrow> path \<Rightarrow> nat \<Rightarrow> reader \<Rightarrow> (errno + string) io" where
  "write_from w name fd r = sys w (WriteFile name) (\<lambda>s.
     case r s of (b, e) \<Rightarrow>
       (case e of None \<Rightarrow> Inr b | Some x \<Rightarrow> Inl x,
        s\<lparr>content := (content s)(fd := b), mtime := (mtime s)(fd := clock w (ticks s))\<rparr>))"

definition sync_file :: "world \<Rightarrow> path \<Rightarrow> (errno + unit) io" where
  "sync_file w name = sys w (SyncFile name) (\<lambda>s. (Inr (), s))"

definition close_file :: "world \<Rightarrow> path \<Rightarrow> (errno + unit) io" where
  "close_file w name = sys w (CloseFile name) (\<lambda>s. (Inr (), s))"

text \<open>\<^verbatim>\<open>rename(2)\<close>: when both names already refer to the same inode it succeeds and changes nothing.\<close>

definition rename_file :: "world \<Rightarrow> path \<Rightarrow> path \<Rightarrow> (errno + unit) io" where
  "rename_file w a b = sys w (RenameFile a b) (\<lambda>s.
     case file_at s a of
       None \<Rightarrow> (Inl ErrNotExist, s)
     | Some i \<Rightarrow> (Inr (), if file_at s b = Some i then s
                        else s\<lparr>files := AList.update b i (AList.delete a (files s))\<rparr>))"

definition remove_file :: "world \<Rightarrow> path \<Rightarrow> (errno + unit) io" where
  "remove_file w p = sys w (RemoveFile p) (\<lambda>s.
     case file_at s p of
       None \<Rightarrow> (Inl ErrNotExist, s)
     | Some _ \<Rightarrow> (Inr (), s\<lparr>files := AList.delete p (files s)\<rparr>))"

definition link_file :: "world \<Rightarrow> path \<Rightarrow> path \<Rightarrow> (errno + unit) io" where
  "link_file w a b = sys w (LinkFile a b) (\<lambda>s.
     case file_at s a of
       None \<Rightarrow> (Inl ErrNotExist, s)
     | Some i \<Rightarrow>
         (case file_at s b of
            Some _ \<Rightarrow> (Inl ErrExist, s)
          | None \<Rightarrow> (Inr (), s\<lparr>files := AList.update b i (files s)\<rparr>)))"

text \<open>\<^verbatim>\<open>os.Stat\<close>: size and modification time.\<close>

definition stat_file :: "world \<Rightarrow> path \<Rightarrow> (errno + int \<times> int) io" where
  "stat_file w p = sys w (StatFile p) (\<lambda>s.
     case file_at s p of
       None \<Rightarrow> (Inl ErrNotExist, s)
     | Some i \<Rightarrow> (Inr (int (length (content s i)), mtime s i), s))"

definition open_read :: "world \<Rightarrow> path \<Rightarrow> (errno + nat) io" where
  "open_read w p = sys w (OpenRead p) (\<lambda>s.
     case file_at s p of None \<Rightarrow> (Inl ErrNotExist, s) | Some i \<Rightarrow> (Inr i, s))"

definition read_fd :: "world \<Rightarrow> nat \<Rightarrow> (errno + string) io" where
  "read_fd w fd = sys w (ReadFd fd) (\<lambda>s. (Inr (content s fd), s))"

text \<open>\<^verbatim>\<open>os.ReadFile\<close>.\<close>

definition read_file :: "world \<Rightarrow> path \<Rightarrow> (errno + string) io" where
  "read_file w p = do {
     r \<leftarrow> open_read w p;
     case r of Inl e \<Rightarrow> ret (Inl e) | Inr fd \<Rightarrow> read_fd w fd }"

section \<open>Weakest preconditions\<close>

definition wp :: "'a io \<Rightarrow> ('a \<Rightarrow> fs \<Rightarrow> bool) \<Rightarrow> fs \<Rightarrow> bool" where
  "wp m Q s = (case run_state m s of (r, s') \<Rightarrow> Q r s')"

named_theorems wp_simps \<open>weakest preconditions of the combinators\<close>

lemma wp_ret [wp_simps]: "wp (ret x) Q = Q x"
  by (simp add: wp_def fun_eq_iff)

lemma wp_bind [wp_simps]: "wp (State_Monad.bind m f) Q s = wp m (\<lambda>r. wp (f r) Q) s"
  by (simp add: wp_def split: prod.splits)

lemma wp_if [wp_simps]: "wp (if b then m else n) Q s = (if b then wp m Q s else wp n Q s)"
  by simp

lemma wp_sum [wp_simps]:
  "wp (case x of Inl a \<Rightarrow> f a | Inr b \<Rightarrow> g b) Q s =
     (case x of Inl a \<Rightarrow> wp (f a) Q s | Inr b \<Rightarrow> wp (g b) Q s)"
  by (simp split: sum.splits)

lemma wp_option [wp_simps]:
  "wp (case x of None \<Rightarrow> m | Some b \<Rightarrow> g b) Q s =
     (case x of None \<Rightarrow> wp m Q s | Some b \<Rightarrow> wp (g b) Q s)"
  by (simp split: option.splits)

lemma wp_prod [wp_simps]: "wp (case x of (a, b) \<Rightarrow> f a b) Q s = (case x of (a, b) \<Rightarrow> wp (f a b) Q s)"
  by (simp split: prod.splits)

lemma wp_ctx_err [wp_simps]: "wp (ctx_err w) Q s = Q (cancelled w (ticks s)) s"
  by (simp add: wp_def ctx_err_def)

lemma wp_time_now [wp_simps]: "wp (time_now w) Q s = Q (clock w (ticks s)) s"
  by (simp add: wp_def time_now_def)

lemma wp_mono: "wp m Q s \<Longrightarrow> (\<And>r s'. Q r s' \<Longrightarrow> R r s') \<Longrightarrow> wp m R s"
  by (auto simp: wp_def split: prod.splits)

lemma wp_any: "(\<And>r s'. Q r s') \<Longrightarrow> wp m Q s"
  by (simp add: wp_def split: prod.splits)

lemma wp_run: "wp m Q s \<Longrightarrow> run_state m s = (r, s') \<Longrightarrow> Q r s'"
  by (simp add: wp_def)

text \<open>A predicate the other processes and the passing of time leave true.\<close>

definition stable :: "world \<Rightarrow> (fs \<Rightarrow> bool) \<Rightarrow> bool" where
  "stable w J \<longleftrightarrow> (\<forall>n k s. J s \<longrightarrow> J ((meddle w n s)\<lparr>ticks := k\<rparr>))"

lemma stable_others: "stable w J \<Longrightarrow> J s \<Longrightarrow> J (others w s)"
  by (simp add: stable_def others_def)

lemma wp_sys:
  assumes "stable w J" "J s"
    and "\<And>e s'. J s' \<Longrightarrow> Q (Inl e) s'"
    and "\<And>s'. J s' \<Longrightarrow> case f s' of (r, s'') \<Rightarrow> Q r s''"
  shows "wp (sys w c f) Q s"
  using stable_others [OF assms(1,2)] assms(3,4)
  by (auto simp: wp_def sys_def split: option.splits)

text \<open>A call without an effect on the files.\<close>

lemma wp_neutral:
  assumes "stable w J" "J s"
    and "\<And>e s'. J s' \<Longrightarrow> Q (Inl e) s'"
    and "\<And>s'. J s' \<Longrightarrow> Q (Inr ()) s'"
  shows "wp (mkdir_all w p) Q s" "wp (sync_file w p) Q s" "wp (close_file w p) Q s"
  unfolding mkdir_all_def sync_file_def close_file_def
  by (rule wp_sys [OF assms(1,2)]; simp add: assms(3,4))+

lemma wp_stat:
  assumes "stable w J" "J s"
    and "\<And>e s'. J s' \<Longrightarrow> Q (Inl e) s'"
    and "\<And>i n t s'. J s' \<Longrightarrow> file_at s' p = Some i \<Longrightarrow> Q (Inr (n, t)) s'"
  shows "wp (stat_file w p) Q s"
  unfolding stat_file_def
  by (rule wp_sys [OF assms(1,2)]) (auto intro: assms(3,4) split: option.splits)

lemma wp_open_read:
  assumes "stable w J" "J s"
    and "\<And>e s'. J s' \<Longrightarrow> Q (Inl e) s'"
    and "\<And>i s'. J s' \<Longrightarrow> file_at s' p = Some i \<Longrightarrow> Q (Inr i) s'"
  shows "wp (open_read w p) Q s"
  unfolding open_read_def
  by (rule wp_sys [OF assms(1,2)]) (auto intro: assms(3,4) split: option.splits)

lemma wp_read_fd:
  assumes "stable w J" "J s"
    and "\<And>e s'. J s' \<Longrightarrow> Q (Inl e) s'"
    and "\<And>s'. J s' \<Longrightarrow> Q (Inr (content s' fd)) s'"
  shows "wp (read_fd w fd) Q s"
  unfolding read_fd_def by (rule wp_sys [OF assms(1,2)]) (auto intro: assms(3,4))

lemma wp_remove:
  assumes "stable w J" "J s"
    and "\<And>e s'. J s' \<Longrightarrow> Q (Inl e) s'"
    and "\<And>s'. J s' \<Longrightarrow> Q (Inr ()) (s'\<lparr>files := AList.delete p (files s')\<rparr>)"
  shows "wp (remove_file w p) Q s"
  unfolding remove_file_def
  by (rule wp_sys [OF assms(1,2)]) (auto intro: assms(3,4) split: option.splits)

lemma wp_rename:
  assumes "stable w J" "J s"
    and "\<And>e s'. J s' \<Longrightarrow> Q (Inl e) s'"
    and "\<And>i s'. J s' \<Longrightarrow> file_at s' a = Some i \<Longrightarrow> file_at s' b = Some i \<Longrightarrow> Q (Inr ()) s'"
    and "\<And>i s'. J s' \<Longrightarrow> file_at s' a = Some i \<Longrightarrow> file_at s' b \<noteq> Some i \<Longrightarrow>
           Q (Inr ()) (s'\<lparr>files := AList.update b i (AList.delete a (files s'))\<rparr>)"
  shows "wp (rename_file w a b) Q s"
  unfolding rename_file_def
  by (rule wp_sys [OF assms(1,2)]) (auto intro: assms(3-5) split: option.splits)

lemma wp_link:
  assumes "stable w J" "J s"
    and "\<And>e s'. J s' \<Longrightarrow> Q (Inl e) s'"
    and "\<And>i s'. J s' \<Longrightarrow> file_at s' a = Some i \<Longrightarrow> file_at s' b = None \<Longrightarrow>
           Q (Inr ()) (s'\<lparr>files := AList.update b i (files s')\<rparr>)"
  shows "wp (link_file w a b) Q s"
  unfolding link_file_def
  by (rule wp_sys [OF assms(1,2)]) (auto intro: assms(3,4) split: option.splits)

lemma wp_create_temp:
  assumes "stable w J" "J s"
    and "\<And>e s'. J s' \<Longrightarrow> Q (Inl e) s'"
    and "\<And>n s'. J s' \<Longrightarrow> file_at s' (join_name dir (pre @ rand w n @ suf)) = None \<Longrightarrow>
           Q (Inr (join_name dir (pre @ rand w n @ suf), next_ino s'))
             (new_file w (join_name dir (pre @ rand w n @ suf)) s')"
  shows "wp (create_temp w dir pre suf) Q s"
  unfolding create_temp_def
  by (rule wp_sys [OF assms(1,2)]) (auto intro: assms(3,4) simp: Let_def split: option.splits)

lemma wp_write:
  assumes "stable w J" "J s"
    and "\<And>e s'. J s' \<Longrightarrow> Q (Inl e) s'"
    and "\<And>b e t s'. J s' \<Longrightarrow> r s' = (b, e) \<Longrightarrow>
           Q (case e of None \<Rightarrow> Inr b | Some x \<Rightarrow> Inl x)
             (s'\<lparr>content := (content s')(fd := b), mtime := (mtime s')(fd := t)\<rparr>)"
  shows "wp (write_from w name fd r) Q s"
  unfolding write_from_def
  by (rule wp_sys [OF assms(1,2)]) (auto intro: assms(3,4) split: prod.splits)

text \<open>An action that keeps an invariant, whatever it returns.\<close>

definition keeps :: "(fs \<Rightarrow> bool) \<Rightarrow> 'a io \<Rightarrow> bool" where
  "keeps I m \<longleftrightarrow> (\<forall>s. I s \<longrightarrow> wp m (\<lambda>_. I) s)"

named_theorems keeps_intros \<open>compositional rules for invariants of actions\<close>

lemma keepsI: "(\<And>s. I s \<Longrightarrow> wp m (\<lambda>_. I) s) \<Longrightarrow> keeps I m"
  by (simp add: keeps_def)

lemma keepsD: "keeps I m \<Longrightarrow> I s \<Longrightarrow> wp m (\<lambda>_. I) s"
  by (simp add: keeps_def)

lemma keeps_run: "keeps I m \<Longrightarrow> I s \<Longrightarrow> run_state m s = (r, s') \<Longrightarrow> I s'"
  using wp_run [of m "\<lambda>_. I" s] by (simp add: keeps_def)

lemma keeps_ret [keeps_intros]: "keeps I (ret x)"
  by (simp add: keeps_def wp_ret)

lemma keeps_bind [keeps_intros]:
  "keeps I m \<Longrightarrow> (\<And>r. keeps I (f r)) \<Longrightarrow> keeps I (State_Monad.bind m f)"
  unfolding keeps_def wp_bind by (blast intro: wp_mono)

lemma keeps_if [keeps_intros]: "keeps I m \<Longrightarrow> keeps I n \<Longrightarrow> keeps I (if b then m else n)"
  by simp

lemma keeps_sum [keeps_intros]:
  "(\<And>a. keeps I (f a)) \<Longrightarrow> (\<And>b. keeps I (g b)) \<Longrightarrow> keeps I (case x of Inl a \<Rightarrow> f a | Inr b \<Rightarrow> g b)"
  by (simp split: sum.splits)

lemma keeps_option [keeps_intros]:
  "keeps I m \<Longrightarrow> (\<And>b. keeps I (g b)) \<Longrightarrow> keeps I (case x of None \<Rightarrow> m | Some b \<Rightarrow> g b)"
  by (simp split: option.splits)

lemma keeps_prod [keeps_intros]: "(\<And>a b. keeps I (f a b)) \<Longrightarrow> keeps I (case x of (a, b) \<Rightarrow> f a b)"
  by (simp split: prod.splits)

lemma keeps_clock [keeps_intros]: "keeps I (ctx_err w)" "keeps I (time_now w)"
  by (simp_all add: keeps_def wp_simps)

lemma keeps_neutral:
  assumes "stable w I"
  shows "keeps I (mkdir_all w p)" "keeps I (sync_file w p)" "keeps I (close_file w p)"
    "keeps I (stat_file w p)" "keeps I (open_read w p)" "keeps I (read_fd w fd)" "keeps I (read_file w p)"
proof -
  have openp: "keeps I (open_read w p)" and reading: "keeps I (read_fd w n)" for n
    using assms by (auto intro!: keepsI wp_open_read wp_read_fd)
  then show "keeps I (open_read w p)" "keeps I (read_fd w fd)" by blast+
  show "keeps I (mkdir_all w p)" "keeps I (sync_file w p)" "keeps I (close_file w p)" "keeps I (stat_file w p)"
    using assms by (auto intro!: keepsI wp_neutral wp_stat)
  show "keeps I (read_file w p)"
    unfolding read_file_def by (intro keeps_intros openp reading)
qed

text \<open>A world without faults in which nobody else acts.\<close>

definition quiet :: "world \<Rightarrow> bool" where
  "quiet w \<longleftrightarrow> (\<forall>n c. fault w n c = None) \<and> (\<forall>n s. meddle w n s = s) \<and> (\<forall>n. cancelled w n = None)"

definition tick :: "fs \<Rightarrow> fs" where
  "tick s = s\<lparr>ticks := Suc (ticks s)\<rparr>"

lemma tick_simps [simp]:
  "files (tick s) = files s" "content (tick s) = content s" "mtime (tick s) = mtime s"
  "next_ino (tick s) = next_ino s" "ticks (tick s) = Suc (ticks s)" "bytes_at (tick s) = bytes_at s"
  by (simp_all add: tick_def bytes_at_def fun_eq_iff)

lemma quiet_sys: "quiet w \<Longrightarrow> wp (sys w c f) Q s = (case f (tick s) of (r, s') \<Rightarrow> Q r s')"
  by (simp add: quiet_def sys_def others_def wp_def tick_def)

text \<open>The calls in a quiet world, as equations.\<close>

lemma quiet_wp:
  assumes "quiet w"
  shows "wp (mkdir_all w p) Q s = Q (Inr ()) (tick s)"
    and "wp (sync_file w p) Q s = Q (Inr ()) (tick s)"
    and "wp (close_file w p) Q s = Q (Inr ()) (tick s)"
    and "wp (read_fd w fd) Qb s = Qb (Inr (content s fd)) (tick s)"
    and "cancelled w n = None"
  using assms
  by (simp_all add: quiet_sys mkdir_all_def sync_file_def close_file_def read_fd_def wp_ctx_err quiet_def)

lemma quiet_wp_at:
  assumes "quiet w"
  shows "file_at s p = Some i \<Longrightarrow> wp (open_read w p) Qo s = Qo (Inr i) (tick s)"
    and "file_at s p = None \<Longrightarrow> wp (open_read w p) Qo s = Qo (Inl ErrNotExist) (tick s)"
    and "file_at s p = Some i \<Longrightarrow> wp (stat_file w p) Qs s = Qs (Inr (int (length (content s i)), mtime s i)) (tick s)"
    and "file_at s p = None \<Longrightarrow> wp (stat_file w p) Qs s = Qs (Inl ErrNotExist) (tick s)"
    and "file_at s p = Some i \<Longrightarrow>
      wp (remove_file w p) Q s = Q (Inr ()) ((tick s)\<lparr>files := AList.delete p (files s)\<rparr>)"
    and "file_at s p = None \<Longrightarrow> wp (remove_file w p) Q s = Q (Inl ErrNotExist) (tick s)"
    and "file_at s p = Some i \<Longrightarrow> file_at s b \<noteq> Some i \<Longrightarrow> wp (rename_file w p b) Q s =
      Q (Inr ()) ((tick s)\<lparr>files := AList.update b i (AList.delete p (files s))\<rparr>)"
    and "file_at s p = Some i \<Longrightarrow> file_at s b = Some i \<Longrightarrow> wp (rename_file w p b) Q s = Q (Inr ()) (tick s)"
    and "file_at s p = Some i \<Longrightarrow> file_at s b = None \<Longrightarrow> wp (link_file w p b) Q s =
      Q (Inr ()) ((tick s)\<lparr>files := AList.update b i (files s)\<rparr>)"
  using assms
  by (simp_all add: quiet_sys open_read_def stat_file_def remove_file_def rename_file_def link_file_def)

lemma quiet_wp_create:
  assumes "quiet w" "name = join_name dir (pre @ rand w (Suc (ticks s)) @ suf)" "file_at s name = None"
  shows "wp (create_temp w dir pre suf) Q s = Q (Inr (name, next_ino s)) (new_file w name (tick s))"
  using assms by (simp add: quiet_sys create_temp_def Let_def)

lemma quiet_wp_write:
  assumes "quiet w" "r (tick s) = (b, None)"
  shows "wp (write_from w name fd r) Q s = Q (Inr b)
    ((tick s)\<lparr>content := (content s)(fd := b), mtime := (mtime s)(fd := clock w (Suc (ticks s)))\<rparr>)"
  using assms by (simp add: quiet_sys write_from_def)

lemma new_file_simps [simp]:
  "map_of (files (new_file w p s)) = (map_of (files s))(p \<mapsto> next_ino s)"
  "content (new_file w p s) = (content s)(next_ino s := '''')"
  "next_ino (new_file w p s) = Suc (next_ino s)" "ticks (new_file w p s) = ticks s"
  by (simp_all add: new_file_def update_conv')

end
