(* ===== verification/Store.thy ===== *)
theory Store
  imports Go_FS
begin

text \<open>
  The content-addressed object store, \<^verbatim>\<open>src/core/store/fsstore.go\<close>: where an object lives, ingesting it by
  copy or by move, reading it back, and placing it in a bundle. The hash is the parameter \<open>sha256\<close>.
  The index and garbage collection are in \<open>Store_Index\<close>, the lock protocol in \<open>Store_Lock\<close>.

  The invariant is \<open>addresses_true\<close>: whatever is filed under a digest hashes to that digest. What
  other processes may do meanwhile is the rely condition \<open>others_respect\<close>.
\<close>

section \<open>Addresses\<close>

definition address :: "string \<Rightarrow> string \<times> bool" where
  "address dg = (let d = to_lower dg in (d, digest_Valid d))"

definition shardDir :: "path \<Rightarrow> string \<Rightarrow> path" where
  "shardDir root dg = filepath_Join [root, ''sha256'', take 2 dg]"

definition store_Path :: "path \<Rightarrow> string \<Rightarrow> path" where
  "store_Path root dg =
     (case address dg of (d, ok) \<Rightarrow>
        if ok then filepath_Join [shardDir root d, d] else '''')"

definition tmpDir :: "path \<Rightarrow> path" where
  "tmpDir root = filepath_Join [root, ''sha256'', ''tmp'']"

section \<open>Operations\<close>

definition env_error :: "string \<Rightarrow> errno \<Rightarrow> go_error" where
  "env_error msg e = DfError Environment msg '''' (Some (os_error e))"

definition store_Has :: "world \<Rightarrow> path \<Rightarrow> string \<Rightarrow> bool io" where
  "store_Has w root dg =
     (let p = store_Path root dg
      in if p = '''' then ret False
         else do {
           r \<leftarrow> stat_file w p;
           ret (case r of Inl _ \<Rightarrow> False | Inr _ \<Rightarrow> True) })"

text \<open>\<^verbatim>\<open>sha256File\<close> and \<^verbatim>\<open>verifyFileDigest\<close>.\<close>

definition sha256File :: "world \<Rightarrow> hasher \<Rightarrow> path \<Rightarrow> (errno + string \<times> int) io" where
  "sha256File w sha256 p = do {
     f \<leftarrow> open_read w p;
     case f of
       Inl e \<Rightarrow> ret (Inl e)
     | Inr fd \<Rightarrow> do {
         b \<leftarrow> read_fd w fd;
         case b of
           Inl e \<Rightarrow> ret (Inl e)
         | Inr bs \<Rightarrow> ret (Inr (sha256 bs, int (length bs))) } }"

definition verifyFileDigest :: "world \<Rightarrow> hasher \<Rightarrow> path \<Rightarrow> string \<Rightarrow> go_error option io" where
  "verifyFileDigest w sha256 p want = do {
     r \<leftarrow> sha256File w sha256 p;
     ret (case r of
        Inl e \<Rightarrow> Some (env_error (''store: hash '' @ p) e)
      | Inr (got, _) \<Rightarrow>
          if got \<noteq> want then
            Some (New Verification (''store: '' @ p @ '' holds content that hashes to '' @ got @ '', not '' @ want))
          else None) }"

text \<open>
  \<^verbatim>\<open>Put\<close>. The part between creating the temporary file and the deferred removal returns the result and
  whether the temporary file is still to be removed.
\<close>

definition put_publish ::
    "world \<Rightarrow> path \<Rightarrow> path \<Rightarrow> string \<Rightarrow> int \<Rightarrow> ((go_error + string \<times> int) \<times> bool) io" where
  "put_publish w root tmpName dg n = do {
     let final = store_Path root dg;
     m \<leftarrow> mkdir_all w (filepath_Dir final);
     case m of
       Inl e \<Rightarrow> ret (Inl (env_error ''store: create shard directory'' e), True)
     | Inr _ \<Rightarrow> do {
     r \<leftarrow> rename_file w tmpName final;
     case r of
       Inl e \<Rightarrow> do {
         h \<leftarrow> store_Has w root dg;
         if h then ret (Inr (dg, n), True)
         else ret (Inl (env_error (''store: publish object '' @ dg) e), True) }
     | Inr _ \<Rightarrow> ret (Inr (dg, n), False) } }"

definition put_staged ::
    "world \<Rightarrow> hasher \<Rightarrow> path \<Rightarrow> reader \<Rightarrow> path \<Rightarrow> nat \<Rightarrow> ((go_error + string \<times> int) \<times> bool) io" where
  "put_staged w sha256 root r tmpName fd = do {
     c \<leftarrow> write_from w tmpName fd r;
     case c of
       Inl e \<Rightarrow> do { _ \<leftarrow> close_file w tmpName; ret (Inl (env_error ''store: write object'' e), True) }
     | Inr b \<Rightarrow> do {
     y \<leftarrow> sync_file w tmpName;
     case y of
       Inl e \<Rightarrow> do { _ \<leftarrow> close_file w tmpName; ret (Inl (env_error ''store: sync object'' e), True) }
     | Inr _ \<Rightarrow> do {
     l \<leftarrow> close_file w tmpName;
     case l of
       Inl e \<Rightarrow> ret (Inl (env_error ''store: close object'' e), True)
     | Inr _ \<Rightarrow> put_publish w root tmpName (sha256 b) (int (length b)) } } }"

definition Put :: "world \<Rightarrow> hasher \<Rightarrow> path \<Rightarrow> reader \<Rightarrow> (go_error + string \<times> int) io" where
  "Put w sha256 root r = do {
     c \<leftarrow> ctx_err w;
     case c of
       Some e \<Rightarrow> ret (Inl e)
     | None \<Rightarrow> do {
     m \<leftarrow> mkdir_all w (tmpDir root);
     case m of
       Inl e \<Rightarrow> ret (Inl (env_error ''store: create staging directory'' e))
     | Inr _ \<Rightarrow> do {
     t \<leftarrow> create_temp w (tmpDir root) ''obj-'' '''';
     case t of
       Inl e \<Rightarrow> ret (Inl (env_error ''store: create temp file'' e))
     | Inr (tmpName, fd) \<Rightarrow> do {
     x \<leftarrow> put_staged w sha256 root r tmpName fd;
     case x of (result, removeTmp) \<Rightarrow>
       if removeTmp then do { _ \<leftarrow> remove_file w tmpName; ret result } else ret result } } } }"

definition putByDedup :: "world \<Rightarrow> hasher \<Rightarrow> path \<Rightarrow> path \<Rightarrow> (string \<times> int) option io" where
  "putByDedup w sha256 root p = do {
     h \<leftarrow> sha256File w sha256 p;
     case h of
       Inl _ \<Rightarrow> ret None
     | Inr (dg, n) \<Rightarrow> do {
     present \<leftarrow> store_Has w root dg;
     if \<not> present then ret None
     else do {
     v \<leftarrow> verifyFileDigest w sha256 (store_Path root dg) dg;
     case v of Some _ \<Rightarrow> ret None | None \<Rightarrow> ret (Some (dg, n)) } } }"

definition restore_source :: "world \<Rightarrow> path \<Rightarrow> path \<Rightarrow> unit io" where
  "restore_source w tmpName p = do {
     r \<leftarrow> rename_file w tmpName p;
     case r of
       Inl _ \<Rightarrow> do { _ \<leftarrow> remove_file w tmpName; ret () }
     | Inr _ \<Rightarrow> ret () }"

text \<open>
  \<^verbatim>\<open>putByMove\<close>: an error, or \<^const>\<open>None\<close> when the source could not be renamed, or the digest and size.
  \<open>move_publish\<close> and \<open>move_staged\<close> are its steps once the source has been renamed away.
\<close>

definition move_publish ::
    "world \<Rightarrow> path \<Rightarrow> path \<Rightarrow> path \<Rightarrow> string \<times> int \<Rightarrow> (go_error + (string \<times> int) option) io" where
  "move_publish w root tmpName p x = do {
     f \<leftarrow> rename_file w tmpName (store_Path root (fst x));
     case f of
       Inl e \<Rightarrow> do { restore_source w tmpName p; ret (Inl (env_error (''store: publish object '' @ fst x) e)) }
     | Inr _ \<Rightarrow> ret (Inr (Some x)) }"

definition move_staged ::
    "world \<Rightarrow> hasher \<Rightarrow> path \<Rightarrow> path \<Rightarrow> path \<Rightarrow> (go_error + (string \<times> int) option) io" where
  "move_staged w sha256 root tmpName p = do {
     h \<leftarrow> sha256File w sha256 tmpName;
     case h of
       Inl e \<Rightarrow> do { restore_source w tmpName p; ret (Inl (env_error (''store: hash '' @ p) e)) }
     | Inr x \<Rightarrow> do {
     k \<leftarrow> mkdir_all w (filepath_Dir (store_Path root (fst x)));
     case k of
       Inl e \<Rightarrow> do { restore_source w tmpName p; ret (Inl (env_error ''store: create shard directory'' e)) }
     | Inr _ \<Rightarrow> move_publish w root tmpName p x } }"

definition putByMove :: "world \<Rightarrow> hasher \<Rightarrow> path \<Rightarrow> path \<Rightarrow> (go_error + (string \<times> int) option) io" where
  "putByMove w sha256 root p = do {
     m \<leftarrow> mkdir_all w (tmpDir root);
     case m of
       Inl e \<Rightarrow> ret (Inl (env_error ''store: create staging directory'' e))
     | Inr _ \<Rightarrow> do {
     t \<leftarrow> create_temp w (tmpDir root) ''mv-'' '''';
     case t of
       Inl e \<Rightarrow> ret (Inl (env_error ''store: create temp file'' e))
     | Inr (tmpName, _) \<Rightarrow> do {
     _ \<leftarrow> close_file w tmpName;
     d \<leftarrow> remove_file w tmpName;
     case d of
       Inl e \<Rightarrow> ret (Inl (env_error ''store: clear temp file'' e))
     | Inr _ \<Rightarrow> do {
     n \<leftarrow> rename_file w p tmpName;
     case n of
       Inl _ \<Rightarrow> ret (Inr None)
     | Inr _ \<Rightarrow> move_staged w sha256 root tmpName p } } } }"

text \<open>The copying half of \<^verbatim>\<open>PutFile\<close>, and \<^verbatim>\<open>PutFile\<close>.\<close>

definition put_copy :: "world \<Rightarrow> hasher \<Rightarrow> path \<Rightarrow> path \<Rightarrow> bool \<Rightarrow> (go_error + string \<times> int) io" where
  "put_copy w sha256 root p moveOK = do {
     f \<leftarrow> open_read w p;
     case f of
       Inl e \<Rightarrow> ret (Inl (env_error (''store: open '' @ p) e))
     | Inr fd \<Rightarrow> do {
     r \<leftarrow> Put w sha256 root (\<lambda>s. (content s fd, None));
     case r of
       Inl e \<Rightarrow> ret (Inl e)
     | Inr x \<Rightarrow>
         if moveOK then do { _ \<leftarrow> remove_file w p; ret (Inr x) } else ret (Inr x) } }"

definition PutFile :: "world \<Rightarrow> hasher \<Rightarrow> path \<Rightarrow> path \<Rightarrow> bool \<Rightarrow> (go_error + string \<times> int) io" where
  "PutFile w sha256 root p moveOK = do {
     c \<leftarrow> ctx_err w;
     case c of
       Some e \<Rightarrow> ret (Inl e)
     | None \<Rightarrow>
         if moveOK then do {
           v \<leftarrow> putByMove w sha256 root p;
           case v of
             Inl e \<Rightarrow> ret (Inl e)
           | Inr (Some x) \<Rightarrow> ret (Inr x)
           | Inr None \<Rightarrow> put_copy w sha256 root p moveOK }
         else do {
           v \<leftarrow> putByDedup w sha256 root p;
           case v of
             Some x \<Rightarrow> ret (Inr x)
           | None \<Rightarrow> put_copy w sha256 root p moveOK } }"

text \<open>\<^verbatim>\<open>copyToPath\<close> and \<^verbatim>\<open>Materialise\<close>.\<close>

definition copy_staged :: "world \<Rightarrow> path \<Rightarrow> path \<Rightarrow> nat \<Rightarrow> nat \<Rightarrow> (go_error option \<times> bool) io" where
  "copy_staged w dest tmpName fd src = do {
     c \<leftarrow> write_from w tmpName fd (\<lambda>s. (content s src, None));
     case c of
       Inl e \<Rightarrow> do { _ \<leftarrow> close_file w tmpName; ret (Some (env_error (''store: copy to '' @ tmpName) e), True) }
     | Inr _ \<Rightarrow> do {
     y \<leftarrow> sync_file w tmpName;
     case y of
       Inl e \<Rightarrow> do { _ \<leftarrow> close_file w tmpName; ret (Some (env_error (''store: sync '' @ tmpName) e), True) }
     | Inr _ \<Rightarrow> do {
     l \<leftarrow> close_file w tmpName;
     case l of
       Inl e \<Rightarrow> ret (Some (env_error (''store: close '' @ tmpName) e), True)
     | Inr _ \<Rightarrow> do {
     n \<leftarrow> rename_file w tmpName dest;
     case n of
       Inl e \<Rightarrow> ret (Some (env_error (''store: publish '' @ dest) e), True)
     | Inr _ \<Rightarrow> ret (None, False) } } } }"

definition copyToPath :: "world \<Rightarrow> path \<Rightarrow> path \<Rightarrow> go_error option io" where
  "copyToPath w src dest = do {
     let dir = filepath_Dir dest;
     m \<leftarrow> mkdir_all w dir;
     case m of
       Inl e \<Rightarrow> ret (Some (env_error (''store: create '' @ dir) e))
     | Inr _ \<Rightarrow> do {
     f \<leftarrow> open_read w src;
     case f of
       Inl e \<Rightarrow> ret (Some (env_error (''store: open '' @ src) e))
     | Inr sfd \<Rightarrow> do {
     t \<leftarrow> create_temp w dir ''.tmp-'' '''';
     case t of
       Inl e \<Rightarrow> ret (Some (env_error (''store: create temp file in '' @ dir) e))
     | Inr (tmpName, fd) \<Rightarrow> do {
     x \<leftarrow> copy_staged w dest tmpName fd sfd;
     case x of (result, removeTmp) \<Rightarrow>
       if removeTmp then do { _ \<leftarrow> remove_file w tmpName; ret result } else ret result } } } }"

definition place_object :: "world \<Rightarrow> path \<Rightarrow> path \<Rightarrow> go_error option io" where
  "place_object w src dest = do {
     l \<leftarrow> link_file w src dest;
     case l of Inl _ \<Rightarrow> copyToPath w src dest | Inr _ \<Rightarrow> ret None }"

definition check_placed :: "world \<Rightarrow> hasher \<Rightarrow> string \<Rightarrow> path \<Rightarrow> go_error option io" where
  "check_placed w sha256 dg dest = do {
     v \<leftarrow> verifyFileDigest w sha256 dest dg;
     case v of
       Some e \<Rightarrow> do {
         _ \<leftarrow> remove_file w dest;
         ret (Some (DfError Verification (''store: materialise '' @ dg) '''' (Some e))) }
     | None \<Rightarrow> ret None }"

definition Materialise :: "world \<Rightarrow> hasher \<Rightarrow> path \<Rightarrow> string \<Rightarrow> path \<Rightarrow> go_error option io" where
  "Materialise w sha256 root dg0 dest =
     (case address dg0 of (dg, ok) \<Rightarrow>
        if \<not> ok then ret (Some (New Usage (''store: materialise: '' @ dg @ '' is not a sha256 digest'')))
        else do {
        let src = store_Path root dg;
        st \<leftarrow> stat_file w src;
        case st of
          Inl e \<Rightarrow> ret (Some (env_error (''store: materialise '' @ dg @ '': object not found'') e))
        | Inr _ \<Rightarrow> do {
        m \<leftarrow> mkdir_all w (filepath_Dir dest);
        case m of
          Inl e \<Rightarrow> ret (Some (env_error (''store: materialise '' @ dg @ '': create destination directory'') e))
        | Inr _ \<Rightarrow> do {
        _ \<leftarrow> remove_file w dest;
        c \<leftarrow> place_object w src dest;
        case c of
          Some e \<Rightarrow> ret (Some (DfError Environment (''store: materialise '' @ dg) '''' (Some e)))
        | None \<Rightarrow> check_placed w sha256 dg dest } } })"

text \<open>
  \<^verbatim>\<open>Open\<close> and the reader it returns. \<open>vr_hashed\<close> is what has been fed to the hash so far; one \<^verbatim>\<open>Read\<close> is
  given what the underlying file's \<^verbatim>\<open>Read\<close> returned.
\<close>

datatype read_end = EOF | ReadFailed go_error

record verifyingReader =
  vr_want :: string
  vr_hashed :: string
  vr_checked :: bool

definition store_Open :: "world \<Rightarrow> path \<Rightarrow> string \<Rightarrow> (go_error + nat \<times> verifyingReader) io" where
  "store_Open w root dg0 =
     (case address dg0 of (dg, ok) \<Rightarrow>
        if \<not> ok then ret (Inl (New Usage (''store: open object: '' @ dg @ '' is not a sha256 digest'')))
        else do {
          f \<leftarrow> open_read w (store_Path root dg);
          case f of
            Inl e \<Rightarrow> ret (Inl (env_error (''store: open object '' @ dg) e))
          | Inr fd \<Rightarrow> ret (Inr (fd, \<lparr>vr_want = dg, vr_hashed = '''', vr_checked = False\<rparr>)) })"

definition vr_Read ::
    "hasher \<Rightarrow> string \<times> read_end option \<Rightarrow> verifyingReader \<Rightarrow> (string \<times> read_end option) \<times> verifyingReader" where
  "vr_Read sha256 got r =
     (case got of (p, err) \<Rightarrow>
        let h = vr_hashed r @ p
        in if err = Some EOF \<and> \<not> vr_checked r then
             if sha256 h \<noteq> vr_want r then
               ((p, Some (ReadFailed (New Verification
                   (''store: object '' @ vr_want r @ '' holds content that hashes to '' @ sha256 h)))),
                r\<lparr>vr_hashed := h, vr_checked := True\<rparr>)
             else ((p, err), r\<lparr>vr_hashed := h, vr_checked := True\<rparr>)
           else ((p, err), r\<lparr>vr_hashed := h\<rparr>))"

text \<open>\<^verbatim>\<open>io.ReadAll\<close> over it: the bytes up to the first error, and that error unless it is \<^verbatim>\<open>EOF\<close>. The list is
  what the file's \<^verbatim>\<open>Read\<close> returns, call by call.\<close>

fun vr_ReadAll ::
    "hasher \<Rightarrow> (string \<times> read_end option) list \<Rightarrow> verifyingReader \<Rightarrow> (go_error option \<times> string) option" where
  "vr_ReadAll sha256 [] r = None"
| "vr_ReadAll sha256 (got # rest) r =
     (case vr_Read sha256 got r of ((p, err), r') \<Rightarrow>
        (case err of
           Some EOF \<Rightarrow> Some (None, p)
         | Some (ReadFailed e) \<Rightarrow> Some (Some e, p)
         | None \<Rightarrow> map_option (\<lambda>(e, b). (e, p @ b)) (vr_ReadAll sha256 rest r')))"

section \<open>Paths of the store\<close>

text \<open>The root of an opened store is an absolute, cleaned path; it is not the file system root.\<close>

definition store_root :: "path \<Rightarrow> bool" where
  "store_root root \<longleftrightarrow> named_dir root \<and> path_Clean root = root"

definition sha_area :: "path \<Rightarrow> path" where
  "sha_area root = root @ ''/sha256/''"

definition staged :: "path \<Rightarrow> path \<Rightarrow> bool" where
  "staged root p \<longleftrightarrow> has_prefix p (sha_area root @ ''tmp/'')"

lemma store_root_ne: "store_root root \<Longrightarrow> root \<noteq> ''''"
  by (simp add: store_root_def named_dir_def)

lemma Join_root:
  assumes "store_root root" "safe_rel_path p"
  shows "path_Clean (root @ slash # p) = root @ slash # p"
proof -
  have "path_Clean (root @ slash # p) = path_Clean root @ slash # p"
    using assms store_root_ne [OF assms(1)]
    by (intro path_Clean_join) (auto simp: store_root_def dest: named_dir_segs)
  with assms(1) show ?thesis by (simp add: store_root_def)
qed

lemma safe_path_snoc:
  "safe_segment a \<Longrightarrow> slash \<notin> set a \<Longrightarrow> safe_rel_path b \<Longrightarrow> safe_rel_path (a @ slash # b)"
  by (auto simp: safe_rel_path_def split_on_append_sep split_on_no_occurrence)

lemma safe_path_one: "safe_segment a \<Longrightarrow> slash \<notin> set a \<Longrightarrow> safe_rel_path a"
  by (simp add: safe_rel_path_def split_on_no_occurrence)

lemma hex_no_slash: "list_all is_hex_byte s \<Longrightarrow> slash \<notin> set s"
  by (induction s) (auto simp: is_hex_byte_def)

lemma hex_safe:
  assumes "list_all is_hex_byte s" "s \<noteq> ''''"
  shows "safe_segment s"
proof -
  have "CHR ''.'' \<notin> set s" using assms(1) by (induction s) (auto simp: is_hex_byte_def)
  then show ?thesis using assms(2) by (auto simp: safe_segment_def)
qed

lemma valid_parts:
  assumes "digest_Valid d"
  shows "list_all is_hex_byte d" "d \<noteq> ''''" "list_all is_hex_byte (take 2 d)" "take 2 d \<noteq> ''''"
    "length (take 2 d) = 2"
  using assms by (auto simp: digest_Valid_def list_all_iff dest: in_set_takeD)

lemma tmpDir_eq: "store_root root \<Longrightarrow> tmpDir root = root @ ''/sha256/tmp''"
  using Join_root [of root "''sha256/tmp''"] store_root_ne [of root]
  by (simp add: tmpDir_def filepath_Join_def safe_rel_path_def safe_segment_def)

lemma store_Path_eq:
  assumes "store_root root" "digest_Valid d"
  shows "store_Path root d = sha_area root @ take 2 d @ slash # d"
proof -
  note v = valid_parts [OF assms(2)]
  have d: "safe_rel_path d" "safe_rel_path (take 2 d)"
    using v by (auto intro!: safe_path_one hex_safe hex_no_slash)
  have s: "safe_rel_path (''sha256'' @ slash # take 2 d)"
    by (rule safe_path_snoc) (use d in \<open>simp_all add: safe_segment_def\<close>)
  have s1: "safe_rel_path (take 2 d @ slash # d)"
    by (intro safe_path_snoc hex_safe hex_no_slash v d)
  have s2: "safe_rel_path (''sha256'' @ slash # (take 2 d @ slash # d))"
    by (rule safe_path_snoc [OF _ _ s1]) (simp_all add: safe_segment_def)
  have sh: "shardDir root d = root @ slash # ''sha256'' @ slash # take 2 d"
    using Join_root [OF assms(1) s] store_root_ne [OF assms(1)] v
    by (simp add: shardDir_def filepath_Join_def)
  then show ?thesis
    using Join_root [OF assms(1) s2] store_root_ne [OF assms(1)] v digest_Valid_lower [OF assms(2)] assms(2)
    by (simp add: store_Path_def address_def filepath_Join_def sha_area_def)
qed

lemma store_Path_inj:
  assumes "store_root root" "digest_Valid d" "digest_Valid e" "store_Path root d = store_Path root e"
  shows "d = e"
  using assms(4) store_Path_eq [OF assms(1,2)] store_Path_eq [OF assms(1,3)]
    valid_parts(5) [OF assms(2)] valid_parts(5) [OF assms(3)]
  by simp

lemma staged_not_object:
  assumes "store_root root" "digest_Valid d" "staged root t"
  shows "store_Path root d \<noteq> t"
proof
  assume eq: "store_Path root d = t"
  obtain a b where ab: "take 2 d = [a, b]"
    using valid_parts(5) [OF assms(2)] by (metis length_0_conv length_Suc_conv numeral_2_eq_2)
  have "is_hex_byte a" using valid_parts(3) [OF assms(2)] by (simp add: ab)
  with eq assms(3) show False
    by (auto simp: store_Path_eq [OF assms(1,2)] ab staged_def has_prefix_iff is_hex_byte_def)
qed

lemma temp_staged:
  assumes "store_root root"
  shows "staged root (join_name (tmpDir root) n)"
  by (simp add: tmpDir_eq [OF assms] join_name_def staged_def sha_area_def has_prefix_iff)

section \<open>The invariant\<close>

definition addresses_true :: "hasher \<Rightarrow> path \<Rightarrow> fs \<Rightarrow> bool" where
  "addresses_true sha256 root s \<longleftrightarrow>
     (\<forall>d i. digest_Valid d \<longrightarrow> file_at s (store_Path root d) = Some i \<longrightarrow> sha256 (content s i) = d)"

definition fs_wf :: "fs \<Rightarrow> bool" where
  "fs_wf s \<longleftrightarrow> (\<forall>p i. file_at s p = Some i \<longrightarrow> i < next_ino s)"

text \<open>The objects of the store as a map from digests to bytes.\<close>

definition objects :: "path \<Rightarrow> fs \<Rightarrow> string \<Rightarrow> string option" where
  "objects root s d = (if digest_Valid d then bytes_at s (store_Path root d) else None)"

text \<open>
  A file of the staging area that only one call knows: one name, and the bytes that were written.
\<close>

definition sole_name :: "path \<Rightarrow> nat \<Rightarrow> fs \<Rightarrow> bool" where
  "sole_name t i s \<longleftrightarrow> file_at s t = Some i \<and> (\<forall>p. file_at s p = Some i \<longrightarrow> p = t)"

text \<open>
  The rely condition. Other processes may write objects under their own digests, create and remove
  files anywhere, but they leave the private files alone (name, bytes, and no new links to them),
  they remove no object and they plant no object whose bytes do not hash to its address. For
  ingestion the private files are those of the staging area.
\<close>

definition env_respects :: "(path \<Rightarrow> bool) \<Rightarrow> hasher \<Rightarrow> path \<Rightarrow> world \<Rightarrow> bool" where
  "env_respects mine sha256 root w \<longleftrightarrow>
     (\<forall>n s. let s' = meddle w n s in
        (fs_wf s \<longrightarrow> fs_wf s') \<and>
        (addresses_true sha256 root s \<longrightarrow> addresses_true sha256 root s') \<and>
        (\<forall>d. objects root s d \<noteq> None \<longrightarrow> objects root s' d \<noteq> None) \<and>
        (\<forall>t i. mine t \<longrightarrow> file_at s t = Some i \<longrightarrow>
           file_at s' t = Some i \<and> content s' i = content s i \<and>
           (\<forall>p. file_at s' p = Some i \<longrightarrow> file_at s p = Some i)))"

abbreviation others_respect :: "hasher \<Rightarrow> path \<Rightarrow> world \<Rightarrow> bool" where
  "others_respect sha256 root w \<equiv> env_respects (staged root) sha256 root w"

lemma ticks_irrelevant [simp]:
  "fs_wf (s\<lparr>ticks := k\<rparr>) = fs_wf s"
  "addresses_true sha256 root (s\<lparr>ticks := k\<rparr>) = addresses_true sha256 root s"
  "objects root (s\<lparr>ticks := k\<rparr>) = objects root s"
  "bytes_at (s\<lparr>ticks := k\<rparr>) = bytes_at s"
  "sole_name t i (s\<lparr>ticks := k\<rparr>) = sole_name t i s"
  by (simp_all add: fs_wf_def addresses_true_def objects_def bytes_at_def sole_name_def fun_eq_iff)

abbreviation inv :: "hasher \<Rightarrow> path \<Rightarrow> fs \<Rightarrow> bool" where
  "inv sha256 root s \<equiv> fs_wf s \<and> addresses_true sha256 root s"

abbreviation inv_sole :: "hasher \<Rightarrow> path \<Rightarrow> path \<Rightarrow> nat \<Rightarrow> fs \<Rightarrow> bool" where
  "inv_sole sha256 root t i s \<equiv> inv sha256 root s \<and> sole_name t i s"

abbreviation inv_staged :: "hasher \<Rightarrow> path \<Rightarrow> path \<Rightarrow> string \<Rightarrow> fs \<Rightarrow> bool" where
  "inv_staged sha256 root t b s \<equiv> inv sha256 root s \<and> bytes_at s t = Some b"

lemma respectD:
  assumes "env_respects mine sha256 root w"
  shows "fs_wf s \<Longrightarrow> fs_wf (meddle w n s)"
    and "addresses_true sha256 root s \<Longrightarrow> addresses_true sha256 root (meddle w n s)"
    and "objects root s d \<noteq> None \<Longrightarrow> objects root (meddle w n s) d \<noteq> None"
    and "mine t \<Longrightarrow> file_at s t = Some i \<Longrightarrow>
      file_at (meddle w n s) t = Some i \<and> content (meddle w n s) i = content s i"
    and "mine t \<Longrightarrow> file_at s t = Some i \<Longrightarrow> file_at (meddle w n s) p = Some i \<Longrightarrow> file_at s p = Some i"
  using assms unfolding env_respects_def Let_def by blast+

lemma stable_inv:
  assumes "env_respects mine sha256 root w"
  shows "stable w (inv sha256 root)"
  using respectD(1,2) [OF assms] by (simp add: stable_def)

lemma stable_sole:
  assumes "env_respects mine sha256 root w" "mine t"
  shows "stable w (inv_sole sha256 root t i)"
proof -
  have "sole_name t i (meddle w n s)" if "sole_name t i s" for n s
    using that respectD(4,5) [OF assms] unfolding sole_name_def by blast
  then show ?thesis using respectD(1,2) [OF assms(1)] by (simp add: stable_def)
qed

lemma stable_staged:
  assumes "env_respects mine sha256 root w" "mine t"
  shows "stable w (inv_staged sha256 root t b)"
proof -
  have "bytes_at (meddle w n s) t = Some b" if "bytes_at s t = Some b" for n s
    using that respectD(4) [OF assms] by (fastforce simp: bytes_at_def)
  then show ?thesis using respectD(1,2) [OF assms(1)] by (simp add: stable_def)
qed

lemma stable_present:
  assumes "env_respects mine sha256 root w"
  shows "stable w (\<lambda>s. inv sha256 root s \<and> objects root s d \<noteq> None)"
  using respectD(1-3) [OF assms] by (simp add: stable_def)

section \<open>What each file operation does to the invariant\<close>

lemma fs_wf_delete: "fs_wf s \<Longrightarrow> fs_wf (s\<lparr>files := AList.delete p (files s)\<rparr>)"
  by (auto simp: fs_wf_def delete_conv' fun_upd_apply split: if_splits)

lemma addresses_true_delete:
  "addresses_true sha256 root s \<Longrightarrow> addresses_true sha256 root (s\<lparr>files := AList.delete p (files s)\<rparr>)"
  by (auto simp: addresses_true_def delete_conv' fun_upd_apply split: if_splits)

lemmas inv_delete = fs_wf_delete addresses_true_delete

lemma inv_new_file:
  assumes "inv sha256 root s" "\<And>d. digest_Valid d \<Longrightarrow> store_Path root d \<noteq> p"
  shows "inv sha256 root (new_file w p s)"
proof
  have wf: "i < next_ino s" if "file_at s q = Some i" for q i
    using assms(1) that by (auto simp: fs_wf_def)
  then show "fs_wf (new_file w p s)"
    by (auto simp: fs_wf_def new_file_def update_conv' less_SucI)
  show "addresses_true sha256 root (new_file w p s)"
    using assms wf by (fastforce simp: addresses_true_def new_file_def update_conv')
qed

lemma new_file_sole:
  "fs_wf s \<Longrightarrow> file_at s p = None \<Longrightarrow> sole_name p (next_ino s) (new_file w p s)"
  by (auto simp: fs_wf_def sole_name_def new_file_def update_conv' fun_upd_apply split: if_splits)

text \<open>Writing to a file that has one name, which is not an object's.\<close>

lemma inv_write:
  assumes "inv_sole sha256 root t i s" "\<And>d. digest_Valid d \<Longrightarrow> store_Path root d \<noteq> t"
  shows "inv_sole sha256 root t i (s\<lparr>content := (content s)(i := b), mtime := m\<rparr>)"
proof -
  have "j \<noteq> i" if "digest_Valid d" "file_at s (store_Path root d) = Some j" for d j
    using assms that by (metis sole_name_def)
  then have "addresses_true sha256 root (s\<lparr>content := (content s)(i := b), mtime := m\<rparr>)"
    using assms(1) by (simp add: addresses_true_def)
  with assms(1) show ?thesis by (simp add: fs_wf_def sole_name_def)
qed

text \<open>Moving a file to a name: the object names keep their meaning if the bytes fit the name.\<close>

lemma inv_rename:
  assumes "inv sha256 root s" "file_at s a = Some i"
    and "\<And>d. digest_Valid d \<Longrightarrow> store_Path root d = b \<Longrightarrow> sha256 (content s i) = d"
  shows "inv sha256 root (s\<lparr>files := AList.update b i (AList.delete a (files s))\<rparr>)"
  using assms
  by (auto simp: fs_wf_def addresses_true_def update_conv' delete_conv' fun_upd_apply split: if_splits)

text \<open>The bytes of a staged file end up under their digest.\<close>

lemma inv_publish:
  assumes "store_root root" "hex_hash sha256" "inv_staged sha256 root t b s" "file_at s t = Some i"
  shows "inv sha256 root (s\<lparr>files := AList.update (store_Path root (sha256 b)) i (AList.delete t (files s))\<rparr>)"
    and "objects root (s\<lparr>files := AList.update (store_Path root (sha256 b)) i (AList.delete t (files s))\<rparr>)
           (sha256 b) = Some b"
proof -
  have b: "content s i = b" using assms(3,4) by (simp add: bytes_at_def)
  have v: "digest_Valid (sha256 b)" using assms(2) by (simp add: hex_hash_def)
  show "inv sha256 root (s\<lparr>files := AList.update (store_Path root (sha256 b)) i (AList.delete t (files s))\<rparr>)"
  proof (rule inv_rename [where a = t])
    fix d assume "digest_Valid d" "store_Path root d = store_Path root (sha256 b)"
    then show "sha256 (content s i) = d" using store_Path_inj [OF assms(1) _ v, of d] b by simp
  qed (use assms in auto)
  show "objects root (s\<lparr>files := AList.update (store_Path root (sha256 b)) i (AList.delete t (files s))\<rparr>)
      (sha256 b) = Some b"
    using v b by (simp add: objects_def bytes_at_def update_conv')
qed

lemma wp_Has:
  assumes "stable w J" "J s" "digest_Valid d"
    and "\<And>s' h. J s' \<Longrightarrow> h \<longrightarrow> objects root s' d \<noteq> None \<Longrightarrow> Q h s'"
  shows "wp (store_Has w root d) Q s"
  unfolding store_Has_def Let_def wp_simps
proof (simp add: assms(2,4), intro impI)
  show "wp (stat_file w (store_Path root d)) (\<lambda>r. Q (case r of Inl _ \<Rightarrow> False | Inr _ \<Rightarrow> True)) s"
    by (rule wp_stat [OF assms(1,2)]) (auto intro!: assms(4) simp: objects_def bytes_at_def assms(3))
qed

text \<open>
  \<^verbatim>\<open>Put\<close> after the temporary file exists: on success the digest is that of the bytes the reader
  delivered and the object is there.
\<close>

definition put_post :: "hasher \<Rightarrow> path \<Rightarrow> reader \<Rightarrow> go_error + string \<times> int \<Rightarrow> fs \<Rightarrow> bool" where
  "put_post sha256 root r res s \<longleftrightarrow> inv sha256 root s \<and>
     (case res of
        Inl _ \<Rightarrow> True
      | Inr (dg, n) \<Rightarrow> objects root s dg \<noteq> None \<and>
          (\<exists>s0. snd (r s0) = None \<and> dg = sha256 (fst (r s0)) \<and> n = int (length (fst (r s0)))))"

lemma put_post_err: "inv sha256 root s \<Longrightarrow> put_post sha256 root r (Inl e) s"
  by (simp add: put_post_def)

lemma put_publish_spec:
  assumes root: "store_root root" and hex: "hex_hash sha256" and rely: "others_respect sha256 root w"
    and t: "staged root t" and s: "inv_staged sha256 root t b s" and b: "r s0 = (b, None)"
  shows "wp (put_publish w root t (sha256 b) (int (length b)))
    (\<lambda>(res, _) s'. put_post sha256 root r res s') s"
proof -
  note J = stable_inv [OF rely] and J2 = stable_staged [OF rely t]
  have v: "digest_Valid (sha256 b)" using hex by (simp add: hex_hash_def)
  have published: "put_post sha256 root r (Inr (sha256 b, int (length b))) u"
    if "inv sha256 root u" "objects root u (sha256 b) \<noteq> None" for u
    using that b by (auto simp: put_post_def intro: exI [of _ s0])
  have "wp (rename_file w t (store_Path root (sha256 b)))
      (\<lambda>r'. wp (case r' of
         Inl e \<Rightarrow> do {
           h \<leftarrow> store_Has w root (sha256 b);
           if h then ret (Inr (sha256 b, int (length b)), True)
           else ret (Inl (env_error (''store: publish object '' @ sha256 b) e), True) }
       | Inr _ \<Rightarrow> ret (Inr (sha256 b, int (length b)), False))
       (\<lambda>(res, _) s'. put_post sha256 root r res s')) s'"
    if s': "inv_staged sha256 root t b s'" for s'
  proof (rule wp_rename [OF J2 s'], goal_cases)
    case (1 e u)
    then show ?case by (auto simp: wp_simps intro!: wp_Has [OF J _ v] published put_post_err)
  next
    case (2 i u)
    then have "objects root u (sha256 b) \<noteq> None" by (simp add: objects_def bytes_at_def v)
    with 2 show ?case by (simp add: wp_simps published)
  next
    case (3 i u)
    then show ?case using inv_publish [OF root hex 3(1,2)] by (simp add: wp_simps published)
  qed
  then show ?thesis
    unfolding put_publish_def Let_def wp_bind
    by (intro wp_neutral(1) [OF J2 s]) (simp_all add: wp_simps put_post_err)
qed

lemma put_staged_spec:
  assumes root: "store_root root" and hex: "hex_hash sha256" and rely: "others_respect sha256 root w"
    and t: "staged root t" and s: "inv_sole sha256 root t fd s"
  shows "wp (put_staged w sha256 root r t fd) (\<lambda>(res, _) s'. put_post sha256 root r res s') s"
proof -
  note free = staged_not_object [OF root _ t]
  note J = stable_inv [OF rely] and J1 = stable_sole [OF rely t] and J2 = stable_staged [OF rely t]
  have err: "wp (close_file w t) (\<lambda>_. put_post sha256 root r (Inl e)) s'" if "inv sha256 root s'" for e s'
    by (rule wp_neutral(3) [OF J that]) (simp_all add: put_post_def)
  show ?thesis
    unfolding put_staged_def wp_bind
  proof (rule wp_write [OF J1 s], goal_cases)
    case (1 e s')
    then show ?case by (simp add: wp_simps err)
  next
    case (2 b e m s')
    let ?s = "s'\<lparr>content := (content s')(fd := b), mtime := (mtime s')(fd := m)\<rparr>"
    have i: "inv_sole sha256 root t fd ?s" using 2(1) free by (intro inv_write)
    then have st: "inv_staged sha256 root t b ?s" by (simp add: sole_name_def bytes_at_def)
    show ?case
    proof (cases e)
      case (Some x)
      then show ?thesis using i by (simp add: wp_simps err)
    next
      case None
      note pub = put_publish_spec [OF root hex rely t, where b = b and r = r and ?s0.0 = s',
          OF _ 2(2) [unfolded None]]
      have "wp (close_file w t) (\<lambda>l. wp (case l of
            Inl e \<Rightarrow> ret (Inl (env_error ''store: close object'' e), True)
          | Inr _ \<Rightarrow> put_publish w root t (sha256 b) (int (length b)))
          (\<lambda>(res, _). put_post sha256 root r res)) u" if "inv_staged sha256 root t b u" for u
        by (rule wp_neutral(3) [OF J2 that]) (simp_all add: wp_simps put_post_err pub)
      then show ?thesis
        unfolding None by (simp add: wp_bind) (rule wp_neutral(2) [OF J2 st]; simp add: wp_simps err)
    qed
  qed
qed

text \<open>\<^verbatim>\<open>Put\<close>, with its deferred removal of the temporary file.\<close>

lemma put_post_delete:
  assumes "put_post sha256 root r res s" "\<And>d. digest_Valid d \<Longrightarrow> store_Path root d \<noteq> t"
  shows "put_post sha256 root r res (s\<lparr>files := AList.delete t (files s)\<rparr>)"
proof -
  have "objects root (s\<lparr>files := AList.delete t (files s)\<rparr>) = objects root s"
    using assms(2) by (auto simp: objects_def bytes_at_def delete_conv' fun_eq_iff)
  with assms(1) show ?thesis by (simp add: put_post_def inv_delete split: sum.splits prod.splits)
qed

lemma stable_put_post:
  assumes "others_respect sha256 root w"
  shows "stable w (put_post sha256 root r res)"
  using respectD(1-3) [OF assms]
  by (auto simp: stable_def put_post_def split: sum.splits prod.splits)

text \<open>The deferred removal of a temporary file, which is nobody's object.\<close>

lemma wp_deferred_remove:
  assumes "stable w (P res)" "P res s" "\<And>s. P res s \<Longrightarrow> P res (s\<lparr>files := AList.delete t (files s)\<rparr>)"
  shows "wp (if rm then do { _ \<leftarrow> remove_file w t; ret res } else ret res) P s"
  using assms by (auto simp: wp_simps intro!: wp_remove [OF assms(1)])

lemma Put_spec:
  assumes root: "store_root root" and hex: "hex_hash sha256" and rely: "others_respect sha256 root w"
    and s: "inv sha256 root s"
  shows "wp (Put w sha256 root r) (put_post sha256 root r) s"
proof -
  note J = stable_inv [OF rely]
  have staged: "wp (create_temp w (tmpDir root) ''obj-'' '''')
      (\<lambda>t. wp (case t of
          Inl e \<Rightarrow> ret (Inl (env_error ''store: create temp file'' e))
        | Inr (tmpName, fd) \<Rightarrow> do {
            x \<leftarrow> put_staged w sha256 root r tmpName fd;
            case x of (result, removeTmp) \<Rightarrow>
              if removeTmp then do { _ \<leftarrow> remove_file w tmpName; ret result } else ret result })
        (put_post sha256 root r)) u" if u: "inv sha256 root u" for u
  proof (rule wp_create_temp [OF J u], goal_cases)
    case (1 e v)
    then show ?case by (simp add: wp_simps put_post_err)
  next
    case (2 n v)
    let ?t = "join_name (tmpDir root) (''obj-'' @ rand w n @ '''')"
    note t = temp_staged [OF root, of "''obj-'' @ rand w n @ ''''"]
    note free = staged_not_object [OF root _ t]
    have "inv_sole sha256 root ?t (next_ino v) (new_file w ?t v)"
      using inv_new_file [OF 2(1) free] new_file_sole 2 by blast
    from put_staged_spec [OF root hex rely t this]
    have "wp (put_staged w sha256 root r ?t (next_ino v))
       (\<lambda>x. wp (case x of (result, removeTmp) \<Rightarrow>
              if removeTmp then do { _ \<leftarrow> remove_file w ?t; ret result } else ret result)
         (put_post sha256 root r)) (new_file w ?t v)"
      by (rule wp_mono) (auto intro!: wp_deferred_remove stable_put_post [OF rely] put_post_delete free)
    then show ?case by (simp only: wp_bind sum.case prod.case)
  qed
  show ?thesis
    unfolding Put_def wp_bind wp_ctx_err wp_option
    using s by (auto simp: wp_simps put_post_err intro!: wp_neutral(1) [OF J] staged split: option.splits)
qed

text \<open>\<^verbatim>\<open>sha256File\<close> on a file that stays as it is.\<close>

lemma wp_sha256File:
  assumes J: "stable w J" and s: "J s"
    and err: "\<And>e s'. J s' \<Longrightarrow> Q (Inl e) s'"
    and ok: "\<And>i b s'. J s' \<Longrightarrow> Q (Inr (sha256 b, int (length b))) s'"
  shows "wp (sha256File w sha256 p) Q s"
  unfolding sha256File_def wp_bind
  by (rule wp_open_read [OF J s])
    (auto simp: wp_simps intro!: wp_read_fd [OF J] assms split: sum.splits)

lemma wp_sha256File_fixed:
  assumes J: "stable w J" and s: "J s" and at: "\<And>s'. J s' \<Longrightarrow> file_at s' p = Some i \<and> content s' i = b"
    and err: "\<And>e s'. J s' \<Longrightarrow> Q (Inl e) s'"
    and ok: "\<And>s'. J s' \<Longrightarrow> Q (Inr (sha256 b, int (length b))) s'"
  shows "wp (sha256File w sha256 p) Q s"
  unfolding sha256File_def wp_bind
proof (rule wp_open_read [OF J s], goal_cases)
  case (1 e u)
  then show ?case by (simp add: wp_simps err)
next
  case (2 j u)
  then have "j = i" using at [OF 2(1)] by simp
  then have "wp (read_fd w j) (\<lambda>r. wp (case r of Inl e \<Rightarrow> ret (Inl e)
      | Inr bs \<Rightarrow> ret (Inr (sha256 bs, int (length bs)))) Q) u"
    using 2(1) at by (intro wp_read_fd [OF J]) (auto simp: wp_simps err ok)
  then show ?case by (simp only: wp_bind sum.case)
qed

definition stored :: "hasher \<Rightarrow> path \<Rightarrow> (string \<times> int) option \<Rightarrow> fs \<Rightarrow> bool" where
  "stored sha256 root res s \<longleftrightarrow> inv sha256 root s \<and>
     (case res of None \<Rightarrow> True | Some (dg, n) \<Rightarrow> objects root s dg \<noteq> None)"

abbreviation result_of :: "go_error + string \<times> int \<Rightarrow> (string \<times> int) option" where
  "result_of r \<equiv> (case r of Inl _ \<Rightarrow> None | Inr x \<Rightarrow> Some x)"

lemma put_post_stored: "put_post sha256 root r res s \<Longrightarrow> stored sha256 root (result_of res) s"
  by (auto simp: put_post_def stored_def split: sum.splits)

lemma stored_None: "inv sha256 root s \<Longrightarrow> stored sha256 root None s"
  by (simp add: stored_def)

lemma stable_stored: "others_respect sha256 root w \<Longrightarrow> stable w (stored sha256 root res)"
  using respectD(1-3) [of "staged root" sha256 root w]
  by (auto simp: stable_def stored_def split: option.splits prod.splits)

lemma stored_delete:
  assumes "stored sha256 root res s" "\<And>d. digest_Valid d \<Longrightarrow> store_Path root d \<noteq> t"
  shows "stored sha256 root res (s\<lparr>files := AList.delete t (files s)\<rparr>)"
proof -
  have "objects root (s\<lparr>files := AList.delete t (files s)\<rparr>) = objects root s"
    using assms(2) by (auto simp: objects_def bytes_at_def delete_conv' fun_eq_iff)
  with assms(1) show ?thesis by (simp add: stored_def inv_delete split: option.splits prod.splits)
qed

lemma putByDedup_spec:
  assumes hex: "hex_hash sha256" and rely: "others_respect sha256 root w" and s: "inv sha256 root s"
  shows "wp (putByDedup w sha256 root p) (stored sha256 root) s"
proof -
  note J = stable_inv [OF rely]
  have v: "digest_Valid (sha256 b)" for b using hex by (simp add: hex_hash_def)
  have verify: "wp (verifyFileDigest w sha256 q d)
      (\<lambda>v. wp (case v of None \<Rightarrow> ret (Some (d, n)) | Some _ \<Rightarrow> ret None) (stored sha256 root)) u"
    if "inv sha256 root u \<and> objects root u d \<noteq> None" for q d n u
    unfolding verifyFileDigest_def wp_bind
    by (rule wp_sha256File [OF stable_present [OF rely] that])
      (auto simp: wp_simps stored_def split: option.splits)
  have "wp (store_Has w root (sha256 b)) (\<lambda>present. wp (if \<not> present then ret None
      else do { v \<leftarrow> verifyFileDigest w sha256 (store_Path root (sha256 b)) (sha256 b);
                case v of Some _ \<Rightarrow> ret None | None \<Rightarrow> ret (Some (sha256 b, n)) })
      (stored sha256 root)) u" if u: "inv sha256 root u" for b n u
    by (rule wp_Has [OF J u v]) (auto simp: wp_if wp_ret wp_bind stored_None intro!: verify)
  then show ?thesis
    unfolding putByDedup_def wp_bind
    by (intro wp_sha256File [OF J s]) (auto simp only: wp_simps stored_None sum.case prod.case)
qed

text \<open>A staged file with its inode and bytes.\<close>

abbreviation inv_file :: "hasher \<Rightarrow> path \<Rightarrow> path \<Rightarrow> nat \<Rightarrow> string \<Rightarrow> fs \<Rightarrow> bool" where
  "inv_file sha256 root t i b s \<equiv> inv sha256 root s \<and> file_at s t = Some i \<and> content s i = b"

lemma stable_file:
  assumes "env_respects mine sha256 root w" "mine t"
  shows "stable w (inv_file sha256 root t i b)"
  using respectD(1,2) [OF assms(1)] respectD(4) [OF assms] by (simp add: stable_def)

definition outside :: "path \<Rightarrow> path \<Rightarrow> bool" where
  "outside root p \<longleftrightarrow> \<not> has_prefix p (sha_area root)"

lemma outside_not_object:
  "store_root root \<Longrightarrow> outside root p \<Longrightarrow> digest_Valid d \<Longrightarrow> store_Path root d \<noteq> p"
  by (auto simp: outside_def has_prefix_iff store_Path_eq)

lemma restore_spec:
  assumes root: "store_root root" and rely: "others_respect sha256 root w" and out: "outside root p"
    and s: "inv sha256 root s"
  shows "wp (restore_source w t p) (\<lambda>_. inv sha256 root) s"
proof -
  note J = stable_inv [OF rely]
  have rm: "wp (remove_file w t) (\<lambda>_. inv sha256 root) u" if "inv sha256 root u" for u
    by (rule wp_remove [OF J that]) (auto intro: inv_delete)
  show ?thesis
    unfolding restore_source_def wp_bind
  proof (rule wp_rename [OF J s], goal_cases)
    case (1 e u)
    then show ?case using rm by (simp add: wp_simps)
  next
    case (3 i u)
    then show ?case
      using outside_not_object [OF root out] inv_rename [OF 3(1,2), of p] by (simp add: wp_simps)
  qed (simp add: wp_simps)
qed

abbreviation moved_of :: "go_error + (string \<times> int) option \<Rightarrow> (string \<times> int) option" where
  "moved_of r \<equiv> (case r of Inl _ \<Rightarrow> None | Inr x \<Rightarrow> x)"

lemma move_publish_spec:
  assumes root: "store_root root" and hex: "hex_hash sha256" and rely: "others_respect sha256 root w"
    and out: "outside root p" and t: "staged root t" and s: "inv_file sha256 root t i b s"
  shows "wp (move_publish w root t p (sha256 b, n)) (\<lambda>res. stored sha256 root (moved_of res)) s"
  unfolding move_publish_def wp_bind fst_conv
proof (rule wp_rename [OF stable_file [OF rely t] s], goal_cases)
  case (1 e u)
  then show ?case
    using restore_spec [OF root rely out, of u t] by (auto simp: wp_simps stored_None elim!: wp_mono)
next
  case (2 j u)
  then show ?case
    using hex by (auto simp: wp_simps stored_def objects_def bytes_at_def hex_hash_def)
next
  case (3 j u)
  then have "inv_staged sha256 root t b u" by (auto simp: bytes_at_def)
  from inv_publish [OF root hex this 3(2)] show ?case by (simp add: wp_simps stored_def)
qed

lemma move_staged_spec:
  assumes root: "store_root root" and hex: "hex_hash sha256" and rely: "others_respect sha256 root w"
    and out: "outside root p" and t: "staged root t" and s: "inv_file sha256 root t i b s"
  shows "wp (move_staged w sha256 root t p) (\<lambda>res. stored sha256 root (moved_of res)) s"
proof -
  note J = stable_file [OF rely t, of i b]
  have undo: "wp (restore_source w t p) (\<lambda>_. stored sha256 root None) u" if "inv sha256 root u" for u
    using restore_spec [OF root rely out that, of t] by (rule wp_mono) (rule stored_None)
  show ?thesis
    unfolding move_staged_def wp_bind
  proof (rule wp_sha256File_fixed [OF J s, where i = i and b = b], goal_cases)
    case (3 u)
    then show ?case
      by (simp only: wp_bind sum.case fst_conv, intro wp_neutral(1) [OF J 3])
        (simp_all add: wp_simps undo move_publish_spec [OF root hex rely out t, where i = i and b = b])
  qed (simp_all add: wp_simps undo)
qed

lemma putByMove_spec:
  assumes root: "store_root root" and hex: "hex_hash sha256" and rely: "others_respect sha256 root w"
    and out: "outside root p" and s: "inv sha256 root s"
  shows "wp (putByMove w sha256 root p) (\<lambda>res. stored sha256 root (moved_of res)) s"
proof -
  note J = stable_inv [OF rely]
  have move: "wp (rename_file w p t) (\<lambda>n. wp (case n of Inl _ \<Rightarrow> ret (Inr None)
      | Inr _ \<Rightarrow> move_staged w sha256 root t p) (\<lambda>res. stored sha256 root (moved_of res))) u"
    if t: "staged root t" and u: "inv sha256 root u" for t u
  proof (rule wp_rename [OF J u], goal_cases)
    case (2 i v)
    then show ?case using move_staged_spec [OF root hex rely out t, where i = i] by simp
  next
    case (3 i v)
    let ?v = "v\<lparr>files := AList.update t i (AList.delete p (files v))\<rparr>"
    have "inv sha256 root ?v"
      using staged_not_object [OF root _ t] by (intro inv_rename [OF 3(1,2)]) auto
    then have "inv_file sha256 root t i (content v i) ?v" by (simp add: update_conv')
    from move_staged_spec [OF root hex rely out t this] show ?case by simp
  qed (simp add: wp_simps stored_None)
  have cleared: "wp (remove_file w t) (\<lambda>d. wp (case d of
         Inl e \<Rightarrow> ret (Inl (env_error ''store: clear temp file'' e))
       | Inr _ \<Rightarrow> do {
           n \<leftarrow> rename_file w p t;
           case n of Inl _ \<Rightarrow> ret (Inr None) | Inr _ \<Rightarrow> move_staged w sha256 root t p })
       (\<lambda>res. stored sha256 root (moved_of res))) u"
    if t: "staged root t" and u: "inv sha256 root u" for t u
    by (rule wp_remove [OF J u])
      (simp_all only: wp_bind sum.case wp_ret stored_None move [OF t] inv_delete simp_thms)
  show ?thesis
    unfolding putByMove_def wp_bind
  proof (rule wp_neutral(1) [OF J s], goal_cases)
    case (2 u)
    show ?case
      unfolding wp_bind sum.case
    proof (rule wp_create_temp [OF J 2], goal_cases)
      case (2 n v)
      note t = temp_staged [OF root, of "''mv-'' @ rand w n @ ''''"]
      have "inv sha256 root (new_file w (join_name (tmpDir root) (''mv-'' @ rand w n @ '''')) v)"
        by (rule inv_new_file [OF 2(1) staged_not_object [OF root _ t]])
      then show ?case
        unfolding sum.case prod.case wp_bind
        by (rule wp_neutral(3) [OF J]) (use cleared [OF t] in \<open>simp_all only: wp_bind\<close>)
    qed (simp add: wp_simps stored_None)
  qed (simp add: wp_simps stored_None)
qed

lemma put_copy_spec:
  assumes root: "store_root root" and hex: "hex_hash sha256" and rely: "others_respect sha256 root w"
    and out: "outside root p" and s: "inv sha256 root s"
  shows "wp (put_copy w sha256 root p moveOK) (\<lambda>res. stored sha256 root (result_of res)) s"
  unfolding put_copy_def wp_bind
proof (rule wp_open_read [OF stable_inv [OF rely] s], goal_cases)
  case (1 e u)
  then show ?case by (simp add: wp_simps stored_None)
next
  case (2 fd u)
  have rm: "wp (remove_file w p) (\<lambda>_. stored sha256 root x) v" if "stored sha256 root x v" for x v
    by (rule wp_remove [OF stable_stored [OF rely] that])
      (simp_all add: stored_delete outside_not_object [OF root out])
  from Put_spec [OF root hex rely 2(1), of "\<lambda>s. (content s fd, None)"]
  have "wp (Put w sha256 root (\<lambda>s. (content s fd, None))) (\<lambda>r. wp (case r of Inl e \<Rightarrow> ret (Inl e)
      | Inr x \<Rightarrow> if moveOK then do { _ \<leftarrow> remove_file w p; ret (Inr x) } else ret (Inr x))
      (\<lambda>res. stored sha256 root (result_of res))) u"
    by (rule wp_mono) (drule put_post_stored, auto simp: wp_simps rm split: sum.splits)
  then show ?case by (simp only: wp_bind sum.case)
qed

lemma PutFile_spec:
  assumes root: "store_root root" and hex: "hex_hash sha256" and rely: "others_respect sha256 root w"
    and out: "outside root p" and s: "inv sha256 root s"
  shows "wp (PutFile w sha256 root p moveOK) (\<lambda>res. stored sha256 root (result_of res)) s"
proof -
  note copy = put_copy_spec [OF root hex rely out]
  have move: "wp (putByMove w sha256 root p) (\<lambda>v. wp (case v of
       Inl e \<Rightarrow> ret (Inl e) | Inr None \<Rightarrow> put_copy w sha256 root p m | Inr (Some x) \<Rightarrow> ret (Inr x))
     (\<lambda>res. stored sha256 root (result_of res))) s" for m
    using putByMove_spec [OF root hex rely out s]
    by (rule wp_mono) (auto simp: wp_simps copy stored_def split: sum.splits option.splits)
  have dedup: "wp (putByDedup w sha256 root p) (\<lambda>v. wp (case v of
       None \<Rightarrow> put_copy w sha256 root p m | Some x \<Rightarrow> ret (Inr x))
     (\<lambda>res. stored sha256 root (result_of res))) s" for m
    using putByDedup_spec [OF hex rely s]
    by (rule wp_mono) (auto simp: wp_simps copy stored_def split: option.splits)
  show ?thesis
    using s by (simp add: PutFile_def wp_bind wp_ctx_err wp_option wp_if wp_ret move dedup stored_None
        split: option.splits)
qed

section \<open>Placing an object\<close>

text \<open>A temporary file beside the destination is nobody's object.\<close>

lemma last_segment_unique:
  assumes "a @ slash # x = b @ slash # y" "slash \<notin> set x" "slash \<notin> set y"
  shows "x = y"
proof -
  have "last_index_byte slash (a @ slash # x) = Some (length a)"
    "last_index_byte slash (b @ slash # y) = Some (length b)"
    using assms(2,3) by (simp_all add: last_index_byte_append)
  with assms(1) show ?thesis by auto
qed

definition copy_temp :: "path \<Rightarrow> path \<Rightarrow> bool" where
  "copy_temp dest t \<longleftrightarrow> has_prefix t (join_name (filepath_Dir dest) ''.tmp-'')"

lemma dot_file_not_object:
  assumes "store_root root" "digest_Valid d" "slash \<notin> set r"
  shows "store_Path root d \<noteq> join_name dir (''.tmp-'' @ r)"
proof
  assume eq: "store_Path root d = join_name dir (''.tmp-'' @ r)"
  obtain a where a: "join_name dir (''.tmp-'' @ r) = a @ slash # ''.tmp-'' @ r"
  proof (cases "dir \<noteq> '''' \<and> last dir = slash")
    case True
    then have "dir = butlast dir @ [slash]" by (metis append_butlast_last_id)
    then have "join_name dir (''.tmp-'' @ r) = butlast dir @ slash # ''.tmp-'' @ r"
      using True by (simp add: join_name_def)
    then show ?thesis by (rule that)
  next
    case False
    then have "join_name dir (''.tmp-'' @ r) = dir @ slash # ''.tmp-'' @ r" by (auto simp: join_name_def)
    then show ?thesis by (rule that)
  qed
  have d: "list_all is_hex_byte d" "slash \<notin> set d"
    using valid_parts(1) [OF assms(2)] by (simp_all add: hex_no_slash)
  have "d = ''.tmp-'' @ r"
    using last_segment_unique [of "sha_area root @ take 2 d" d a "''.tmp-'' @ r"] eq a d(2) assms(3)
    by (simp add: store_Path_eq [OF assms(1,2)])
  with d(1) show False by (simp add: is_hex_byte_def)
qed

lemma inv_link:
  assumes "inv sha256 root s" "file_at s a = Some i" "\<And>d. digest_Valid d \<Longrightarrow> store_Path root d \<noteq> b"
  shows "inv sha256 root (s\<lparr>files := AList.update b i (files s)\<rparr>)"
  using assms by (auto simp: fs_wf_def addresses_true_def update_conv')

lemma keeps_remove: "stable w (inv sha256 root) \<Longrightarrow> keeps (inv sha256 root) (remove_file w p)"
  by (auto intro!: keepsI wp_remove inv_delete)

lemma keeps_rename:
  assumes "stable w (inv sha256 root)" "\<And>d. digest_Valid d \<Longrightarrow> store_Path root d \<noteq> b"
  shows "keeps (inv sha256 root) (rename_file w a b)"
proof (rule keepsI)
  fix s assume s: "inv sha256 root s"
  show "wp (rename_file w a b) (\<lambda>_. inv sha256 root) s"
    by (rule wp_rename [OF assms(1) s]) (use assms(2) inv_rename in \<open>blast+\<close>)
qed

lemma keeps_link:
  assumes "stable w (inv sha256 root)" "\<And>d. digest_Valid d \<Longrightarrow> store_Path root d \<noteq> b"
  shows "keeps (inv sha256 root) (link_file w a b)"
proof (rule keepsI)
  fix s assume s: "inv sha256 root s"
  show "wp (link_file w a b) (\<lambda>_. inv sha256 root) s"
    by (rule wp_link [OF assms(1) s]) (use assms(2) inv_link in \<open>blast+\<close>)
qed

lemma copy_staged_inv:
  assumes J: "stable w (inv sha256 root)" and J1: "stable w (inv_sole sha256 root t fd)"
    and t: "\<And>d. digest_Valid d \<Longrightarrow> store_Path root d \<noteq> t"
    and dest: "\<And>d. digest_Valid d \<Longrightarrow> store_Path root d \<noteq> dest"
    and s: "inv_sole sha256 root t fd s"
  shows "wp (copy_staged w dest t fd src) (\<lambda>_. inv sha256 root) s"
  unfolding copy_staged_def wp_bind [of "write_from w t fd _"]
proof (rule wp_write [OF J1 s], goal_cases)
  case (1 e u)
  then have "inv sha256 root u" by blast
  then show ?case
    by (intro keepsD [of "inv sha256 root"] keeps_intros keeps_neutral [OF J] keeps_rename [OF J dest])
next
  case (2 b e m u)
  have "inv sha256 root (u\<lparr>content := (content u)(fd := b), mtime := (mtime u)(fd := m)\<rparr>)"
    using inv_write [OF 2(1) t] by blast
  then show ?case
    by (intro keepsD [of "inv sha256 root"] keeps_intros keeps_neutral [OF J] keeps_rename [OF J dest])
qed

lemma copyToPath_inv:
  assumes root: "store_root root" and rely: "env_respects (copy_temp dest) sha256 root w"
    and out: "outside root dest" and rand: "\<And>n. slash \<notin> set (rand w n)"
  shows "keeps (inv sha256 root) (copyToPath w src dest)"
proof -
  note J = stable_inv [OF rely]
  have tmp: "wp (create_temp w (filepath_Dir dest) ''.tmp-'' '''') (\<lambda>t. wp (case t of
         Inl e \<Rightarrow> ret (Some (env_error (''store: create temp file in '' @ filepath_Dir dest) e))
       | Inr (tmpName, fd) \<Rightarrow> do {
           x \<leftarrow> copy_staged w dest tmpName fd sfd;
           case x of (result, removeTmp) \<Rightarrow>
             if removeTmp then do { _ \<leftarrow> remove_file w tmpName; ret result } else ret result })
       (\<lambda>_. inv sha256 root)) u" if u: "inv sha256 root u" for u sfd
  proof (rule wp_create_temp [OF J u], goal_cases)
    case (2 n v)
    let ?t = "join_name (filepath_Dir dest) (''.tmp-'' @ rand w n @ '''')"
    have mine: "copy_temp dest ?t" by (auto simp: copy_temp_def join_name_def has_prefix_iff)
    have free: "store_Path root d \<noteq> ?t" if "digest_Valid d" for d
      using dot_file_not_object [OF root that, of "rand w n"] rand by simp
    have sole: "inv_sole sha256 root ?t (next_ino v) (new_file w ?t v)"
      using inv_new_file [OF 2(1) free] new_file_sole 2 by blast
    note copy = copy_staged_inv [OF J stable_sole [OF rely mine] free outside_not_object [OF root out] sole]
    have "wp (copy_staged w dest ?t (next_ino v) sfd) (\<lambda>x. wp (case x of (result, removeTmp) \<Rightarrow>
        if removeTmp then do { _ \<leftarrow> remove_file w ?t; ret result } else ret result)
        (\<lambda>_. inv sha256 root)) (new_file w ?t v)"
      by (rule wp_mono [OF copy]; (assumption | intro keepsD [of "inv sha256 root"] keeps_intros keeps_remove [OF J]))
    then show ?case by (simp only: wp_bind sum.case prod.case)
  qed (simp add: wp_simps)
  show ?thesis
    unfolding copyToPath_def Let_def
    by (intro keeps_intros keeps_neutral [OF J] keepsI [of _ "State_Monad.bind (create_temp w _ _ _) _"])
      (simp only: wp_bind tmp)
qed

lemma Materialise_inv:
  assumes root: "store_root root" and rely: "env_respects (copy_temp dest) sha256 root w"
    and out: "outside root dest" and rand: "\<And>n. slash \<notin> set (rand w n)"
  shows "keeps (inv sha256 root) (Materialise w sha256 root dg dest)"
proof -
  note J = stable_inv [OF rely]
  note steps = keeps_intros keeps_neutral [OF J] keeps_remove [OF J]
    keeps_link [OF J outside_not_object [OF root out]] copyToPath_inv [OF root rely out rand]
  show ?thesis
    unfolding Materialise_def place_object_def check_placed_def verifyFileDigest_def sha256File_def Let_def
    by (intro steps)
qed

section \<open>Runs without faults\<close>

definition fresh_temp :: "world \<Rightarrow> path \<Rightarrow> string \<Rightarrow> fs \<Rightarrow> bool" where
  "fresh_temp w dir pre s \<longleftrightarrow> (\<forall>n. file_at s (join_name dir (pre @ rand w n)) = None)"

lemma tick_ok [simp]:
  "fs_wf (tick s) = fs_wf s" "objects root (tick s) = objects root s"
  "addresses_true sha256 root (tick s) = addresses_true sha256 root s"
  "fresh_temp w dir pre (tick s) = fresh_temp w dir pre s"
  by (simp_all add: tick_def fresh_temp_def)

text \<open>The objects after a file moved to an address.\<close>

lemma objects_publish:
  assumes "store_root root" "hex_hash sha256"
    and "\<And>p. p \<noteq> t \<Longrightarrow> p \<noteq> store_Path root (sha256 b) \<Longrightarrow> bytes_at s' p = bytes_at s p"
    and "bytes_at s' (store_Path root (sha256 b)) = Some b"
    and "\<And>d. digest_Valid d \<Longrightarrow> store_Path root d \<noteq> t"
  shows "objects root s' = (objects root s)(sha256 b \<mapsto> b)"
proof
  fix d
  have v: "digest_Valid (sha256 b)" using assms(2) by (simp add: hex_hash_def)
  show "objects root s' d = ((objects root s)(sha256 b \<mapsto> b)) d"
    using assms(3-5) store_Path_inj [OF assms(1) _ v, of d] v by (auto simp: objects_def)
qed

text \<open>The state in which a fault-free \<^verbatim>\<open>Put\<close> of the bytes \<open>b\<close> ends.\<close>

definition published :: "hasher \<Rightarrow> path \<Rightarrow> string \<Rightarrow> fs \<Rightarrow> fs \<Rightarrow> bool" where
  "published sha256 root b s s' \<longleftrightarrow> fs_wf s' \<and> objects root s' = (objects root s)(sha256 b \<mapsto> b) \<and>
     (\<forall>p. outside root p \<longrightarrow> bytes_at s' p = bytes_at s p)"

lemma publishedI:
  assumes root: "store_root root" and hex: "hex_hash sha256" and wf: "fs_wf s" and t: "staged root t"
    and f: "map_of (files s') = (map_of (files s))(t := None, store_Path root (sha256 b) \<mapsto> next_ino s)"
    and c: "content s' = (content s)(next_ino s := b)" and n: "next_ino s' = Suc (next_ino s)"
  shows "published sha256 root b s s'"
proof -
  have old: "i < next_ino s" if "file_at s p = Some i" for p i using wf that by (auto simp: fs_wf_def)
  then have keep: "bytes_at s' p = bytes_at s p" if "p \<noteq> t" "p \<noteq> store_Path root (sha256 b)" for p
    using that by (cases "file_at s p") (fastforce simp: bytes_at_def f c)+
  have v: "digest_Valid (sha256 b)" using hex by (simp add: hex_hash_def)
  have "objects root s' = (objects root s)(sha256 b \<mapsto> b)"
    by (rule objects_publish [OF root hex keep _ staged_not_object [OF root _ t]]) (auto simp: bytes_at_def f c)
  moreover have "fs_wf s'" using old by (auto simp: fs_wf_def f n less_SucI)
  moreover have "bytes_at s' p = bytes_at s p" if "outside root p" for p
    using keep outside_not_object [OF root that v] that t
    by (auto simp: outside_def staged_def has_prefix_iff)
  ultimately show ?thesis by (simp add: published_def)
qed

lemma Put_quiet:
  assumes root: "store_root root" and hex: "hex_hash sha256" and q: "quiet w" and wf: "fs_wf s"
    and fresh: "fresh_temp w (tmpDir root) ''obj-'' s"
    and r: "\<And>u. content u = (content s)(next_ino s := '''') \<Longrightarrow> r u = (b, None)"
  shows "wp (Put w sha256 root r)
    (\<lambda>res s'. res = Inr (sha256 b, int (length b)) \<and> published sha256 root b s s') s"
proof -
  define t where "t = join_name (tmpDir root) (''obj-'' @ rand w (Suc (Suc (ticks s))) @ '''')"
  have t: "staged root t" unfolding t_def by (rule temp_staged [OF root])
  have free: "file_at s t = None" using fresh by (simp add: fresh_temp_def t_def)
  have new: "file_at s p \<noteq> Some (next_ino s)" for p using wf by (fastforce simp: fs_wf_def)
  have v: "digest_Valid (sha256 b)" using hex by (simp add: hex_hash_def)
  note ne = staged_not_object [OF root v t]
  have temp: "wp (create_temp w (tmpDir root) ''obj-'' '''') Q (tick s)
      = Q (Inr (t, next_ino s)) (new_file w t (tick (tick s)))" for Q
    by (subst quiet_wp_create [OF q]) (use free in \<open>simp_all add: t_def\<close>)
  show ?thesis
    using ne new
    by (simp add: Put_def put_staged_def put_publish_def wp_simps quiet_wp [OF q] temp
        quiet_wp_write [OF q] quiet_wp_at [OF q] r free Let_def)
      (rule publishedI [OF root hex wf t]; simp add: update_conv' delete_conv')
qed

text \<open>A fault-free \<^verbatim>\<open>putByMove\<close>.\<close>

lemma objects_cong:
  assumes "\<And>d. digest_Valid d \<Longrightarrow> bytes_at s' (store_Path root d) = bytes_at s (store_Path root d)"
  shows "objects root s' = objects root s"
  using assms by (auto simp: objects_def)

lemma putByMove_quiet:
  assumes root: "store_root root" and hex: "hex_hash sha256" and q: "quiet w" and wf: "fs_wf s"
    and fresh: "fresh_temp w (tmpDir root) ''mv-'' s"
    and out: "outside root p" and b: "bytes_at s p = Some b"
  shows "wp (putByMove w sha256 root p) (\<lambda>res s'. res = Inr (Some (sha256 b, int (length b))) \<and>
    objects root s' = (objects root s)(sha256 b \<mapsto> b) \<and> file_at s' p = None) s"
proof -
  define t where "t = join_name (tmpDir root) (''mv-'' @ rand w (Suc (Suc (ticks s))) @ '''')"
  let ?f = "store_Path root (sha256 b)"
  have t: "staged root t" unfolding t_def by (rule temp_staged [OF root])
  have free: "file_at s t = None" using fresh by (simp add: fresh_temp_def t_def)
  obtain i where i: "file_at s p = Some i" "content s i = b" using b by (auto simp: bytes_at_def)
  have old: "j < next_ino s" if "file_at s p = Some j" for p j using wf that by (auto simp: fs_wf_def)
  have v: "digest_Valid (sha256 b)" using hex by (simp add: hex_hash_def)
  have ne: "?f \<noteq> t" "p \<noteq> t" "?f \<noteq> p" "i \<noteq> next_ino s"
    using staged_not_object [OF root v t] outside_not_object [OF root out v] free i old [of p i] by auto
  have temp: "wp (create_temp w (tmpDir root) ''mv-'' '''') Q (tick s)
      = Q (Inr (t, next_ino s)) (new_file w t (tick (tick s)))" for Q
    by (subst quiet_wp_create [OF q]) (use free in \<open>simp_all add: t_def\<close>)
  have content: "bytes_at u (store_Path root d) = bytes_at s (store_Path root d)"
    if "digest_Valid d" "d \<noteq> sha256 b" "content u = (content s)(next_ino s := '''')"
      "\<And>x. x \<noteq> p \<Longrightarrow> x \<noteq> t \<Longrightarrow> x \<noteq> ?f \<Longrightarrow> file_at u x = file_at s x" for u d
    using that outside_not_object [OF root out that(1)] staged_not_object [OF root that(1) t]
      store_Path_inj [OF root that(1) v] old [of "store_Path root d"]
    by (cases "file_at s (store_Path root d)") (fastforce simp: bytes_at_def)+
  have final: "objects root u = (objects root s)(sha256 b \<mapsto> b)"
    if "content u = (content s)(next_ino s := '''')" "file_at u ?f = Some i"
      "\<And>x. x \<noteq> p \<Longrightarrow> x \<noteq> t \<Longrightarrow> x \<noteq> ?f \<Longrightarrow> file_at u x = file_at s x" for u
  proof
    fix d
    show "objects root u d = ((objects root s)(sha256 b \<mapsto> b)) d"
      using content [OF _ _ that(1,3), of d] that(1,2) i ne v
      by (cases "d = sha256 b") (simp_all add: objects_def bytes_at_def)
  qed
  show ?thesis
  proof (cases "file_at s ?f = Some i")
    case True
    then show ?thesis using ne i free
      by (simp add: putByMove_def move_staged_def move_publish_def sha256File_def wp_simps quiet_wp [OF q] temp
          quiet_wp_at [OF q] update_conv' delete_conv' Let_def)
       (rule final; simp add: update_conv' delete_conv')
  next
    case False
    then show ?thesis using ne i free
      by (simp add: putByMove_def move_staged_def move_publish_def sha256File_def wp_simps quiet_wp [OF q] temp
          quiet_wp_at [OF q] update_conv' delete_conv' Let_def)
       (rule final; simp add: update_conv' delete_conv')
  qed
qed

lemma put_copy_quiet:
  assumes root: "store_root root" and hex: "hex_hash sha256" and q: "quiet w" and wf: "fs_wf s"
    and fresh: "fresh_temp w (tmpDir root) ''obj-'' s" and b: "bytes_at s p = Some b"
  shows "wp (put_copy w sha256 root p False)
    (\<lambda>res s'. res = Inr (sha256 b, int (length b)) \<and> published sha256 root b s s') s"
proof -
  obtain i where i: "file_at s p = Some i" "content s i = b" using b by (auto simp: bytes_at_def)
  then have "i \<noteq> next_ino s" using wf by (auto simp: fs_wf_def)
  with i have "wp (Put w sha256 root (\<lambda>s. (content s i, None)))
      (\<lambda>res s'. res = Inr (sha256 b, int (length b)) \<and> published sha256 root b s s') (tick s)"
    using Put_quiet [OF root hex q, of "tick s" "\<lambda>s. (content s i, None)" b] wf fresh
    by (simp add: published_def)
  then show ?thesis
    unfolding put_copy_def wp_bind
    by (subst quiet_wp_at(1) [OF q i(1)]) (auto simp: wp_simps elim!: wp_mono split: sum.splits)
qed

lemma putByDedup_quiet:
  assumes hex: "hex_hash sha256" and q: "quiet w" and b: "bytes_at s p = Some b"
  shows "wp (putByDedup w sha256 root p) (\<lambda>res s'. (\<exists>k. s' = (tick ^^ k) s) \<and>
     (res = None \<or> (\<exists>b'. sha256 b' = sha256 b \<and> objects root s (sha256 b) = Some b' \<and>
        res = Some (sha256 b, int (length b))))) s"
proof -
  obtain i where i: "file_at s p = Some i" "content s i = b" using b by (auto simp: bytes_at_def)
  have v: "digest_Valid (sha256 b)" using hex by (simp add: hex_hash_def)
  have k: "\<exists>k. tick (tick s) = (tick ^^ k) s" "\<exists>k. tick (tick (tick s)) = (tick ^^ k) s"
    "\<exists>k. tick (tick (tick (tick (tick s)))) = (tick ^^ k) s"
    by (rule exI [of _ 2], simp add: eval_nat_numeral) (rule exI [of _ 3], simp add: eval_nat_numeral,
        rule exI [of _ 5], simp add: eval_nat_numeral)
  show ?thesis
  proof (cases "file_at s (store_Path root (sha256 b))")
    case None
    then show ?thesis using i k
      by (simp add: putByDedup_def sha256File_def store_Has_def wp_simps quiet_wp [OF q] quiet_wp_at [OF q] Let_def)
  next
    case (Some j)
    then show ?thesis using i k v
      by (simp add: putByDedup_def sha256File_def store_Has_def verifyFileDigest_def wp_simps
          quiet_wp [OF q] quiet_wp_at [OF q] Let_def objects_def bytes_at_def)
  qed
qed

lemma ticks_unobserved:
  "fs_wf ((tick ^^ k) s) = fs_wf s" "bytes_at ((tick ^^ k) s) = bytes_at s"
  "fresh_temp w dir pre ((tick ^^ k) s) = fresh_temp w dir pre s"
  "objects root ((tick ^^ k) s) = objects root s"
  by (induction k) simp_all

lemma PutFile_quiet:
  assumes root: "store_root root" and hex: "hex_hash sha256" and q: "quiet w" and wf: "fs_wf s"
    and fresh: "fresh_temp w (tmpDir root) ''obj-'' s" "fresh_temp w (tmpDir root) ''mv-'' s"
    and out: "outside root p" and b: "bytes_at s p = Some b"
  shows "wp (PutFile w sha256 root p moveOK) (\<lambda>res s'. res = Inr (sha256 b, int (length b)) \<and>
    (\<exists>b'. sha256 b' = sha256 b \<and> objects root s' = (objects root s)(sha256 b \<mapsto> b')) \<and>
    bytes_at s' p = (if moveOK then None else Some b)) s"
proof (cases moveOK)
  case True
  have "wp (putByMove w sha256 root p) (\<lambda>v. wp (case v of
       Inl e \<Rightarrow> ret (Inl e) | Inr None \<Rightarrow> put_copy w sha256 root p True | Inr (Some x) \<Rightarrow> ret (Inr x))
     (\<lambda>res s'. res = Inr (sha256 b, int (length b)) \<and>
       (\<exists>b'. sha256 b' = sha256 b \<and> objects root s' = (objects root s)(sha256 b \<mapsto> b')) \<and>
       bytes_at s' p = None)) s"
    using putByMove_quiet [OF root hex q wf fresh(2) out b]
    by (rule wp_mono) (auto simp: wp_simps bytes_at_def)
  with True show ?thesis by (simp add: PutFile_def wp_simps quiet_wp [OF q])
next
  case False
  let ?Q = "\<lambda>res s'. res = Inr (sha256 b, int (length b)) \<and>
       (\<exists>b'. sha256 b' = sha256 b \<and> objects root s' = (objects root s)(sha256 b \<mapsto> b')) \<and>
       bytes_at s' p = Some b"
  have copy: "wp (put_copy w sha256 root p False) ?Q ((tick ^^ k) s)" for k
    using put_copy_quiet [OF root hex q, of "(tick ^^ k) s" p b] wf fresh(1) b
    by (auto simp: ticks_unobserved published_def out elim!: wp_mono)
  have "wp (putByDedup w sha256 root p) (\<lambda>v. wp (case v of
       None \<Rightarrow> put_copy w sha256 root p False | Some x \<Rightarrow> ret (Inr x)) ?Q) s"
    using putByDedup_quiet [OF hex q b]
    by (rule wp_mono) (auto simp: wp_simps copy ticks_unobserved b intro!: exI fun_upd_idem [symmetric])
  with False show ?thesis by (simp add: PutFile_def wp_simps quiet_wp [OF q])
qed

section \<open>Verified placement and verified reads\<close>

definition leaves_alone :: "world \<Rightarrow> path \<Rightarrow> bool" where
  "leaves_alone w p \<longleftrightarrow> (\<forall>n s. file_at (meddle w n s) p = file_at s p)"

lemma verify_dest:
  assumes "leaves_alone w dest"
  shows "wp (verifyFileDigest w sha256 dest dg)
    (\<lambda>v s'. v = None \<longrightarrow> (\<exists>b. bytes_at s' dest = Some b \<and> sha256 b = dg)) s"
proof -
  have J: "stable w (\<lambda>s. file_at s dest = Some i)" for i
    using assms by (simp add: stable_def leaves_alone_def)
  have T: "stable w (\<lambda>_. True)" by (simp add: stable_def)
  have "wp (sha256File w sha256 dest) (\<lambda>r s'. \<forall>got n. r = Inr (got, n) \<longrightarrow>
      (\<exists>b. bytes_at s' dest = Some b \<and> sha256 b = got)) s"
    unfolding sha256File_def wp_bind
  proof (rule wp_open_read [OF T], goal_cases)
    case (3 i u)
    have "wp (read_fd w i) (\<lambda>b. wp (case b of Inl e \<Rightarrow> ret (Inl e)
        | Inr bs \<Rightarrow> ret (Inr (sha256 bs, int (length bs))))
        (\<lambda>r s'. \<forall>got n. r = Inr (got, n) \<longrightarrow> (\<exists>b. bytes_at s' dest = Some b \<and> sha256 b = got))) u"
      by (rule wp_read_fd [OF J [of i] 3(2)]) (auto simp: wp_simps bytes_at_def)
    then show ?case by (simp only: wp_bind sum.case)
  qed (simp_all add: wp_simps)
  then show ?thesis
    unfolding verifyFileDigest_def wp_bind
    by (rule wp_mono) (auto simp: wp_simps split: sum.splits)
qed

lemma wp_remove_sure:
  assumes "\<And>n. fault w n (RemoveFile p) = None"
  shows "wp (remove_file w p) (\<lambda>_ s'. file_at s' p = None) s"
  by (auto simp: remove_file_def sys_def wp_def assms delete_conv' split: option.splits)

definition materialise_post :: "hasher \<Rightarrow> string \<Rightarrow> path \<Rightarrow> go_error option \<Rightarrow> fs \<Rightarrow> bool" where
  "materialise_post sha256 dg dest res s' \<longleftrightarrow>
     (case res of
        None \<Rightarrow> \<exists>b. bytes_at s' dest = Some b \<and> sha256 b = to_lower dg
      | Some e \<Rightarrow> ClassOf (Some e) = Verification \<longrightarrow> file_at s' dest = None)"

lemma Materialise_spec:
  assumes alone: "leaves_alone w dest" and rm: "\<And>n. fault w n (RemoveFile dest) = None"
  shows "wp (Materialise w sha256 root dg dest) (materialise_post sha256 dg dest) s"
proof -
  let ?d = "to_lower dg"
  have gone: "wp (remove_file w dest) (\<lambda>_. materialise_post sha256 dg dest (Some e)) u" for e u
    using wp_remove_sure [OF rm] by (rule wp_mono) (simp add: materialise_post_def)
  have check: "wp (check_placed w sha256 ?d dest) (materialise_post sha256 dg dest) u" for u
    unfolding check_placed_def wp_bind
    using verify_dest [OF alone]
    by (rule wp_mono) (auto simp: wp_simps gone materialise_post_def [of _ _ _ None] split: option.splits)
  have other: "materialise_post sha256 dg dest (Some (DfError Environment m h c)) u"
    "materialise_post sha256 dg dest (Some (env_error m x)) u"
    "materialise_post sha256 dg dest (Some (New Usage m)) u" for m h c x u
    by (simp_all add: materialise_post_def ClassOf_def env_error_def New_def)
  show ?thesis
    unfolding Materialise_def address_def Let_def prod.case
    by (auto simp: wp_simps other split: sum.splits option.splits
        intro!: check wp_any [where m = "stat_file w p" for p] wp_any [where m = "mkdir_all w p" for p]
          wp_any [where m = "remove_file w p" for p] wp_any [where m = "place_object w p q" for p q])
qed

text \<open>What a complete read of a verifying reader returned.\<close>

lemma vr_ReadAll_sound:
  assumes "vr_ReadAll sha256 gots r = Some (None, b)" "\<not> vr_checked r"
  shows "sha256 (vr_hashed r @ b) = vr_want r"
  using assms
proof (induction gots arbitrary: r b)
  case (Cons got gots)
  obtain p err where got: "got = (p, err)" by (cases got)
  show ?case
  proof (cases err)
    case None
    then obtain b' where "vr_ReadAll sha256 gots (r\<lparr>vr_hashed := vr_hashed r @ p\<rparr>) = Some (None, b')" "b = p @ b'"
      using Cons.prems by (auto simp: got vr_Read_def Let_def)
    with Cons.IH [of "r\<lparr>vr_hashed := vr_hashed r @ p\<rparr>" b'] Cons.prems(2) show ?thesis by simp
  next
    case (Some x)
    then show ?thesis
      using Cons.prems by (cases x) (auto simp: got vr_Read_def Let_def split: if_splits)
  qed
qed simp

section \<open>Properties\<close>

text \<open>A concrete world and file system for the witnesses: one file outside the store.\<close>

definition calm :: world where
  "calm = \<lparr>fault = \<lambda>_ _. None, meddle = \<lambda>_ s. s, clock = \<lambda>n. int n, rand = \<lambda>_. ''1'', cancelled = \<lambda>_. None\<rparr>"

definition one_file :: fs where
  "one_file = \<lparr>files = [(''/in/a.deb'', 0)], content = \<lambda>_. ''deb'', mtime = \<lambda>_. 0, next_ino = 1, ticks = 0\<rparr>"

lemma calm_quiet: "quiet calm"
  by (simp add: quiet_def calm_def)

lemma calm_respects: "env_respects mine sha256 root calm"
  by (simp add: env_respects_def calm_def Let_def)

lemma one_file_wf: "fs_wf one_file"
  by (simp add: fs_wf_def one_file_def)

lemma st_root: "store_root ''/st''"
  by code_simp

lemma one_file_true: "addresses_true toy_hash ''/st'' one_file"
  using st_root by (auto simp: addresses_true_def one_file_def store_Path_eq sha_area_def)

text \<open>C14. Ingesting a file never files bytes under an address they do not hash to. Whatever calls fail
  and whatever other processes do that respect the store (they leave staged files alone, remove no
  object and plant no false one), \<^verbatim>\<open>PutFile\<close> keeps the invariant, and the digest it returns names an
  object whose bytes hash to it, in the copying, the moving and the deduplicating case.\<close>

theorem PutFile_keeps_addresses:
  assumes "store_root root" "hex_hash sha256" "others_respect sha256 root w" "outside root p"
    and "fs_wf s" "addresses_true sha256 root s"
    and "run_state (PutFile w sha256 root p moveOK) s = (res, s')"
  shows "fs_wf s' \<and> addresses_true sha256 root s' \<and>
    (\<forall>dg n. res = Inr (dg, n) \<longrightarrow> (\<exists>b. objects root s' dg = Some b \<and> sha256 b = dg))"
proof -
  have "stored sha256 root (result_of res) s'"
    using wp_run [OF PutFile_spec [OF assms(1-4)] assms(7)] assms(5,6) by simp
  then show ?thesis
    by (auto simp: stored_def addresses_true_def objects_def bytes_at_def split: if_splits)
qed

theorem PutFile_keeps_addresses_witness:
  "addresses_true toy_hash ''/st'' (snd (run_state (PutFile calm toy_hash ''/st'' ''/in/a.deb'' True) one_file))"
proof -
  obtain res s' where run: "run_state (PutFile calm toy_hash ''/st'' ''/in/a.deb'' True) one_file = (res, s')"
    by (cases "run_state (PutFile calm toy_hash ''/st'' ''/in/a.deb'' True) one_file")
  have "outside ''/st'' ''/in/a.deb''" by code_simp
  from PutFile_keeps_addresses [OF st_root toy_hash_hex calm_respects this one_file_wf one_file_true run]
  show ?thesis by (simp add: run)
qed

text \<open>\<^verbatim>\<open>Put\<close> returns the digest and the length of exactly the bytes its reader delivered, the object is
  in the store, and the store's addresses stay true, under the same faults and interference.\<close>

theorem Put_returns_what_it_read:
  assumes "store_root root" "hex_hash sha256" "others_respect sha256 root w"
    and "fs_wf s" "addresses_true sha256 root s"
    and "run_state (Put w sha256 root r) s = (res, s')"
  shows "fs_wf s' \<and> addresses_true sha256 root s' \<and>
    (\<forall>dg n. res = Inr (dg, n) \<longrightarrow>
       (\<exists>s0 b. r s0 = (b, None) \<and> dg = sha256 b \<and> n = int (length b)) \<and>
       (\<exists>b'. objects root s' dg = Some b' \<and> sha256 b' = dg))"
proof -
  have "put_post sha256 root r res s'"
    using wp_run [OF Put_spec [OF assms(1-3)] assms(6)] assms(4,5) by simp
  then show ?thesis
    by (auto simp: put_post_def addresses_true_def objects_def bytes_at_def prod_eq_iff split: if_splits)
qed

theorem Put_returns_what_it_read_witness:
  "addresses_true toy_hash ''/st'' (snd (run_state (Put calm toy_hash ''/st'' (\<lambda>_. (''deb'', None))) one_file))"
proof -
  obtain res s' where run: "run_state (Put calm toy_hash ''/st'' (\<lambda>_. (''deb'', None))) one_file = (res, s')"
    by (cases "run_state (Put calm toy_hash ''/st'' (\<lambda>_. (''deb'', None))) one_file")
  from Put_returns_what_it_read [OF st_root toy_hash_hex calm_respects one_file_wf one_file_true run]
  show ?thesis by (simp add: run)
qed

text \<open>C13. Without faults and interference \<^verbatim>\<open>PutFile\<close> implements insertion into a map from digests to
  bytes: it succeeds with the digest and size of the file, the objects are those from before with the
  digest bound to bytes of that digest (the file's own, or those already held), and the source file is
  gone exactly if moving was allowed.\<close>

theorem PutFile_refines_insert:
  assumes "store_root root" "hex_hash sha256" "quiet w" "fs_wf s"
    and "fresh_temp w (tmpDir root) ''obj-'' s" "fresh_temp w (tmpDir root) ''mv-'' s"
    and "outside root p" "bytes_at s p = Some b"
    and "run_state (PutFile w sha256 root p moveOK) s = (res, s')"
  shows "res = Inr (sha256 b, int (length b)) \<and>
    (\<exists>b'. sha256 b' = sha256 b \<and> objects root s' = (objects root s)(sha256 b \<mapsto> b')) \<and>
    bytes_at s' p = (if moveOK then None else Some b)"
  using wp_run [OF PutFile_quiet [OF assms(1-8)] assms(9)] .

theorem PutFile_refines_insert_witness:
  "fst (run_state (PutFile calm toy_hash ''/st'' ''/in/a.deb'' False) one_file) = Inr (toy_hash ''deb'', 3)"
proof -
  obtain res s' where run: "run_state (PutFile calm toy_hash ''/st'' ''/in/a.deb'' False) one_file = (res, s')"
    by (cases "run_state (PutFile calm toy_hash ''/st'' ''/in/a.deb'' False) one_file")
  have out: "outside ''/st'' ''/in/a.deb''" by code_simp
  have fresh: "fresh_temp calm (tmpDir ''/st'') pre one_file" for pre
    using st_root by (simp add: fresh_temp_def one_file_def tmpDir_eq join_name_def)
  have at: "bytes_at one_file ''/in/a.deb'' = Some ''deb''" by (simp add: bytes_at_def one_file_def)
  from PutFile_refines_insert [OF st_root toy_hash_hex calm_quiet one_file_wf fresh fresh out at run]
  show ?thesis by (simp add: run)
qed


text \<open>A store in which somebody replaced the bytes of an object.\<close>

definition planted :: fs where
  "planted = one_file\<lparr>files := [(''/st/sha256/00/'' @ toy_hash ''deb'', 0)], content := \<lambda>_. ''evil''\<rparr>"


text \<open>A string that is not a SHA-256 digest names nothing in the store: it has no path, \<^verbatim>\<open>Has\<close> is false
  and \<^verbatim>\<open>Open\<close> and \<^verbatim>\<open>Materialise\<close> fail with a usage error, all without a system call. A digest in any
  letter case has exactly one path, two levels below the store's \<^verbatim>\<open>sha256\<close> directory, and different
  digests have different paths.\<close>

theorem digests_address_objects:
  assumes "store_root root"
  shows "(\<not> digest_Valid (to_lower dg) \<longrightarrow> store_Path root dg = '''' \<and>
       run_state (store_Has w root dg) s = (False, s) \<and>
       (\<exists>e. run_state (store_Open w root dg) s = (Inl e, s) \<and> ClassOf (Some e) = Usage) \<and>
       (\<exists>e. run_state (Materialise w sha256 root dg dest) s = (Some e, s) \<and> ClassOf (Some e) = Usage)) \<and>
    (digest_Valid (to_lower dg) \<longrightarrow>
       store_Path root dg = root @ ''/sha256/'' @ take 2 (to_lower dg) @ ''/'' @ to_lower dg \<and>
       slash \<notin> set (to_lower dg) \<and> length (take 2 (to_lower dg)) = 2) \<and>
    (digest_Valid (to_lower dg) \<longrightarrow> digest_Valid (to_lower dg') \<longrightarrow>
       store_Path root dg = store_Path root dg' \<longrightarrow> to_lower dg = to_lower dg')"
proof -
  have low: "store_Path root d = store_Path root (to_lower d)" if "digest_Valid (to_lower d)" for d
    using digest_Valid_lower [OF that] by (simp add: store_Path_def address_def)
  show ?thesis
    using store_Path_eq [OF assms, of "to_lower dg"] low [of dg] low [of dg']
      store_Path_inj [OF assms, of "to_lower dg" "to_lower dg'"]
      valid_parts(5) [of "to_lower dg"] hex_no_slash [OF valid_parts(1), of "to_lower dg"]
    by (auto simp: store_Path_def address_def store_Has_def store_Open_def Materialise_def sha_area_def
        New_def ClassOf_def simp del: length_take)
qed

theorem digests_address_objects_witness:
  "store_Path ''/st'' ''../../etc/shadow'' = ''''"
  using digests_address_objects [OF st_root, of "''../../etc/shadow''" calm one_file toy_hash "''''" "''''"]
  by (simp add: digest_Valid_def to_lower_def)

text \<open>A reader from \<^verbatim>\<open>Open\<close> that is read to its end without an error delivered the bytes of the requested
  digest, however the reads were cut into pieces; on any other content the read ends with a
  verification error.\<close>

theorem clean_read_is_true:
  assumes "run_state (store_Open w root dg) s = (Inr (fd, r), s')"
    and "vr_ReadAll sha256 gots r = Some (err, b)"
  shows "(err = None \<longrightarrow> sha256 b = to_lower dg) \<and>
    (\<forall>ps p. gots = map (\<lambda>x. (x, None)) ps @ [(p, Some EOF)] \<longrightarrow>
       b = concat ps @ p \<and> (err = None) = (sha256 (concat ps @ p) = to_lower dg) \<and>
       (err \<noteq> None \<longrightarrow> ClassOf err = Verification))"
proof -
  have r: "vr_want r = to_lower dg" "vr_hashed r = ''''" "\<not> vr_checked r"
    using assms(1) by (auto simp: store_Open_def address_def Let_def split: if_splits prod.splits sum.splits)
  have pieces: "vr_ReadAll sha256 (map (\<lambda>x. (x, None)) ps @ [(p, Some EOF)]) r =
      Some (if sha256 (vr_hashed r @ concat ps @ p) = vr_want r then None
            else Some (New Verification (''store: object '' @ vr_want r @ '' holds content that hashes to '' @
                   sha256 (vr_hashed r @ concat ps @ p))), concat ps @ p)"
    if "\<not> vr_checked r" for ps p r
    using that by (induction ps arbitrary: r) (auto simp: vr_Read_def Let_def)
  show ?thesis
    using vr_ReadAll_sound [of sha256 gots r b] assms(2) r pieces [OF r(3)]
    by (auto simp: New_def ClassOf_def split: if_splits)
qed

theorem clean_read_is_true_witness:
  "\<exists>e. vr_ReadAll toy_hash [(''ev'', None), (''il'', Some EOF)]
     \<lparr>vr_want = toy_hash ''deb'', vr_hashed = '''', vr_checked = False\<rparr> = Some (Some e, ''evil'')"
proof -
  let ?r = "\<lparr>vr_want = toy_hash ''deb'', vr_hashed = '''', vr_checked = False\<rparr>"
  have "fst (run_state (store_Open calm ''/st'' (toy_hash ''deb'')) planted) = Inr (0, ?r)"
    by code_simp
  then obtain s' where opened: "run_state (store_Open calm ''/st'' (toy_hash ''deb'')) planted = (Inr (0, ?r), s')"
    by (metis prod.collapse)
  have "\<exists>err. vr_ReadAll toy_hash [(''ev'', None), (''il'', Some EOF)] ?r = Some (err, ''evil'')"
    by (simp add: vr_Read_def Let_def)
  then obtain err where got: "vr_ReadAll toy_hash [(''ev'', None), (''il'', Some EOF)] ?r = Some (err, ''evil'')" ..
  have "to_lower (toy_hash ''deb'') \<noteq> toy_hash ''evil''" by code_simp
  with clean_read_is_true [OF opened got] got show ?thesis by (cases err) auto
qed

section \<open>Limits of the store's guarantees\<close>

text \<open>
  The moving path hashes the staged inode and publishes it later. A process that holds another name of
  that inode (a hard link) and never touches the store can change the bytes in between: the object is
  then filed under a digest it does not have. The comment on \<^verbatim>\<open>putByMove\<close> says that nothing can swap the
  content between the hash and the publish.
\<close>

definition rewriting :: world where
  "rewriting = calm\<lparr>meddle := \<lambda>n s. if n = 7 then s\<lparr>content := (content s)(0 := ''evil'')\<rparr> else s\<rparr>"

definition linked :: fs where
  "linked = one_file\<lparr>files := [(''/in/a.deb'', 0), (''/in/b.deb'', 0)]\<rparr>"

theorem moved_file_can_be_rewritten:
  "(\<forall>n s. files (meddle rewriting n s) = files s) \<and> fs_wf linked \<and> addresses_true toy_hash ''/st'' linked \<and>
   fst (run_state (PutFile rewriting toy_hash ''/st'' ''/in/a.deb'' True) linked) = Inr (toy_hash ''deb'', 3) \<and>
   objects ''/st'' (snd (run_state (PutFile rewriting toy_hash ''/st'' ''/in/a.deb'' True) linked))
     (toy_hash ''deb'') = Some ''evil'' \<and> toy_hash ''evil'' \<noteq> toy_hash ''deb''"
proof (intro conjI)
  show "\<forall>n s. files (meddle rewriting n s) = files s" by (simp add: rewriting_def calm_def)
  show "fs_wf linked" by (simp add: fs_wf_def linked_def one_file_def)
  show "addresses_true toy_hash ''/st'' linked"
    using st_root by (auto simp: addresses_true_def linked_def one_file_def store_Path_eq sha_area_def)
  show "fst (run_state (PutFile rewriting toy_hash ''/st'' ''/in/a.deb'' True) linked) = Inr (toy_hash ''deb'', 3)"
    by code_simp
  show "objects ''/st'' (snd (run_state (PutFile rewriting toy_hash ''/st'' ''/in/a.deb'' True) linked))
     (toy_hash ''deb'') = Some ''evil''"
    by code_simp
  show "toy_hash ''evil'' \<noteq> toy_hash ''deb''" by code_simp
qed

text \<open>
  Moving a file that is a hard link of the object already stored (what \<^verbatim>\<open>Materialise\<close> creates) succeeds, but
  the second rename finds two names of one inode and does nothing: the temporary name stays behind in
  the staging area.
\<close>

definition materialised :: fs where
  "materialised = one_file\<lparr>files := [(''/st/sha256/00/'' @ toy_hash ''deb'', 0), (''/out/a.deb'', 0)]\<rparr>"

theorem moving_a_linked_object_leaves_a_temp:
  "fst (run_state (PutFile calm toy_hash ''/st'' ''/out/a.deb'' True) materialised) = Inr (toy_hash ''deb'', 3) \<and>
   bytes_at (snd (run_state (PutFile calm toy_hash ''/st'' ''/out/a.deb'' True) materialised))
     ''/st/sha256/tmp/mv-1'' = Some ''deb''"
  by (intro conjI; code_simp)

text \<open>After it reported the mismatch once, the reader answers the next call with a clean end of file.\<close>

theorem second_read_is_clean:
  assumes "sha256 b \<noteq> want"
  shows "let first = vr_Read sha256 (b, Some EOF) \<lparr>vr_want = want, vr_hashed = '''', vr_checked = False\<rparr>
     in snd (fst first) \<noteq> Some EOF \<and> fst (vr_Read sha256 ('''', Some EOF) (snd first)) = ('''', Some EOF)"
  using assms by (simp add: vr_Read_def Let_def)

end
