(* ===== verification/Store_Lock.thy ===== *)
theory Store_Lock
  imports Store
begin

text \<open>
  The index lock of the store, \<^verbatim>\<open>lockIndex\<close> in \<^verbatim>\<open>src/core/store/fsstore.go\<close>, twice: as the loop of system
  calls it is (\<open>lock_attempt\<close> is one round, \<open>lockIndex\<close> the loop, which may not return), and as a protocol
  between any number of processes (the step relation \<open>lstep\<close>), which every round of the loop follows.
  Times are nanoseconds.
\<close>

section \<open>The loop\<close>

definition lockFileName :: string where
  "lockFileName = ''index.lock''"

definition lockStaleAfter :: int where
  "lockStaleAfter = 30 * 1000000000"

definition lockWaitBudget :: int where
  "lockWaitBudget = 10 * 1000000000"

definition lockPath :: "path \<Rightarrow> path" where
  "lockPath root = filepath_Join [root, lockFileName]"

text \<open>
  One round: \<^const>\<open>None\<close> to try again, or the result. \<open>note\<close> is the diagnostic text written into the
  lock file.
\<close>

definition lock_wait :: "world \<Rightarrow> path \<Rightarrow> int \<Rightarrow> (go_error + unit) option io" where
  "lock_wait w root deadline = do {
     now \<leftarrow> time_now w;
     if now > deadline then
       ret (Some (Inl (PlainError (''store: index locked: timed out waiting for '' @ lockPath root))))
     else ret None }"

definition lock_blocked :: "world \<Rightarrow> path \<Rightarrow> int \<Rightarrow> (go_error + unit) option io" where
  "lock_blocked w root deadline = do {
     st \<leftarrow> stat_file w (lockPath root);
     now \<leftarrow> time_now w;
     case st of
       Inr (_, modTime) \<Rightarrow>
         if now - modTime > lockStaleAfter then do { _ \<leftarrow> remove_file w (lockPath root); ret None }
         else lock_wait w root deadline
     | Inl _ \<Rightarrow> lock_wait w root deadline }"

definition lock_attempt :: "world \<Rightarrow> path \<Rightarrow> string \<Rightarrow> int \<Rightarrow> (go_error + unit) option io" where
  "lock_attempt w root note deadline = do {
     f \<leftarrow> create_excl w (lockPath root);
     case f of
       Inr fd \<Rightarrow> do {
         _ \<leftarrow> write_from w (lockPath root) fd (\<lambda>_. (note, None));
         _ \<leftarrow> close_file w (lockPath root);
         ret (Some (Inr ())) }
     | Inl e \<Rightarrow>
         if e \<noteq> ErrExist \<and> e \<noteq> ErrPermission then
           ret (Some (Inl (WrapError (''store: create lock '' @ lockPath root @ '': '') (os_error e))))
         else lock_blocked w root deadline }"

partial_function (option) lock_loop ::
    "world \<Rightarrow> path \<Rightarrow> string \<Rightarrow> int \<Rightarrow> fs \<Rightarrow> ((go_error + unit) \<times> fs) option" where
  "lock_loop w root note deadline s =
     (case run_state (lock_attempt w root note deadline) s of
        (Some r, s') \<Rightarrow> Some (r, s')
      | (None, s') \<Rightarrow> lock_loop w root note deadline s')"

declare lock_loop.simps [code]

definition lockIndex :: "world \<Rightarrow> path \<Rightarrow> string \<Rightarrow> fs \<Rightarrow> ((go_error + unit) \<times> fs) option" where
  "lockIndex w root note s = lock_loop w root note (clock w (ticks s) + lockWaitBudget) s"

definition unlockIndex :: "world \<Rightarrow> path \<Rightarrow> unit io" where
  "unlockIndex w root = do { _ \<leftarrow> remove_file w (lockPath root); ret () }"

section \<open>The protocol\<close>

text \<open>
  The system calls of \<^verbatim>\<open>lockIndex\<close> and of the function it returns, as steps of one of many processes on one
  lock file: the exclusive create, the write of the note (which refreshes the file's time), the look at
  the file's age, the removal of a stale lock, the removal on release. Removing is by name: it takes away
  whatever lock file is there. Any process may crash, and time passes.
\<close>

datatype pc = Outside | Waiting | SawStale | Holding | Crashed

record lsys =
  lock_mtime :: "int option"
  now :: int
  pcs :: "nat \<Rightarrow> pc"

datatype act = Enter nat | Acquire nat | Touch nat | Wait nat | GiveUp nat | SeeStale nat | Steal nat | StealFails nat | Release nat | Crash nat | Pass int

inductive lstep :: "lsys \<Rightarrow> act \<Rightarrow> lsys \<Rightarrow> bool" where
  enter: "pcs s p = Outside \<Longrightarrow> lstep s (Enter p) (s\<lparr>pcs := (pcs s)(p := Waiting)\<rparr>)"
| acquire: "pcs s p = Waiting \<Longrightarrow> lock_mtime s = None \<Longrightarrow>
    lstep s (Acquire p) (s\<lparr>lock_mtime := Some (now s), pcs := (pcs s)(p := Holding)\<rparr>)"
| touch: "pcs s p = Holding \<Longrightarrow> lock_mtime s = Some m \<Longrightarrow>
    lstep s (Touch p) (s\<lparr>lock_mtime := Some (now s)\<rparr>)"
| wait: "pcs s p = Waiting \<Longrightarrow> lstep s (Wait p) s"
| give_up: "pcs s p = Waiting \<Longrightarrow> lstep s (GiveUp p) (s\<lparr>pcs := (pcs s)(p := Outside)\<rparr>)"
| see_stale: "pcs s p = Waiting \<Longrightarrow> lock_mtime s = Some m \<Longrightarrow> now s - m > lockStaleAfter \<Longrightarrow>
    lstep s (SeeStale p) (s\<lparr>pcs := (pcs s)(p := SawStale)\<rparr>)"
| steal: "pcs s p = SawStale \<Longrightarrow>
    lstep s (Steal p) (s\<lparr>lock_mtime := None, pcs := (pcs s)(p := Waiting)\<rparr>)"
| steal_fails: "pcs s p = SawStale \<Longrightarrow> lstep s (StealFails p) (s\<lparr>pcs := (pcs s)(p := Waiting)\<rparr>)"
| release: "pcs s p = Holding \<Longrightarrow>
    lstep s (Release p) (s\<lparr>lock_mtime := None, pcs := (pcs s)(p := Outside)\<rparr>)"
| crash: "pcs s p \<noteq> Crashed \<Longrightarrow> lstep s (Crash p) (s\<lparr>pcs := (pcs s)(p := Crashed)\<rparr>)"
| pass: "0 \<le> d \<Longrightarrow> lstep s (Pass d) (s\<lparr>now := now s + d\<rparr>)"

inductive_cases lstep_elims: "lstep s a s'"

inductive lrun :: "lsys \<Rightarrow> act list \<Rightarrow> lsys \<Rightarrow> bool" where
  stay: "lrun s [] s"
| more: "lrun s as u \<Longrightarrow> lstep u a v \<Longrightarrow> lrun s (as @ [a]) v"

text \<open>The same steps as a function.\<close>

fun lexec :: "lsys \<Rightarrow> act \<Rightarrow> lsys option" where
  "lexec s (Enter p) = (if pcs s p = Outside then Some (s\<lparr>pcs := (pcs s)(p := Waiting)\<rparr>) else None)"
| "lexec s (Acquire p) =
     (if pcs s p = Waiting \<and> lock_mtime s = None
      then Some (s\<lparr>lock_mtime := Some (now s), pcs := (pcs s)(p := Holding)\<rparr>) else None)"
| "lexec s (Touch p) =
     (if pcs s p = Holding \<and> lock_mtime s \<noteq> None then Some (s\<lparr>lock_mtime := Some (now s)\<rparr>) else None)"
| "lexec s (Wait p) = (if pcs s p = Waiting then Some s else None)"
| "lexec s (GiveUp p) = (if pcs s p = Waiting then Some (s\<lparr>pcs := (pcs s)(p := Outside)\<rparr>) else None)"
| "lexec s (SeeStale p) =
     (case lock_mtime s of
        None \<Rightarrow> None
      | Some m \<Rightarrow> if pcs s p = Waiting \<and> now s - m > lockStaleAfter
                  then Some (s\<lparr>pcs := (pcs s)(p := SawStale)\<rparr>) else None)"
| "lexec s (Steal p) =
     (if pcs s p = SawStale then Some (s\<lparr>lock_mtime := None, pcs := (pcs s)(p := Waiting)\<rparr>) else None)"
| "lexec s (StealFails p) = (if pcs s p = SawStale then Some (s\<lparr>pcs := (pcs s)(p := Waiting)\<rparr>) else None)"
| "lexec s (Release p) =
     (if pcs s p = Holding then Some (s\<lparr>lock_mtime := None, pcs := (pcs s)(p := Outside)\<rparr>) else None)"
| "lexec s (Crash p) = (if pcs s p \<noteq> Crashed then Some (s\<lparr>pcs := (pcs s)(p := Crashed)\<rparr>) else None)"
| "lexec s (Pass d) = (if 0 \<le> d then Some (s\<lparr>now := now s + d\<rparr>) else None)"

fun lexec_all :: "lsys \<Rightarrow> act list \<Rightarrow> lsys option" where
  "lexec_all s [] = Some s"
| "lexec_all s (a # as) = (case lexec s a of None \<Rightarrow> None | Some s' \<Rightarrow> lexec_all s' as)"

lemma lstep_iff_lexec: "lstep s a s' \<longleftrightarrow> lexec s a = Some s'"
proof
  show "lstep s a s' \<Longrightarrow> lexec s a = Some s'" by (erule lstep_elims) auto
  show "lexec s a = Some s' \<Longrightarrow> lstep s a s'"
    by (cases a) (auto intro: lstep.intros split: if_splits option.splits)
qed

lemma lrun_Cons: "lstep s a u \<Longrightarrow> lrun u as v \<Longrightarrow> lrun s (a # as) v"
proof (induction as arbitrary: v rule: rev_induct)
  case Nil
  then show ?case using lrun.more [OF lrun.stay, of s a u] by (auto elim: lrun.cases)
next
  case (snoc b as)
  from snoc.prems(2) obtain x where "lrun u as x" "lstep x b v" by (auto elim: lrun.cases)
  with snoc.IH [OF snoc.prems(1)] lrun.more [of s "a # as" x b v] show ?case by simp
qed

lemma lexec_all_run: "lexec_all s as = Some s' \<Longrightarrow> lrun s as s'"
  by (induction as arbitrary: s) (auto simp: lstep_iff_lexec intro: lrun.stay lrun_Cons split: option.splits)

lemma lrun_trans: "lrun s as u \<Longrightarrow> lrun u bs v \<Longrightarrow> lrun s (as @ bs) v"
proof (induction bs arbitrary: v rule: rev_induct)
  case Nil
  then show ?case by (auto elim: lrun.cases)
next
  case (snoc b bs)
  from snoc.prems(2) obtain x where "lrun u bs x" "lstep x b v" by (auto elim: lrun.cases)
  with snoc.IH snoc.prems(1) lrun.more [of s "as @ bs" x b v] show ?case by simp
qed

definition lock_init :: lsys where
  "lock_init = \<lparr>lock_mtime = None, now = 0, pcs = \<lambda>_. Outside\<rparr>"

text \<open>While nobody has seen a stale lock: a holder's lock is there, and there is one holder at most.\<close>

definition mutex_inv :: "lsys \<Rightarrow> bool" where
  "mutex_inv s \<longleftrightarrow> (\<forall>p. pcs s p \<noteq> SawStale) \<and>
     (\<forall>p. pcs s p = Holding \<longrightarrow> lock_mtime s \<noteq> None) \<and>
     (\<forall>p q. pcs s p = Holding \<longrightarrow> pcs s q = Holding \<longrightarrow> p = q)"

lemma mutex_inv_step:
  "lstep s a s' \<Longrightarrow> mutex_inv s \<Longrightarrow> (\<forall>p. a \<noteq> SeeStale p) \<Longrightarrow> mutex_inv s'"
  by (erule lstep_elims) (auto simp: mutex_inv_def split: if_splits)

lemma mutex_inv_run: "lrun s as s' \<Longrightarrow> mutex_inv s \<Longrightarrow> (\<forall>p. SeeStale p \<notin> set as) \<Longrightarrow> mutex_inv s'"
  by (induction rule: lrun.induct) (auto intro: mutex_inv_step)

section \<open>A round of the loop follows the protocol\<close>

text \<open>The protocol state a file system stands for: the age of the lock file, the clock and the processes.\<close>

definition protocol_state :: "world \<Rightarrow> path \<Rightarrow> (nat \<Rightarrow> pc) \<Rightarrow> fs \<Rightarrow> lsys" where
  "protocol_state w root f s =
     \<lparr>lock_mtime = map_option (mtime s) (file_at s (lockPath root)), now = clock w (ticks s), pcs = f\<rparr>"

definition alone :: "world \<Rightarrow> bool" where
  "alone w \<longleftrightarrow> (\<forall>n s. meddle w n s = s) \<and> (\<forall>n m. n \<le> m \<longrightarrow> clock w n \<le> clock w m)"

fun pc_after :: "(go_error + unit) option \<Rightarrow> pc" where
  "pc_after None = Waiting"
| "pc_after (Some (Inl _)) = Outside"
| "pc_after (Some (Inr _)) = Holding"

definition reaches :: "lsys \<Rightarrow> lsys \<Rightarrow> bool" where
  "reaches s s' \<longleftrightarrow> (\<exists>as. lrun s as s')"

lemma reaches_refl: "reaches s s"
  unfolding reaches_def by (blast intro: lrun.stay)

lemma reaches_step: "reaches s u \<Longrightarrow> lstep u a v \<Longrightarrow> reaches s v"
  unfolding reaches_def by (blast intro: lrun.more)

lemma others_alone: "alone w \<Longrightarrow> others w s = tick s"
  by (simp add: alone_def others_def tick_def)

lemma tick_reaches:
  assumes "alone w" "reaches s0 (protocol_state w root f s)"
  shows "reaches s0 (protocol_state w root f (tick s))"
proof -
  have "lstep (protocol_state w root f s) (Pass (clock w (Suc (ticks s)) - clock w (ticks s)))
      (protocol_state w root f (tick s))"
    using assms(1) lstep.pass [of "clock w (Suc (ticks s)) - clock w (ticks s)" "protocol_state w root f s"]
    by (simp add: alone_def protocol_state_def)
  with assms(2) show ?thesis by (rule reaches_step)
qed

text \<open>Every call of a round is a step, or several.\<close>

definition on_path :: "world \<Rightarrow> path \<Rightarrow> lsys \<Rightarrow> (nat \<Rightarrow> pc) \<Rightarrow> fs \<Rightarrow> bool" where
  "on_path w root s0 f s \<longleftrightarrow> fs_wf s \<and> reaches s0 (protocol_state w root f s)"

lemma on_path_tick: "alone w \<Longrightarrow> on_path w root s0 f s \<Longrightarrow> on_path w root s0 f (tick s)"
  by (simp add: on_path_def tick_reaches)

lemma wp_bind_fun: "wp (State_Monad.bind m f) Q = wp m (\<lambda>r. wp (f r) Q)"
  by (simp add: wp_bind fun_eq_iff)

lemma alone_sys:
  "alone w \<Longrightarrow> wp (sys w c g) Q s =
     (case fault w (ticks s) c of Some e \<Rightarrow> Q (Inl e) (tick s) | None \<Rightarrow> (case g (tick s) of (r, s') \<Rightarrow> Q r s'))"
  by (simp add: wp_def sys_def others_alone split: option.splits)

lemma give_up_spec:
  assumes "on_path w root s0 (f(p := Waiting)) s"
  shows "on_path w root s0 (f(p := Outside)) s"
proof -
  have "lstep (protocol_state w root (f(p := Waiting)) s) (GiveUp p) (protocol_state w root (f(p := Outside)) s)"
    using lstep.give_up [of "protocol_state w root (f(p := Waiting)) s" p]
    by (simp add: protocol_state_def)
  with assms show ?thesis by (auto simp: on_path_def intro: reaches_step)
qed

lemma lock_wait_spec:
  assumes "on_path w root s0 (f(p := Waiting)) s"
  shows "wp (lock_wait w root dl) (\<lambda>r. on_path w root s0 (f(p := pc_after r))) s"
  unfolding lock_wait_def using assms give_up_spec [OF assms] by (simp add: wp_simps)

lemma lock_acquire_spec:
  assumes "alone w" "on_path w root s0 (f(p := Waiting)) s" "file_at s (lockPath root) = None"
  shows "on_path w root s0 (f(p := Holding)) (new_file w (lockPath root) s)"
proof -
  have "lstep (protocol_state w root (f(p := Waiting)) s) (Acquire p)
      (protocol_state w root (f(p := Holding)) (new_file w (lockPath root) s))"
    using lstep.acquire [of "protocol_state w root (f(p := Waiting)) s" p] assms(3)
    by (simp add: protocol_state_def new_file_def update_conv')
  moreover have "fs_wf (new_file w (lockPath root) s)"
    using assms(2) by (auto simp: on_path_def fs_wf_def new_file_def update_conv' less_SucI)
  ultimately show ?thesis using assms(2) by (auto simp: on_path_def intro: reaches_step)
qed

lemma lock_note_spec:
  assumes "alone w" "on_path w root s0 (f(p := Holding)) s" "file_at s (lockPath root) = Some fd"
  shows "on_path w root s0 (f(p := Holding))
    (s\<lparr>content := (content s)(fd := b), mtime := (mtime s)(fd := clock w (ticks s))\<rparr>)"
proof -
  have "lstep (protocol_state w root (f(p := Holding)) s) (Touch p) (protocol_state w root (f(p := Holding))
      (s\<lparr>content := (content s)(fd := b), mtime := (mtime s)(fd := clock w (ticks s))\<rparr>))"
    using lstep.touch [of "protocol_state w root (f(p := Holding)) s" p] assms(3)
    by (simp add: protocol_state_def)
  with assms(2) show ?thesis by (auto simp: on_path_def fs_wf_def intro: reaches_step)
qed

lemma lock_steal_spec:
  assumes al: "alone w" and s: "on_path w root s0 (f(p := Waiting)) s"
    and old: "file_at s (lockPath root) = Some i" "clock w (ticks s) - mtime s i > lockStaleAfter"
  shows "wp (remove_file w (lockPath root)) (\<lambda>_. on_path w root s0 (f(p := Waiting))) s"
proof -
  have "lstep (protocol_state w root (f(p := Waiting)) s) (SeeStale p) (protocol_state w root (f(p := SawStale)) s)"
    using lstep.see_stale [of "protocol_state w root (f(p := Waiting)) s" p] old
    by (simp add: protocol_state_def)
  with s have seen: "on_path w root s0 (f(p := SawStale)) (tick s)"
    by (auto simp: on_path_def intro: reaches_step tick_reaches [OF al])
  have fail: "on_path w root s0 (f(p := Waiting)) (tick s)"
    using seen lstep.steal_fails [of "protocol_state w root (f(p := SawStale)) (tick s)" p]
    by (auto simp: on_path_def protocol_state_def intro: reaches_step)
  have "lstep (protocol_state w root (f(p := SawStale)) (tick s)) (Steal p)
      (protocol_state w root (f(p := Waiting)) ((tick s)\<lparr>files := AList.delete (lockPath root) (files s)\<rparr>))"
    using lstep.steal [of "protocol_state w root (f(p := SawStale)) (tick s)" p]
    by (simp add: protocol_state_def delete_conv')
  then have "on_path w root s0 (f(p := Waiting)) ((tick s)\<lparr>files := AList.delete (lockPath root) (files s)\<rparr>)"
    using seen fs_wf_delete [of "tick s" "lockPath root"] by (auto simp: on_path_def intro: reaches_step)
  with fail old(1) show ?thesis
    by (simp add: remove_file_def alone_sys [OF al] split: option.splits)
qed

lemma lock_blocked_spec:
  assumes al: "alone w" and s: "on_path w root s0 (f(p := Waiting)) s"
  shows "wp (lock_blocked w root dl) (\<lambda>r. on_path w root s0 (f(p := pc_after r))) s"
proof -
  note t = on_path_tick [OF al s]
  note wait = lock_wait_spec [OF t, of dl]
  show ?thesis
  proof (cases "file_at s (lockPath root)")
    case None
    with wait show ?thesis
      by (simp add: lock_blocked_def stat_file_def wp_simps alone_sys [OF al] split: option.splits)
  next
    case (Some i)
    with wait lock_steal_spec [OF al t, of i] show ?thesis
      by (simp add: lock_blocked_def stat_file_def wp_simps alone_sys [OF al] split: option.splits)
  qed
qed

lemma lock_attempt_spec:
  assumes al: "alone w" and s: "on_path w root s0 (f(p := Waiting)) s"
  shows "wp (lock_attempt w root note dl) (\<lambda>r. on_path w root s0 (f(p := pc_after r))) s"
proof -
  note t = on_path_tick [OF al]
  have got: "wp (write_from w (lockPath root) fd (\<lambda>_. (note, None)))
      (\<lambda>_. wp (close_file w (lockPath root)) (\<lambda>_. on_path w root s0 (f(p := Holding)))) u"
    if "on_path w root s0 (f(p := Holding)) u" "file_at u (lockPath root) = Some fd" for u fd
    using t [OF that(1)] lock_note_spec [OF al t [OF that(1)], of fd "note"] that(2)
    by (auto simp: write_from_def close_file_def alone_sys [OF al] t split: option.splits)
  show ?thesis
  proof (cases "fault w (ticks s) (CreateExcl (lockPath root)) = None \<and> file_at s (lockPath root) = None")
    case True
    then show ?thesis
      using got [OF lock_acquire_spec [OF al t [OF s]], of "next_ino s"]
      by (simp add: lock_attempt_def create_excl_def alone_sys [OF al] wp_bind_fun wp_ret)
  next
    case False
    then show ?thesis using lock_blocked_spec [OF al t [OF s], of dl] give_up_spec [OF t [OF s]]
      by (auto simp: lock_attempt_def create_excl_def alone_sys [OF al] wp_bind wp_ret split: option.splits)
  qed
qed

section \<open>Whether the loop returns\<close>

lemma lock_loop_unfold:
  "lock_loop w root note dl s =
     (case run_state (lock_attempt w root note dl) s of
        (Some r, s') \<Rightarrow> Some (r, s')
      | (None, s') \<Rightarrow> lock_loop w root note dl s')"
  by (rule lock_loop.simps)

text \<open>What a round that does not finish leaves behind, when nobody else acts.\<close>

definition retry_post :: "world \<Rightarrow> path \<Rightarrow> int \<Rightarrow> fs \<Rightarrow> (go_error + unit) option \<Rightarrow> fs \<Rightarrow> bool" where
  "retry_post w root dl s r s' \<longleftrightarrow> r = None \<longrightarrow> ticks s < ticks s' \<and>
     (clock w (ticks s') \<le> dl \<or> file_at s' (lockPath root) = None) \<and>
     (file_at s (lockPath root) = None \<longrightarrow> file_at s' (lockPath root) = None \<and> clock w (ticks s') \<le> dl)"

lemma lock_attempt_progress:
  assumes al: "alone w" and rm: "\<And>n. fault w n (RemoveFile (lockPath root)) = None"
  shows "wp (lock_attempt w root note dl) (retry_post w root dl s) s"
proof -
  have blocked: "wp (lock_blocked w root dl) (retry_post w root dl s) (tick s)"
    by (cases "file_at s (lockPath root)")
      (auto simp: lock_blocked_def lock_wait_def stat_file_def remove_file_def wp_simps alone_sys [OF al]
        rm retry_post_def delete_conv' split: option.splits)
  have finished: "retry_post w root dl s (Some r) u" for r u by (simp add: retry_post_def)
  show ?thesis
    unfolding lock_attempt_def
    by (cases "file_at s (lockPath root)")
      (auto simp: create_excl_def wp_bind_fun wp_simps alone_sys [OF al] blocked finished
        intro!: wp_any split: option.splits)
qed

lemma lock_loop_absent:
  assumes al: "alone w" and rm: "\<And>n. fault w n (RemoveFile (lockPath root)) = None"
    and late: "\<And>n. N \<le> n \<Longrightarrow> dl < clock w n"
  shows "file_at s (lockPath root) = None \<Longrightarrow> lock_loop w root note dl s \<noteq> None"
proof (induction "N - ticks s" arbitrary: s rule: less_induct)
  case less
  obtain r u where run: "run_state (lock_attempt w root note dl) s = (r, u)" by (cases "run_state (lock_attempt w root note dl) s")
  from wp_run [OF lock_attempt_progress [OF al rm] run]
  have post: "retry_post w root dl s r u" .
  show ?case
  proof (cases r)
    case None
    with post less.prems have u: "ticks s < ticks u" "file_at u (lockPath root) = None" "clock w (ticks u) \<le> dl"
      by (auto simp: retry_post_def)
    then have "ticks u < N" using late [of "ticks u"] by (meson leD linorder_le_less_linear)
    with less.hyps [of u] u show ?thesis by (subst lock_loop_unfold) (simp add: run None)
  qed (subst lock_loop_unfold, simp add: run)
qed

lemma lock_loop_returns:
  assumes al: "alone w" and rm: "\<And>n. fault w n (RemoveFile (lockPath root)) = None"
    and late: "\<And>n. N \<le> n \<Longrightarrow> dl < clock w n"
  shows "lock_loop w root note dl s \<noteq> None"
proof (induction "N - ticks s" arbitrary: s rule: less_induct)
  case less
  obtain r u where run: "run_state (lock_attempt w root note dl) s = (r, u)" by (cases "run_state (lock_attempt w root note dl) s")
  from wp_run [OF lock_attempt_progress [OF al rm] run]
  have post: "retry_post w root dl s r u" .
  show ?case
  proof (cases r)
    case None
    have "lock_loop w root note dl u \<noteq> None"
    proof (cases "file_at u (lockPath root) = None")
      case False
      with post None have u: "ticks s < ticks u" "clock w (ticks u) \<le> dl" by (auto simp: retry_post_def)
      then have "ticks u < N" using late [of "ticks u"] by (meson leD linorder_le_less_linear)
      with less.hyps [of u] u show ?thesis by simp
    qed (rule lock_loop_absent [OF al rm late])
    then show ?thesis by (subst lock_loop_unfold) (simp add: run None)
  qed (subst lock_loop_unfold, simp add: run)
qed

text \<open>A lock file that looks abandoned and cannot be removed.\<close>

definition immovable :: "world \<Rightarrow> path \<Rightarrow> fs \<Rightarrow> bool" where
  "immovable w root s \<longleftrightarrow> alone w \<and>
     (\<forall>n. fault w n (RemoveFile (lockPath root)) \<noteq> None) \<and>
     (\<forall>n. fault w n (StatFile (lockPath root)) = None) \<and> (\<forall>n. fault w n (CreateExcl (lockPath root)) = None) \<and>
     (\<exists>i. file_at s (lockPath root) = Some i \<and> clock w (ticks s) - mtime s i > lockStaleAfter)"

lemma immovable_round:
  assumes "immovable w root s"
  shows "wp (lock_attempt w root note dl) (\<lambda>r s'. r = None \<and> immovable w root s') s"
proof -
  have al: "alone w" using assms by (simp add: immovable_def)
  obtain i where i: "file_at s (lockPath root) = Some i" "clock w (ticks s) - mtime s i > lockStaleAfter"
    using assms by (auto simp: immovable_def)
  have older: "clock w (Suc (Suc (ticks s))) - mtime s i > lockStaleAfter"
    "clock w (Suc (Suc (Suc (ticks s)))) - mtime s i > lockStaleAfter"
  proof -
    have "clock w (ticks s) \<le> clock w (Suc (Suc (ticks s)))" "clock w (ticks s) \<le> clock w (Suc (Suc (Suc (ticks s))))"
      using al by (simp_all add: alone_def)
    with i(2) show "clock w (Suc (Suc (ticks s))) - mtime s i > lockStaleAfter"
      "clock w (Suc (Suc (Suc (ticks s)))) - mtime s i > lockStaleAfter" by linarith+
  qed
  obtain e where e: "fault w (Suc (Suc (ticks s))) (RemoveFile (lockPath root)) = Some e"
    using assms unfolding immovable_def by blast
  show ?thesis
    using assms i older e
    by (auto simp: lock_attempt_def lock_blocked_def create_excl_def stat_file_def remove_file_def
        wp_simps alone_sys [OF al] immovable_def split: option.splits)
qed

lemma immovable_never_returns:
  assumes "immovable w root s"
  shows "lock_loop w root note dl s = None"
proof -
  have "\<not> immovable w root s" if "lock_loop w root note dl s = Some y" for y
    using that
  proof (rule lock_loop.raw_induct [where P = "\<lambda>w root _ _ s _. \<not> immovable w root s", rotated])
    fix loop w root msg dl s y
    assume IH: "\<And>w root msg dl s y. loop w root msg dl s = Some y \<Longrightarrow> \<not> immovable w root s"
      and body: "(case run_state (lock_attempt w root msg dl) s of (None, s') \<Rightarrow> loop w root msg dl s'
                  | (Some r, s') \<Rightarrow> Some (r, s')) = Some y"
    show "\<not> immovable w root s"
    proof
      assume stuck: "immovable w root s"
      obtain r u where run: "run_state (lock_attempt w root msg dl) s = (r, u)"
        by (cases "run_state (lock_attempt w root msg dl) s")
      from wp_run [OF immovable_round [OF stuck] run] have "r = None" "immovable w root u" by auto
      with IH [of w root msg dl u y] body run show False by simp
    qed
  qed
  then show ?thesis using assms by (cases "lock_loop w root note dl s") auto
qed

section \<open>Properties\<close>

text \<open>C23. The index lock excludes: in every run of any number of processes in which nobody comes upon a
  lock file older than \<^verbatim>\<open>lockStaleAfter\<close>, at most one process holds the lock, and while one does the lock
  file exists. Crashes, releases and time-outs may occur in any order.\<close>

theorem lock_mutual_exclusion:
  assumes "lrun lock_init as s" "\<forall>p. SeeStale p \<notin> set as" "pcs s p = Holding" "pcs s q = Holding"
  shows "p = q \<and> lock_mtime s \<noteq> None"
proof -
  have "mutex_inv lock_init" by (simp add: mutex_inv_def lock_init_def)
  from mutex_inv_run [OF assms(1) this assms(2)] assms(3,4) show ?thesis by (auto simp: mutex_inv_def)
qed

theorem lock_mutual_exclusion_witness:
  "\<exists>s. lexec_all lock_init [Enter 0, Enter 1, Acquire 1, Wait 0, Release 1, Acquire 0] = Some s \<and>
     pcs s 0 = Holding \<and> lock_mtime s \<noteq> None"
proof -
  obtain s where s: "lexec_all lock_init [Enter 0, Enter 1, Acquire 1, Wait 0, Release 1, Acquire 0] = Some s"
    by (simp add: lock_init_def)
  then have h: "pcs s 0 = Holding" by (auto simp: lock_init_def)
  have "\<forall>p. SeeStale p \<notin> set [Enter 0, Enter 1, Acquire 1, Wait 0, Release 1, Acquire 0]" by simp
  from lock_mutual_exclusion [OF lexec_all_run [OF s] this h h] s h show ?thesis by auto
qed


lemma calm_alone: "alone calm"
  by (simp add: alone_def calm_def)



text \<open>A clock that moves one second per call, and a lock file left by somebody an hour ago.\<close>

definition slow :: world where
  "slow = calm\<lparr>clock := \<lambda>n. 1000000000 * int n\<rparr>"

definition abandoned :: fs where
  "abandoned = one_file\<lparr>files := [(lockPath ''/st'', 0)], mtime := \<lambda>_. - 3600000000000\<rparr>"


section \<open>Limits of the lock\<close>

text \<open>
  The removal of a stale lock skips the deadline: a lock file that looks abandoned and cannot be removed
  (a read-only store, another user's lock in a sticky directory) makes \<^verbatim>\<open>lockIndex\<close> loop forever, without
  even sleeping, although it is documented to give up after the wait budget.
\<close>

definition read_only :: world where
  "read_only = slow\<lparr>fault := \<lambda>_ c. case c of RemoveFile _ \<Rightarrow> Some ErrPermission | _ \<Rightarrow> None\<rparr>"

theorem lockIndex_can_spin_forever:
  "immovable read_only ''/st'' abandoned \<and> lockIndex read_only ''/st'' note abandoned = None"
proof
  show "immovable read_only ''/st'' abandoned"
    by (simp add: immovable_def alone_def read_only_def slow_def calm_def abandoned_def one_file_def lockStaleAfter_def)
  then show "lockIndex read_only ''/st'' note abandoned = None"
    unfolding lockIndex_def by (rule immovable_never_returns)
qed

text \<open>
  The age check and the removal are two calls on a name. Two processes that both saw the lock of a
  crashed one as stale can remove it one after the other: the second removal takes away the fresh lock
  of the first, and both hold the lock, both having held it for no time at all.
\<close>

definition steal_race :: "act list" where
  "steal_race = [Enter 0, Acquire 0, Crash 0, Pass (31 * 1000000000), Enter 1, Enter 2, SeeStale 1, SeeStale 2,
     Steal 1, Acquire 1, Steal 2, Acquire 2]"

theorem stale_lock_stolen_twice:
  "\<exists>s. lrun lock_init steal_race s \<and> pcs s 1 = Holding \<and> pcs s 2 = Holding \<and> lock_mtime s = Some (now s)"
proof -
  obtain s where s: "lexec_all lock_init steal_race = Some s"
    by (simp add: lock_init_def steal_race_def lockStaleAfter_def)
  then have "pcs s 1 = Holding \<and> pcs s 2 = Holding \<and> lock_mtime s = Some (now s)"
    by (auto simp: lock_init_def steal_race_def lockStaleAfter_def)
  with lexec_all_run [OF s] show ?thesis by blast
qed

end
