(* ===== verification/Store_Index.thy ===== *)
theory Store_Index
  imports Store_Lock
begin

text \<open>
  The metadata index of the store and garbage collection, \<^verbatim>\<open>src/core/store/fsstore.go\<close> and \<^verbatim>\<open>iface.go\<close>. What
  \<^verbatim>\<open>encoding/json\<close> does between an index and its bytes is the record \<open>index_codec\<close> of parameters;
  \<^verbatim>\<open>canonical.Time\<close> is the parameter \<open>stamp\<close>. Operations that take the index lock are values of option type,
  \<^const>\<open>None\<close> being a lock that is never obtained and never given up on.
\<close>

section \<open>The index\<close>

record index_entry =
  ie_Digest :: string
  ie_Name :: string
  ie_Version :: string
  ie_Arch :: string
  ie_Size :: int
  ie_Filename :: string
  ie_AddedAt :: string
  ie_UserSupplied :: bool

record store_index =
  si_SchemaVersion :: string
  si_Entries :: "index_entry list"

definition IndexSchemaVersion :: string where
  "IndexSchemaVersion = ''debark.storeindex/v1''"

definition IndexFileName :: string where
  "IndexFileName = ''index.json''"

record index_codec =
  ic_Marshal :: "store_index \<Rightarrow> go_error + string"
  ic_Unmarshal :: "string \<Rightarrow> go_error + store_index"

definition indexPath :: "path \<Rightarrow> path" where
  "indexPath root = filepath_Join [root, IndexFileName]"

definition store_Index :: "world \<Rightarrow> index_codec \<Rightarrow> path \<Rightarrow> (go_error + store_index) io" where
  "store_Index w c root = do {
     r \<leftarrow> read_file w (indexPath root);
     ret (case r of
        Inl e \<Rightarrow>
          if e = ErrNotExist then Inr \<lparr>si_SchemaVersion = IndexSchemaVersion, si_Entries = []\<rparr>
          else Inl (env_error ''store: read index'' e)
      | Inr b \<Rightarrow>
          (case ic_Unmarshal c b of
             Inl e \<Rightarrow> Inl (DfError Environment ''store: parse index'' '''' (Some e))
           | Inr idx \<Rightarrow>
               Inr (if si_SchemaVersion idx = '''' then idx\<lparr>si_SchemaVersion := IndexSchemaVersion\<rparr> else idx))) }"

definition entry_less :: "index_entry \<Rightarrow> index_entry \<Rightarrow> bool" where
  "entry_less a b \<longleftrightarrow> ie_Digest a < ie_Digest b"

text \<open>The index \<^verbatim>\<open>writeIndexLocked\<close> encodes: current schema, entries by digest.\<close>

definition normal_index :: "store_index \<Rightarrow> store_index" where
  "normal_index idx =
     \<lparr>si_SchemaVersion = IndexSchemaVersion, si_Entries = slice_stable entry_less (si_Entries idx)\<rparr>"

definition write_temp_index :: "world \<Rightarrow> path \<Rightarrow> path \<Rightarrow> nat \<Rightarrow> string \<Rightarrow> go_error option io" where
  "write_temp_index w root tmpName fd b = do {
     x \<leftarrow> write_from w tmpName fd (\<lambda>_. (b, None));
     case x of
       Inl e \<Rightarrow> do { _ \<leftarrow> close_file w tmpName; _ \<leftarrow> remove_file w tmpName; ret (Some (env_error ''store: write temp index'' e)) }
     | Inr _ \<Rightarrow> do {
     y \<leftarrow> sync_file w tmpName;
     case y of
       Inl e \<Rightarrow> do { _ \<leftarrow> close_file w tmpName; _ \<leftarrow> remove_file w tmpName; ret (Some (env_error ''store: sync temp index'' e)) }
     | Inr _ \<Rightarrow> do {
     l \<leftarrow> close_file w tmpName;
     case l of
       Inl e \<Rightarrow> do { _ \<leftarrow> remove_file w tmpName; ret (Some (env_error ''store: close temp index'' e)) }
     | Inr _ \<Rightarrow> do {
     n \<leftarrow> rename_file w tmpName (indexPath root);
     case n of
       Inl e \<Rightarrow> do { _ \<leftarrow> remove_file w tmpName; ret (Some (env_error ''store: publish index'' e)) }
     | Inr _ \<Rightarrow> ret None } } } }"

definition writeIndexLocked :: "world \<Rightarrow> index_codec \<Rightarrow> path \<Rightarrow> store_index \<Rightarrow> go_error option io" where
  "writeIndexLocked w c root idx =
     (case ic_Marshal c (normal_index idx) of
        Inl e \<Rightarrow> ret (Some (DfError Environment ''store: encode index'' '''' (Some e)))
      | Inr b \<Rightarrow> do {
          t \<leftarrow> create_temp w root ''.index-'' ''.json'';
          case t of
            Inl e \<Rightarrow> ret (Some (env_error ''store: create temp index'' e))
          | Inr (tmpName, fd) \<Rightarrow> write_temp_index w root tmpName fd (b @ [char_of (10 :: nat)]) })"

text \<open>The loop of \<^verbatim>\<open>Record\<close>: the first entry of the digest is replaced, a new one is appended.\<close>

fun record_entry :: "index_entry \<Rightarrow> index_entry list \<Rightarrow> index_entry list" where
  "record_entry e [] = [e]"
| "record_entry e (x # xs) = (if ie_Digest x = ie_Digest e then e # xs else x # record_entry e xs)"

definition stamp_entry :: "(int \<Rightarrow> string) \<Rightarrow> int \<Rightarrow> index_entry \<Rightarrow> index_entry" where
  "stamp_entry stamp t e = (if ie_AddedAt e = '''' then e\<lparr>ie_AddedAt := stamp t\<rparr> else e)"

definition record_locked ::
    "world \<Rightarrow> index_codec \<Rightarrow> (int \<Rightarrow> string) \<Rightarrow> path \<Rightarrow> index_entry \<Rightarrow> go_error option io" where
  "record_locked w c stamp root entry = do {
     i \<leftarrow> store_Index w c root;
     case i of
       Inl e \<Rightarrow> ret (Some e)
     | Inr idx \<Rightarrow> do {
         t \<leftarrow> time_now w;
         writeIndexLocked w c root
           (idx\<lparr>si_Entries := record_entry (stamp_entry stamp t entry) (si_Entries idx)\<rparr>) } }"

text \<open>A critical section: the body between \<^verbatim>\<open>lockIndex\<close> and the deferred unlock.\<close>

definition with_lock :: "world \<Rightarrow> path \<Rightarrow> string \<Rightarrow> (go_error \<Rightarrow> 'a) \<Rightarrow> 'a io \<Rightarrow> fs \<Rightarrow> ('a \<times> fs) option" where
  "with_lock w root note failed body s =
     (case lockIndex w root note s of
        None \<Rightarrow> None
      | Some (Inl e, s1) \<Rightarrow> Some (failed e, s1)
      | Some (Inr _, s1) \<Rightarrow> Some (run_state (do { r \<leftarrow> body; unlockIndex w root; ret r }) s1))"

definition Record ::
    "world \<Rightarrow> index_codec \<Rightarrow> (int \<Rightarrow> string) \<Rightarrow> path \<Rightarrow> string \<Rightarrow> index_entry \<Rightarrow> fs \<Rightarrow> (go_error option \<times> fs) option" where
  "Record w c stamp root note entry s =
     (if ie_Digest entry = '''' then Some (Some (New Usage ''store: Record: empty digest''), s)
      else with_lock w root note
        (\<lambda>e. Some (DfError Environment (''store: record '' @ ie_Digest entry) '''' (Some e)))
        (record_locked w c stamp root entry) s)"

section \<open>Garbage collection\<close>

record gc_stats =
  gs_Removed :: int
  gs_Kept :: int
  gs_BytesFreed :: int
  gs_BytesRemaining :: int

text \<open>
  A directory as \<^verbatim>\<open>os.ReadDir\<close> lists it: the names directly below it, sorted, each a directory exactly if
  it is not itself a file. A directory exists if there is a file below it.
\<close>

definition below :: "fs \<Rightarrow> path \<Rightarrow> string list" where
  "below s d = map (\<lambda>(p, _). drop (Suc (length d)) p) (filter (\<lambda>(p, _). has_prefix p (d @ [slash])) (files s))"

definition dir_entries :: "fs \<Rightarrow> path \<Rightarrow> (string \<times> bool) list" where
  "dir_entries s d =
     map (\<lambda>n. (n, file_at s (d @ slash # n) = None))
       (sort (remdups (map (takeWhile (\<lambda>c. c \<noteq> slash)) (below s d))))"

definition stat_dir :: "world \<Rightarrow> path \<Rightarrow> (errno + unit) io" where
  "stat_dir w d = sys w (StatFile d) (\<lambda>s. (if below s d = [] then Inl ErrNotExist else Inr (), s))"

definition read_dir :: "world \<Rightarrow> path \<Rightarrow> (errno + (string \<times> bool) list) io" where
  "read_dir w d = sys w (ReadDir d) (\<lambda>s. (Inr (dir_entries s d), s))"

definition count_kept :: "int \<Rightarrow> gc_stats \<Rightarrow> gc_stats" where
  "count_kept n st = st\<lparr>gs_Kept := gs_Kept st + 1, gs_BytesRemaining := wrap64 (gs_BytesRemaining st + n)\<rparr>"

definition count_removed :: "int \<Rightarrow> gc_stats \<Rightarrow> gc_stats" where
  "count_removed n st = st\<lparr>gs_Removed := gs_Removed st + 1, gs_BytesFreed := wrap64 (gs_BytesFreed st + n)\<rparr>"

text \<open>The two loops of \<^verbatim>\<open>GC\<close>, with the statistics and the digests removed so far. The names come from
  \<^verbatim>\<open>ReadDir\<close>, so joining them only appends.\<close>

type_synonym gc_acc = "gc_stats \<times> string list"

fun gc_objs :: "world \<Rightarrow> (string \<Rightarrow> bool) \<Rightarrow> path \<Rightarrow> (string \<times> bool) list \<Rightarrow> gc_acc \<Rightarrow> (go_error option \<times> gc_acc) io" where
  "gc_objs w keep dir [] acc = ret (None, acc)"
| "gc_objs w keep dir ((dg, isDir) # objs) acc = do {
     c \<leftarrow> ctx_err w;
     case c of
       Some e \<Rightarrow> ret (Some e, acc)
     | None \<Rightarrow>
         if isDir \<or> has_prefix dg ''.'' then gc_objs w keep dir objs acc
         else do {
           info \<leftarrow> stat_file w (dir @ slash # dg);
           let len = (case info of Inl _ \<Rightarrow> 0 | Inr (k, _) \<Rightarrow> k);
           if keep dg then gc_objs w keep dir objs (count_kept len (fst acc), snd acc)
           else do {
             r \<leftarrow> remove_file w (dir @ slash # dg);
             case r of
               Inl e \<Rightarrow> ret (Some (env_error (''store: gc: remove '' @ dg) e), acc)
             | Inr _ \<Rightarrow> gc_objs w keep dir objs (count_removed len (fst acc), dg # snd acc) } } }"

fun gc_shards :: "world \<Rightarrow> (string \<Rightarrow> bool) \<Rightarrow> path \<Rightarrow> (string \<times> bool) list \<Rightarrow> gc_acc \<Rightarrow> (go_error option \<times> gc_acc) io" where
  "gc_shards w keep shaDir [] acc = ret (None, acc)"
| "gc_shards w keep shaDir ((shard, isDir) # shards) acc =
     (if \<not> isDir \<or> shard = ''tmp'' then gc_shards w keep shaDir shards acc
      else do {
        l \<leftarrow> read_dir w (shaDir @ slash # shard);
        case l of
          Inl e \<Rightarrow> ret (Some (env_error (''store: gc: read '' @ shaDir @ slash # shard) e), acc)
        | Inr objs \<Rightarrow> do {
            r \<leftarrow> gc_objs w keep (shaDir @ slash # shard) objs acc;
            case r of
              (Some e, acc') \<Rightarrow> ret (Some e, acc')
            | (None, acc') \<Rightarrow> gc_shards w keep shaDir shards acc' } })"

definition zero_stats :: gc_stats where
  "zero_stats = \<lparr>gs_Removed = 0, gs_Kept = 0, gs_BytesFreed = 0, gs_BytesRemaining = 0\<rparr>"

definition gc_read :: "world \<Rightarrow> (string \<Rightarrow> bool) \<Rightarrow> path \<Rightarrow> (go_error option \<times> gc_acc) io" where
  "gc_read w keep shaDir = do {
     l \<leftarrow> read_dir w shaDir;
     case l of
       Inl e \<Rightarrow> ret (Some (env_error (''store: gc: read '' @ shaDir) e), (zero_stats, []))
     | Inr shards \<Rightarrow> gc_shards w keep shaDir shards (zero_stats, []) }"

definition gc_scan :: "world \<Rightarrow> (string \<Rightarrow> bool) \<Rightarrow> path \<Rightarrow> (go_error option \<times> gc_acc) io" where
  "gc_scan w keep root = do {
     let shaDir = filepath_Join [root, ''sha256''];
     st \<leftarrow> stat_dir w shaDir;
     if st = Inl ErrNotExist then ret (None, (zero_stats, []))
     else gc_read w keep shaDir }"

definition gc_prune :: "world \<Rightarrow> index_codec \<Rightarrow> path \<Rightarrow> string list \<Rightarrow> go_error option io" where
  "gc_prune w c root removed = do {
     i \<leftarrow> store_Index w c root;
     case i of
       Inl e \<Rightarrow> ret (Some e)
     | Inr idx \<Rightarrow> writeIndexLocked w c root
         (idx\<lparr>si_Entries := filter (\<lambda>e. ie_Digest e \<notin> set removed) (si_Entries idx)\<rparr>) }"

definition GC :: "world \<Rightarrow> index_codec \<Rightarrow> path \<Rightarrow> string \<Rightarrow> (string \<Rightarrow> bool) \<Rightarrow> fs \<Rightarrow>
    ((gc_stats \<times> go_error option) \<times> fs) option" where
  "GC w c root note keep s =
     (case run_state (gc_scan w keep root) s of
        ((Some e, stats, _), s1) \<Rightarrow> Some ((stats, Some e), s1)
      | ((None, stats, removed), s1) \<Rightarrow>
          if removed = [] then Some ((stats, None), s1)
          else map_option (\<lambda>(err, s2). ((stats, err), s2))
            (with_lock w root note (\<lambda>e. Some (DfError Environment ''store: gc: lock index'' '''' (Some e)))
              (gc_prune w c root removed) s1))"

interpretation index_entries: keyed_less entry_less ie_Digest
  by unfold_locales (simp add: entry_less_def)

section \<open>The entries\<close>

definition index_lookup :: "index_entry list \<Rightarrow> string \<Rightarrow> index_entry option" where
  "index_lookup es d = find (\<lambda>e. ie_Digest e = d) es"

lemma index_lookup_Some:
  "distinct (map ie_Digest es) \<Longrightarrow> index_lookup es d = Some e \<longleftrightarrow> e \<in> set es \<and> ie_Digest e = d"
  unfolding index_lookup_def by (induction es) auto

lemma index_lookup_None: "index_lookup es d = None \<longleftrightarrow> d \<notin> ie_Digest ` set es"
  unfolding index_lookup_def by (induction es) auto

lemma index_lookup_cong:
  assumes "distinct (map ie_Digest es)" "distinct (map ie_Digest fs)" "set es = set fs"
  shows "index_lookup es d = index_lookup fs d"
proof (cases "index_lookup fs d")
  case None
  with assms(3) have "index_lookup es d = None" by (simp add: index_lookup_None)
  with None show ?thesis by simp
next
  case (Some e)
  then have "index_lookup es d = Some e" using assms by (simp add: index_lookup_Some)
  with Some show ?thesis by simp
qed

lemma record_entry_lookup:
  "index_lookup (record_entry e es) d = (if d = ie_Digest e then Some e else index_lookup es d)"
  unfolding index_lookup_def by (induction es) auto

lemma record_entry_digests: "ie_Digest ` set (record_entry e es) = insert (ie_Digest e) (ie_Digest ` set es)"
  by (induction es) auto

lemma record_entry_distinct:
  "distinct (map ie_Digest es) \<Longrightarrow> distinct (map ie_Digest (record_entry e es))"
proof (induction es)
  case (Cons x es)
  have "ie_Digest x \<notin> ie_Digest ` set (record_entry e es)" if "ie_Digest x \<noteq> ie_Digest e"
    using Cons.prems that unfolding record_entry_digests by auto
  with Cons show ?case by auto
qed simp

lemma sorted_entries_distinct:
  "distinct (map ie_Digest (slice_stable entry_less es)) = distinct (map ie_Digest es)"
proof -
  have "mset (map ie_Digest (slice_stable entry_less es)) = mset (map ie_Digest es)"
    by (simp add: index_entries.slice_stable_mset)
  then show ?thesis by (rule mset_eq_imp_distinct_iff)
qed

lemma normal_index_lookup:
  assumes "distinct (map ie_Digest (si_Entries idx))"
  shows "index_lookup (si_Entries (normal_index idx)) d = index_lookup (si_Entries idx) d"
  by (rule index_lookup_cong)
    (use assms in \<open>simp_all add: normal_index_def sorted_entries_distinct index_entries.slice_stable_set\<close>)

section \<open>Paths beside the objects\<close>

lemma index_paths:
  assumes "store_root root"
  shows "indexPath root = root @ ''/index.json''" "lockPath root = root @ ''/index.lock''"
    "filepath_Join [root, ''sha256''] = root @ ''/sha256''"
  using Join_root [OF assms, of "''index.json''"] Join_root [OF assms, of "''index.lock''"]
    Join_root [OF assms, of "''sha256''"] store_root_ne [OF assms]
  by (simp_all add: indexPath_def lockPath_def filepath_Join_def IndexFileName_def lockFileName_def
      safe_rel_path_def safe_segment_def)

definition index_temp :: "world \<Rightarrow> path \<Rightarrow> nat \<Rightarrow> path" where
  "index_temp w root n = join_name root (''.index-'' @ rand w n @ ''.json'')"

lemma beside_distinct:
  assumes "store_root root"
  shows "indexPath root \<noteq> lockPath root" "index_temp w root n \<noteq> indexPath root" "index_temp w root n \<noteq> lockPath root"
    and "digest_Valid d \<Longrightarrow> store_Path root d \<noteq> indexPath root"
    and "digest_Valid d \<Longrightarrow> store_Path root d \<noteq> lockPath root"
    and "digest_Valid d \<Longrightarrow> store_Path root d \<noteq> index_temp w root n"
  by (auto simp: index_paths [OF assms] store_Path_eq [OF assms] sha_area_def index_temp_def join_name_def)

section \<open>Runs without faults\<close>

text \<open>The state after an operation that touched only the names of a set.\<close>

definition touched :: "path set \<Rightarrow> fs \<Rightarrow> fs \<Rightarrow> bool" where
  "touched A s u \<longleftrightarrow> fs_wf u \<and> (\<forall>p. p \<notin> A \<longrightarrow> bytes_at u p = bytes_at s p)"

lemma bytes_None: "bytes_at s p = None \<longleftrightarrow> file_at s p = None"
  by (simp add: bytes_at_def)

lemma touched_refl: "fs_wf s \<Longrightarrow> touched A s s"
  by (simp add: touched_def)

lemma touched_trans: "touched A s u \<Longrightarrow> touched A u v \<Longrightarrow> touched A s v"
  by (simp add: touched_def)

lemma touched_tick: "touched A s (tick u) = touched A s u"
  by (simp add: touched_def)

lemma sole_tick: "sole_name t i (tick s) = sole_name t i s"
  by (simp add: sole_name_def)

lemma touched_new:
  assumes "touched A s u" "p \<in> A"
  shows "touched A s (new_file w p u)"
proof -
  have old: "i < next_ino u" if "file_at u q = Some i" for q i using assms(1) that by (auto simp: touched_def fs_wf_def)
  have "bytes_at (new_file w p u) q = bytes_at u q" if "q \<noteq> p" for q
    using that old [of q] by (cases "file_at u q") (auto simp: bytes_at_def)
  moreover have "fs_wf (new_file w p u)" using old by (auto simp: fs_wf_def less_SucI)
  ultimately show ?thesis using assms unfolding touched_def by metis
qed

lemma touched_write:
  assumes "touched A s u" "sole_name p i u" "p \<in> A"
  shows "touched A s (u\<lparr>content := (content u)(i := b), mtime := m\<rparr>)"
proof -
  have "file_at u q \<noteq> Some i" if "q \<notin> A" for q using assms(2,3) that by (auto simp: sole_name_def)
  then have "bytes_at (u\<lparr>content := (content u)(i := b), mtime := m\<rparr>) q = bytes_at u q" if "q \<notin> A" for q
    using that by (cases "file_at u q") (auto simp: bytes_at_def)
  with assms(1) show ?thesis by (simp add: touched_def fs_wf_def)
qed

lemma touched_move:
  assumes "touched A s u" "file_at u p = Some i" "p \<in> A" "q \<in> A"
  shows "touched A s (u\<lparr>files := AList.update q i (AList.delete p (files u))\<rparr>)"
  using assms by (auto simp: touched_def fs_wf_def bytes_at_def update_conv' delete_conv')

lemma touched_delete: "touched A s u \<Longrightarrow> p \<in> A \<Longrightarrow> touched A s (u\<lparr>files := AList.delete p (files u)\<rparr>)"
  using fs_wf_delete [of u p] by (auto simp: touched_def bytes_at_def delete_conv')

text \<open>\<^verbatim>\<open>Index\<close> depends on the bytes of the index file only.\<close>

definition index_of :: "index_codec \<Rightarrow> string option \<Rightarrow> go_error + store_index" where
  "index_of c ob =
     (case ob of
        None \<Rightarrow> Inr \<lparr>si_SchemaVersion = IndexSchemaVersion, si_Entries = []\<rparr>
      | Some b \<Rightarrow>
          (case ic_Unmarshal c b of
             Inl e \<Rightarrow> Inl (DfError Environment ''store: parse index'' '''' (Some e))
           | Inr idx \<Rightarrow>
               Inr (if si_SchemaVersion idx = '''' then idx\<lparr>si_SchemaVersion := IndexSchemaVersion\<rparr> else idx)))"

lemma store_Index_quiet:
  assumes "quiet w"
  shows "wp (store_Index w c root) (\<lambda>r u. r = index_of c (bytes_at s (indexPath root)) \<and> (\<exists>k. u = (tick ^^ k) s)) s"
proof -
  have k: "\<exists>k. tick s = (tick ^^ k) s" "\<exists>k. tick (tick s) = (tick ^^ k) s"
    by (rule exI [of _ 1], simp) (rule exI [of _ 2], simp add: eval_nat_numeral)
  show ?thesis
    by (cases "file_at s (indexPath root)")
      (simp_all add: store_Index_def read_file_def wp_simps quiet_wp [OF assms] quiet_wp_at [OF assms]
        index_of_def bytes_at_def k split: sum.splits)
qed

lemma writeIndexLocked_quiet:
  assumes root: "store_root root" and q: "quiet w" and s: "touched A s0 s"
    and m: "ic_Marshal c (normal_index idx) = Inr b"
    and A: "indexPath root \<in> A" "\<And>n. index_temp w root n \<in> A" and free: "\<And>n. file_at s (index_temp w root n) = None"
  shows "wp (writeIndexLocked w c root idx) (\<lambda>r u. r = None \<and> touched A s0 u \<and>
    bytes_at u (indexPath root) = Some (b @ [char_of (10 :: nat)]) \<and>
    (\<forall>p. p \<noteq> indexPath root \<longrightarrow> (\<forall>n. p \<noteq> index_temp w root n) \<longrightarrow> bytes_at u p = bytes_at s p)) s"
proof -
  define t where "t = index_temp w root (Suc (ticks s))"
  let ?b = "b @ [char_of (10 :: nat)]"
  define v where "v = (tick (new_file w t (tick s)))\<lparr>content := (content (new_file w t (tick s)))(next_ino s := ?b),
    mtime := (mtime (new_file w t (tick s)))(next_ino s := clock w (Suc (ticks (new_file w t (tick s)))))\<rparr>"
  have wf: "fs_wf s" using s by (simp add: touched_def)
  have sole: "sole_name t (next_ino s) (new_file w t (tick s))"
    using new_file_sole [of "tick s" t w] wf free by (simp add: t_def)
  have old: "file_at s p \<noteq> Some (next_ino s)" for p using wf by (fastforce simp: fs_wf_def)
  have tA: "t \<in> A" using A(2) by (simp add: t_def)
  have ne: "indexPath root \<noteq> t" using beside_distinct(2) [OF root] by (metis t_def)
  have "touched A s0 (tick (new_file w t (tick s)))" "sole_name t (next_ino s) (tick (new_file w t (tick s)))"
    using touched_new [of A s0 "tick s" t w] s tA sole by (simp_all only: touched_tick sole_tick)
  from touched_write [OF this tA] have tv: "touched A s0 v" by (simp add: v_def)
  have fv: "map_of (files v) = (map_of (files s))(t \<mapsto> next_ino s)" "content v (next_ino s) = ?b"
    by (simp_all add: v_def)
  have keep: "bytes_at v p = bytes_at s p" if "p \<noteq> t" for p
    using that old [of p] by (cases "file_at s p") (auto simp: bytes_at_def v_def)
  have temp: "wp (create_temp w root ''.index-'' ''.json'') Q s = Q (Inr (t, next_ino s)) (new_file w t (tick s))" for Q
    by (rule quiet_wp_create [OF q]) (simp_all only: t_def index_temp_def free [unfolded index_temp_def])
  define u where "u = (tick (tick (tick v)))\<lparr>files := AList.update (indexPath root) (next_ino s) (AList.delete t (files v))\<rparr>"
  have "touched A s0 (tick (tick (tick v)))" using tv by (simp add: touched_tick)
  from touched_move [OF this, of t "next_ino s" "indexPath root"] fv tA A(1)
  have tu: "touched A s0 u" by (simp add: u_def)
  have bu: "bytes_at u (indexPath root) = Some ?b" using fv by (simp add: u_def bytes_at_def update_conv')
  have ku: "bytes_at u p = bytes_at s p" if "p \<noteq> indexPath root" "p \<noteq> t" for p
    using that keep [of p] by (simp add: u_def bytes_at_def update_conv' delete_conv')
  have "file_at (tick (tick v)) (indexPath root) \<noteq> Some (next_ino s)" using fv ne old by simp
  then have mv: "wp (rename_file w t (indexPath root)) Q (tick (tick v)) = Q (Inr ()) u" for Q
    using fv by (subst quiet_wp_at(7) [OF q, of _ _ "next_ino s"]) (simp_all add: u_def)
  have wr: "wp (write_from w t (next_ino s) (\<lambda>_. (?b, None))) Q (new_file w t (tick s)) = Q (Inr ?b) v" for Q
    by (subst quiet_wp_write [OF q]) (simp_all add: v_def)
  let ?Q = "\<lambda>r u. r = None \<and> touched A s0 u \<and> bytes_at u (indexPath root) = Some ?b \<and>
    (\<forall>p. p \<noteq> indexPath root \<longrightarrow> (\<forall>n. p \<noteq> index_temp w root n) \<longrightarrow> bytes_at u p = bytes_at s p)"
  have "?Q None u" using tu bu ku by (auto simp: t_def)
  then show ?thesis
    by (simp only: writeIndexLocked_def write_temp_index_def m wp_bind temp sum.case prod.case wr
        quiet_wp(2,3) [OF q] mv wp_ret)
qed

text \<open>Taking the lock when it is free.\<close>

lemma lock_attempt_quiet:
  assumes q: "quiet w" and wf: "fs_wf s" and free: "file_at s (lockPath root) = None" and A: "lockPath root \<in> A"
  shows "wp (lock_attempt w root note dl) (\<lambda>r u. r = Some (Inr ()) \<and> touched A s u) s"
proof -
  let ?n = "new_file w (lockPath root) (tick s)"
  let ?u = "(tick ?n)\<lparr>content := (content ?n)(next_ino s := note),
    mtime := (mtime ?n)(next_ino s := clock w (Suc (ticks ?n)))\<rparr>"
  have create: "wp (create_excl w (lockPath root)) Q s = Q (Inr (next_ino s)) ?n" for Q
    using free by (simp add: create_excl_def quiet_sys [OF q])
  have wr: "wp (write_from w (lockPath root) (next_ino s) (\<lambda>_. (note, None))) Q ?n = Q (Inr note) ?u" for Q
    by (subst quiet_wp_write [OF q]) simp_all
  have "sole_name (lockPath root) (next_ino s) (tick ?n)"
    using new_file_sole [of "tick s" "lockPath root" w] wf free by (simp add: sole_tick)
  then have "touched A s (tick (?u))"
    using wf A touched_write [of A s "tick ?n" "lockPath root" "next_ino s"] touched_new [of A s "tick s" "lockPath root" w]
    by (simp add: touched_tick touched_refl)
  then show ?thesis
    by (simp only: lock_attempt_def wp_bind_fun create sum.case wr quiet_wp(3) [OF q] wp_ret simp_thms)
qed

lemma lockIndex_quiet:
  assumes q: "quiet w" and wf: "fs_wf s" and free: "file_at s (lockPath root) = None" and A: "lockPath root \<in> A"
  shows "\<exists>u. lockIndex w root note s = Some (Inr (), u) \<and> touched A s u"
proof -
  obtain r u where run: "run_state (lock_attempt w root note (clock w (ticks s) + lockWaitBudget)) s = (r, u)"
    by (cases "run_state (lock_attempt w root note (clock w (ticks s) + lockWaitBudget)) s")
  from wp_run [OF lock_attempt_quiet [OF assms] run] show ?thesis
    by (simp add: lockIndex_def lock_loop_unfold run)
qed

definition index_files :: "world \<Rightarrow> path \<Rightarrow> path set" where
  "index_files w root = insert (lockPath root) (insert (indexPath root) (range (index_temp w root)))"

lemma index_files_no_objects:
  assumes "store_root root" "touched (index_files w root) s u"
  shows "objects root u = objects root s"
proof (rule objects_cong)
  fix d assume "digest_Valid d"
  then have "store_Path root d \<notin> index_files w root"
    using beside_distinct(4-6) [OF assms(1)] by (auto simp: index_files_def)
  with assms(2) show "bytes_at u (store_Path root d) = bytes_at s (store_Path root d)" by (simp add: touched_def)
qed

lemma with_lock_quiet:
  assumes root: "store_root root" and q: "quiet w" and wf: "fs_wf s" and free: "file_at s (lockPath root) = None"
    and body: "\<And>u. touched {lockPath root} s u \<Longrightarrow>
      wp body (\<lambda>r v. touched (index_files w root) s v \<and> R r (bytes_at v (indexPath root))) u"
  shows "\<exists>r v. with_lock w root msg failed body s = Some (r, v) \<and> touched (index_files w root) s v \<and>
    R r (bytes_at v (indexPath root)) \<and> file_at v (lockPath root) = None"
proof -
  obtain u where lock: "lockIndex w root msg s = Some (Inr (), u)" and u: "touched {lockPath root} s u"
    using lockIndex_quiet [OF q wf free] by blast
  have unlock: "wp (unlockIndex w root) (\<lambda>_ x. touched (index_files w root) s x \<and>
      R r (bytes_at x (indexPath root)) \<and> file_at x (lockPath root) = None) v"
    if v: "touched (index_files w root) s v" "R r (bytes_at v (indexPath root))" for r v
  proof (cases "file_at v (lockPath root)")
    case None
    with v show ?thesis by (simp add: unlockIndex_def wp_simps quiet_wp_at [OF q] touched_tick)
  next
    case (Some i)
    have "touched (index_files w root) s ((tick v)\<lparr>files := AList.delete (lockPath root) (files v)\<rparr>)"
      using touched_delete [of "index_files w root" s "tick v" "lockPath root"] v(1)
      by (simp add: touched_tick index_files_def)
    with Some v(2) show ?thesis
      using beside_distinct(1) [OF root]
      by (simp add: unlockIndex_def wp_simps quiet_wp_at [OF q] bytes_at_def delete_conv')
  qed
  obtain r v where run: "run_state (do { r \<leftarrow> body; unlockIndex w root; ret r }) u = (r, v)"
    by (cases "run_state (do { r \<leftarrow> body; unlockIndex w root; ret r }) u")
  have "wp (do { r \<leftarrow> body; unlockIndex w root; ret r }) (\<lambda>r x. touched (index_files w root) s x \<and>
      R r (bytes_at x (indexPath root)) \<and> file_at x (lockPath root) = None) u"
    unfolding wp_bind wp_ret by (rule wp_mono [OF body [OF u]]) (blast intro: unlock)
  from wp_run [OF this run] show ?thesis
    by (intro exI [of _ r] exI [of _ v]) (simp only: with_lock_def lock run option.case prod.case sum.case simp_thms)
qed

section \<open>Recording an entry\<close>

text \<open>The codec reads back the index it wrote; both checked on the index in question only.\<close>

definition codec_roundtrip :: "index_codec \<Rightarrow> store_index \<Rightarrow> bool" where
  "codec_roundtrip c idx \<longleftrightarrow>
     (\<exists>b. ic_Marshal c idx = Inr b \<and> ic_Unmarshal c (b @ [char_of (10 :: nat)]) = Inr idx)"

definition recorded :: "(int \<Rightarrow> string) \<Rightarrow> int \<Rightarrow> index_entry \<Rightarrow> store_index \<Rightarrow> store_index" where
  "recorded stamp t e idx =
     normal_index (idx\<lparr>si_Entries := record_entry (stamp_entry stamp t e) (si_Entries idx)\<rparr>)"

lemma stamp_entry_digest [simp]: "ie_Digest (stamp_entry stamp t e) = ie_Digest e"
  by (simp add: stamp_entry_def)

lemma recorded_spec:
  assumes "distinct (map ie_Digest (si_Entries idx))"
  shows "si_SchemaVersion (recorded stamp t e idx) = IndexSchemaVersion"
    "sorted (map ie_Digest (si_Entries (recorded stamp t e idx)))"
    "distinct (map ie_Digest (si_Entries (recorded stamp t e idx)))"
    "index_lookup (si_Entries (recorded stamp t e idx)) d =
       (if d = ie_Digest e then Some (stamp_entry stamp t e) else index_lookup (si_Entries idx) d)"
proof -
  have dist: "distinct (map ie_Digest (record_entry (stamp_entry stamp t e) (si_Entries idx)))"
    using assms by (rule record_entry_distinct)
  show "si_SchemaVersion (recorded stamp t e idx) = IndexSchemaVersion"
    "sorted (map ie_Digest (si_Entries (recorded stamp t e idx)))"
    "distinct (map ie_Digest (si_Entries (recorded stamp t e idx)))"
    using dist by (simp_all add: recorded_def normal_index_def index_entries.slice_stable_sorted sorted_entries_distinct)
  show "index_lookup (si_Entries (recorded stamp t e idx)) d =
       (if d = ie_Digest e then Some (stamp_entry stamp t e) else index_lookup (si_Entries idx) d)"
    using dist unfolding recorded_def by (subst normal_index_lookup) (simp_all add: record_entry_lookup)
qed

lemma index_of_recorded:
  "codec_roundtrip c idx \<Longrightarrow> ic_Marshal c idx = Inr b \<Longrightarrow> si_SchemaVersion idx = IndexSchemaVersion \<Longrightarrow>
     index_of c (Some (b @ [char_of (10 :: nat)])) = Inr idx"
  by (auto simp: index_of_def codec_roundtrip_def IndexSchemaVersion_def)

lemma Record_quiet:
  assumes root: "store_root root" and q: "quiet w" and wf: "fs_wf s" and free: "file_at s (lockPath root) = None"
    and temps: "\<And>n. file_at s (index_temp w root n) = None"
    and idx: "index_of c (bytes_at s (indexPath root)) = Inr idx" "distinct (map ie_Digest (si_Entries idx))"
    and codec: "\<And>t. codec_roundtrip c (recorded stamp t e idx)" and e: "ie_Digest e \<noteq> ''''"
  shows "\<exists>t v. Record w c stamp root note e s = Some (None, v) \<and> touched (index_files w root) s v \<and>
    index_of c (bytes_at v (indexPath root)) = Inr (recorded stamp t e idx) \<and> file_at v (lockPath root) = None"
proof -
  let ?R = "\<lambda>r ob. r = None \<and> (\<exists>t. index_of c ob = Inr (recorded stamp t e idx))"
  have body: "wp (record_locked w c stamp root e)
      (\<lambda>r v. touched (index_files w root) s v \<and> ?R r (bytes_at v (indexPath root))) u"
    if u: "touched {lockPath root} s u" for u
  proof -
    have same: "bytes_at u p = bytes_at s p" if "p \<noteq> lockPath root" for p using u that by (simp add: touched_def)
    have u': "touched (index_files w root) s ((tick ^^ k) u)" for k
      using u by (induction k) (auto simp: touched_def index_files_def)
    have temps': "file_at ((tick ^^ k) u) (index_temp w root n) = None" for k n
      using same [OF beside_distinct(3) [OF root]] temps bytes_None ticks_unobserved(2) by metis
    have wr: "wp (writeIndexLocked w c root (idx\<lparr>si_Entries := record_entry (stamp_entry stamp t e) (si_Entries idx)\<rparr>))
        (\<lambda>r v. touched (index_files w root) s v \<and> ?R r (bytes_at v (indexPath root))) ((tick ^^ k) u)" for k t
    proof -
      obtain b where b: "ic_Marshal c (recorded stamp t e idx) = Inr b" using codec [of t] by (auto simp: codec_roundtrip_def)
      have "index_of c (Some (b @ [char_of (10 :: nat)])) = Inr (recorded stamp t e idx)"
        by (rule index_of_recorded [OF codec b recorded_spec(1) [OF idx(2)]])
      then show ?thesis
        by (intro wp_mono [OF writeIndexLocked_quiet [OF root q u' [of k] b [unfolded recorded_def] _ _ temps' [of k]]])
          (auto simp: index_files_def)
    qed
    have "index_of c (bytes_at u (indexPath root)) = Inr idx" using same beside_distinct(1) [OF root] idx(1) by simp
    with store_Index_quiet [OF q, of c root u] show ?thesis
      unfolding record_locked_def wp_bind
      by (elim wp_mono) (auto simp: wp_simps wr)
  qed
  from with_lock_quiet [OF root q wf free body, where msg = "note" and
      failed = "\<lambda>x. Some (DfError Environment (''store: record '' @ ie_Digest e) '''' (Some x))"] e
  show ?thesis unfolding Record_def by (simp only: if_False) blast
qed

section \<open>What garbage collection removes\<close>

text \<open>With nobody else acting, the files only become fewer, and no bytes change.\<close>

definition shrunk :: "fs \<Rightarrow> fs \<Rightarrow> bool" where
  "shrunk s u \<longleftrightarrow> content u = content s \<and> next_ino u = next_ino s \<and> (\<forall>p i. file_at u p = Some i \<longrightarrow> file_at s p = Some i)"

lemma shrunk_refl: "shrunk s s"
  by (simp add: shrunk_def)

lemma shrunk_trans: "shrunk s u \<Longrightarrow> shrunk u v \<Longrightarrow> shrunk s v"
  by (simp add: shrunk_def)

lemma shrunk_tick: "shrunk s (tick u) = shrunk s u"
  by (simp add: shrunk_def)

lemma shrunk_delete: "shrunk s u \<Longrightarrow> shrunk s (u\<lparr>files := AList.delete p (files u)\<rparr>)"
  by (auto simp: shrunk_def delete_conv' split: if_splits)

lemma shrunk_gone: "shrunk s u \<Longrightarrow> file_at s p = None \<Longrightarrow> file_at u p = None"
  by (cases "file_at u p") (auto simp: shrunk_def)

text \<open>The invariant of the loops: files whose last name is to be kept are untouched.\<close>

definition spares :: "(string \<Rightarrow> bool) \<Rightarrow> fs \<Rightarrow> fs \<Rightarrow> bool" where
  "spares keep s u \<longleftrightarrow> shrunk s u \<and>
     (\<forall>dir n. keep n \<longrightarrow> slash \<notin> set n \<longrightarrow> file_at u (dir @ slash # n) = file_at s (dir @ slash # n))"

lemma spares_refl: "spares keep s s"
  by (simp add: spares_def shrunk_refl)

lemma spares_tick: "spares keep s (tick u) = spares keep s u"
  by (simp add: spares_def shrunk_tick)

lemma spares_trans: "spares keep s u \<Longrightarrow> spares keep u v \<Longrightarrow> spares keep s v"
  by (auto simp: spares_def intro: shrunk_trans)

lemma spares_delete:
  assumes "spares keep s u" "\<not> keep n" "slash \<notin> set n"
  shows "spares keep s (u\<lparr>files := AList.delete (dir @ slash # n) (files u)\<rparr>)"
proof -
  have "dir' @ slash # m \<noteq> dir @ slash # n" if "keep m" "slash \<notin> set m" for dir' m
    using last_segment_unique [of dir' m dir n] that assms(2,3) by auto
  with assms(1) show ?thesis by (auto simp: spares_def delete_conv' intro: shrunk_delete)
qed

definition collectable :: "(string \<Rightarrow> bool) \<Rightarrow> string \<times> bool \<Rightarrow> bool" where
  "collectable keep x \<longleftrightarrow> \<not> snd x \<and> \<not> has_prefix (fst x) ''.'' \<and> \<not> keep (fst x)"

definition gc_post :: "(string \<Rightarrow> bool) \<Rightarrow> path set \<Rightarrow> gc_acc \<Rightarrow> fs \<Rightarrow> go_error option \<times> gc_acc \<Rightarrow> fs \<Rightarrow> bool" where
  "gc_post keep targets acc s r u \<longleftrightarrow> spares keep s u \<and>
     (\<forall>n \<in> set (snd (snd r)). n \<in> set (snd acc) \<or> \<not> keep n) \<and>
     (fst r = None \<longrightarrow> (\<forall>p \<in> targets. file_at u p = None))"

lemma gc_post_weaken:
  assumes "gc_post keep T' acc' s' r u" "spares keep s s'" "\<forall>n \<in> set (snd acc'). n \<in> set (snd acc) \<or> \<not> keep n"
    and "\<And>p. p \<in> T \<Longrightarrow> p \<in> T' \<or> file_at s' p = None"
  shows "gc_post keep T acc s r u"
proof -
  have u: "spares keep s' u" "shrunk s' u" using assms(1) by (simp_all add: gc_post_def spares_def)
  have "file_at u p = None" if "fst r = None" "p \<in> T" for p
    using assms(1) assms(4) [OF that(2)] shrunk_gone [OF u(2)] that(1) by (auto simp: gc_post_def)
  then show ?thesis
    using assms(1,3) spares_trans [OF assms(2) u(1)] by (auto simp: gc_post_def)
qed

lemma solo_sys:
  "(\<And>n s. meddle w n s = s) \<Longrightarrow> wp (sys w c g) Q s =
     (case fault w (ticks s) c of Some e \<Rightarrow> Q (Inl e) (tick s) | None \<Rightarrow> (case g (tick s) of (r, s') \<Rightarrow> Q r s'))"
  by (simp add: wp_def sys_def others_def tick_def split: option.splits)

lemma gc_objs_spec:
  assumes solo: "\<And>n s. meddle w n s = s"
  shows "\<forall>x \<in> set objs. slash \<notin> set (fst x) \<Longrightarrow>
    wp (gc_objs w keep dir objs acc)
      (gc_post keep {dir @ slash # fst x |x. x \<in> set objs \<and> collectable keep x} acc s) s"
proof (induction objs arbitrary: s acc)
  case Nil
  then show ?case by (simp add: wp_simps gc_post_def spares_refl)
next
  case (Cons x objs)
  obtain dg isDir where x: "x = (dg, isDir)" by (cases x)
  let ?T = "{dir @ slash # fst y |y. y \<in> set (x # objs) \<and> collectable keep y}"
  have stop: "gc_post keep ?T acc s (Some e, acc) u" if "spares keep s u" for e u
    using that by (simp add: gc_post_def)
  have rest: "wp (gc_objs w keep dir objs acc') (gc_post keep ?T acc s) u"
    if "spares keep s u" "\<forall>n \<in> set (snd acc'). n \<in> set (snd acc) \<or> \<not> keep n"
      "collectable keep x \<Longrightarrow> file_at u (dir @ slash # dg) = None" for u acc'
  proof (rule wp_mono)
    show "wp (gc_objs w keep dir objs acc')
        (gc_post keep {dir @ slash # fst y |y. y \<in> set objs \<and> collectable keep y} acc' u) u"
      using Cons.prems by (intro Cons.IH) simp
    fix r v assume "gc_post keep {dir @ slash # fst y |y. y \<in> set objs \<and> collectable keep y} acc' u r v"
    then show "gc_post keep ?T acc s r v"
      by (rule gc_post_weaken [OF _ that(1,2)]) (use that(3) x in auto)
  qed
  have t: "spares keep s (tick s)" by (simp add: spares_tick spares_refl)
  show ?case
  proof (cases "cancelled w (ticks s) \<noteq> None \<or> isDir \<or> has_prefix dg ''.''")
    case True
    then show ?thesis
      using stop [OF spares_refl] rest [OF spares_refl, of acc]
      by (auto simp: x wp_simps collectable_def split: option.splits)
  next
    case False
    have next': "wp (if keep dg then gc_objs w keep dir objs (count_kept len (fst acc), snd acc)
        else do {
          r \<leftarrow> remove_file w (dir @ slash # dg);
          case r of
            Inl e \<Rightarrow> ret (Some (env_error (''store: gc: remove '' @ dg) e), acc)
          | Inr _ \<Rightarrow> gc_objs w keep dir objs (count_removed len (fst acc), dg # snd acc) })
        (gc_post keep ?T acc s) (tick s)" for len
    proof (cases "keep dg")
      case True
      then show ?thesis using rest [OF t, of "(count_kept len (fst acc), snd acc)"] x by (simp add: collectable_def)
    next
      case False
      have tt: "spares keep s (tick (tick s))" by (simp add: spares_tick spares_refl)
      then have del: "spares keep s ((tick (tick s))\<lparr>files := AList.delete (dir @ slash # dg) (files s)\<rparr>)"
        using spares_delete [OF tt False, of dir] Cons.prems x by simp
      show ?thesis
        using False stop [OF tt] rest [OF del, of "(count_removed len (fst acc), dg # snd acc)"]
        by (auto simp: wp_simps remove_file_def solo_sys [OF solo] delete_conv' split: option.splits)
    qed
    show ?thesis
      using False next'
      by (auto simp: x wp_bind wp_ctx_err stat_file_def solo_sys [OF solo] Let_def split: option.splits)
  qed
qed

lemma takeWhile_no_sep: "slash \<notin> set (takeWhile (\<lambda>c. c \<noteq> slash) xs)"
  by (induction xs) auto

lemma dir_entries_no_slash: "x \<in> set (dir_entries s d) \<Longrightarrow> slash \<notin> set (fst x)"
  by (auto simp: dir_entries_def dest: set_takeWhileD)

lemma below_file:
  assumes "file_at s (d @ slash # q) \<noteq> None"
  shows "q \<in> set (below s d)"
proof -
  obtain i where "(d @ slash # q, i) \<in> set (files s)" using assms by (auto dest: map_of_SomeD)
  moreover have "has_prefix (d @ slash # q) (d @ [slash])" by (simp add: has_prefix_iff)
  ultimately show ?thesis
    unfolding below_def set_map by (intro image_eqI [of _ _ "(d @ slash # q, i)"]) simp_all
qed

lemma dir_entries_file:
  assumes "file_at s (d @ slash # n) \<noteq> None" "slash \<notin> set n"
  shows "(n, False) \<in> set (dir_entries s d)"
proof -
  have "takeWhile (\<lambda>c. c \<noteq> slash) n = n" using assms(2) by (induction n) auto
  then have "n \<in> set (map (takeWhile (\<lambda>c. c \<noteq> slash)) (below s d))"
    using below_file [OF assms(1)] unfolding set_map by (metis image_eqI)
  with assms(1) show ?thesis by (auto simp: dir_entries_def)
qed

text \<open>No file is also a directory.\<close>

definition tree_ok :: "fs \<Rightarrow> bool" where
  "tree_ok s \<longleftrightarrow> (\<forall>p q. file_at s p \<noteq> None \<longrightarrow> file_at s (p @ slash # q) = None)"

lemma dir_entries_dir:
  assumes "tree_ok s" "file_at s (d @ slash # sh @ slash # n) \<noteq> None" "slash \<notin> set sh"
  shows "(sh, True) \<in> set (dir_entries s d)"
proof -
  have "takeWhile (\<lambda>c. c \<noteq> slash) (sh @ slash # n) = sh" using assms(3) by (induction sh) auto
  then have "sh \<in> set (map (takeWhile (\<lambda>c. c \<noteq> slash)) (below s d))"
    using below_file [OF assms(2)] unfolding set_map by (metis image_eqI)
  moreover have "file_at s (d @ slash # sh) = None"
    using assms(1,2) unfolding tree_ok_def by (metis append_Cons append_assoc)
  ultimately show ?thesis by (auto simp: dir_entries_def)
qed

definition targets :: "(string \<Rightarrow> bool) \<Rightarrow> path \<Rightarrow> (string \<times> bool) set \<Rightarrow> path set" where
  "targets keep shaDir shards =
     {shaDir @ slash # sh @ slash # n |sh n. (sh, True) \<in> shards \<and> sh \<noteq> ''tmp'' \<and> slash \<notin> set n \<and>
        \<not> has_prefix n ''.'' \<and> \<not> keep n}"

lemma gc_shards_spec:
  assumes solo: "\<And>n s. meddle w n s = s"
  shows "wp (gc_shards w keep shaDir shards acc) (gc_post keep (targets keep shaDir (set shards)) acc s) s"
proof (induction shards arbitrary: s acc)
  case Nil
  then show ?case by (simp add: wp_simps gc_post_def spares_refl targets_def)
next
  case (Cons x shards)
  obtain sh isDir where x: "x = (sh, isDir)" by (cases x)
  let ?T = "targets keep shaDir (set (x # shards))" and ?d = "shaDir @ slash # sh"
  have rest: "wp (gc_shards w keep shaDir shards acc') (gc_post keep ?T acc s) u"
    if "spares keep s u" "\<forall>n \<in> set (snd acc'). n \<in> set (snd acc) \<or> \<not> keep n"
      "\<And>p. p \<in> targets keep shaDir {x} \<Longrightarrow> file_at u p = None" for u acc'
  proof (rule wp_mono [OF Cons.IH])
    fix r v assume "gc_post keep (targets keep shaDir (set shards)) acc' u r v"
    then show "gc_post keep ?T acc s r v"
      by (rule gc_post_weaken [OF _ that(1,2)]) (use that(3) in \<open>auto simp: targets_def\<close>)
  qed
  show ?case
  proof (cases "\<not> isDir \<or> sh = ''tmp''")
    case True
    then have "targets keep shaDir {x} = {}" by (auto simp: targets_def x)
    with True rest [OF spares_refl, of acc] show ?thesis by (auto simp: x)
  next
    case False
    let ?objs = "dir_entries (tick s) ?d"
    have t: "spares keep s (tick s)" by (simp add: spares_tick spares_refl)
    have objs: "wp (gc_objs w keep ?d ?objs acc) (\<lambda>r. wp (case r of
          (Some e, acc') \<Rightarrow> ret (Some e, acc')
        | (None, acc') \<Rightarrow> gc_shards w keep shaDir shards acc') (gc_post keep ?T acc s)) (tick s)"
    proof (rule wp_mono [OF gc_objs_spec [OF solo]])
      fix r u
      assume post: "gc_post keep {?d @ slash # fst y |y. y \<in> set ?objs \<and> collectable keep y} acc (tick s) r u"
      obtain err acc' where r: "r = (err, acc')" by (cases r)
      have sp: "spares keep s u" using post t by (auto simp: gc_post_def intro: spares_trans)
      have acc': "\<forall>n \<in> set (snd acc'). n \<in> set (snd acc) \<or> \<not> keep n" using post r by (simp add: gc_post_def)
      show "wp (case r of (Some e, acc') \<Rightarrow> ret (Some e, acc')
          | (None, acc') \<Rightarrow> gc_shards w keep shaDir shards acc') (gc_post keep ?T acc s) u"
      proof (cases err)
        case None
        have "file_at u p = None" if p: "p \<in> targets keep shaDir {x}" for p
        proof -
          obtain n where n: "p = ?d @ slash # n" "slash \<notin> set n" "\<not> has_prefix n ''.''" "\<not> keep n"
            using p by (auto simp: targets_def x)
          show ?thesis
          proof (cases "file_at (tick s) p")
            case None
            then show ?thesis using post by (auto simp: gc_post_def spares_def intro: shrunk_gone)
          next
            case (Some i)
            then have "(n, False) \<in> set ?objs" using dir_entries_file [of "tick s" ?d n] n by simp
            then have "p \<in> {?d @ slash # fst y |y. y \<in> set ?objs \<and> collectable keep y}"
              using n by (force simp: collectable_def)
            with post None r \<open>err = None\<close> show ?thesis by (auto simp: gc_post_def)
          qed
        qed
        with rest [OF sp acc'] show ?thesis by (simp add: r None)
      qed (use sp acc' in \<open>simp add: r wp_simps gc_post_def\<close>)
    qed (use dir_entries_no_slash in blast)
    have "gc_post keep ?T acc s (Some e, acc) (tick s)" for e using t by (simp add: gc_post_def)
    with False objs show ?thesis
      by (auto simp: x wp_bind wp_ret read_dir_def solo_sys [OF solo] split: option.splits)
  qed
qed

text \<open>The scan: with no error, every object that is not to be kept is gone.\<close>

lemma gc_scan_spec:
  assumes root: "store_root root" and solo: "\<And>n s. meddle w n s = s" and tree: "tree_ok s"
    and stat: "\<And>n. fault w n (StatFile (root @ ''/sha256'')) \<noteq> Some ErrNotExist"
  shows "wp (gc_scan w keep root) (\<lambda>r u. spares keep s u \<and> (\<forall>n \<in> set (snd (snd r)). \<not> keep n) \<and>
    (fst r = None \<longrightarrow> (\<forall>d. digest_Valid d \<longrightarrow> \<not> keep d \<longrightarrow> file_at u (store_Path root d) = None))) s"
proof -
  let ?sd = "root @ ''/sha256''"
  let ?Q = "\<lambda>r u. spares keep s u \<and> (\<forall>n \<in> set (snd (snd r)). \<not> keep n) \<and>
    (fst r = None \<longrightarrow> (\<forall>d. digest_Valid d \<longrightarrow> \<not> keep d \<longrightarrow> file_at u (store_Path root d) = None))"
  have path: "store_Path root d = ?sd @ slash # take 2 d @ slash # d" if "digest_Valid d" for d
    using store_Path_eq [OF root that] by (simp add: sha_area_def)
  have shards: "wp (gc_shards w keep ?sd (dir_entries s ?sd) (z, [])) ?Q u"
    if u: "files u = files s" "content u = content s" "next_ino u = next_ino s" for u and z :: gc_stats
  proof (rule wp_mono [OF gc_shards_spec [OF solo]])
    fix r v assume post: "gc_post keep (targets keep ?sd (set (dir_entries s ?sd))) (z, []) u r v"
    have su: "spares keep s u" by (simp add: spares_def shrunk_def u)
    have v: "spares keep s v" using post spares_trans [OF su] by (simp add: gc_post_def)
    have "file_at v (store_Path root d) = None" if "fst r = None" "digest_Valid d" "\<not> keep d" for d
    proof (cases "file_at s (store_Path root d)")
      case None
      then show ?thesis using v by (auto simp: spares_def intro: shrunk_gone)
    next
      case (Some i)
      note vp = valid_parts [OF that(2)]
      have "take 2 d \<noteq> ''tmp''" using vp(5) by (auto dest: arg_cong [where f = length])
      moreover have "\<not> has_prefix d ''.''" using vp(1) by (auto simp: has_prefix_iff is_hex_byte_def)
      moreover have "(take 2 d, True) \<in> set (dir_entries s ?sd)"
        using dir_entries_dir [OF tree, of ?sd "take 2 d" d] Some path [OF that(2)] hex_no_slash [OF vp(3)] by simp
      ultimately have "store_Path root d \<in> targets keep ?sd (set (dir_entries s ?sd))"
        using path [OF that(2)] hex_no_slash [OF vp(1)] that(3) by (auto simp: targets_def)
      with post that(1) show ?thesis by (simp add: gc_post_def)
    qed
    then show "?Q r v" using v post by (simp add: gc_post_def)
  qed
  have ticked: "spares keep s (tick s)" "spares keep s (tick (tick s))" by (simp_all add: spares_tick spares_refl)
  have none: "file_at s (store_Path root d) = None" if "below s ?sd = []" "digest_Valid d" for d
  proof (rule ccontr)
    assume "file_at s (store_Path root d) \<noteq> None"
    then have "take 2 d @ slash # d \<in> set (below s ?sd)"
      unfolding path [OF that(2)] by (intro below_file) simp
    with that(1) show False by simp
  qed
  have be: "below (tick s) ?sd = below s ?sd" "dir_entries (tick (tick s)) ?sd = dir_entries s ?sd"
    by (simp_all add: below_def dir_entries_def)
  have "wp (gc_read w keep ?sd) ?Q (tick s)"
    using shards [of "tick (tick s)" zero_stats] ticked
    by (auto simp: gc_read_def wp_bind read_dir_def solo_sys [OF solo] wp_ret be split: option.splits)
  with ticked none show ?thesis
    using stat [of "ticks s"]
    by (auto simp: gc_scan_def index_paths [OF root] Let_def stat_dir_def wp_bind wp_if wp_ret solo_sys [OF solo] be
        split: option.splits)
qed

section \<open>The index operations leave the objects alone, whatever fails\<close>

lemma stable_touched: "(\<And>n s. meddle w n s = s) \<Longrightarrow> stable w (touched A s0)"
  by (simp add: stable_def touched_def)

lemma stable_touched_sole: "(\<And>n s. meddle w n s = s) \<Longrightarrow> stable w (\<lambda>s. touched A s0 s \<and> sole_name t i s)"
  by (simp add: stable_def touched_def)

lemma keeps_touched:
  assumes "\<And>n s. meddle w n s = s"
  shows "p \<in> A \<Longrightarrow> keeps (touched A s0) (remove_file w p)"
    and "p \<in> A \<Longrightarrow> q \<in> A \<Longrightarrow> keeps (touched A s0) (rename_file w p q)"
  using stable_touched [OF assms, of A s0]
  by (auto intro!: keepsI wp_remove wp_rename touched_delete touched_move)

lemma write_touched:
  assumes solo: "\<And>n s. meddle w n s = s" and A: "t \<in> A" and s: "touched A s0 s" "sole_name t fd s"
    and rest: "\<And>r. keeps (touched A s0) (f r)"
  shows "wp (State_Monad.bind (write_from w t fd rd) f) (\<lambda>_. touched A s0) s"
  unfolding wp_bind
proof (rule wp_write [OF stable_touched_sole [OF solo, of A s0 t fd]], goal_cases)
  case 1
  with s show ?case by blast
next
  case (2 e u)
  then show ?case using rest by (blast intro: keepsD)
next
  case (3 b e m u)
  then have "touched A s0 (u\<lparr>content := (content u)(fd := b), mtime := (mtime u)(fd := m)\<rparr>)"
    using touched_write [of A s0 u t fd] A by blast
  then show ?case using rest by (blast intro: keepsD)
qed

lemma writeIndexLocked_touched:
  assumes root: "store_root root" and solo: "\<And>n s. meddle w n s = s"
    and A: "indexPath root \<in> A" "\<And>n. index_temp w root n \<in> A"
  shows "keeps (touched A s0) (writeIndexLocked w c root idx)"
proof -
  note J = stable_touched [OF solo, of A s0]
  have written: "wp (write_temp_index w root t fd b) (\<lambda>_. touched A s0) s"
    if "t \<in> A" "touched A s0 s" "sole_name t fd s" for t fd b s
    unfolding write_temp_index_def using that A(1)
    by (intro write_touched [OF solo, of t])
      (auto intro!: keeps_intros keeps_neutral [OF J] keeps_touched [OF solo])
  have temp: "keeps (touched A s0) (do {
        t \<leftarrow> create_temp w root ''.index-'' ''.json'';
        case t of
          Inl e \<Rightarrow> ret (Some (env_error ''store: create temp index'' e))
        | Inr (tmpName, fd) \<Rightarrow> write_temp_index w root tmpName fd b })" for b
    unfolding keeps_def wp_bind
  proof (intro allI impI, rule wp_create_temp [OF J], goal_cases)
    case (3 s n u)
    let ?t = "join_name root (''.index-'' @ rand w n @ ''.json'')"
    have "?t \<in> A" using A(2) [of n] by (simp add: index_temp_def)
    moreover have "sole_name ?t (next_ino u) (new_file w ?t u)"
      using 3 by (intro new_file_sole) (simp_all add: touched_def)
    moreover have "touched A s0 (new_file w ?t u)" using 3 calculation(1) by (intro touched_new)
    ultimately show ?case by (simp add: written)
  qed (simp_all add: wp_simps)
  show ?thesis
    unfolding writeIndexLocked_def by (auto intro!: keeps_intros temp)
qed

lemma gc_prune_touched:
  assumes root: "store_root root" and solo: "\<And>n s. meddle w n s = s"
    and A: "indexPath root \<in> A" "\<And>n. index_temp w root n \<in> A"
  shows "keeps (touched A s0) (gc_prune w c root removed)"
  unfolding gc_prune_def store_Index_def
  by (intro keeps_intros keeps_neutral [OF stable_touched [OF solo]] writeIndexLocked_touched [OF root solo A])

lemma lock_attempt_touched:
  assumes solo: "\<And>n s. meddle w n s = s" and A: "lockPath root \<in> A"
  shows "keeps (touched A s0) (lock_attempt w root note dl)"
proof -
  note J = stable_touched [OF solo, of A s0]
  have blocked: "keeps (touched A s0) (lock_blocked w root dl)"
    unfolding lock_blocked_def lock_wait_def
    by (intro keeps_intros keeps_neutral [OF J] keeps_touched [OF solo] A)
  have got: "wp (do {
         _ \<leftarrow> write_from w (lockPath root) (next_ino u) (\<lambda>_. (note, None));
         _ \<leftarrow> close_file w (lockPath root);
         ret (Some (Inr ())) }) (\<lambda>_. touched A s0) (new_file w (lockPath root) u)"
    if "touched A s0 u" "file_at u (lockPath root) = None" for u
    by (rule write_touched [OF solo A touched_new [OF that(1) A] new_file_sole])
      (use that in \<open>auto simp: touched_def [of _ _ u] intro!: keeps_intros keeps_neutral [OF J]\<close>)
  have "wp (create_excl w (lockPath root)) (\<lambda>f. wp (case f of
       Inr fd \<Rightarrow> do {
         _ \<leftarrow> write_from w (lockPath root) fd (\<lambda>_. (note, None));
         _ \<leftarrow> close_file w (lockPath root);
         ret (Some (Inr ())) }
     | Inl e \<Rightarrow>
         if e \<noteq> ErrExist \<and> e \<noteq> ErrPermission then
           ret (Some (Inl (WrapError (''store: create lock '' @ lockPath root @ '': '') (os_error e))))
         else lock_blocked w root dl) (\<lambda>_. touched A s0)) s" if s: "touched A s0 s" for s
    unfolding create_excl_def
    by (rule wp_sys [OF J s])
      (auto simp: got wp_if wp_ret intro: keepsD [OF blocked] split: option.splits)
  then show ?thesis
    unfolding lock_attempt_def keeps_def wp_bind_fun by simp
qed

lemma lockIndex_touched:
  assumes solo: "\<And>n s. meddle w n s = s" and A: "lockPath root \<in> A"
    and run: "lockIndex w root note s = Some (r, u)" and s: "touched A s0 s"
  shows "touched A s0 u"
proof -
  have "touched A s0 (snd y)"
    if "lock_loop w root note dl s = Some y" "(\<forall>n s. meddle w n s = s) \<and> lockPath root \<in> A \<and> touched A s0 s" for dl y
    using that
  proof (rule lock_loop.raw_induct [where P = "\<lambda>w root _ _ s y.
        (\<forall>n s. meddle w n s = s) \<and> lockPath root \<in> A \<and> touched A s0 s \<longrightarrow> touched A s0 (snd y)",
        THEN mp, rotated], goal_cases)
    case (1 loop w root msg dl s y)
    show ?case
    proof
      assume as: "(\<forall>n s. meddle w n s = s) \<and> lockPath root \<in> A \<and> touched A s0 s"
      obtain r v where run: "run_state (lock_attempt w root msg dl) s = (r, v)"
        by (cases "run_state (lock_attempt w root msg dl) s")
      have "keeps (touched A s0) (lock_attempt w root msg dl)" using as by (intro lock_attempt_touched) auto
      from keeps_run [OF this _ run] as have "touched A s0 v" by blast
      with 1 run as show "touched A s0 (snd y)" by (cases r) auto
    qed
  qed
  with run s solo A show ?thesis by (fastforce simp: lockIndex_def)
qed

lemma with_lock_touched:
  assumes solo: "\<And>n s. meddle w n s = s" and A: "lockPath root \<in> A" and s: "touched A s0 s"
    and body: "keeps (touched A s0) body" and run: "with_lock w root note failed body s = Some (r, u)"
  shows "touched A s0 u"
proof -
  have all: "keeps (touched A s0) (do { r \<leftarrow> body; unlockIndex w root; ret r })"
    unfolding unlockIndex_def by (intro keeps_intros body keeps_touched [OF solo] A)
  obtain lr s1 where lock: "lockIndex w root note s = Some (lr, s1)"
    using run by (auto simp: with_lock_def split: option.splits)
  have s1: "touched A s0 s1" by (rule lockIndex_touched [OF solo A lock s])
  show ?thesis
  proof (cases lr)
    case (Inl e)
    with run lock s1 show ?thesis by (simp add: with_lock_def)
  next
    case (Inr x)
    then have "run_state (do { r \<leftarrow> body; unlockIndex w root; ret r }) s1 = (r, u)"
      using run lock by (simp only: with_lock_def option.case prod.case sum.case option.inject)
    from keeps_run [OF all s1 this] show ?thesis .
  qed
qed

lemma spares_objects:
  assumes root: "store_root root" and "spares keep s u"
  shows "keep d \<Longrightarrow> objects root u d = objects root s d"
    and "objects root u d = Some b \<Longrightarrow> objects root s d = Some b"
proof -
  have path: "store_Path root d = (sha_area root @ take 2 d) @ slash # d" "slash \<notin> set d" if "digest_Valid d"
    using store_Path_eq [OF root that] hex_no_slash [OF valid_parts(1) [OF that]] by simp_all
  then show "keep d \<Longrightarrow> objects root u d = objects root s d"
    using assms(2) unfolding spares_def shrunk_def objects_def bytes_at_def by metis
  show "objects root u d = Some b \<Longrightarrow> objects root s d = Some b"
    using assms(2) by (auto simp: spares_def shrunk_def objects_def bytes_at_def split: if_splits)
qed

section \<open>Properties\<close>

text \<open>C32. Garbage collection removes what it may and nothing else. Whatever calls fail and whenever the
  context is cancelled, every object that \<^verbatim>\<open>keep\<close> accepts is untouched and no object changes; and when \<^verbatim>\<open>GC\<close>
  returns without an error, no object that \<^verbatim>\<open>keep\<close> rejects is left. (No other process acts, no file is
  also a directory, and the look at the object directory does not claim that it is missing when it is
  there.)\<close>

theorem GC_keeps_and_removes:
  assumes "store_root root" "\<And>n s. meddle w n s = s" "fs_wf s" "tree_ok s"
    and "\<And>n. fault w n (StatFile (root @ ''/sha256'')) \<noteq> Some ErrNotExist"
    and "GC w c root note keep s = Some ((stats, err), s')"
  shows "(\<forall>d. keep d \<longrightarrow> objects root s' d = objects root s d) \<and>
    (\<forall>d b. objects root s' d = Some b \<longrightarrow> objects root s d = Some b) \<and>
    (err = None \<longrightarrow> (\<forall>d. \<not> keep d \<longrightarrow> objects root s' d = None))"
proof -
  obtain r u where scan: "run_state (gc_scan w keep root) s = (r, u)" by (cases "run_state (gc_scan w keep root) s")
  note post = wp_run [OF gc_scan_spec [OF assms(1,2,4,5)] scan]
  then have u: "spares keep s u" by blast
  have gone: "objects root u d = None" if "fst r = None" "\<not> keep d" for d
    using post that by (auto simp: objects_def bytes_at_def)
  have wf: "touched (index_files w root) u u"
    using u assms(3) by (auto simp: touched_def fs_wf_def spares_def shrunk_def)
  obtain e st rem where r: "r = (e, st, rem)" by (cases r)
  have same: "objects root s' = objects root u" and err: "err = None \<Longrightarrow> e = None"
  proof -
    consider (stop) x where "e = Some x" "s' = u" "err = Some x" | (none) "e = None" "rem = []" "s' = u"
      | (prune) "e = None" "with_lock w root note (\<lambda>e. Some (DfError Environment ''store: gc: lock index'' '''' (Some e)))
              (gc_prune w c root rem) u = Some (err, s')"
      using assms(6) by (auto simp: GC_def scan r split: option.splits if_splits)
    note cs = this
    show "err = None \<Longrightarrow> e = None" using cs by cases auto
    show "objects root s' = objects root u"
      using cs
    proof cases
      case prune
      have "touched (index_files w root) u s'"
        by (rule with_lock_touched [OF assms(2) _ wf gc_prune_touched [OF assms(1,2)] prune(2)])
          (auto simp: index_files_def)
      then show ?thesis by (rule index_files_no_objects [OF assms(1)])
    qed auto
  qed
  show ?thesis
    unfolding same
  proof (intro conjI allI impI)
    show "objects root u d = objects root s d" if "keep d" for d by (rule spares_objects(1) [OF assms(1) u that])
    show "objects root s d = Some b" if "objects root u d = Some b" for d b
      by (rule spares_objects(2) [OF assms(1) u that])
    show "objects root u d = None" if "err = None" "\<not> keep d" for d
      using gone [OF _ that(2)] err [OF that(1)] by (simp add: r)
  qed
qed

text \<open>A store with two objects, of which one is to be kept.\<close>

definition two_objects :: fs where
  "two_objects = one_file\<lparr>files := [(''/st/sha256/00/'' @ toy_hash ''deb'', 0), (''/st/sha256/00/'' @ toy_hash '''', 1)],
     content := \<lambda>i. if i = 0 then ''deb'' else '''', next_ino := 2\<rparr>"

definition no_codec :: index_codec where
  "no_codec = \<lparr>ic_Marshal = \<lambda>_. Inr '''', ic_Unmarshal = \<lambda>_. Inl (PlainError ''no index'')\<rparr>"

theorem GC_keeps_and_removes_witness:
  "\<exists>stats s'. GC slow no_codec ''/st'' ''pid=1'' (\<lambda>d. d = toy_hash ''deb'') two_objects = Some ((stats, None), s') \<and>
     objects ''/st'' s' (toy_hash ''deb'') = Some ''deb'' \<and> objects ''/st'' s' (toy_hash '''') = None"
proof -
  let ?k = "\<lambda>d. d = toy_hash ''deb''"
  have "case GC slow no_codec ''/st'' ''pid=1'' ?k two_objects of Some ((_, err), _) \<Rightarrow> err = None | None \<Rightarrow> False"
    by code_simp
  then obtain stats s' where gc: "GC slow no_codec ''/st'' ''pid=1'' ?k two_objects = Some ((stats, None), s')"
    by (auto split: option.splits)
  have solo: "\<And>n s. meddle slow n s = s" "\<And>n. fault slow n (StatFile (''/st'' @ ''/sha256'')) \<noteq> Some ErrNotExist"
    by (simp_all add: slow_def calm_def)
  have wf: "fs_wf two_objects" by (auto simp: fs_wf_def two_objects_def split: if_splits)
  have len: "length p = 78" if "file_at two_objects p \<noteq> None" for p
    using that by (auto simp: two_objects_def toy_hash_def split: if_splits)
  have "file_at two_objects (p @ slash # q) = None" if "file_at two_objects p \<noteq> None" for p q
  proof (rule ccontr)
    assume "file_at two_objects (p @ slash # q) \<noteq> None"
    from len [OF this] len [OF that] show False by simp
  qed
  then have tree: "tree_ok two_objects" by (simp add: tree_ok_def)
  have "objects ''/st'' two_objects (toy_hash ''deb'') = Some ''deb''" "toy_hash '''' \<noteq> toy_hash ''deb''"
    by code_simp+
  with GC_keeps_and_removes [OF st_root solo(1) wf tree solo(2) gc] gc show ?thesis by auto
qed

text \<open>Recording an entry and reading the index back gives the entry: with no faults, a free lock and a
  codec that reads back what it wrote, \<^verbatim>\<open>Record\<close> succeeds, releases the lock, leaves the objects alone, and
  the index read afterwards is sorted by digest without repetitions, binds the entry's digest to the
  entry (stamped when it had no time), and every other digest to what it was bound to before.\<close>

theorem Record_then_Index:
  assumes "store_root root" "quiet w" "fs_wf s" "file_at s (lockPath root) = None"
    and "\<And>n. file_at s (index_temp w root n) = None"
    and "fst (run_state (store_Index w c root) s) = Inr idx" "distinct (map ie_Digest (si_Entries idx))"
    and "\<And>t. codec_roundtrip c (recorded stamp t e idx)" "ie_Digest e \<noteq> ''''"
  shows "\<exists>t idx' s'. Record w c stamp root note e s = Some (None, s') \<and>
    fst (run_state (store_Index w c root) s') = Inr idx' \<and>
    file_at s' (lockPath root) = None \<and> objects root s' = objects root s \<and>
    sorted (map ie_Digest (si_Entries idx')) \<and> distinct (map ie_Digest (si_Entries idx')) \<and>
    (\<forall>d. index_lookup (si_Entries idx') d =
       (if d = ie_Digest e then Some (stamp_entry stamp t e) else index_lookup (si_Entries idx) d))"
proof -
  have read: "fst (run_state (store_Index w c root) u) = index_of c (bytes_at u (indexPath root))" for u
    using store_Index_quiet [OF assms(2), of c root u] by (simp add: wp_def split: prod.splits)
  obtain t v where v: "Record w c stamp root note e s = Some (None, v)" "touched (index_files w root) s v"
    "index_of c (bytes_at v (indexPath root)) = Inr (recorded stamp t e idx)" "file_at v (lockPath root) = None"
    using Record_quiet [OF assms(1-5) assms(6) [unfolded read] assms(7-9)] by blast
  show ?thesis
    using v index_files_no_objects [OF assms(1) v(2)] recorded_spec [OF assms(7)]
    by (intro exI [of _ t] exI [of _ "recorded stamp t e idx"] exI [of _ v]) (simp add: read)
qed

text \<open>A first entry, and a codec that knows the index holding it.\<close>

definition first_entry :: index_entry where
  "first_entry = \<lparr>ie_Digest = toy_hash ''deb'', ie_Name = ''a'', ie_Version = ''1'', ie_Arch = ''all'', ie_Size = 3,
     ie_Filename = ''a.deb'', ie_AddedAt = '''', ie_UserSupplied = False\<rparr>"

definition empty_index :: store_index where
  "empty_index = \<lparr>si_SchemaVersion = IndexSchemaVersion, si_Entries = []\<rparr>"

definition one_codec :: index_codec where
  "one_codec = \<lparr>ic_Marshal = \<lambda>_. Inr ''x'',
     ic_Unmarshal = \<lambda>_. Inr (recorded (\<lambda>_. ''now'') 0 first_entry empty_index)\<rparr>"

theorem Record_then_Index_witness:
  "\<exists>idx' s'. Record calm one_codec (\<lambda>_. ''now'') ''/st'' ''pid=1'' first_entry one_file = Some (None, s') \<and>
     fst (run_state (store_Index calm one_codec ''/st'') s') = Inr idx' \<and>
     map_option ie_AddedAt (index_lookup (si_Entries idx') (toy_hash ''deb'')) = Some ''now''"
proof -
  have free: "file_at one_file (lockPath ''/st'') = None" "file_at one_file (index_temp calm ''/st'' n) = None" for n
    by (simp_all add: index_paths [OF st_root] one_file_def index_temp_def join_name_def)
  have idx: "fst (run_state (store_Index calm one_codec ''/st'') one_file) = Inr empty_index"
    by code_simp
  have codec: "codec_roundtrip one_codec (recorded (\<lambda>_. ''now'') t first_entry empty_index)" for t
    by (simp add: codec_roundtrip_def one_codec_def recorded_def stamp_entry_def)
  have e: "ie_Digest first_entry \<noteq> ''''" "ie_AddedAt first_entry = ''''" "ie_Digest first_entry = toy_hash ''deb''"
    by (simp_all add: first_entry_def toy_hash_def)
  have "distinct (map ie_Digest (si_Entries empty_index))" by (simp add: empty_index_def)
  from Record_then_Index [OF st_root calm_quiet one_file_wf free idx this codec e(1)]
  obtain t idx' s' where "Record calm one_codec (\<lambda>_. ''now'') ''/st'' ''pid=1'' first_entry one_file = Some (None, s')"
    "fst (run_state (store_Index calm one_codec ''/st'') s') = Inr idx'"
    "index_lookup (si_Entries idx') (toy_hash ''deb'') = Some (stamp_entry (\<lambda>_. ''now'') t first_entry)"
    using e(3) by fastforce
  then show ?thesis by (auto simp: stamp_entry_def e(2))
qed

end
