(* ===== verification/Go_Rune.thy ===== *)
theory Go_Rune
  imports Go_Path Go_Text
begin

text \<open>
  Runes. A Go string is a byte string that \<^verbatim>\<open>range\<close> loops, \<^verbatim>\<open>strings.EqualFold\<close> and \<^verbatim>\<open>path.Match\<close> read as
  UTF-8, an invalid byte reading as the replacement character. The theory holds the encoder, the decoder,
  the sequence of runes of a string, and the simple case folding of runes.
\<close>

abbreviation single_quote :: char where "single_quote \<equiv> CHR 0x27"
abbreviation double_quote :: char where "double_quote \<equiv> CHR 0x22"
abbreviation backslash :: char where "backslash \<equiv> CHR 0x5C"
abbreviation carriage :: char where "carriage \<equiv> CHR 0x0D"

section \<open>Encoding and decoding\<close>

text \<open>\<^verbatim>\<open>utf8.AppendRune\<close> for a valid rune.\<close>

definition utf8_encode :: "nat \<Rightarrow> string" where
  "utf8_encode r =
     (if r < 128 then [char_of r]
      else if r < 2048 then [char_of (192 + r div 64), char_of (128 + r mod 64)]
      else if r < 65536 then [char_of (224 + r div 4096), char_of (128 + r div 64 mod 64), char_of (128 + r mod 64)]
      else [char_of (240 + r div 262144), char_of (128 + r div 4096 mod 64), char_of (128 + r div 64 mod 64),
            char_of (128 + r mod 64)])"

definition utf8_ValidRune :: "nat \<Rightarrow> bool" where
  "utf8_ValidRune r \<longleftrightarrow> r < 55296 \<or> 57343 < r \<and> r \<le> 1114111"

text \<open>The length of the encoding a string of non-ASCII bytes starts with, 0 if it is none.\<close>

definition rune_len :: "string \<Rightarrow> nat" where
  "rune_len s =
     (case s of
        a # b # s1 \<Rightarrow>
          if 194 \<le> byte a \<and> byte a \<le> 223 \<and> cont_byte b then 2
          else (case s1 of
            c # s2 \<Rightarrow>
              if lead3 a b \<and> cont_byte c then 3
              else (case s2 of d # _ \<Rightarrow> if lead4 a b \<and> cont_byte c \<and> cont_byte d then 4 else 0 | [] \<Rightarrow> 0)
          | [] \<Rightarrow> 0)
      | _ \<Rightarrow> 0)"

definition RuneError :: nat where
  "RuneError = 65533"

text \<open>\<^verbatim>\<open>utf8.DecodeRuneInString\<close>: the rune and the number of bytes it takes.\<close>

definition decode_rune :: "string \<Rightarrow> nat \<times> nat" where
  "decode_rune s =
     (case s of
        [] \<Rightarrow> (RuneError, 0)
      | a # _ \<Rightarrow>
          if byte a < 128 then (byte a, 1)
          else if rune_len s = 2 then ((byte a - 192) * 64 + (byte (s ! 1) - 128), 2)
          else if rune_len s = 3 then
            ((byte a - 224) * 4096 + (byte (s ! 1) - 128) * 64 + (byte (s ! 2) - 128), 3)
          else if rune_len s = 4 then
            ((byte a - 240) * 262144 + (byte (s ! 1) - 128) * 4096 + (byte (s ! 2) - 128) * 64
               + (byte (s ! 3) - 128), 4)
          else (RuneError, 1))"

lemma decode_rune_ascii [simp]: "byte c < 128 \<Longrightarrow> decode_rune (c # s) = (byte c, 1)"
  by (simp add: decode_rune_def)

lemma decode_rune_bounds: "s \<noteq> [] \<Longrightarrow> 0 < snd (decode_rune s) \<and> snd (decode_rune s) \<le> length s"
  by (cases s) (auto simp: decode_rune_def rune_len_def split: list.splits if_splits)

text \<open>The runes a \<^verbatim>\<open>range\<close> loop sees.\<close>

function runes :: "string \<Rightarrow> nat list" where
  "runes s = (if s = [] then [] else fst (decode_rune s) # runes (drop (snd (decode_rune s)) s))"
  by pat_completeness auto

termination
  using decode_rune_bounds by (relation "measure length") auto

declare runes.simps [simp del]

lemma runes_Nil [simp]: "runes [] = []"
  by (subst runes.simps) simp

lemma runes_ascii_Cons [simp]: "byte c < 128 \<Longrightarrow> runes (c # s) = byte c # runes s"
  by (subst runes.simps) simp

lemma runes_ascii: "list_all (\<lambda>c. byte c < 128) s \<Longrightarrow> runes s = map byte s"
  by (induction s) auto

section \<open>Folding\<close>

text \<open>
  The folding of \<^verbatim>\<open>strings.EqualFold\<close>: two runes are equal under it if they lie on one orbit of
  \<^verbatim>\<open>unicode.SimpleFold\<close>. The representative of an ASCII letter is its lower-case form; the only runes
  outside ASCII on the orbit of an ASCII letter are the long s and the Kelvin sign. The representatives
  of the other runes come from the tables of the \<^verbatim>\<open>unicode\<close> package, the parameter \<open>sf\<close>.
\<close>

definition fold_rune :: "(nat \<Rightarrow> nat) \<Rightarrow> nat \<Rightarrow> nat" where
  "fold_rune sf r =
     (if 65 \<le> r \<and> r \<le> 90 then r + 32
      else if r < 128 then r
      else if r = 383 then 115
      else if r = 8490 then 107
      else sf r)"

definition EqualFold :: "(nat \<Rightarrow> nat) \<Rightarrow> string \<Rightarrow> string \<Rightarrow> bool" where
  "EqualFold sf s t \<longleftrightarrow> map (fold_rune sf) (runes s) = map (fold_rune sf) (runes t)"

lemma EqualFold_refl [simp]: "EqualFold sf s s"
  by (simp add: EqualFold_def)

end
