(* ===== verification/Mini_Yaml.thy ===== *)
theory Mini_Yaml
  imports Go_Rune
begin

text \<open>
  The YAML subset of the policy loader, \<^verbatim>\<open>src/core/policy/miniyaml.go\<close>, with the part of \<^verbatim>\<open>strconv.Unquote\<close> it
  uses (a double-quoted string literal). The result, a Go map, is the list of its members in the order
  of the file; the parser refuses repeated keys. The main theorem is a round trip: a document written
  with single-quoted scalars, whatever bytes but newlines they hold, is read back exactly.
\<close>

section \<open>strconv.Unquote\<close>

definition hex_val :: "char \<Rightarrow> nat option" where
  "hex_val c =
     (if is_digit_byte c then Some (byte c - 48)
      else if 97 \<le> byte c \<and> byte c \<le> 102 then Some (byte c - 87)
      else if 65 \<le> byte c \<and> byte c \<le> 70 then Some (byte c - 55)
      else None)"

fun base_num :: "nat \<Rightarrow> nat \<Rightarrow> string \<Rightarrow> nat option" where
  "base_num base v [] = Some v"
| "base_num base v (c # s) =
     (case hex_val c of Some d \<Rightarrow> if d < base then base_num base (v * base + d) s else None | None \<Rightarrow> None)"

text \<open>\<^verbatim>\<open>UnquoteChar\<close> after a backslash: the bytes the escape stands for and the rest.\<close>

definition hex_escape :: "nat \<Rightarrow> bool \<Rightarrow> string \<Rightarrow> (string \<times> string) option" where
  "hex_escape n single s =
     (if length s < n then None
      else case base_num 16 0 (take n s) of
        None \<Rightarrow> None
      | Some v \<Rightarrow>
          if single then Some ([char_of v], drop n s)
          else if utf8_ValidRune v then Some (utf8_encode v, drop n s) else None)"

definition unquote_escape :: "string \<Rightarrow> (string \<times> string) option" where
  "unquote_escape s =
     (case s of
        [] \<Rightarrow> None
      | c # r \<Rightarrow>
          if c = CHR ''a'' then Some ([CHR 0x07], r)
          else if c = CHR ''b'' then Some ([CHR 0x08], r)
          else if c = CHR ''f'' then Some ([CHR 0x0C], r)
          else if c = CHR ''n'' then Some ([CHR 0x0A], r)
          else if c = CHR ''r'' then Some ([CHR 0x0D], r)
          else if c = CHR ''t'' then Some ([CHR 0x09], r)
          else if c = CHR ''v'' then Some ([CHR 0x0B], r)
          else if c = CHR ''x'' then hex_escape 2 True r
          else if c = CHR ''u'' then hex_escape 4 False r
          else if c = CHR ''U'' then hex_escape 8 False r
          else if 48 \<le> byte c \<and> byte c \<le> 55 then
            (if length r < 2 then None
             else case base_num 8 (byte c - 48) (take 2 r) of
               None \<Rightarrow> None
             | Some v \<Rightarrow> if v > 255 then None else Some ([char_of v], drop 2 r))
          else if c = backslash then Some ([backslash], r)
          else if c = double_quote then Some ([double_quote], r)
          else None)"

text \<open>The slow path over what follows the opening quote: the unescaped bytes and what follows the closing
  one. \<open>n\<close> bounds the number of characters.\<close>

fun unquote_chars :: "nat \<Rightarrow> string \<Rightarrow> (string \<times> string) option" where
  "unquote_chars 0 s = None"
| "unquote_chars (Suc n) s =
     (case s of
        [] \<Rightarrow> None
      | c # r \<Rightarrow>
          if c = double_quote then Some ('''', r)
          else if c = newline then None
          else
            let step =
              (if c = backslash then unquote_escape r
               else if byte c < 128 then Some ([c], r)
               else if rune_len s = 0 then Some ([CHR 0xEF, CHR 0xBF, CHR 0xBD], r)
               else Some (take (rune_len s) s, drop (rune_len s) s))
            in case step of
                 None \<Rightarrow> None
               | Some (out, rest) \<Rightarrow> map_option (\<lambda>(b, rem). (out @ b, rem)) (unquote_chars n rest))"

definition strconv_Unquote :: "string \<Rightarrow> string option" where
  "strconv_Unquote s =
     (if length s < 2 \<or> hd s \<noteq> double_quote then None
      else case index_byte double_quote (tl s) of
        None \<Rightarrow> None
      | Some i \<Rightarrow>
          let inner = take i (tl s)
          in if backslash \<notin> set inner \<and> newline \<notin> set inner \<and> utf8_ValidString inner then
               (if drop (Suc i) (tl s) = '''' then Some inner else None)
             else case unquote_chars (length s) (tl s) of
               Some (out, '''') \<Rightarrow> Some out
             | _ \<Rightarrow> None)"

section \<open>The parser\<close>

datatype yaml = YNull | YBool bool | YStr string | YSeq "yaml list"

datatype yaml_error =
    UnexpectedIndentation nat string
  | ExpectedKeyValue nat string
  | DuplicateKey nat string
  | MalformedFlowSequence nat string

definition is_blank :: "char \<Rightarrow> bool" where
  "is_blank c \<longleftrightarrow> c = CHR '' '' \<or> c = CHR 0x09"

text \<open>\<^verbatim>\<open>normalizeNewlines\<close>.\<close>

fun replace_crlf :: "string \<Rightarrow> string" where
  "replace_crlf (a # b # s) =
     (if a = carriage \<and> b = newline then newline # replace_crlf s else a # replace_crlf (b # s))"
| "replace_crlf s = s"

definition normalizeNewlines :: "string \<Rightarrow> string" where
  "normalizeNewlines s = map (\<lambda>c. if c = carriage then newline else c) (replace_crlf s)"

definition splitIndent :: "string \<Rightarrow> nat \<times> string" where
  "splitIndent line = (length (takeWhile is_blank line), dropWhile is_blank line)"

text \<open>\<^verbatim>\<open>stripYAMLComment\<close>; the third flag says whether a comment may start here.\<close>

fun strip_comment :: "bool \<Rightarrow> bool \<Rightarrow> bool \<Rightarrow> string \<Rightarrow> string" where
  "strip_comment inSingle inDouble may [] = []"
| "strip_comment inSingle inDouble may (c # s) =
     (if c = single_quote \<and> \<not> inDouble then c # strip_comment (\<not> inSingle) inDouble False s
      else if c = double_quote \<and> \<not> inSingle then c # strip_comment inSingle (\<not> inDouble) False s
      else if c = CHR ''#'' \<and> \<not> inSingle \<and> \<not> inDouble \<and> may then []
      else c # strip_comment inSingle inDouble (is_blank c) s)"

definition stripYAMLComment :: "string \<Rightarrow> string" where
  "stripYAMLComment s = strip_comment False False True s"

text \<open>\<^verbatim>\<open>strings.TrimRight(s, " \t")\<close>.\<close>

definition trim_right_blank :: "string \<Rightarrow> string" where
  "trim_right_blank s = rev (dropWhile is_blank (rev s))"

fun key_scan :: "bool \<Rightarrow> bool \<Rightarrow> string \<Rightarrow> string \<Rightarrow> (string \<times> string) option" where
  "key_scan inSingle inDouble seen [] = None"
| "key_scan inSingle inDouble seen (c # s) =
     (if c = single_quote \<and> \<not> inDouble then key_scan (\<not> inSingle) inDouble (seen @ [c]) s
      else if c = double_quote \<and> \<not> inSingle then key_scan inSingle (\<not> inDouble) (seen @ [c]) s
      else if c = CHR '':'' \<and> \<not> inSingle \<and> \<not> inDouble \<and> (s = [] \<or> is_blank (hd s)) then
        Some (trim_space seen, s)
      else key_scan inSingle inDouble (seen @ [c]) s)"

definition splitYAMLKey :: "string \<Rightarrow> (string \<times> string) option" where
  "splitYAMLKey content = key_scan False False '''' content"

definition splitYAMLListItem :: "string \<Rightarrow> string option" where
  "splitYAMLListItem content =
     (if content = ''-'' then Some ''''
      else if length content \<ge> 2 \<and> content ! 0 = CHR ''-'' \<and> is_blank (content ! 1) then Some (drop 2 content)
      else None)"

text \<open>\<^verbatim>\<open>strings.ReplaceAll(s, "''", "'")\<close>.\<close>

fun undouble :: "string \<Rightarrow> string" where
  "undouble (a # b # s) = (if a = single_quote \<and> b = single_quote then a # undouble s else a # undouble (b # s))"
| "undouble s = s"

definition between :: "string \<Rightarrow> string" where
  "between s = take (length s - 2) (drop 1 s)"

definition parseYAMLScalar :: "string \<Rightarrow> yaml" where
  "parseYAMLScalar s0 =
     (let s = trim_space s0
      in if length s \<ge> 2 \<and> hd s = double_quote \<and> last s = double_quote then
           (case strconv_Unquote s of Some u \<Rightarrow> YStr u | None \<Rightarrow> YStr (between s))
         else if length s \<ge> 2 \<and> hd s = single_quote \<and> last s = single_quote then YStr (undouble (between s))
         else if s \<in> set [''true'', ''True'', ''TRUE''] then YBool True
         else if s \<in> set [''false'', ''False'', ''FALSE''] then YBool False
         else if s \<in> set [''null'', ''Null'', ''NULL'', ''~'', ''''] then YNull
         else YStr s)"

fun flow_items :: "bool \<Rightarrow> bool \<Rightarrow> string \<Rightarrow> string \<Rightarrow> string list" where
  "flow_items inSingle inDouble cur [] = [cur]"
| "flow_items inSingle inDouble cur (c # s) =
     (if c = single_quote \<and> \<not> inDouble then flow_items (\<not> inSingle) inDouble (cur @ [c]) s
      else if c = double_quote \<and> \<not> inSingle then flow_items inSingle (\<not> inDouble) (cur @ [c]) s
      else if c = CHR '','' \<and> \<not> inSingle \<and> \<not> inDouble then cur # flow_items inSingle inDouble '''' s
      else flow_items inSingle inDouble (cur @ [c]) s)"

definition splitFlowItems :: "string \<Rightarrow> string list" where
  "splitFlowItems s = flow_items False False '''' s"

definition parseYAMLFlowSeq :: "string \<Rightarrow> yaml list option" where
  "parseYAMLFlowSeq s0 =
     (let s = trim_space s0
      in if \<not> (has_prefix s ''['' \<and> s \<noteq> '''' \<and> last s = CHR '']'') then None
         else let inner = trim_space (between s)
              in if inner = '''' then Some []
                 else Some (map (\<lambda>p. parseYAMLScalar (trim_space p)) (splitFlowItems inner)))"

definition line_content :: "string \<Rightarrow> nat \<times> string" where
  "line_content line =
     (case splitIndent line of (indent, rest) \<Rightarrow> (indent, trim_right_blank (stripYAMLComment rest)))"

text \<open>\<^verbatim>\<open>collectBlockSequence\<close>: the items and the lines left.\<close>

fun collect_items :: "string list \<Rightarrow> yaml list \<times> string list" where
  "collect_items [] = ([], [])"
| "collect_items (l # ls) =
     (case line_content l of (indent, content) \<Rightarrow>
        if content = '''' then collect_items ls
        else if indent = 0 then ([], l # ls)
        else case splitYAMLListItem content of
          None \<Rightarrow> ([], l # ls)
        | Some item \<Rightarrow>
            (case collect_items ls of (items, rest) \<Rightarrow> (parseYAMLScalar (trim_space item) # items, rest)))"

definition collectBlockSequence :: "string list \<Rightarrow> yaml list option \<times> string list" where
  "collectBlockSequence ls =
     (case collect_items ls of (items, rest) \<Rightarrow> if items = [] then (None, ls) else (Some items, rest))"

lemma collect_items_length: "length (snd (collect_items ls)) \<le> length ls"
proof (induction ls)
  case (Cons l ls)
  then show ?case by (auto split: prod.split option.split)
qed simp

lemma collectBlockSequence_length: "(r, ls') = collectBlockSequence ls \<Longrightarrow> length ls' < Suc (length ls)"
  using collect_items_length [of ls] by (auto simp: collectBlockSequence_def split: prod.splits if_splits)

text \<open>The loop of \<^verbatim>\<open>parseMiniYAML\<close>: \<open>n\<close> lines have been read, the members so far are in file order.\<close>

function parse_lines :: "nat \<Rightarrow> string list \<Rightarrow> (string \<times> yaml) list \<Rightarrow> yaml_error + (string \<times> yaml) list" where
  "parse_lines n [] acc = Inr acc"
| "parse_lines n (l # ls) acc =
     (case line_content l of (indent, content) \<Rightarrow>
        if content = '''' \<or> content = ''---'' \<or> content = ''...'' then parse_lines (Suc n) ls acc
        else if indent \<noteq> 0 then Inl (UnexpectedIndentation (Suc n) l)
        else case splitYAMLKey content of
          None \<Rightarrow> Inl (ExpectedKeyValue (Suc n) l)
        | Some (key, rest0) \<Rightarrow>
            if key \<in> fst ` set acc then Inl (DuplicateKey (Suc n) key)
            else
              let rest = trim_space rest0
              in if rest = '''' then
                   (case collectBlockSequence ls of
                      (None, ls') \<Rightarrow> parse_lines (Suc n) ls (acc @ [(key, YNull)])
                    | (Some items, ls') \<Rightarrow>
                        parse_lines (Suc n + (length ls - length ls')) ls' (acc @ [(key, YSeq items)]))
                 else if has_prefix rest ''['' then
                   (case parseYAMLFlowSeq rest of
                      None \<Rightarrow> Inl (MalformedFlowSequence (Suc n) rest)
                    | Some items \<Rightarrow> parse_lines (Suc n) ls (acc @ [(key, YSeq items)]))
                 else parse_lines (Suc n) ls (acc @ [(key, parseYAMLScalar rest)]))"
  by pat_completeness auto

termination
  by (relation "measure (\<lambda>(n, ls, acc). length ls)") (auto dest: collectBlockSequence_length)

definition parseMiniYAML :: "string \<Rightarrow> yaml_error + (string \<times> yaml) list" where
  "parseMiniYAML data = parse_lines 0 (split_on newline (normalizeNewlines data)) []"

section \<open>Writing a document\<close>

text \<open>
  Scalars are written single-quoted, quotes inside them doubled; a sequence is written as a block, an
  empty one as a flow sequence.
\<close>

fun double_quotes :: "string \<Rightarrow> string" where
  "double_quotes [] = []"
| "double_quotes (c # s) = (if c = single_quote then [c, c] else [c]) @ double_quotes s"

fun render_scalar :: "yaml \<Rightarrow> string" where
  "render_scalar YNull = ''null''"
| "render_scalar (YBool b) = (if b then ''true'' else ''false'')"
| "render_scalar (YStr s) = [single_quote] @ double_quotes s @ [single_quote]"
| "render_scalar (YSeq _) = ''[]''"

definition item_line :: "yaml \<Rightarrow> string" where
  "item_line v = ''  - '' @ render_scalar v"

fun render_member :: "string \<times> yaml \<Rightarrow> string list" where
  "render_member (k, YSeq (v # vs)) = (k @ '':'') # map item_line (v # vs)"
| "render_member (k, v) = [k @ '': '' @ render_scalar v]"

definition render_yaml :: "(string \<times> yaml) list \<Rightarrow> string" where
  "render_yaml doc = concat (map (\<lambda>l. l @ [newline]) (concat (map render_member doc)))"

definition key_byte :: "char \<Rightarrow> bool" where
  "key_byte c \<longleftrightarrow> is_lower_byte c \<or> c = CHR ''_''"

definition key_ok :: "string \<Rightarrow> bool" where
  "key_ok k \<longleftrightarrow> k \<noteq> '''' \<and> list_all key_byte k"

fun scalar_ok :: "yaml \<Rightarrow> bool" where
  "scalar_ok (YStr s) \<longleftrightarrow> newline \<notin> set s \<and> carriage \<notin> set s"
| "scalar_ok (YSeq _) \<longleftrightarrow> False"
| "scalar_ok _ \<longleftrightarrow> True"

fun value_ok :: "yaml \<Rightarrow> bool" where
  "value_ok (YSeq vs) \<longleftrightarrow> list_all scalar_ok vs"
| "value_ok v \<longleftrightarrow> scalar_ok v"

section \<open>Lemmas\<close>

definition plain_byte :: "char \<Rightarrow> bool" where
  "plain_byte c \<longleftrightarrow> byte c < 128 \<and> \<not> is_ascii_space c"

lemma space_len_plain: "s \<noteq> [] \<Longrightarrow> plain_byte (hd s) \<Longrightarrow> space_len s = 0"
  by (cases s rule: space_len.cases) (auto simp: plain_byte_def)

lemma space_suffix_plain:
  assumes "s \<noteq> []" "plain_byte (last s)"
  shows "space_suffix s = 0"
proof -
  obtain t z where s: "s = t @ [z]" using assms(1) by (metis append_butlast_last_id)
  have z: "byte z < 128" "\<not> is_ascii_space z" using assms(2) by (auto simp: s plain_byte_def)
  have two: "space_len [y, z] \<noteq> 2" for y using z by auto
  have three: "space_len [x, y, z] \<noteq> 3" for x y using z by auto
  have "space_len (drop (length s - 2) s) \<noteq> 2" if len: "length s \<ge> 2"
  proof -
    obtain u y where "t = u @ [y]" using len by (cases t rule: rev_cases) (auto simp: s)
    then show ?thesis using two by (simp add: s)
  qed
  moreover have "space_len (drop (length s - 3) s) \<noteq> 3" if len: "length s \<ge> 3"
  proof -
    obtain u y where u: "t = u @ [y]" using len by (cases t rule: rev_cases) (auto simp: s)
    then obtain v x where "u = v @ [x]" using len by (cases u rule: rev_cases) (auto simp: s)
    with u show ?thesis using three by (simp add: s)
  qed
  moreover have "space_len (drop (length s - 1) s) \<noteq> 1" using z by (simp add: s)
  ultimately show ?thesis by (auto simp: space_suffix_def)
qed

definition tight :: "string \<Rightarrow> bool" where
  "tight s \<longleftrightarrow> s \<noteq> [] \<and> plain_byte (hd s) \<and> plain_byte (last s)"

lemma trim_tight: "tight s \<Longrightarrow> trim_space s = s"
  by (simp add: tight_def trim_space_def trim_left_id trim_right_id space_len_plain space_suffix_plain)

lemma trim_blank_tight:
  assumes "tight s"
  shows "trim_space (CHR '' '' # s) = s"
proof -
  have "trim_left (CHR '' '' # s) = trim_left s"
    by (subst trim_left.simps) (simp add: space_len_ascii is_ascii_space_def)
  then show ?thesis using trim_tight [OF assms] by (simp add: trim_space_def)
qed

lemma double_quotes_bytes: "set (double_quotes s) = set s"
  by (induction s) auto

lemma undouble_double: "undouble (double_quotes s) = s"
proof (induction s)
  case (Cons c s)
  then show ?case by (cases "double_quotes s") auto
qed simp

lemma strip_in_quotes: "strip_comment True False m (double_quotes s @ [single_quote]) = double_quotes s @ [single_quote]"
  by (induction s arbitrary: m) auto

definition calm_byte :: "char \<Rightarrow> bool" where
  "calm_byte c \<longleftrightarrow> c \<noteq> single_quote \<and> c \<noteq> double_quote \<and> c \<noteq> CHR ''#''"

lemma strip_calm:
  "list_all calm_byte p \<Longrightarrow> p \<noteq> [] \<Longrightarrow> strip_comment False False m (p @ s) = p @ strip_comment False False (is_blank (last p)) s"
  by (induction p arbitrary: m) (auto simp: calm_byte_def)

lemma render_scalar_tight: "tight (render_scalar v)"
  by (cases v) (auto simp: tight_def plain_byte_def is_ascii_space_def)

lemma strip_scalar: "strip_comment False False m (render_scalar v) = render_scalar v"
proof (cases v)
  case (YStr s)
  then show ?thesis by (simp add: strip_in_quotes)
qed auto

lemma trim_right_scalar: "trim_right_blank (p @ render_scalar v) = p @ render_scalar v"
proof -
  have "render_scalar v \<noteq> []" "\<not> is_blank (last (render_scalar v))" by (cases v; simp add: is_blank_def)+
  then obtain t z where "render_scalar v = t @ [z]" "\<not> is_blank z" by (metis append_butlast_last_id)
  then show ?thesis by (simp add: trim_right_blank_def)
qed

lemma parse_rendered_scalar:
  assumes "scalar_ok v"
  shows "parseYAMLScalar (render_scalar v) = v"
proof (cases v)
  case (YStr s)
  have "trim_space (render_scalar v) = render_scalar v" by (rule trim_tight [OF render_scalar_tight])
  then show ?thesis by (simp add: parseYAMLScalar_def YStr between_def undouble_double Let_def)
qed (use assms in \<open>auto simp: parseYAMLScalar_def trim_tight tight_def plain_byte_def is_ascii_space_def Let_def\<close>)

text \<open>A line of a sequence.\<close>

lemma item_content: "line_content (item_line v) = (2, ''- '' @ render_scalar v)"
proof -
  have "splitIndent (item_line v) = (2, ''- '' @ render_scalar v)"
    by (simp add: splitIndent_def item_line_def is_blank_def)
  moreover have "stripYAMLComment (''- '' @ render_scalar v) = ''- '' @ render_scalar v"
    unfolding stripYAMLComment_def by (subst strip_calm) (simp_all add: calm_byte_def strip_scalar)
  ultimately show ?thesis using trim_right_scalar [of "''- ''" v] by (simp add: line_content_def)
qed

lemma item_read:
  "scalar_ok v \<Longrightarrow> collect_items (item_line v # ls) = (v # fst (collect_items ls), snd (collect_items ls))"
  using trim_tight [OF render_scalar_tight, of v] parse_rendered_scalar [of v]
  by (simp add: item_content splitYAMLListItem_def is_blank_def split: prod.split)

lemma items_read:
  "list_all scalar_ok vs \<Longrightarrow>
     collect_items (map item_line vs @ ls) = (vs @ fst (collect_items ls), snd (collect_items ls))"
proof (induction vs)
  case (Cons a vs)
  then show ?case using item_read [of a "map item_line vs @ ls"] by (simp del: collect_items.simps)
qed simp

text \<open>The line of a member.\<close>

lemma key_byte_facts:
  assumes "key_byte c"
  shows "plain_byte c" "calm_byte c" "\<not> is_blank c" "c \<noteq> CHR '':''" "c \<noteq> newline" "c \<noteq> carriage"
  using assms by (auto simp: key_byte_def is_lower_byte_def plain_byte_def calm_byte_def is_blank_def
      is_ascii_space_def newline_def)

lemma key_tight: "key_ok k \<Longrightarrow> tight k"
  by (auto simp: key_ok_def tight_def list_all_iff intro: key_byte_facts)

lemma key_scan_key:
  assumes "list_all key_byte k" "r = [] \<or> is_blank (hd r)"
  shows "key_scan False False seen (k @ CHR '':'' # r) = Some (trim_space (seen @ k), r)"
  using assms
proof (induction k arbitrary: seen)
  case (Cons c k)
  then have "c \<noteq> single_quote" "c \<noteq> double_quote" "c \<noteq> CHR '':''"
    using key_byte_facts [of c] by (auto simp: calm_byte_def)
  with Cons show ?case by simp
qed simp

lemma member_content:
  assumes "key_ok k" "list_all calm_byte p" "p \<noteq> []" "\<And>m. strip_comment False False m x = x"
    "trim_right_blank (k @ p @ x) = k @ p @ x"
  shows "line_content (k @ p @ x) = (0, k @ p @ x)"
proof -
  have k: "k \<noteq> []" "list_all calm_byte k" "\<not> is_blank (hd k)"
    using assms(1) by (auto simp: key_ok_def list_all_iff intro: key_byte_facts dest: key_byte_facts(3) [rotated])
  then have "splitIndent (k @ p @ x) = (0, k @ p @ x)" by (cases k) (simp_all add: splitIndent_def)
  moreover have "stripYAMLComment (k @ p @ x) = k @ p @ x"
    using strip_calm [of "k @ p" True x] k assms(2-4) by (simp add: stripYAMLComment_def)
  ultimately show ?thesis using assms(5) by (simp add: line_content_def)
qed

definition member_head :: "string \<times> yaml \<Rightarrow> string" where
  "member_head kv = hd (render_member kv)"

lemma scalar_member_content:
  "key_ok k \<Longrightarrow> line_content (k @ '': '' @ render_scalar v) = (0, k @ '': '' @ render_scalar v)"
  by (rule member_content)
    (use trim_right_scalar [of "k @ '': ''" v] in \<open>simp_all add: calm_byte_def strip_scalar\<close>)

lemma block_member_content: "key_ok k \<Longrightarrow> line_content (k @ '':'') = (0, k @ '':'')"
  using member_content [of k "'':''" "''''"] by (simp add: calm_byte_def trim_right_blank_def is_blank_def)

lemma member_head_content: "key_ok (fst kv) \<Longrightarrow> line_content (member_head kv) = (0, member_head kv)"
  by (cases kv rule: render_member.cases)
    (use scalar_member_content block_member_content in \<open>simp_all add: member_head_def del: append.simps render_scalar.simps\<close>)

lemma key_first_byte: "key_ok k \<Longrightarrow> k @ x \<notin> {'''', ''---'', ''...''}"
  by (cases k) (auto simp: key_ok_def key_byte_def is_lower_byte_def)

text \<open>The member whose head line was read.\<close>

lemma parse_member:
  assumes "key_ok k" "line_content (k @ x) = (0, k @ x)" "splitYAMLKey (k @ x) = Some (k, rest)" "k \<notin> fst ` set acc"
  shows "parse_lines n ((k @ x) # ls) acc =
     (if trim_space rest = '''' then
        (case collectBlockSequence ls of
           (None, ls') \<Rightarrow> parse_lines (Suc n) ls (acc @ [(k, YNull)])
         | (Some items, ls') \<Rightarrow> parse_lines (Suc n + (length ls - length ls')) ls' (acc @ [(k, YSeq items)]))
      else if has_prefix (trim_space rest) ''['' then
        (case parseYAMLFlowSeq (trim_space rest) of
           None \<Rightarrow> Inl (MalformedFlowSequence (Suc n) (trim_space rest))
         | Some items \<Rightarrow> parse_lines (Suc n) ls (acc @ [(k, YSeq items)]))
      else parse_lines (Suc n) ls (acc @ [(k, parseYAMLScalar (trim_space rest))]))"
  using assms key_first_byte [OF assms(1), of x]
  by (subst parse_lines.simps) (simp add: Let_def key_ok_def del: parse_lines.simps)

lemma scalar_member_read:
  assumes "key_ok k" "scalar_ok v" "k \<notin> fst ` set acc"
  shows "parse_lines n ((k @ '': '' @ render_scalar v) # ls) acc = parse_lines (Suc n) ls (acc @ [(k, v)])"
proof -
  have "splitYAMLKey (k @ '': '' @ render_scalar v) = Some (k, '' '' @ render_scalar v)"
    using key_scan_key [of k "'' '' @ render_scalar v" "''''"] assms(1) trim_tight [OF key_tight [OF assms(1)]]
    by (simp add: splitYAMLKey_def key_ok_def is_blank_def)
  moreover have "trim_space ('' '' @ render_scalar v) = render_scalar v"
    using trim_blank_tight [OF render_scalar_tight] by simp
  moreover have "render_scalar v \<noteq> '''' \<and> \<not> has_prefix (render_scalar v) ''[''"
    using assms(2) by (cases v) (simp_all add: has_prefix_def)
  ultimately show ?thesis
    using parse_member [OF assms(1) scalar_member_content [OF assms(1), of v], of "'' '' @ render_scalar v" acc n ls]
      assms(3) parse_rendered_scalar [OF assms(2)]
    by (simp del: parse_lines.simps)
qed

lemma empty_member_read:
  assumes "key_ok k" "k \<notin> fst ` set acc"
  shows "parse_lines n ((k @ '': '' @ ''[]'') # ls) acc = parse_lines (Suc n) ls (acc @ [(k, YSeq [])])"
proof -
  have "splitYAMLKey (k @ '': '' @ ''[]'') = Some (k, '' []'')"
    using key_scan_key [of k "'' []''" "''''"] assms(1) trim_tight [OF key_tight [OF assms(1)]]
    by (simp add: splitYAMLKey_def key_ok_def is_blank_def)
  moreover have "trim_space '' []'' = ''[]''" by code_simp
  moreover have "parseYAMLFlowSeq ''[]'' = Some []" by code_simp
  ultimately show ?thesis
    using parse_member [OF assms(1) scalar_member_content [OF assms(1), of "YSeq []"], of "'' []''" acc n ls] assms(2)
    by (simp add: has_prefix_def del: parse_lines.simps)
qed

lemma block_member_read:
  assumes "key_ok k" "list_all scalar_ok (v # vs)" "k \<notin> fst ` set acc" "fst (collect_items ls) = []"
  shows "\<exists>m. parse_lines n ((k @ '':'') # map item_line (v # vs) @ ls) acc
           = parse_lines m (snd (collect_items ls)) (acc @ [(k, YSeq (v # vs))])"
proof -
  have "splitYAMLKey (k @ '':'') = Some (k, '''')"
    using key_scan_key [of k "''''" "''''"] assms(1) trim_tight [OF key_tight [OF assms(1)]]
    by (simp add: splitYAMLKey_def key_ok_def)
  moreover have "trim_space '''' = ''''" by code_simp
  moreover have "collectBlockSequence (map item_line (v # vs) @ ls) = (Some (v # vs), snd (collect_items ls))"
    using items_read [OF assms(2), of ls] assms(4) by (simp add: collectBlockSequence_def del: collect_items.simps)
  ultimately show ?thesis
    using parse_member [OF assms(1) block_member_content [OF assms(1)], of "''''" acc n] assms(3)
    by (simp del: collect_items.simps parse_lines.simps list.map append_Cons) blast
qed

text \<open>A whole document.\<close>

definition member_ok :: "string \<times> yaml \<Rightarrow> bool" where
  "member_ok kv \<longleftrightarrow> key_ok (fst kv) \<and> value_ok (snd kv)"

definition doc_ok :: "(string \<times> yaml) list \<Rightarrow> bool" where
  "doc_ok doc \<longleftrightarrow> distinct (map fst doc) \<and> list_all member_ok doc"

definition doc_lines :: "(string \<times> yaml) list \<Rightarrow> string list" where
  "doc_lines doc = concat (map render_member doc) @ ['''']"

lemma render_member_Cons: "\<exists>t. render_member kv = member_head kv # t"
  by (cases kv rule: render_member.cases) (auto simp: member_head_def)

lemma blank_line: "line_content '''' = (0, '''')"
  by code_simp

lemma collect_doc:
  assumes "list_all member_ok doc"
  shows "fst (collect_items (doc_lines doc)) = []"
    and "snd (collect_items (doc_lines doc)) = (if doc = [] then [] else doc_lines doc)"
proof -
  have "collect_items (doc_lines doc) = ([], if doc = [] then [] else doc_lines doc)"
  proof (cases doc)
    case Nil
    then show ?thesis by (simp add: doc_lines_def blank_line)
  next
    case (Cons kv rest)
    then obtain t where t: "render_member kv = member_head kv # t" and ok: "key_ok (fst kv)"
      using render_member_Cons [of kv] assms by (auto simp: member_ok_def)
    then have "member_head kv \<noteq> ''''"
      by (cases kv rule: render_member.cases) (simp_all add: member_head_def)
    then show ?thesis using Cons t member_head_content [OF ok] by (simp add: doc_lines_def)
  qed
  then show "fst (collect_items (doc_lines doc)) = []"
    and "snd (collect_items (doc_lines doc)) = (if doc = [] then [] else doc_lines doc)" by simp_all
qed

lemma member_read:
  assumes "member_ok kv" "list_all member_ok doc" "fst kv \<notin> fst ` set acc"
  shows "\<exists>m. parse_lines n (doc_lines (kv # doc)) acc = parse_lines m (doc_lines doc) (acc @ [kv])"
proof -
  obtain k v where kv: "kv = (k, v)" by (cases kv)
  consider (block) x xs where "v = YSeq (x # xs)" | (empty) "v = YSeq []" | (scalar) "scalar_ok v"
    using assms(1) by (cases v rule: value_ok.cases) (auto simp: kv member_ok_def elim: list.exhaust)
  then show ?thesis
  proof cases
    case block
    then have "\<exists>m. parse_lines n (doc_lines (kv # doc)) acc
        = parse_lines m (snd (collect_items (doc_lines doc))) (acc @ [kv])"
      using block_member_read [of k x xs acc "doc_lines doc" n] assms collect_doc [OF assms(2)]
      by (simp add: kv member_ok_def doc_lines_def del: parse_lines.simps collect_items.simps)
    then show ?thesis
      using collect_doc [OF assms(2)] by (cases doc) (auto simp: doc_lines_def blank_line)
  next
    case empty
    then show ?thesis
      using empty_member_read [of k acc n "doc_lines doc"] assms by (auto simp: kv member_ok_def doc_lines_def)
  next
    case scalar
    then have "doc_lines (kv # doc) = (k @ '': '' @ render_scalar v) # doc_lines doc"
      by (cases v) (simp_all add: kv doc_lines_def)
    then show ?thesis
      using scalar_member_read [OF _ scalar, of k acc n "doc_lines doc"] assms
      by (auto simp: kv member_ok_def simp del: parse_lines.simps)
  qed
qed

lemma parse_doc:
  "doc_ok doc \<Longrightarrow> fst ` set acc \<inter> fst ` set doc = {} \<Longrightarrow> parse_lines n (doc_lines doc) acc = Inr (acc @ doc)"
proof (induction doc arbitrary: acc n)
  case Nil
  then show ?case by (simp add: doc_lines_def blank_line)
next
  case (Cons kv doc)
  then obtain m where "parse_lines n (doc_lines (kv # doc)) acc = parse_lines m (doc_lines doc) (acc @ [kv])"
    using member_read [of kv doc acc n] by (auto simp: doc_ok_def)
  then show ?case using Cons.IH [of "acc @ [kv]" m] Cons.prems by (auto simp: doc_ok_def)
qed

text \<open>The bytes of a document.\<close>

definition line_ok :: "string \<Rightarrow> bool" where
  "line_ok l \<longleftrightarrow> newline \<notin> set l \<and> carriage \<notin> set l"

lemma render_scalar_line: "scalar_ok v \<Longrightarrow> line_ok (render_scalar v)"
  by (cases v) (auto simp: line_ok_def double_quotes_bytes newline_def)

lemma key_line: "key_ok k \<Longrightarrow> line_ok k"
  using key_byte_facts(5,6) by (auto simp: key_ok_def line_ok_def list_all_iff)

lemma item_line_ok: "scalar_ok v \<Longrightarrow> line_ok (item_line v)"
  using render_scalar_line [of v] by (auto simp: line_ok_def item_line_def newline_def)

lemma render_member_lines:
  assumes "member_ok kv"
  shows "list_all line_ok (render_member kv)"
proof (cases kv rule: render_member.cases)
  case (1 k v vs)
  then show ?thesis
    using assms key_line [of k] item_line_ok
    by (auto simp: member_ok_def list_all_iff line_ok_def [of "k @ x" for x] line_ok_def [of k] newline_def)
qed (use assms key_line render_scalar_line in
    \<open>auto simp: member_ok_def line_ok_def newline_def double_quotes_bytes list_all_iff\<close>)

lemma split_terminated:
  "list_all line_ok ls \<Longrightarrow> split_on newline (concat (map (\<lambda>l. l @ [newline]) ls)) = ls @ ['''']"
  by (induction ls) (auto simp: line_ok_def split_on_append_sep split_on_no_occurrence)

lemma replace_crlf_id: "carriage \<notin> set s \<Longrightarrow> replace_crlf s = s"
  by (induction s rule: replace_crlf.induct) auto

lemma normalize_id: "carriage \<notin> set s \<Longrightarrow> normalizeNewlines s = s"
  by (simp add: normalizeNewlines_def replace_crlf_id) (rule map_idI, auto)

lemma terminated_no_carriage: "list_all line_ok ls \<Longrightarrow> carriage \<notin> set (concat (map (\<lambda>l. l @ [newline]) ls))"
  by (auto simp: list_all_iff line_ok_def newline_def)

lemma split_rendered:
  assumes "doc_ok doc"
  shows "split_on newline (normalizeNewlines (render_yaml doc)) = doc_lines doc"
proof -
  have "list_all line_ok (concat (map render_member doc))"
    using assms render_member_lines by (auto simp: doc_ok_def list_all_iff)
  then show ?thesis
    unfolding render_yaml_def doc_lines_def
    by (simp only: normalize_id [OF terminated_no_carriage] split_terminated)
qed

text \<open>No result repeats a key.\<close>

lemma parse_lines_distinct:
  "parse_lines n ls acc = Inr doc \<Longrightarrow> distinct (map fst acc) \<Longrightarrow> distinct (map fst doc)"
proof (induction n ls acc rule: parse_lines.induct)
  case (2 n l ls acc)
  show ?case
    using 2
    by (auto simp: Let_def split: prod.splits option.splits if_splits)
qed simp

section \<open>Properties\<close>

text \<open>
  Round trip: a policy document with distinct keys, each holding a scalar or a list of scalars, is
  read back exactly as it was written, whatever bytes other than line ends its strings hold (quotes,
  comment marks, colons, commas and surrounding blanks included).
\<close>

theorem parseMiniYAML_roundtrip: "doc_ok doc \<Longrightarrow> parseMiniYAML (render_yaml doc) = Inr doc"
  by (simp add: parseMiniYAML_def split_rendered parse_doc)

theorem parseMiniYAML_roundtrip_witness:
  "parseMiniYAML (render_yaml [(''version'', YStr ''it's: #1 '' ), (''deny_packages'', YSeq [YStr ''a, b'', YNull]),
      (''license_allow'', YSeq []), (''allow_direct_debs'', YBool True)])
   = Inr [(''version'', YStr ''it's: #1 ''), (''deny_packages'', YSeq [YStr ''a, b'', YNull]),
      (''license_allow'', YSeq []), (''allow_direct_debs'', YBool True)]"
  by (rule parseMiniYAML_roundtrip) code_simp

text \<open>
  A key never quietly replaces an earlier one: what the parser returns has each key once, and a
  key that was already read ends the parse with an error.
\<close>

theorem parseMiniYAML_keys_distinct: "parseMiniYAML data = Inr doc \<Longrightarrow> distinct (map fst doc)"
  unfolding parseMiniYAML_def by (drule parse_lines_distinct) simp_all

theorem parseMiniYAML_keys_distinct_witness:
  "parseMiniYAML ''a: 1'' = Inr [(''a'', YStr ''1'')] \<and> distinct (map fst [(''a'', YStr ''1'')])"
proof -
  have "parseMiniYAML ''a: 1'' = Inr [(''a'', YStr ''1'')]" by code_simp
  from this parseMiniYAML_keys_distinct [OF this] show ?thesis ..
qed

end
