(* ===== verification/Go_Glob.thy ===== *)
theory Go_Glob
  imports Go_Rune
begin

text \<open>
  \<^verbatim>\<open>path.Match\<close> of the Go library, which the policy rules match package names with: the pattern is cut into
  chunks at its unbracketed stars, each chunk is matched at the first position where it fits. \<^const>\<open>None\<close> is
  \<^verbatim>\<open>ErrBadPattern\<close>. The lemmas show that a pattern is bad for every name or for none, and that for plain
  ASCII names the non-backtracking search finds a match whenever one exists.
\<close>

section \<open>The matcher\<close>

text \<open>\<^verbatim>\<open>getEsc\<close>: one possibly escaped rune of a class, and what follows it.\<close>

definition get_esc :: "string \<Rightarrow> (nat \<times> string) option" where
  "get_esc chunk =
     (if chunk = [] \<or> hd chunk = CHR ''-'' \<or> hd chunk = CHR '']'' then None
      else
        let chunk = (if hd chunk = backslash then tl chunk else chunk); (r, n) = decode_rune chunk
        in if chunk = [] \<or> r = RuneError \<and> n = 1 \<or> drop n chunk = [] then None
           else Some (r, drop n chunk))"

lemma get_esc_shorter: "get_esc chunk = Some (r, rest) \<Longrightarrow> length rest < length chunk \<and> rest \<noteq> []"
  using decode_rune_bounds [of chunk] decode_rune_bounds [of "tl chunk"]
  by (auto simp: get_esc_def Let_def split: prod.splits if_splits)

text \<open>The ranges of a class up to its closing bracket: whether the rune \<open>r\<close> is in one of them.\<close>

function class_ranges :: "nat \<Rightarrow> bool \<Rightarrow> bool \<Rightarrow> string \<Rightarrow> (bool \<times> string) option" where
  "class_ranges r match some chunk =
     (if chunk \<noteq> [] \<and> hd chunk = CHR '']'' \<and> some then Some (match, tl chunk)
      else case get_esc chunk of
        None \<Rightarrow> None
      | Some (lo, c1) \<Rightarrow>
          (case (if hd c1 = CHR ''-'' then get_esc (tl c1) else Some (lo, c1)) of
             None \<Rightarrow> None
           | Some (hi, c2) \<Rightarrow> class_ranges r (match \<or> lo \<le> r \<and> r \<le> hi) True c2))"
  by pat_completeness auto

termination
proof (relation "measure (\<lambda>(r, m, some, chunk). length chunk)")
  fix r m some chunk and x :: "nat \<times> string" and lo c1 and y :: "nat \<times> string" and hi c2
  assume a: "get_esc chunk = Some x" "(lo, c1) = x"
    "(if hd c1 = CHR ''-'' then get_esc (tl c1) else Some (lo, c1)) = Some y" "(hi, c2) = y"
  have "length c1 < length chunk" using a(1,2) get_esc_shorter by blast
  moreover have "length c2 \<le> length c1"
    using a(3,4) get_esc_shorter [of "tl c1" hi c2] by (auto split: if_splits)
  ultimately show "((r, m \<or> lo \<le> r \<and> r \<le> hi, True, c2), r, m, some, chunk)
      \<in> measure (\<lambda>(r, m, some, chunk). length chunk)" by simp
qed simp

declare class_ranges.simps [simp del]

lemma class_ranges_shorter: "class_ranges r m some chunk = Some (m', rest) \<Longrightarrow> length rest < length chunk"
proof (induction r m some chunk rule: class_ranges.induct)
  case (1 r m some chunk)
  show ?case
  proof (cases "chunk \<noteq> [] \<and> hd chunk = CHR '']'' \<and> some")
    case True
    then show ?thesis using 1(2) by (subst (asm) class_ranges.simps) auto
  next
    case False
    then obtain lo c1 hi c2 where e: "get_esc chunk = Some (lo, c1)"
      "(if hd c1 = CHR ''-'' then get_esc (tl c1) else Some (lo, c1)) = Some (hi, c2)"
      "class_ranges r (m \<or> lo \<le> r \<and> r \<le> hi) True c2 = Some (m', rest)"
      using 1(2) by (subst (asm) class_ranges.simps) (auto split: option.splits)
    have "length c2 \<le> length c1"
      using e(2) get_esc_shorter [of "tl c1" hi c2] by (auto split: if_splits)
    with 1(1) [OF False e(1) refl e(2) refl e(3)] get_esc_shorter [OF e(1)] show ?thesis by simp
  qed
qed

text \<open>
  \<^verbatim>\<open>matchChunk\<close>: \<open>Some (Some t)\<close> when the chunk matches a prefix and \<open>t\<close> follows it, \<open>Some None\<close> when it does
  not. Once it has failed it only goes on to check the pattern.
\<close>

definition class_body :: "string \<Rightarrow> bool \<times> string" where
  "class_body cs = (if cs \<noteq> [] \<and> hd cs = CHR ''^'' then (True, tl cs) else (False, cs))"

function match_chunk :: "bool \<Rightarrow> string \<Rightarrow> string \<Rightarrow> string option option" where
  "match_chunk failed [] s = Some (if failed then None else Some s)"
| "match_chunk failed (c # cs) s =
     (let failed = failed \<or> s = []
      in if c = CHR ''['' then
           (case class_ranges (if failed then 0 else fst (decode_rune s)) False False (snd (class_body cs)) of
              None \<Rightarrow> None
            | Some (m, cs') \<Rightarrow>
                match_chunk (failed \<or> m = fst (class_body cs)) cs' (if failed then s else drop (snd (decode_rune s)) s))
         else if c = CHR ''?'' then
           match_chunk (failed \<or> hd s = slash) cs (if failed then s else drop (snd (decode_rune s)) s)
         else if c = backslash \<and> cs = [] then None
         else if c = backslash then match_chunk (failed \<or> hd cs \<noteq> hd s) (tl cs) (if failed then s else tl s)
         else match_chunk (failed \<or> c \<noteq> hd s) cs (if failed then s else tl s))"
  by pat_completeness auto

termination
proof (relation "measure (\<lambda>(f, chunk, s). length chunk)", goal_cases)
  case (2 failed c cs s f x m cs')
  then have "length cs' < length (snd (class_body cs))" using class_ranges_shorter by metis
  then show ?case by (auto simp: class_body_def split: if_splits)
qed auto

declare match_chunk.simps(2) [simp del]

text \<open>\<^verbatim>\<open>scanChunk\<close>: whether the pattern starts with stars, the chunk up to the next star, and the rest.\<close>

fun scan_body :: "bool \<Rightarrow> string \<Rightarrow> string \<times> string" where
  "scan_body inrange [] = ([], [])"
| "scan_body inrange (c # p) =
     (if c = backslash then
        (case p of [] \<Rightarrow> ([c], []) | d # p' \<Rightarrow> (case scan_body inrange p' of (chunk, rest) \<Rightarrow> (c # d # chunk, rest)))
      else if c = CHR ''*'' \<and> \<not> inrange then ([], c # p)
      else (case scan_body (if c = CHR ''['' then True else if c = CHR '']'' then False else inrange) p of
              (chunk, rest) \<Rightarrow> (c # chunk, rest)))"

definition scan_chunk :: "string \<Rightarrow> bool \<times> string \<times> string" where
  "scan_chunk p = (p \<noteq> [] \<and> hd p = CHR ''*'', scan_body False (dropWhile (\<lambda>c. c = CHR ''*'') p))"

lemma scan_body_append: "scan_body i p = (chunk, rest) \<Longrightarrow> p = chunk @ rest"
  by (induction i p arbitrary: chunk rest rule: scan_body.induct) (auto split: if_splits list.splits prod.splits)

lemma scan_body_progress: "p \<noteq> [] \<Longrightarrow> hd p \<noteq> CHR ''*'' \<Longrightarrow> scan_body False p = (chunk, rest) \<Longrightarrow> chunk \<noteq> []"
  by (cases p) (auto split: if_splits list.splits prod.splits)

lemma scan_chunk_shorter:
  assumes "p \<noteq> []" "scan_chunk p = (star, chunk, rest)"
  shows "length rest < length p"
proof -
  let ?q = "dropWhile (\<lambda>c. c = CHR ''*'') p"
  have q: "scan_body False ?q = (chunk, rest)" using assms(2) by (simp add: scan_chunk_def)
  then have len: "length ?q = length chunk + length rest" using scan_body_append by fastforce
  show ?thesis
  proof (cases "hd p = CHR ''*''")
    case True
    then have "length ?q < length p"
      using assms(1) length_dropWhile_le [of "\<lambda>c. c = CHR ''*''" "tl p"] by (cases p) auto
    then show ?thesis using len by simp
  next
    case False
    then have "?q = p" using assms(1) by (cases p) auto
    then show ?thesis using len scan_body_progress [OF assms(1) False] q by auto
  qed
qed

text \<open>The loop over the positions a star can skip to.\<close>

fun star_loop :: "string \<Rightarrow> bool \<Rightarrow> string \<Rightarrow> string option option" where
  "star_loop chunk final [] = Some None"
| "star_loop chunk final (c # name) =
     (if c = slash then Some None
      else case match_chunk False chunk name of
        None \<Rightarrow> None
      | Some None \<Rightarrow> star_loop chunk final name
      | Some (Some t) \<Rightarrow> if final \<and> t \<noteq> [] then star_loop chunk final name else Some (Some t))"

text \<open>The check of the rest of the pattern before a mismatch is reported.\<close>

function check_rest :: "string \<Rightarrow> bool" where
  "check_rest p =
     (if p = [] then True
      else case scan_chunk p of (star, chunk, rest) \<Rightarrow>
        if match_chunk False chunk [] = None then False else check_rest rest)"
  by pat_completeness auto

termination
  by (relation "measure length") (auto intro: scan_chunk_shorter [OF _ sym])

declare check_rest.simps [simp del]

definition mismatch :: "string \<Rightarrow> bool option" where
  "mismatch rest = (if check_rest rest then Some False else None)"

text \<open>One chunk against a name: the name left for the next chunk.\<close>

definition match_step :: "bool \<Rightarrow> string \<Rightarrow> bool \<Rightarrow> string \<Rightarrow> string option option" where
  "match_step star chunk final name =
     (case match_chunk False chunk name of
        None \<Rightarrow> None
      | Some r \<Rightarrow>
          (case r of
             Some t \<Rightarrow>
               if t = [] \<or> \<not> final then Some (Some t)
               else if star then star_loop chunk final name else Some None
           | None \<Rightarrow> if star then star_loop chunk final name else Some None))"

function path_Match :: "string \<Rightarrow> string \<Rightarrow> bool option" where
  "path_Match pattern name =
     (if pattern = [] then Some (name = [])
      else case scan_chunk pattern of (star, chunk, rest) \<Rightarrow>
        if star \<and> chunk = [] then Some (slash \<notin> set name)
        else case match_step star chunk (rest = []) name of
          None \<Rightarrow> None
        | Some None \<Rightarrow> mismatch rest
        | Some (Some t) \<Rightarrow> path_Match rest t)"
  by pat_completeness auto

termination
  by (relation "measure (\<lambda>(pattern, name). length pattern)") (auto intro: scan_chunk_shorter [OF _ sym])

declare path_Match.simps [simp del]

section \<open>Bad patterns\<close>

lemma class_ranges_rest: "map_option snd (class_ranges r m some chunk) = map_option snd (class_ranges r' m' some chunk)"
proof (induction r m some chunk arbitrary: r' m' rule: class_ranges.induct)
  case (1 r m some chunk)
  show ?case
  proof (cases "chunk \<noteq> [] \<and> hd chunk = CHR '']'' \<and> some")
    case True
    then show ?thesis by (subst (1 2) class_ranges.simps) simp
  next
    case False
    show ?thesis
    proof (cases "get_esc chunk")
      case None
      with False show ?thesis by (subst (1 2) class_ranges.simps) simp
    next
      case (Some x)
      obtain lo c1 where x: "x = (lo, c1)" by (cases x)
      let ?y = "if hd c1 = CHR ''-'' then get_esc (tl c1) else Some (lo, c1)"
      show ?thesis
      proof (cases ?y)
        case None
        with False Some x show ?thesis by (subst (1 2) class_ranges.simps) simp
      next
        case y: (Some y)
        obtain hi c2 where hi: "y = (hi, c2)" by (cases y)
        have "map_option snd (class_ranges r (m \<or> lo \<le> r \<and> r \<le> hi) True c2)
            = map_option snd (class_ranges r' (m' \<or> lo \<le> r' \<and> r' \<le> hi) True c2)"
          by (rule 1 [OF False Some x [symmetric] y hi [symmetric]])
        with False Some x y hi show ?thesis by (subst (1 2) class_ranges.simps) auto
      qed
    qed
  qed
qed

lemma class_ranges_bad: "class_ranges r m some chunk = None \<longleftrightarrow> class_ranges r' m' some chunk = None"
  using class_ranges_rest [of r m some chunk r' m'] by (metis option.map_disc_iff)

definition chunk_ok :: "string \<Rightarrow> bool" where
  "chunk_ok chunk \<longleftrightarrow> match_chunk True chunk [] \<noteq> None"

lemma match_chunk_bad: "match_chunk f chunk s = None \<longleftrightarrow> \<not> chunk_ok chunk"
  unfolding chunk_ok_def not_not
proof (induction f chunk s rule: match_chunk.induct)
  case (2 f c cs s)
  show ?case
  proof (cases "c = CHR ''[''")
    case True
    let ?r = "if f \<or> s = [] then 0 else fst (decode_rune s)" and ?cl = "snd (class_body cs)"
    show ?thesis
    proof (cases "class_ranges ?r False False ?cl")
      case None
      then have "class_ranges 0 False False ?cl = None" using class_ranges_bad by blast
      with None True show ?thesis by (simp add: match_chunk.simps(2) Let_def)
    next
      case (Some x)
      obtain m cs' where x: "x = (m, cs')" by (cases x)
      have "map_option snd (class_ranges 0 False False ?cl) = Some cs'"
        using class_ranges_rest [of ?r False False ?cl 0 False] Some x by (simp only: option.map snd_conv)
      then obtain m0 where "class_ranges 0 False False ?cl = Some (m0, cs')"
        by (auto simp: map_option_eq_Some simp del: not_None_eq)
      with 2(1) [OF refl True Some x [symmetric]] True Some x show ?thesis
        by (simp add: match_chunk.simps(2) Let_def)
    qed
  next
    case False
    then show ?thesis using 2 by (simp add: match_chunk.simps(2) Let_def)
  qed
qed simp

lemma star_loop_bad: "chunk_ok chunk \<Longrightarrow> star_loop chunk final name \<noteq> None"
  by (induction name) (auto simp: match_chunk_bad split: option.splits)

lemma match_step_bad: "match_step star chunk final name = None \<longleftrightarrow> \<not> chunk_ok chunk"
  using match_chunk_bad [of False chunk name] star_loop_bad [of chunk final name]
  by (auto simp: match_step_def split: option.splits)

lemma scan_chunk_last:
  assumes "scan_chunk p = (star, [], rest)"
  shows "rest = []"
proof -
  let ?q = "dropWhile (\<lambda>c. c = CHR ''*'') p"
  have q: "scan_body False ?q = ([], rest)" using assms by (simp add: scan_chunk_def)
  moreover have "?q = []" using scan_body_progress [OF _ _ q] hd_dropWhile [of "\<lambda>c. c = CHR ''*''" p] by blast
  ultimately show ?thesis by simp
qed

lemma chunk_ok_Nil [simp]: "chunk_ok []"
  by (simp add: chunk_ok_def)

lemma check_rest_step:
  "p \<noteq> [] \<Longrightarrow> scan_chunk p = (star, chunk, rest) \<Longrightarrow> check_rest p \<longleftrightarrow> chunk_ok chunk \<and> check_rest rest"
  using match_chunk_bad [of False chunk "[]"] by (subst check_rest.simps) auto

lemma check_rest_Nil [simp]: "check_rest []"
  by (subst check_rest.simps) simp

lemma path_Match_bad: "path_Match pattern name = None \<longleftrightarrow> \<not> check_rest pattern"
proof (induction pattern name rule: path_Match.induct)
  case (1 pattern name)
  show ?case
  proof (cases "pattern = []")
    case True
    then show ?thesis by (subst path_Match.simps) simp
  next
    case False
    obtain star chunk rest where sc: "scan_chunk pattern = (star, chunk, rest)" by (cases "scan_chunk pattern")
    have cr: "check_rest pattern \<longleftrightarrow> chunk_ok chunk \<and> check_rest rest" by (rule check_rest_step [OF False sc])
    show ?thesis
    proof (cases "star \<and> chunk = []")
      case True
      then show ?thesis using scan_chunk_last [of pattern star rest] sc cr False
        by (subst path_Match.simps) simp
    next
      case nstar: False
      then show ?thesis
        using 1(1) [OF False sc [symmetric] refl nstar] cr False sc match_step_bad [of star chunk "rest = []" name]
        by (subst path_Match.simps) (auto simp: mismatch_def split: option.splits)
    qed
  qed
qed

section \<open>What a pattern without classes matches\<close>

text \<open>
  The language of a pattern of literal bytes, question marks and stars, on names of ASCII bytes without
  slashes, as package names are.
\<close>

fun glob_lang :: "string \<Rightarrow> string \<Rightarrow> bool" where
  "glob_lang [] n \<longleftrightarrow> n = []"
| "glob_lang (c # p) [] \<longleftrightarrow> c = CHR ''*'' \<and> glob_lang p []"
| "glob_lang (c # p) (x # n) \<longleftrightarrow>
     (if c = CHR ''*'' then glob_lang p (x # n) \<or> glob_lang (c # p) n
      else (c = CHR ''?'' \<or> c = x) \<and> glob_lang p n)"

definition simple_pattern :: "string \<Rightarrow> bool" where
  "simple_pattern p \<longleftrightarrow> list_all (\<lambda>c. c \<noteq> CHR ''['' \<and> c \<noteq> backslash) p"

definition plain_name :: "string \<Rightarrow> bool" where
  "plain_name n \<longleftrightarrow> list_all (\<lambda>c. byte c < 128 \<and> c \<noteq> slash) n"

definition no_star :: "string \<Rightarrow> bool" where
  "no_star p \<longleftrightarrow> CHR ''*'' \<notin> set p"

fun fits :: "string \<Rightarrow> string \<Rightarrow> bool" where
  "fits [] s \<longleftrightarrow> True"
| "fits (c # p) [] \<longleftrightarrow> False"
| "fits (c # p) (x # s) \<longleftrightarrow> (c = CHR ''?'' \<or> c = x) \<and> fits p s"

lemma plain_name_Cons: "plain_name (x # n) \<longleftrightarrow> byte x < 128 \<and> x \<noteq> slash \<and> plain_name n"
  by (auto simp: plain_name_def)

lemma plain_name_drop: "plain_name n \<Longrightarrow> plain_name (drop i n)"
  by (auto simp: plain_name_def list_all_iff dest: in_set_dropD)

lemma simple_Cons: "simple_pattern (c # p) \<longleftrightarrow> c \<noteq> CHR ''['' \<and> c \<noteq> backslash \<and> simple_pattern p"
  by (auto simp: simple_pattern_def)

lemma match_chunk_failed: "simple_pattern chunk \<Longrightarrow> match_chunk True chunk s = Some None"
  by (induction chunk arbitrary: s) (auto simp: simple_Cons match_chunk.simps(2) Let_def)

lemma match_chunk_simple:
  "simple_pattern chunk \<Longrightarrow> plain_name s \<Longrightarrow>
     match_chunk False chunk s = Some (if fits chunk s then Some (drop (length chunk) s) else None)"
proof (induction chunk s rule: fits.induct)
  case (2 c p)
  then show ?case using match_chunk_failed [of p] by (auto simp: simple_Cons match_chunk.simps(2) Let_def)
next
  case (3 c p x s)
  then show ?case using match_chunk_failed [of p]
    by (auto simp: simple_Cons plain_name_Cons match_chunk.simps(2) Let_def)
qed simp

lemma scan_body_simple:
  "simple_pattern p \<Longrightarrow> scan_body False p = (takeWhile (\<lambda>c. c \<noteq> CHR ''*'') p, dropWhile (\<lambda>c. c \<noteq> CHR ''*'') p)"
  by (induction p) (auto simp: simple_Cons)

lemma glob_lang_chunk:
  "no_star chunk \<Longrightarrow> glob_lang (chunk @ rest) n \<longleftrightarrow> fits chunk n \<and> glob_lang rest (drop (length chunk) n)"
  by (induction chunk n rule: fits.induct) (auto simp: no_star_def)

lemma glob_lang_star: "glob_lang (CHR ''*'' # p) n \<longleftrightarrow> (\<exists>u v. n = u @ v \<and> glob_lang p v)"
proof (induction n)
  case (Cons x n)
  have "(\<exists>u v. x # n = u @ v \<and> glob_lang p v) \<longleftrightarrow> glob_lang p (x # n) \<or> (\<exists>u v. n = u @ v \<and> glob_lang p v)"
    by (auto simp: Cons_eq_append_conv)
  then show ?case using Cons by simp
qed simp

lemma glob_lang_star_suffix: "glob_lang (CHR ''*'' # p) v \<Longrightarrow> glob_lang (CHR ''*'' # p) (u @ v)"
  unfolding glob_lang_star by (metis append.assoc)

lemma glob_lang_stars: "glob_lang (CHR ''*'' # CHR ''*'' # p) n \<longleftrightarrow> glob_lang (CHR ''*'' # p) n"
proof
  assume "glob_lang (CHR ''*'' # CHR ''*'' # p) n"
  then obtain u v where "n = u @ v" "glob_lang (CHR ''*'' # p) v" using glob_lang_star [of "CHR ''*'' # p"] by auto
  then show "glob_lang (CHR ''*'' # p) n" using glob_lang_star_suffix by simp
next
  assume "glob_lang (CHR ''*'' # p) n"
  then show "glob_lang (CHR ''*'' # CHR ''*'' # p) n" using glob_lang_star [of "CHR ''*'' # p" n] by (metis append_Nil)
qed

text \<open>The position a chunk after a star is matched at is the first one where it fits.\<close>

fun first_fit :: "(string \<Rightarrow> bool) \<Rightarrow> string \<Rightarrow> string option" where
  "first_fit P [] = (if P [] then Some [] else None)"
| "first_fit P (x # n) = (if P (x # n) then Some (x # n) else first_fit P n)"

definition good_fit :: "string \<Rightarrow> bool \<Rightarrow> string \<Rightarrow> bool" where
  "good_fit chunk final v \<longleftrightarrow> fits chunk v \<and> (final \<longrightarrow> drop (length chunk) v = [])"

lemma first_fit_None: "first_fit P (u @ v) = None \<Longrightarrow> \<not> P v"
proof (induction u)
  case Nil
  then show ?case by (cases v) (auto split: if_splits)
qed (auto split: if_splits)

lemma first_fit_Some: "first_fit P n = Some v \<Longrightarrow> P v \<and> (\<exists>u. n = u @ v)"
proof (induction n)
  case (Cons x n)
  then show ?case by (cases "P (x # n)") (auto intro: exI [of _ "x # u" for u])
qed (auto split: if_splits)

lemma first_fit_least: "first_fit P (u' @ v') = Some v \<Longrightarrow> P v' \<Longrightarrow> \<exists>w. v = w @ v'"
proof (induction u')
  case Nil
  then show ?case by (cases v') auto
next
  case (Cons a u')
  then show ?case by (cases "P ((a # u') @ v')") (auto intro: exI [of _ "a # u'"])
qed

lemma drop_suffix: "\<exists>w'. drop k (w @ v) = w' @ drop k v"
proof -
  have "drop (k - length w) v = take (k - (k - length w)) (drop (k - length w) v) @ drop k v"
    using append_take_drop_id [of "k - (k - length w)" "drop (k - length w) v"] by simp
  then show ?thesis by (metis append.assoc drop_append)
qed

lemma star_loop_simple:
  assumes "simple_pattern chunk"
  shows "plain_name (x # n) \<Longrightarrow>
    star_loop chunk final (x # n) = Some (map_option (drop (length chunk)) (first_fit (good_fit chunk final) n))"
proof (induction n arbitrary: x)
  case Nil
  then show ?case using assms by (auto simp: plain_name_Cons match_chunk_simple good_fit_def)
next
  case (Cons y n)
  then show ?case
    using assms Cons.IH [of y]
    by (subst star_loop.simps(2))
      (auto simp: plain_name_Cons match_chunk_simple good_fit_def [of chunk final "y # n"] simp del: star_loop.simps)
qed

lemma match_step_star:
  assumes "simple_pattern chunk" "plain_name n"
  shows "match_step True chunk final n = Some (map_option (drop (length chunk)) (first_fit (good_fit chunk final) n))"
  using assms star_loop_simple [OF assms(1)]
  by (cases n) (auto simp: match_step_def match_chunk_simple good_fit_def)

lemma match_step_fixed:
  assumes "simple_pattern chunk" "plain_name n"
  shows "match_step False chunk final n = Some (if good_fit chunk final n then Some (drop (length chunk) n) else None)"
  using assms by (auto simp: match_step_def match_chunk_simple good_fit_def)

lemma star_chunk_lang:
  assumes "no_star chunk" "rest = [] \<or> hd rest = CHR ''*''"
  shows "glob_lang (CHR ''*'' # chunk @ rest) n \<longleftrightarrow>
    (case first_fit (good_fit chunk (rest = [])) n of None \<Rightarrow> False | Some v \<Rightarrow> glob_lang rest (drop (length chunk) v))"
proof -
  have lang: "glob_lang (CHR ''*'' # chunk @ rest) n
      \<longleftrightarrow> (\<exists>u v. n = u @ v \<and> fits chunk v \<and> glob_lang rest (drop (length chunk) v))"
    using glob_lang_chunk [OF assms(1)] by (simp add: glob_lang_star)
  show ?thesis
  proof (cases "first_fit (good_fit chunk (rest = [])) n")
    case None
    have "\<not> (fits chunk v \<and> glob_lang rest (drop (length chunk) v))" if "n = u @ v" for u v
      using first_fit_None [of "good_fit chunk (rest = [])" u v] None that by (cases rest) (auto simp: good_fit_def)
    then show ?thesis using None lang by auto
  next
    case (Some v)
    obtain u where v: "n = u @ v" "good_fit chunk (rest = []) v" using first_fit_Some [OF Some] by blast
    have "glob_lang rest (drop (length chunk) v)"
      if n': "n = u' @ v'" and f: "fits chunk v'" and g: "glob_lang rest (drop (length chunk) v')" for u' v'
    proof (cases rest)
      case Nil
      then show ?thesis using v(2) by (simp add: good_fit_def)
    next
      case (Cons c p)
      then have "good_fit chunk (rest = []) v'" using f by (simp add: good_fit_def)
      then obtain w where "v = w @ v'" using first_fit_least Some n' by blast
      then have "\<exists>w'. drop (length chunk) v = w' @ drop (length chunk) v'" using drop_suffix by simp
      then show ?thesis using g assms(2) Cons glob_lang_star_suffix by auto
    qed
    then show ?thesis using Some v lang by (auto simp: good_fit_def)
  qed
qed

lemma simple_parts:
  assumes "simple_pattern p" "scan_chunk p = (star, chunk, rest)"
  shows "simple_pattern chunk" "simple_pattern rest" "no_star chunk" "rest = [] \<or> hd rest = CHR ''*''"
    and "glob_lang p n = glob_lang (if star then CHR ''*'' # chunk @ rest else chunk @ rest) n"
proof -
  let ?q = "dropWhile (\<lambda>c. c = CHR ''*'') p"
  have q: "simple_pattern ?q" using assms(1) by (auto simp: simple_pattern_def list_all_iff dest: set_dropWhileD)
  then have cr: "chunk = takeWhile (\<lambda>c. c \<noteq> CHR ''*'') ?q" "rest = dropWhile (\<lambda>c. c \<noteq> CHR ''*'') ?q"
    using assms(2) scan_body_simple [OF q] by (simp_all add: scan_chunk_def)
  show "simple_pattern chunk" "simple_pattern rest"
    using q unfolding cr simple_pattern_def list_all_iff by (auto dest: set_takeWhileD set_dropWhileD)
  show "no_star chunk" unfolding cr no_star_def by (auto dest: set_takeWhileD)
  show "rest = [] \<or> hd rest = CHR ''*''" unfolding cr using hd_dropWhile by blast
  have star: "star \<longleftrightarrow> p \<noteq> [] \<and> hd p = CHR ''*''" and q': "chunk @ rest = ?q"
    using assms(2) cr by (simp_all add: scan_chunk_def)
  have "glob_lang (CHR ''*'' # p') n = glob_lang (CHR ''*'' # dropWhile (\<lambda>c. c = CHR ''*'') p') n" for p'
    by (induction p') (auto simp: glob_lang_stars simp del: glob_lang.simps)
  then show "glob_lang p n = glob_lang (if star then CHR ''*'' # chunk @ rest else chunk @ rest) n"
    unfolding q' by (cases p) (auto simp: star simp del: glob_lang.simps)
qed

lemma check_rest_simple: "simple_pattern p \<Longrightarrow> check_rest p"
proof (induction p rule: check_rest.induct)
  case (1 p)
  show ?case
  proof (cases "p = []")
    case False
    obtain star chunk rest where sc: "scan_chunk p = (star, chunk, rest)" by (cases "scan_chunk p")
    have "chunk_ok chunk" using match_chunk_failed [OF simple_parts(1) [OF 1(2) sc]] by (simp add: chunk_ok_def)
    moreover have "match_chunk False chunk [] \<noteq> None" using calculation match_chunk_bad by blast
    ultimately show ?thesis
      using check_rest_step [OF False sc] 1(1) [OF False sc [symmetric] refl] simple_parts(2) [OF 1(2) sc] by simp
  qed simp
qed

lemma path_Match_lang: "simple_pattern p \<Longrightarrow> plain_name n \<Longrightarrow> path_Match p n = Some (glob_lang p n)"
proof (induction p n rule: path_Match.induct)
  case (1 p n)
  show ?case
  proof (cases "p = []")
    case True
    then show ?thesis by (subst path_Match.simps) simp
  next
    case False
    obtain star chunk rest where sc: "scan_chunk p = (star, chunk, rest)" by (cases "scan_chunk p")
    note parts = simple_parts [OF 1(2) sc]
    have mis: "mismatch rest = Some False" using check_rest_simple [OF parts(2)] by (simp add: mismatch_def)
    have IH: "path_Match rest (drop k v) = Some (glob_lang rest (drop k v))"
      if "match_step star chunk (rest = []) n = Some (Some (drop k v))" "\<not> (star \<and> chunk = [])" "n = u @ v" for k u v
      using 1(1) [OF False sc [symmetric] refl that(2,1) refl parts(2)] 1(3) that(3) plain_name_drop [of v k]
      by (simp add: plain_name_def)
    show ?thesis
    proof (cases star)
      case True
      show ?thesis
      proof (cases "chunk = []")
        case True
        then have "rest = []" using scan_chunk_last sc by blast
        then have "glob_lang p n" using parts(5) [of n] \<open>star\<close> True by (simp add: glob_lang_star del: glob_lang.simps(2,3))
        then show ?thesis using False sc \<open>star\<close> True 1(3)
          by (subst path_Match.simps) (auto simp: plain_name_def list_all_iff)
      next
        case ne: False
        have ms: "match_step star chunk (rest = []) n
            = Some (map_option (drop (length chunk)) (first_fit (good_fit chunk (rest = [])) n))"
          using match_step_star [OF parts(1) 1(3)] True by simp
        show ?thesis
        proof (cases "first_fit (good_fit chunk (rest = [])) n")
          case None
          then show ?thesis using ms mis False sc ne star_chunk_lang [OF parts(3,4), of n] parts(5) [of n] True
            by (subst path_Match.simps) simp
        next
          case (Some v)
          obtain u where "n = u @ v" using first_fit_Some [OF Some] by blast
          then have "path_Match rest (drop (length chunk) v) = Some (glob_lang rest (drop (length chunk) v))"
            using IH ms Some ne by simp
          then show ?thesis using Some ms False sc ne star_chunk_lang [OF parts(3,4), of n] parts(5) [of n] True
            by (subst path_Match.simps) simp
        qed
      qed
    next
      case ns: False
      have ms: "match_step star chunk (rest = []) n
          = Some (if good_fit chunk (rest = []) n then Some (drop (length chunk) n) else None)"
        using match_step_fixed [OF parts(1) 1(3)] ns by simp
      have lang: "glob_lang p n \<longleftrightarrow> fits chunk n \<and> glob_lang rest (drop (length chunk) n)"
        using parts(5) [of n] ns glob_lang_chunk [OF parts(3)] by simp
      have "path_Match rest (drop (length chunk) n) = Some (glob_lang rest (drop (length chunk) n))"
        if "good_fit chunk (rest = []) n" using IH [of "length chunk" n "[]"] ms ns that by simp
      then show ?thesis using ms ns False sc mis lang
        by (subst path_Match.simps) (auto simp: good_fit_def)
    qed
  qed
qed

end
