(* ===== verification/Policy_File.thy ===== *)
theory Policy_File
  imports Mini_Yaml Go_Glob Lock_File "HOL-Library.Monad_Syntax"
begin

text \<open>
  The policy file: its structure (\<^verbatim>\<open>src/core/policy/iface.go\<close>), the checks of \<^verbatim>\<open>src/core/policy/validate.go\<close>
  and the loaders of \<^verbatim>\<open>src/core/policy/api.go\<close>. The byte level of \<^verbatim>\<open>encoding/json\<close> is the record
  \<open>policy_codec\<close>; what a decoded JSON value means for the struct is the definition \<open>decode_policy\<close>. A
  message that Go formats is an error constructor with its arguments.
\<close>

section \<open>Data\<close>

definition policy_SchemaVersion :: string where
  "policy_SchemaVersion = ''debark.policy/v1''"

definition SeverityInfo :: string where "SeverityInfo = ''info''"
definition SeverityWarn :: string where "SeverityWarn = ''warn''"
definition SeverityDeny :: string where "SeverityDeny = ''deny''"

lemmas severity_defs = SeverityInfo_def SeverityWarn_def SeverityDeny_def

record policy =
  po_SchemaVersion :: string
  po_AllowComponents :: "string list"
  po_DenyComponents :: "string list"
  po_AllowPackages :: "string list"
  po_DenyPackages :: "string list"
  po_RequireSignedPublisher :: bool
  po_AllowURLInputs :: "bool option"
  po_ApprovedKeys :: "string list"
  po_DenyFlags :: "string list"
  po_DefaultSeverity :: string

datatype policy_error =
    UnknownKey string
  | KeyTwice string
  | BadJSON
  | BadYAML yaml_error
  | BadType
  | MissingSchema
  | UnsupportedSchema string
  | BadSeverity string
  | BadFlag string
  | BadGlob
  | BadFingerprint nat string

section \<open>Fingerprints\<close>

definition hex_upper :: "char \<Rightarrow> char option" where
  "hex_upper c =
     (if is_digit_byte c \<or> 65 \<le> byte c \<and> byte c \<le> 70 then Some c
      else if 97 \<le> byte c \<and> byte c \<le> 102 then Some (char_of (byte c - 32))
      else None)"

definition fp_blank :: "char \<Rightarrow> bool" where
  "fp_blank c \<longleftrightarrow> c = CHR '' '' \<or> c = CHR 0x09 \<or> c = CHR 0x0A \<or> c = CHR 0x0D"

text \<open>The scan of \<^verbatim>\<open>normalizeFingerprint\<close>. A rune outside ASCII ends it, and so does its first byte.\<close>

fun fp_scan :: "string \<Rightarrow> string option" where
  "fp_scan [] = Some []"
| "fp_scan (c # s) =
     (if fp_blank c then fp_scan s
      else case hex_upper c of
        None \<Rightarrow> None
      | Some d \<Rightarrow> map_option (\<lambda>out. d # out) (fp_scan s))"

definition strip_0x :: "string \<Rightarrow> string" where
  "strip_0x s = (if length s > 2 \<and> (take 2 s = ''0x'' \<or> take 2 s = ''0X'') then drop 2 s else s)"

definition normalizeFingerprint :: "string \<Rightarrow> string option" where
  "normalizeFingerprint s =
     (case fp_scan (strip_0x (trim_space s)) of
        None \<Rightarrow> None
      | Some out \<Rightarrow> if length out \<noteq> 40 \<and> length out \<noteq> 64 then None else Some out)"

section \<open>Validation\<close>

definition policyFields :: "string list" where
  "policyFields = [''schema_version'', ''allow_components'', ''deny_components'', ''allow_packages'',
     ''deny_packages'', ''require_signed_publisher'', ''allow_url_inputs'', ''approved_keys'', ''deny_flags'',
     ''default_severity'']"

definition knownFlags :: "string list" where
  "knownFlags = [FlagMultiverse, FlagRestricted, FlagNonFree, FlagNonFreeFirmware, FlagNetworkPostinst,
     FlagSnapShim, FlagDKMS, FlagUserSupplied]"

fun check_keys :: "string list \<Rightarrow> string list \<Rightarrow> policy_error option" where
  "check_keys seen [] = None"
| "check_keys seen (k # ks) =
     (if k \<notin> set policyFields then Some (UnknownKey k)
      else if k \<in> set seen then Some (KeyTwice k)
      else check_keys (k # seen) ks)"

definition checkPolicyKeys :: "string list \<Rightarrow> policy_error option" where
  "checkPolicyKeys keys = check_keys [] keys"

definition matchesAnyFold :: "(nat \<Rightarrow> nat) \<Rightarrow> string list \<Rightarrow> string \<Rightarrow> bool" where
  "matchesAnyFold sf list val \<longleftrightarrow> list_ex (\<lambda>v. EqualFold sf v val) list"

fun first_bad_flag :: "(nat \<Rightarrow> nat) \<Rightarrow> string list \<Rightarrow> string option" where
  "first_bad_flag sf [] = None"
| "first_bad_flag sf (f # fs) = (if matchesAnyFold sf knownFlags f then first_bad_flag sf fs else Some f)"

fun normalize_keys :: "nat \<Rightarrow> string list \<Rightarrow> policy_error + string list" where
  "normalize_keys i [] = Inr []"
| "normalize_keys i (k # ks) =
     (case normalizeFingerprint k of
        None \<Rightarrow> Inl (BadFingerprint i k)
      | Some norm \<Rightarrow> (case normalize_keys (Suc i) ks of Inl e \<Rightarrow> Inl e | Inr out \<Rightarrow> Inr (norm # out)))"

text \<open>The policy \<^verbatim>\<open>validatePolicy\<close> leaves behind: it normalises the approved keys in place. Which of several
  bad patterns the message names depends on Go's map order, so the error names none.\<close>

definition validatePolicy :: "(nat \<Rightarrow> nat) \<Rightarrow> policy \<Rightarrow> policy_error + policy" where
  "validatePolicy sf p =
     (if po_SchemaVersion p = '''' then Inl MissingSchema
      else if po_SchemaVersion p \<noteq> policy_SchemaVersion then Inl (UnsupportedSchema (po_SchemaVersion p))
      else if po_DefaultSeverity p \<notin> set ['''', SeverityInfo, SeverityWarn, SeverityDeny]
      then Inl (BadSeverity (po_DefaultSeverity p))
      else case first_bad_flag sf (po_DenyFlags p) of
        Some f \<Rightarrow> Inl (BadFlag f)
      | None \<Rightarrow>
          if list_ex (\<lambda>pat. path_Match pat '''' = None) (po_AllowPackages p @ po_DenyPackages p) then Inl BadGlob
          else case normalize_keys 0 (po_ApprovedKeys p) of
            Inl e \<Rightarrow> Inl e
          | Inr keys \<Rightarrow> Inr (p\<lparr>po_ApprovedKeys := keys\<rparr>))"

section \<open>Decoding\<close>

text \<open>
  \<^verbatim>\<open>json.Unmarshal\<close> into the struct: \<^verbatim>\<open>null\<close> leaves the zero value, another type is an error. The keys are
  distinct and exact here, \<^verbatim>\<open>checkPolicyKeys\<close> has run.
\<close>

fun dec_string :: "json \<Rightarrow> string option" where
  "dec_string JNull = Some ''''"
| "dec_string (JStr s) = Some s"
| "dec_string _ = None"

fun dec_bool :: "json \<Rightarrow> bool option" where
  "dec_bool JNull = Some False"
| "dec_bool (JBool b) = Some b"
| "dec_bool _ = None"

fun dec_opt_bool :: "json \<Rightarrow> bool option option" where
  "dec_opt_bool JNull = Some None"
| "dec_opt_bool (JBool b) = Some (Some b)"
| "dec_opt_bool _ = None"

fun dec_all :: "json list \<Rightarrow> string list option" where
  "dec_all [] = Some []"
| "dec_all (j # js) =
     (case dec_string j of None \<Rightarrow> None | Some s \<Rightarrow> map_option (\<lambda>ss. s # ss) (dec_all js))"

fun dec_strings :: "json \<Rightarrow> string list option" where
  "dec_strings JNull = Some []"
| "dec_strings (JArr js) = dec_all js"
| "dec_strings _ = None"

definition json_member :: "(string \<times> json) list \<Rightarrow> string \<Rightarrow> json" where
  "json_member ms k = (case map_of ms k of None \<Rightarrow> JNull | Some j \<Rightarrow> j)"

definition decode_members :: "(string \<times> json) list \<Rightarrow> policy option" where
  "decode_members ms = do {
     sv \<leftarrow> dec_string (json_member ms ''schema_version'');
     ac \<leftarrow> dec_strings (json_member ms ''allow_components'');
     dc \<leftarrow> dec_strings (json_member ms ''deny_components'');
     ap \<leftarrow> dec_strings (json_member ms ''allow_packages'');
     dp \<leftarrow> dec_strings (json_member ms ''deny_packages'');
     rs \<leftarrow> dec_bool (json_member ms ''require_signed_publisher'');
     au \<leftarrow> dec_opt_bool (json_member ms ''allow_url_inputs'');
     ak \<leftarrow> dec_strings (json_member ms ''approved_keys'');
     df \<leftarrow> dec_strings (json_member ms ''deny_flags'');
     ds \<leftarrow> dec_string (json_member ms ''default_severity'');
     Some \<lparr>po_SchemaVersion = sv, po_AllowComponents = ac, po_DenyComponents = dc, po_AllowPackages = ap,
       po_DenyPackages = dp, po_RequireSignedPublisher = rs, po_AllowURLInputs = au, po_ApprovedKeys = ak,
       po_DenyFlags = df, po_DefaultSeverity = ds\<rparr> }"

fun decode_policy :: "json \<Rightarrow> policy option" where
  "decode_policy (JObj ms) = decode_members ms"
| "decode_policy JNull = decode_members []"
| "decode_policy _ = None"

text \<open>What \<^verbatim>\<open>json.Marshal\<close> followed by \<^verbatim>\<open>json.Unmarshal\<close> makes of a YAML tree: invalid UTF-8 is replaced.\<close>

definition json_string :: "string \<Rightarrow> string" where
  "json_string s = concat (map utf8_encode (runes s))"

fun yaml_json :: "yaml \<Rightarrow> json" where
  "yaml_json YNull = JNull"
| "yaml_json (YBool b) = JBool b"
| "yaml_json (YStr s) = JStr (json_string s)"
| "yaml_json (YSeq vs) = JArr (map yaml_json vs)"

section \<open>Loading\<close>

text \<open>
  \<open>pc_first\<close> is the value \<^verbatim>\<open>json.Decoder\<close> reads first (\<^const>\<open>None\<close> when it reports an error), \<open>pc_value\<close> the one
  value that \<^verbatim>\<open>json.Unmarshal\<close> finds the bytes to be.
\<close>

record policy_codec =
  pc_first :: "string \<Rightarrow> json option"
  pc_value :: "string \<Rightarrow> json option"

definition jsonObjectKeys :: "policy_codec \<Rightarrow> string \<Rightarrow> policy_error + string list" where
  "jsonObjectKeys cd data = (case pc_first cd data of Some (JObj ms) \<Rightarrow> Inr (map fst ms) | _ \<Rightarrow> Inl BadJSON)"

definition has_suffix :: "string \<Rightarrow> string \<Rightarrow> bool" where
  "has_suffix s suf \<longleftrightarrow> has_prefix (rev s) (rev suf)"

text \<open>No rune outside ASCII has a letter of the three extensions as its lower case, so folding ASCII letters is
  enough.\<close>

definition looksLikeJSON :: "path \<Rightarrow> string \<Rightarrow> bool" where
  "looksLikeJSON p data =
     (let lower = to_lower p
      in if has_suffix lower ''.json'' then True
         else if has_suffix lower ''.yaml'' \<or> has_suffix lower ''.yml'' then False
         else let trimmed = trim_space data in trimmed \<noteq> [] \<and> (hd trimmed = CHR ''{'' \<or> hd trimmed = CHR ''[''))"

definition decode_and_validate :: "(nat \<Rightarrow> nat) \<Rightarrow> json option \<Rightarrow> policy_error + policy" where
  "decode_and_validate sf j =
     (case Option.bind j decode_policy of None \<Rightarrow> Inl BadType | Some p \<Rightarrow> validatePolicy sf p)"

definition parsePolicyFile :: "(nat \<Rightarrow> nat) \<Rightarrow> policy_codec \<Rightarrow> path \<Rightarrow> string \<Rightarrow> policy_error + policy" where
  "parsePolicyFile sf cd p data =
     (if looksLikeJSON p data then
        (case jsonObjectKeys cd data of
           Inl e \<Rightarrow> Inl e
         | Inr keys \<Rightarrow>
             (case checkPolicyKeys keys of Some e \<Rightarrow> Inl e | None \<Rightarrow> decode_and_validate sf (pc_value cd data)))
      else
        (case parseMiniYAML data of
           Inl e \<Rightarrow> Inl (BadYAML e)
         | Inr m \<Rightarrow>
             (case checkPolicyKeys (sort (map fst m)) of
                Some e \<Rightarrow> Inl e
              | None \<Rightarrow> decode_and_validate sf (Some (JObj (map (\<lambda>(k, v). (k, yaml_json v)) m))))))"

datatype policy_load_error = PolicyRead | PolicyParse policy_error

text \<open>The two implementations of \<^verbatim>\<open>Evaluator\<close>: \<^verbatim>\<open>empty\<close>, and \<^verbatim>\<open>evaluator\<close> with its policy pointer.\<close>

datatype policy_evaluator = EmptyEvaluator | PolicyEvaluator "policy option"

text \<open>\<^verbatim>\<open>Load\<close>; \<open>read\<close> is \<^verbatim>\<open>os.ReadFile\<close>. Every error has the class \<^verbatim>\<open>dferr.Usage\<close>.\<close>

definition policy_Load ::
    "(nat \<Rightarrow> nat) \<Rightarrow> policy_codec \<Rightarrow> (path \<Rightarrow> string option) \<Rightarrow> path \<Rightarrow> policy_load_error + policy_evaluator" where
  "policy_Load sf cd read p =
     (if p = '''' then Inr EmptyEvaluator
      else case read p of
        None \<Rightarrow> Inl PolicyRead
      | Some data \<Rightarrow>
          (case parsePolicyFile sf cd p data of
             Inl e \<Rightarrow> Inl (PolicyParse e)
           | Inr pol \<Rightarrow> Inr (PolicyEvaluator (Some pol))))"

datatype keys_error = KeysRead | NotAFingerprint nat string | NoFingerprints

definition key_line_text :: "string \<Rightarrow> string" where
  "key_line_text line = trim_space (case index_byte (CHR ''#'') line of Some i \<Rightarrow> take i line | None \<Rightarrow> line)"

fun approved_lines :: "nat \<Rightarrow> string list \<Rightarrow> keys_error + string list" where
  "approved_lines n [] = Inr []"
| "approved_lines n (l # ls) =
     (let line = key_line_text l
      in if line = '''' then approved_lines (Suc n) ls
         else case normalizeFingerprint line of
           None \<Rightarrow> Inl (NotAFingerprint (Suc n) line)
         | Some fp \<Rightarrow> (case approved_lines (Suc n) ls of Inl e \<Rightarrow> Inl e | Inr out \<Rightarrow> Inr (fp # out)))"

definition LoadApprovedKeys :: "(path \<Rightarrow> string option) \<Rightarrow> path \<Rightarrow> keys_error + string list" where
  "LoadApprovedKeys read p =
     (case read p of
        None \<Rightarrow> Inl KeysRead
      | Some data \<Rightarrow>
          (case approved_lines 0 (split_on newline (replace_crlf data)) of
             Inl e \<Rightarrow> Inl e
           | Inr out \<Rightarrow> if out = [] then Inl NoFingerprints else Inr out))"

section \<open>Lemmas\<close>

definition upper_hex :: "char \<Rightarrow> bool" where
  "upper_hex c \<longleftrightarrow> is_digit_byte c \<or> 65 \<le> byte c \<and> byte c \<le> 70"

definition full_fingerprint :: "string \<Rightarrow> bool" where
  "full_fingerprint fp \<longleftrightarrow> (length fp = 40 \<or> length fp = 64) \<and> list_all upper_hex fp"

lemma hex_upper_upper: "hex_upper c = Some d \<Longrightarrow> upper_hex d"
proof -
  have "upper_hex (char_of (n - 32))" if "97 \<le> n" "n \<le> 102" for n :: nat
    using that by (auto simp: upper_hex_def)
  then show "hex_upper c = Some d \<Longrightarrow> upper_hex d"
    by (auto simp: hex_upper_def upper_hex_def split: if_splits)
qed

lemma fp_scan_upper: "fp_scan s = Some out \<Longrightarrow> list_all upper_hex out"
  by (induction s arbitrary: out) (auto simp: hex_upper_upper split: if_splits option.splits)

lemma upper_hex_plain:
  assumes "upper_hex c"
  shows "plain_byte c" "\<not> fp_blank c" "hex_upper c = Some c" "c \<noteq> CHR ''x''" "c \<noteq> CHR ''X''"
  using assms
  by (auto simp: upper_hex_def plain_byte_def is_ascii_space_def fp_blank_def hex_upper_def is_digit_byte_def)

lemma fp_scan_id: "list_all upper_hex s \<Longrightarrow> fp_scan s = Some s"
  by (induction s) (auto simp: upper_hex_plain)

lemma strip_0x_id: "list_all upper_hex s \<Longrightarrow> strip_0x s = s"
proof -
  assume s: "list_all upper_hex s"
  have "take 2 s \<noteq> [a, b]" if "\<not> upper_hex b" for a b
    using s that by (cases s; cases "tl s") auto
  moreover have "\<not> upper_hex (CHR ''x'')" "\<not> upper_hex (CHR ''X'')" using upper_hex_plain(4,5) by blast+
  ultimately show "strip_0x s = s" by (simp add: strip_0x_def)
qed

lemma full_tight:
  assumes "full_fingerprint s"
  shows "tight s"
proof -
  have "s \<noteq> []" "list_all upper_hex s" using assms by (auto simp: full_fingerprint_def)
  then show ?thesis using upper_hex_plain(1) by (simp add: tight_def list_all_iff)
qed

lemma normalize_full: "full_fingerprint s \<Longrightarrow> normalizeFingerprint s = Some s"
  using trim_tight [OF full_tight, of s]
  by (auto simp: normalizeFingerprint_def full_fingerprint_def strip_0x_id fp_scan_id)

lemma normalize_is_full: "normalizeFingerprint s = Some fp \<Longrightarrow> full_fingerprint fp"
  by (auto simp: normalizeFingerprint_def full_fingerprint_def dest: fp_scan_upper split: option.splits if_splits)

lemma normalize_keys_full: "normalize_keys i ks = Inr out \<Longrightarrow> list_all full_fingerprint out"
  by (induction ks arbitrary: i out) (auto dest: normalize_is_full split: option.splits sum.splits)

lemma normalize_keys_id: "list_all full_fingerprint ks \<Longrightarrow> normalize_keys i ks = Inr ks"
  by (induction ks arbitrary: i) (auto simp: normalize_full)

lemma first_bad_flag_None: "first_bad_flag sf fs = None \<longleftrightarrow> list_all (matchesAnyFold sf knownFlags) fs"
  by (induction fs) auto

lemma check_keys_None:
  "check_keys seen ks = None \<longleftrightarrow> set ks \<subseteq> set policyFields \<and> distinct ks \<and> set ks \<inter> set seen = {}"
  by (induction ks arbitrary: seen) auto

lemma checkPolicyKeys_None: "checkPolicyKeys ks = None \<longleftrightarrow> set ks \<subseteq> set policyFields \<and> distinct ks"
  by (simp add: checkPolicyKeys_def check_keys_None)

text \<open>What the checks establish of a policy.\<close>

definition policy_wf :: "(nat \<Rightarrow> nat) \<Rightarrow> policy \<Rightarrow> bool" where
  "policy_wf sf p \<longleftrightarrow>
     po_SchemaVersion p = policy_SchemaVersion \<and>
     po_DefaultSeverity p \<in> {'''', SeverityInfo, SeverityWarn, SeverityDeny} \<and>
     list_all (matchesAnyFold sf knownFlags) (po_DenyFlags p) \<and>
     list_all check_rest (po_AllowPackages p @ po_DenyPackages p) \<and>
     list_all full_fingerprint (po_ApprovedKeys p)"

lemma globs_checked: "list_ex (\<lambda>pat. path_Match pat '''' = None) pats \<longleftrightarrow> \<not> list_all check_rest pats"
  by (induction pats) (auto simp: path_Match_bad)

lemma schema_not_empty: "policy_SchemaVersion \<noteq> ''''"
  by (simp add: policy_SchemaVersion_def)

lemma validatePolicy_wf: "validatePolicy sf p = Inr q \<Longrightarrow> policy_wf sf q"
  by (auto simp: validatePolicy_def policy_wf_def globs_checked first_bad_flag_None dest: normalize_keys_full
      split: if_splits option.splits sum.splits)

lemma validatePolicy_id: "policy_wf sf p \<Longrightarrow> validatePolicy sf p = Inr p"
  by (auto simp: validatePolicy_def policy_wf_def globs_checked first_bad_flag_None normalize_keys_id schema_not_empty
      split: option.splits)

lemma decode_and_validate_wf: "decode_and_validate sf j = Inr q \<Longrightarrow> policy_wf sf q"
  by (auto simp: decode_and_validate_def validatePolicy_wf split: option.splits)

lemma parsePolicyFile_wf: "parsePolicyFile sf cd path data = Inr p \<Longrightarrow> policy_wf sf p"
  by (auto simp: parsePolicyFile_def decode_and_validate_wf split: if_splits option.splits sum.splits)

text \<open>A policy written as YAML.\<close>

definition strings_yaml :: "string list \<Rightarrow> yaml" where
  "strings_yaml ss = YSeq (map YStr ss)"

definition policy_doc :: "policy \<Rightarrow> (string \<times> yaml) list" where
  "policy_doc p =
     [(''schema_version'', YStr (po_SchemaVersion p)),
      (''allow_components'', strings_yaml (po_AllowComponents p)),
      (''deny_components'', strings_yaml (po_DenyComponents p)),
      (''allow_packages'', strings_yaml (po_AllowPackages p)),
      (''deny_packages'', strings_yaml (po_DenyPackages p)),
      (''require_signed_publisher'', YBool (po_RequireSignedPublisher p)),
      (''allow_url_inputs'', case po_AllowURLInputs p of None \<Rightarrow> YNull | Some b \<Rightarrow> YBool b),
      (''approved_keys'', strings_yaml (po_ApprovedKeys p)),
      (''deny_flags'', strings_yaml (po_DenyFlags p)),
      (''default_severity'', YStr (po_DefaultSeverity p))]"

definition ascii_line :: "string \<Rightarrow> bool" where
  "ascii_line s \<longleftrightarrow> list_all (\<lambda>c. byte c < 128) s \<and> newline \<notin> set s \<and> carriage \<notin> set s"

definition policy_ascii :: "policy \<Rightarrow> bool" where
  "policy_ascii p \<longleftrightarrow>
     list_all ascii_line (po_SchemaVersion p # po_DefaultSeverity p # po_AllowComponents p @ po_DenyComponents p @
       po_AllowPackages p @ po_DenyPackages p @ po_ApprovedKeys p @ po_DenyFlags p)"

lemma json_string_ascii: "ascii_line s \<Longrightarrow> json_string s = s"
proof -
  have "list_all (\<lambda>c. byte c < 128) s \<Longrightarrow> concat (map utf8_encode (map byte s)) = s"
    by (induction s) (auto simp: utf8_encode_def)
  then show "ascii_line s \<Longrightarrow> json_string s = s" by (simp add: json_string_def ascii_line_def runes_ascii)
qed

lemma dec_rendered_strings: "list_all ascii_line ss \<Longrightarrow> dec_strings (yaml_json (strings_yaml ss)) = Some ss"
proof -
  have "list_all ascii_line ss \<Longrightarrow> dec_all (map yaml_json (map YStr ss)) = Some ss"
    by (induction ss) (auto simp: json_string_ascii)
  then show "list_all ascii_line ss \<Longrightarrow> dec_strings (yaml_json (strings_yaml ss)) = Some ss"
    by (simp add: strings_yaml_def)
qed

lemma policy_keys: "map fst (policy_doc p) = policyFields"
  by (simp add: policy_doc_def policyFields_def)

lemma fields_ok: "distinct policyFields" "list_all key_ok policyFields" "checkPolicyKeys (sort policyFields) = None"
  by (simp_all add: checkPolicyKeys_None) code_simp+

lemma strings_value_ok: "list_all ascii_line ss \<Longrightarrow> value_ok (strings_yaml ss)"
  by (auto simp: strings_yaml_def list_all_iff ascii_line_def)

lemma policy_doc_ok:
  assumes "policy_ascii p"
  shows "doc_ok (policy_doc p)"
proof -
  have "list_all (\<lambda>kv. value_ok (snd kv)) (policy_doc p)"
    using assms strings_value_ok
    by (auto simp: policy_doc_def policy_ascii_def ascii_line_def [of "po_SchemaVersion p"]
        ascii_line_def [of "po_DefaultSeverity p"] split: option.split)
  moreover have "list_all (\<lambda>kv. key_ok (fst kv)) (policy_doc p)"
    using fields_ok(2) unfolding policy_keys [of p, symmetric] by (simp add: list.pred_map comp_def)
  ultimately show ?thesis
    using fields_ok(1) by (auto simp: doc_ok_def policy_keys member_ok_def list_all_iff)
qed

definition policy_json :: "policy \<Rightarrow> (string \<times> json) list" where
  "policy_json p = map (\<lambda>(k, v). (k, yaml_json v)) (policy_doc p)"

lemma decode_policy_json:
  assumes "policy_ascii p"
  shows "decode_policy (JObj (policy_json p)) = Some p"
proof -
  have ss: "dec_strings (yaml_json (strings_yaml ss)) = Some ss" if "list_all ascii_line ss" for ss
    by (rule dec_rendered_strings [OF that])
  have ob: "dec_opt_bool (yaml_json (case po_AllowURLInputs p of None \<Rightarrow> YNull | Some b \<Rightarrow> YBool b)) = Some (po_AllowURLInputs p)"
    by (cases "po_AllowURLInputs p") simp_all
  show ?thesis
    using assms
    by (simp add: policy_ascii_def policy_json_def policy_doc_def decode_members_def json_member_def ss ob json_string_ascii)
qed

lemma yaml_extension: "\<not> looksLikeJSON (q @ ''.yaml'') data"
proof -
  have "rev (to_lower (q @ ''.yaml'')) = ''lmay.'' @ rev (to_lower q)" by (simp add: to_lower_def to_lower_byte_def is_upper_byte_def)
  then show ?thesis by (simp add: looksLikeJSON_def has_suffix_def has_prefix_def)
qed

lemma approved_lines_eq:
  "approved_lines n ls = Inr out \<Longrightarrow>
     map Some out = map normalizeFingerprint (filter (\<lambda>l. l \<noteq> '''') (map key_line_text ls))"
  by (induction ls arbitrary: n out) (auto simp: Let_def split: if_splits option.splits sum.splits)

section \<open>Properties\<close>

text \<open>
  An OpenPGP fingerprint is accepted only in full: what \<^verbatim>\<open>normalizeFingerprint\<close> returns is 40 or 64 upper-case
  hex digits, and it is the normal form, returned unchanged when it is normalised again. A short or long key
  id is never accepted.
\<close>

theorem normalizeFingerprint_full:
  "normalizeFingerprint s = Some fp \<Longrightarrow>
     (length fp = 40 \<or> length fp = 64) \<and> list_all upper_hex fp \<and> normalizeFingerprint fp = Some fp"
  using normalize_is_full [of s fp] normalize_full [of fp] by (auto simp: full_fingerprint_def)

definition sample_fp :: string where
  "sample_fp = ''0123456789ABCDEF0123456789ABCDEF01234567''"

theorem normalizeFingerprint_full_witness:
  "normalizeFingerprint ''0x0123 4567 89ab cdef 0123  4567 89ab cdef 0123 4567'' = Some sample_fp \<and>
   ((length sample_fp = 40 \<or> length sample_fp = 64) \<and> list_all upper_hex sample_fp \<and>
    normalizeFingerprint sample_fp = Some sample_fp)"
proof -
  have "normalizeFingerprint ''0x0123 4567 89ab cdef 0123  4567 89ab cdef 0123 4567'' = Some sample_fp" by code_simp
  from this normalizeFingerprint_full [OF this] show ?thesis ..
qed


definition sample_policy :: policy where
  "sample_policy = \<lparr>po_SchemaVersion = policy_SchemaVersion, po_AllowComponents = [], po_DenyComponents = [''non-free''],
     po_AllowPackages = [], po_DenyPackages = [''telnet*''], po_RequireSignedPublisher = True, po_AllowURLInputs = Some False,
     po_ApprovedKeys = [sample_fp], po_DenyFlags = [''dkms''], po_DefaultSeverity = SeverityDeny\<rparr>"

definition no_codec :: policy_codec where
  "no_codec = \<lparr>pc_first = (\<lambda>_. None), pc_value = (\<lambda>_. None)\<rparr>"


text \<open>
  C28. Round trip: every well-formed policy over ASCII strings, written as a YAML policy file, loads as
  exactly that policy.
\<close>

theorem parsePolicyFile_roundtrip:
  assumes "policy_wf sf p" "policy_ascii p"
  shows "parsePolicyFile sf cd (q @ ''.yaml'') (render_yaml (policy_doc p)) = Inr p"
proof -
  have "parseMiniYAML (render_yaml (policy_doc p)) = Inr (policy_doc p)"
    using split_rendered [OF policy_doc_ok [OF assms(2)]] parse_doc [OF policy_doc_ok [OF assms(2)], of "[]" 0]
    by (simp add: parseMiniYAML_def)
  then show ?thesis
    using decode_policy_json [OF assms(2)] validatePolicy_id [OF assms(1)] yaml_extension [of q] fields_ok(3)
    by (simp add: parsePolicyFile_def policy_keys decode_and_validate_def policy_json_def)
qed

theorem parsePolicyFile_roundtrip_witness:
  "parsePolicyFile id no_codec (''site'' @ ''.yaml'') (render_yaml (policy_doc sample_policy)) = Inr sample_policy"
  by (rule parsePolicyFile_roundtrip) code_simp+

text \<open>
  An approved-keys file that loads names at least one key, and what is loaded is the full fingerprint of
  every line that is neither blank nor a comment: no line is skipped and no short key id is let in.
\<close>

theorem LoadApprovedKeys_exact:
  assumes "read path = Some data" "LoadApprovedKeys read path = Inr out"
  shows "out \<noteq> [] \<and>
    map Some out = map normalizeFingerprint
      (filter (\<lambda>l. l \<noteq> '''') (map key_line_text (split_on newline (replace_crlf data))))"
  using assms by (auto simp: LoadApprovedKeys_def approved_lines_eq split: sum.splits if_splits)

theorem LoadApprovedKeys_exact_witness:
  "LoadApprovedKeys (\<lambda>_. Some (''# site keys'' @ [newline] @ sample_fp @ '' # main'' @ [newline])) ''keys'' = Inr [sample_fp] \<and>
   [sample_fp] \<noteq> [] \<and>
   map Some [sample_fp] = map normalizeFingerprint
      (filter (\<lambda>l. l \<noteq> '''') (map key_line_text
        (split_on newline (replace_crlf (''# site keys'' @ [newline] @ sample_fp @ '' # main'' @ [newline])))))"
proof -
  let ?data = "''# site keys'' @ [newline] @ sample_fp @ '' # main'' @ [newline]"
  have "LoadApprovedKeys (\<lambda>_. Some ?data) ''keys'' = Inr [sample_fp]" by code_simp
  from this LoadApprovedKeys_exact [OF refl this] show ?thesis ..
qed

end
