(* ===== verification/Policy_Eval.thy ===== *)
theory Policy_Eval
  imports Policy_File Resolve Dferr
begin

text \<open>
  The evaluation of a policy over a plan (\<^verbatim>\<open>src/core/policy/evaluate.go\<close>) and what the build does with the
  findings (\<^verbatim>\<open>src/core/engine/policy.go\<close>). One definition per rule, in the order in which \<^verbatim>\<open>Evaluate\<close> runs them.
  \<open>sf\<close> is the folding table of the \<^verbatim>\<open>unicode\<close> package, \<open>redact\<close> is \<^verbatim>\<open>fetch.RedactURL\<close>. The snapshot of the
  input is not read by any rule and is left out. A message is the format with its arguments.
\<close>

section \<open>Findings\<close>

datatype policy_msg =
    MsgComponentDenied string
  | MsgComponentNotAllowed string
  | MsgNameDenied string
  | MsgNameNotAllowed string
  | MsgNoSignature string string
  | MsgUnknownClaim string string
  | MsgURLInput string
  | MsgDeniedFlag string string
  | MsgNoKey string
  | MsgMalformedKey string string
  | MsgKeyNotApproved string

record finding =
  fd_Rule :: string
  fd_Severity :: string
  fd_Message :: policy_msg
  fd_Packages :: "string list"
  fd_Detail :: "(string \<times> string) list"

record policy_input =
  in_Plan :: "plan option"
  in_ApprovedKeys :: "string list"

definition mk_finding :: "string \<Rightarrow> string \<Rightarrow> policy_msg \<Rightarrow> selection \<Rightarrow> (string \<times> string) list \<Rightarrow> finding" where
  "mk_finding rule sev msg s detail =
     \<lparr>fd_Rule = rule, fd_Severity = sev, fd_Message = msg, fd_Packages = [sel_Name s], fd_Detail = detail\<rparr>"

definition Deniable :: "finding list \<Rightarrow> bool" where
  "Deniable findings \<longleftrightarrow> list_ex (\<lambda>f. fd_Severity f = SeverityDeny) findings"

section \<open>The rules\<close>

definition signedPublisherClaim :: "string \<Rightarrow> bool" where
  "signedPublisherClaim v \<longleftrightarrow> v \<in> set [VerifiedAPTSigned, VerifiedUserDigest, VerifiedUserSignature]"

definition componentOf :: "selection \<Rightarrow> string" where
  "componentOf s =
     (if og_Component (sel_Origin s) \<noteq> '''' then og_Component (sel_Origin s)
      else if sel_Section s = '''' then ''''
      else case index_byte slash (sel_Section s) of Some i \<Rightarrow> take i (sel_Section s) | None \<Rightarrow> sel_Section s)"

text \<open>No rune outside ASCII has a letter of the two schemes as its lower case.\<close>

definition isHTTPURL :: "string \<Rightarrow> bool" where
  "isHTTPURL uri =
     (case index_byte (CHR '':'') uri of
        None \<Rightarrow> False
      | Some i \<Rightarrow> i \<noteq> 0 \<and> to_lower (take i uri) \<in> set [''http'', ''https''] \<and> has_prefix (drop i uri) ''://'')"

definition globMatchesAny :: "string list \<Rightarrow> string \<Rightarrow> bool" where
  "globMatchesAny patterns name \<longleftrightarrow> list_ex (\<lambda>pat. path_Match pat name = Some True) patterns"

text \<open>\<^verbatim>\<open>approvedKeySet\<close>: the keys of the set and the number of entries supplied.\<close>

fun approved_add :: "string list \<times> nat \<Rightarrow> string \<Rightarrow> string list \<times> nat" where
  "approved_add (set', supplied) k =
     (if trim_space k = '''' then (set', supplied)
      else case normalizeFingerprint k of
        Some fp \<Rightarrow> (fp # set', Suc supplied)
      | None \<Rightarrow> (set', Suc supplied))"

definition approvedKeySet :: "string list \<Rightarrow> string list \<Rightarrow> string list \<times> nat" where
  "approvedKeySet a b = foldl approved_add (foldl approved_add ([], 0) a) b"

definition rule_deny_component :: "(nat \<Rightarrow> nat) \<Rightarrow> policy \<Rightarrow> string \<Rightarrow> selection \<Rightarrow> finding list" where
  "rule_deny_component sf p sev s =
     (let comp = componentOf s
      in if comp \<noteq> '''' \<and> matchesAnyFold sf (po_DenyComponents p) comp
         then [mk_finding ''component-deny'' sev (MsgComponentDenied comp) s [(''component'', comp)]] else [])"

definition rule_allow_component :: "(nat \<Rightarrow> nat) \<Rightarrow> policy \<Rightarrow> string \<Rightarrow> selection \<Rightarrow> finding list" where
  "rule_allow_component sf p sev s =
     (let comp = componentOf s
      in if comp = '''' \<or> \<not> matchesAnyFold sf (po_AllowComponents p) comp
         then [mk_finding ''component-allow'' sev (MsgComponentNotAllowed comp) s [(''component'', comp)]] else [])"

definition rule_deny_package :: "policy \<Rightarrow> string \<Rightarrow> selection \<Rightarrow> finding list" where
  "rule_deny_package p sev s =
     (if globMatchesAny (po_DenyPackages p) (sel_Name s)
      then [mk_finding ''package-deny'' sev (MsgNameDenied (sel_Name s)) s []] else [])"

definition rule_allow_package :: "policy \<Rightarrow> string \<Rightarrow> selection \<Rightarrow> finding list" where
  "rule_allow_package p sev s =
     (if \<not> globMatchesAny (po_AllowPackages p) (sel_Name s)
      then [mk_finding ''package-allow'' sev (MsgNameNotAllowed (sel_Name s)) s []] else [])"

definition rule_signed :: "string \<Rightarrow> selection \<Rightarrow> finding list" where
  "rule_signed sev s =
     (let pv = sel_PublisherVerification s
      in if signedPublisherClaim pv then []
         else [mk_finding ''require-signed-publisher'' sev
                 (if pv \<noteq> VerifiedURLUnverified then MsgUnknownClaim (sel_Name s) pv else MsgNoSignature (sel_Name s) pv)
                 s [(''publisher_verification'', pv)]])"

definition rule_url :: "(string \<Rightarrow> string) \<Rightarrow> string \<Rightarrow> selection \<Rightarrow> finding list" where
  "rule_url redact sev s =
     (if sel_Reason s = ReasonExternal \<and> isHTTPURL (sel_URI s)
      then [mk_finding ''allow-url-inputs'' sev (MsgURLInput (sel_Name s)) s [(''url'', redact (sel_URI s))]] else [])"

definition rule_flags :: "(nat \<Rightarrow> nat) \<Rightarrow> policy \<Rightarrow> string \<Rightarrow> selection \<Rightarrow> finding list" where
  "rule_flags sf p sev s =
     (let matched = sort (filter (matchesAnyFold sf (po_DenyFlags p)) (sel_Flags s))
      in if matched \<noteq> []
         then [mk_finding ''deny-flags'' sev (MsgDeniedFlag (sel_Name s) (join_with '', '' matched)) s
                 [(''flags'', join_with '','' matched)]] else [])"

definition rule_keys :: "string list \<Rightarrow> string \<Rightarrow> selection \<Rightarrow> finding list" where
  "rule_keys approved sev s =
     (let raw = trim_space (og_KeyFingerprint (sel_Origin s))
      in if raw = '''' then [mk_finding ''approved-keys'' sev (MsgNoKey (sel_Name s)) s []]
         else case normalizeFingerprint raw of
           None \<Rightarrow> [mk_finding ''approved-keys'' sev (MsgMalformedKey (sel_Name s) raw) s [(''fingerprint'', raw)]]
         | Some fp \<Rightarrow>
             if fp \<notin> set approved
             then [mk_finding ''approved-keys'' sev (MsgKeyNotApproved (sel_Name s)) s [(''fingerprint'', fp)]] else [])"

definition policy_severity :: "policy \<Rightarrow> string" where
  "policy_severity p = (if po_DefaultSeverity p = '''' then SeverityWarn else po_DefaultSeverity p)"

definition active_rules ::
    "(nat \<Rightarrow> nat) \<Rightarrow> (string \<Rightarrow> string) \<Rightarrow> policy \<Rightarrow> string list \<Rightarrow> (selection \<Rightarrow> finding list) list" where
  "active_rules sf redact p keys =
     (let sev = policy_severity p; (approved, supplied) = approvedKeySet (po_ApprovedKeys p) keys
      in (if po_DenyComponents p \<noteq> [] then [rule_deny_component sf p sev] else []) @
         (if po_AllowComponents p \<noteq> [] then [rule_allow_component sf p sev] else []) @
         (if po_DenyPackages p \<noteq> [] then [rule_deny_package p sev] else []) @
         (if po_AllowPackages p \<noteq> [] then [rule_allow_package p sev] else []) @
         (if po_RequireSignedPublisher p then [rule_signed sev] else []) @
         (if po_AllowURLInputs p = Some False then [rule_url redact sev] else []) @
         (if po_DenyFlags p \<noteq> [] then [rule_flags sf p sev] else []) @
         (if supplied > 0 then [rule_keys approved sev] else []))"

text \<open>The method \<^verbatim>\<open>Evaluate\<close> of a loaded policy; \<open>cancelled\<close> is the error of the context.\<close>

definition Evaluate ::
    "(nat \<Rightarrow> nat) \<Rightarrow> (string \<Rightarrow> string) \<Rightarrow> go_error option \<Rightarrow> policy option \<Rightarrow> policy_input \<Rightarrow> go_error + finding list" where
  "Evaluate sf redact cancelled pol inp =
     (case cancelled of
        Some e \<Rightarrow> Inl (DfError Usage ''policy: evaluate'' '''' (Some e))
      | None \<Rightarrow>
          (case (pol, in_Plan inp) of
             (Some p, Some plan) \<Rightarrow>
               if pl_Selections plan = [] then Inr []
               else
                 let sels = SortSelections (pl_Selections plan)
                 in Inr (concat (map (\<lambda>rule. concat (map rule sels)) (active_rules sf redact p (in_ApprovedKeys inp))))
           | _ \<Rightarrow> Inr []))"

fun run_evaluator ::
    "(nat \<Rightarrow> nat) \<Rightarrow> (string \<Rightarrow> string) \<Rightarrow> go_error option \<Rightarrow> policy_evaluator \<Rightarrow> policy_input \<Rightarrow> go_error + finding list" where
  "run_evaluator sf redact cancelled EmptyEvaluator inp = Inr []"
| "run_evaluator sf redact cancelled (PolicyEvaluator pol) inp = Evaluate sf redact cancelled pol inp"

section \<open>The build\<close>

fun dedupe_from :: "string list \<Rightarrow> string list \<Rightarrow> string list" where
  "dedupe_from seen [] = []"
| "dedupe_from seen (s # ss) =
     (if s = '''' \<or> s \<in> set seen then dedupe_from seen ss else s # dedupe_from (s # seen) ss)"

definition dedupeStrings :: "string list \<Rightarrow> string list" where
  "dedupeStrings xs = dedupe_from [] xs"

definition unionApprovedKeys :: "string list \<Rightarrow> string list \<Rightarrow> string list" where
  "unionApprovedKeys fromFlag fromPolicy =
     (if fromPolicy = [] then fromFlag
      else if fromFlag = [] then sort (dedupeStrings fromPolicy)
      else sort (dedupeStrings (fromFlag @ fromPolicy)))"

text \<open>\<^verbatim>\<open>classify\<close>, and the loop of \<^verbatim>\<open>evaluatePolicy\<close> over the findings: the events, the denials and the warnings.\<close>

definition classify :: "go_error \<Rightarrow> err_class \<Rightarrow> string \<Rightarrow> go_error" where
  "classify e def msg = (case as_dferr e of Some _ \<Rightarrow> e | None \<Rightarrow> DfError def msg '''' (Some e))"

record policy_warning =
  pw_Code :: string
  pw_Message :: policy_msg
  pw_Packages :: "string list"

datatype policy_outcome =
    PolicyFailed go_error
  | PolicyDenied "finding list" "finding list" "policy_warning list"
  | PolicyPassed "finding list" "policy_warning list"

definition warning_of :: "finding \<Rightarrow> policy_warning" where
  "warning_of f = \<lparr>pw_Code = ''policy.'' @ fd_Rule f, pw_Message = fd_Message f, pw_Packages = fd_Packages f\<rparr>"

fun sort_findings :: "finding list \<Rightarrow> finding list \<times> policy_warning list" where
  "sort_findings [] = ([], [])"
| "sort_findings (f # fs) =
     (case sort_findings fs of (deny, warn) \<Rightarrow>
        if fd_Severity f = SeverityDeny then (f # deny, warn)
        else if fd_Severity f \<noteq> SeverityWarn then (deny, warn)
        else (deny, warning_of f # warn))"

definition evaluatePolicy ::
    "(nat \<Rightarrow> nat) \<Rightarrow> (string \<Rightarrow> string) \<Rightarrow> go_error option \<Rightarrow> policy_evaluator \<Rightarrow> policy_input \<Rightarrow> policy_outcome" where
  "evaluatePolicy sf redact cancelled ev inp =
     (case run_evaluator sf redact cancelled ev inp of
        Inl e \<Rightarrow> PolicyFailed (classify e Policy ''engine: evaluate policy'')
      | Inr findings \<Rightarrow>
          (case sort_findings findings of (deny, warn) \<Rightarrow>
             if deny \<noteq> [] then PolicyDenied findings deny warn else PolicyPassed findings warn))"

section \<open>Lemmas\<close>

text \<open>The set of approved keys.\<close>

definition supplied_keys :: "string list \<Rightarrow> string list" where
  "supplied_keys ks = filter (\<lambda>k. trim_space k \<noteq> '''') ks"

lemma approved_fold:
  "foldl approved_add (acc, n) ks = (set', m) \<Longrightarrow>
     m = n + length (supplied_keys ks) \<and>
     (\<forall>fp. fp \<in> set set' \<longleftrightarrow> fp \<in> set acc \<or> (\<exists>k \<in> set (supplied_keys ks). normalizeFingerprint k = Some fp))"
proof (induction ks arbitrary: acc n)
  case (Cons k ks)
  show ?case
  proof (cases "trim_space k = ''''")
    case True
    then show ?thesis using Cons by (auto simp: supplied_keys_def)
  next
    case False
    show ?thesis
    proof (cases "normalizeFingerprint k")
      case None
      then show ?thesis using False Cons.prems Cons.IH [of acc "Suc n"] by (auto simp: supplied_keys_def)
    next
      case (Some fp)
      then show ?thesis using False Cons.prems Cons.IH [of "fp # acc" "Suc n"] by (auto simp: supplied_keys_def)
    qed
  qed
qed (simp add: supplied_keys_def)

lemma approvedKeySet_spec:
  assumes "approvedKeySet a b = (set', m)"
  shows "m = length (supplied_keys (a @ b))"
    and "fp \<in> set set' \<longleftrightarrow> (\<exists>k \<in> set (supplied_keys (a @ b)). normalizeFingerprint k = Some fp)"
  using assms approved_fold [of "[]" 0 "a @ b" set' m] by (simp_all add: approvedKeySet_def)

text \<open>What a policy asks of a selection.\<close>

definition key_approved :: "string list \<Rightarrow> selection \<Rightarrow> bool" where
  "key_approved keys s \<longleftrightarrow>
     (\<exists>k \<in> set (supplied_keys keys). normalizeFingerprint k \<noteq> None \<and>
        normalizeFingerprint k = normalizeFingerprint (trim_space (og_KeyFingerprint (sel_Origin s))))"

definition complies :: "(nat \<Rightarrow> nat) \<Rightarrow> policy \<Rightarrow> string list \<Rightarrow> selection \<Rightarrow> bool" where
  "complies sf p keys s \<longleftrightarrow>
     (componentOf s = '''' \<or> (\<forall>c \<in> set (po_DenyComponents p). \<not> EqualFold sf c (componentOf s))) \<and>
     (po_AllowComponents p = [] \<or>
        componentOf s \<noteq> '''' \<and> (\<exists>c \<in> set (po_AllowComponents p). EqualFold sf c (componentOf s))) \<and>
     (\<forall>pat \<in> set (po_DenyPackages p). path_Match pat (sel_Name s) \<noteq> Some True) \<and>
     (po_AllowPackages p = [] \<or> (\<exists>pat \<in> set (po_AllowPackages p). path_Match pat (sel_Name s) = Some True)) \<and>
     (po_RequireSignedPublisher p \<longrightarrow>
        sel_PublisherVerification s \<in> {''apt-signed'', ''user-digest'', ''user-signature''}) \<and>
     (po_AllowURLInputs p = Some False \<longrightarrow> \<not> (sel_Reason s = ''external'' \<and> isHTTPURL (sel_URI s))) \<and>
     (\<forall>f \<in> set (sel_Flags s). \<forall>d \<in> set (po_DenyFlags p). \<not> EqualFold sf d f) \<and>
     (supplied_keys (po_ApprovedKeys p @ keys) = [] \<or> key_approved (po_ApprovedKeys p @ keys) s)"

lemma normalize_Nil: "normalizeFingerprint '''' = None"
  by code_simp

lemma sort_Nil: "sort xs = [] \<longleftrightarrow> xs = ([] :: string list)"
  by (metis length_0_conv length_sort)

lemma rule_keys_Nil:
  assumes "approvedKeySet a b = (approved, n)"
  shows "rule_keys approved sev s = [] \<longleftrightarrow> key_approved (a @ b) s"
  using approvedKeySet_spec(2) [OF assms] normalize_Nil
  by (auto simp: rule_keys_def key_approved_def Let_def split: option.split)

lemma rules_Nil:
  "rule_deny_component sf p sev s = [] \<longleftrightarrow>
     componentOf s = '''' \<or> (\<forall>c \<in> set (po_DenyComponents p). \<not> EqualFold sf c (componentOf s))"
  "rule_allow_component sf p sev s = [] \<longleftrightarrow>
     componentOf s \<noteq> '''' \<and> (\<exists>c \<in> set (po_AllowComponents p). EqualFold sf c (componentOf s))"
  "rule_deny_package p sev s = [] \<longleftrightarrow> (\<forall>pat \<in> set (po_DenyPackages p). path_Match pat (sel_Name s) \<noteq> Some True)"
  "rule_allow_package p sev s = [] \<longleftrightarrow> (\<exists>pat \<in> set (po_AllowPackages p). path_Match pat (sel_Name s) = Some True)"
  "rule_signed sev s = [] \<longleftrightarrow> sel_PublisherVerification s \<in> {''apt-signed'', ''user-digest'', ''user-signature''}"
  "rule_url redact sev s = [] \<longleftrightarrow> \<not> (sel_Reason s = ''external'' \<and> isHTTPURL (sel_URI s))"
  "rule_flags sf p sev s = [] \<longleftrightarrow> (\<forall>f \<in> set (sel_Flags s). \<forall>d \<in> set (po_DenyFlags p). \<not> EqualFold sf d f)"
  by (auto simp: rule_deny_component_def rule_allow_component_def rule_deny_package_def rule_allow_package_def
      rule_signed_def rule_url_def rule_flags_def matchesAnyFold_def globMatchesAny_def signedPublisherClaim_def
      list_ex_iff lock_enum_defs Let_def sort_Nil filter_empty_conv)

lemma active_rules_Nil:
  "(\<forall>rule \<in> set (active_rules sf redact p keys). rule s = []) \<longleftrightarrow> complies sf p keys s"
proof -
  obtain approved n where a: "approvedKeySet (po_ApprovedKeys p) keys = (approved, n)"
    by (cases "approvedKeySet (po_ApprovedKeys p) keys")
  have opt: "(\<forall>rule \<in> set (if c then [r] else []). rule s = []) \<longleftrightarrow> (c \<longrightarrow> r s = [])"
    for c and r :: "selection \<Rightarrow> finding list" by simp
  have deny: "(xs \<noteq> [] \<longrightarrow> (b \<or> (\<forall>x \<in> set xs. P x))) \<longleftrightarrow> (b \<or> (\<forall>x \<in> set xs. P x))"
    for xs :: "string list" and b P by (cases xs) simp_all
  have flags: "(xs \<noteq> [] \<longrightarrow> (\<forall>f \<in> S. \<forall>d \<in> set xs. P f d)) \<longleftrightarrow> (\<forall>f \<in> S. \<forall>d \<in> set xs. P f d)"
    for xs :: "string list" and S :: "string set" and P by (cases xs) simp_all
  have imp: "(xs \<noteq> [] \<longrightarrow> b) \<longleftrightarrow> xs = [] \<or> b" for xs :: "string list" and b by blast
  have "n > 0 \<longleftrightarrow> supplied_keys (po_ApprovedKeys p @ keys) \<noteq> []" using approvedKeySet_spec(1) [OF a] by simp
  then show ?thesis
    unfolding active_rules_def a Let_def prod.case set_append ball_Un opt rules_Nil rule_keys_Nil [OF a] complies_def
    using deny [of "po_DenyComponents p"] deny [of "po_DenyPackages p" False]
      flags [of "po_DenyFlags p" "set (sel_Flags s)"]
      imp [of "po_AllowComponents p"] imp [of "po_AllowPackages p"] imp [of "supplied_keys (po_ApprovedKeys p @ keys)"]
    by (simp only: simp_thms)
qed

text \<open>The findings of a whole plan.\<close>



lemma Evaluate_findings:
  assumes "in_Plan inp = Some plan"
  shows "\<exists>fs. Evaluate sf redact None (Some p) inp = Inr fs \<and>
    (\<forall>f. f \<in> set fs \<longleftrightarrow>
       (\<exists>s \<in> set (pl_Selections plan). \<exists>rule \<in> set (active_rules sf redact p (in_ApprovedKeys inp)). f \<in> set (rule s)))"
  using assms by (auto simp: Evaluate_def Let_def SortSelections_def selections.slice_stable_set)

lemma rule_severity:
  "rule \<in> set (active_rules sf redact p keys) \<Longrightarrow> f \<in> set (rule s) \<Longrightarrow> fd_Severity f = policy_severity p"
  by (auto simp: active_rules_def Let_def rule_deny_component_def rule_allow_component_def rule_deny_package_def
      rule_allow_package_def rule_signed_def rule_url_def rule_flags_def rule_keys_def mk_finding_def
      split: prod.splits if_splits option.splits)

lemma sort_findings_deny: "fst (sort_findings fs) = filter (\<lambda>f. fd_Severity f = SeverityDeny) fs"
  by (induction fs) (auto split: prod.split)

lemma sort_findings_warn: "snd (sort_findings fs) = map warning_of (filter (\<lambda>f. fd_Severity f = SeverityWarn) fs)"
  by (induction fs) (auto simp: severity_defs split: prod.split)

lemma findings_Nil:
  assumes "in_Plan inp = Some plan" "Evaluate sf redact None (Some p) inp = Inr fs"
  shows "fs = [] \<longleftrightarrow> (\<forall>s \<in> set (pl_Selections plan). complies sf p (in_ApprovedKeys inp) s)"
proof -
  have "fs = [] \<longleftrightarrow> (\<forall>s \<in> set (pl_Selections plan). \<forall>rule \<in> set (active_rules sf redact p (in_ApprovedKeys inp)). rule s = [])"
  proof -
    have "f \<in> set fs \<longleftrightarrow>
        (\<exists>s \<in> set (pl_Selections plan). \<exists>rule \<in> set (active_rules sf redact p (in_ApprovedKeys inp)). f \<in> set (rule s))" for f
      using Evaluate_findings [OF assms(1), of sf redact p] assms(2) by auto
    then show ?thesis by (metis (no_types, lifting) ex_in_conv set_empty)
  qed
  then show ?thesis by (simp add: active_rules_Nil)
qed

lemma findings_severity:
  assumes "in_Plan inp = Some plan" "Evaluate sf redact None (Some p) inp = Inr fs" "f \<in> set fs"
  shows "fd_Severity f = policy_severity p"
  using Evaluate_findings [OF assms(1), of sf redact p] assms(2,3) rule_severity by auto

lemma same_severity_filter:
  "(\<And>f. f \<in> set fs \<Longrightarrow> fd_Severity f = sev) \<Longrightarrow> filter (\<lambda>f. fd_Severity f = x) fs = (if sev = x then fs else [])"
  by (induction fs) auto

section \<open>Properties\<close>

definition demo_signed :: "string \<Rightarrow> selection" where
  "demo_signed n = (demo_selection n ReasonRequested)\<lparr>sel_PublisherVerification := VerifiedAPTSigned,
     sel_Origin := zero_origin\<lparr>og_Component := ''main'', og_KeyFingerprint := sample_fp\<rparr>\<rparr>"

definition demo_plan :: "string list \<Rightarrow> plan" where
  "demo_plan names = \<lparr>pl_Target = zero_target, pl_Resolver = zero_resolver, pl_Selections = map demo_signed names,
     pl_Install = [], pl_Warnings = [], pl_Unresolved = []\<rparr>"

definition demo_input :: "string list \<Rightarrow> policy_input" where
  "demo_input names = \<lparr>in_Plan = Some (demo_plan names), in_ApprovedKeys = []\<rparr>"





text \<open>
  Evaluation is a function of the set of selections: two plans with the same selections in another order, no
  two of which share name, architecture and version, give the same findings in the same order.
\<close>

theorem Evaluate_order_insensitive:
  assumes "mset (pl_Selections plan) = mset (pl_Selections plan')" "inj_on selection_key (set (pl_Selections plan))"
  shows "Evaluate sf redact c pol (inp\<lparr>in_Plan := Some plan\<rparr>) = Evaluate sf redact c pol (inp\<lparr>in_Plan := Some plan'\<rparr>)"
proof -
  have "pl_Selections plan = [] \<longleftrightarrow> pl_Selections plan' = []" using assms(1) by (metis mset_zero_iff)
  then show ?thesis
    using selections.slice_stable_deterministic [OF assms]
    by (simp add: Evaluate_def SortSelections_def Let_def split: option.split)
qed

theorem Evaluate_order_insensitive_witness:
  "Evaluate id id None (Some sample_policy) (demo_input []\<lparr>in_Plan := Some (demo_plan [''b'', ''a''])\<rparr>)
   = Evaluate id id None (Some sample_policy) (demo_input []\<lparr>in_Plan := Some (demo_plan [''a'', ''b''])\<rparr>)"
  by (rule Evaluate_order_insensitive) (simp_all add: demo_plan_def demo_signed_def demo_selection_def selection_key_def)



end
