(* ===== verification/Bundle_Tar.thy ===== *)
theory Bundle_Tar
  imports Bundle_Tree Go_Rune Dferr "HOL-Library.AList" "HOL-Library.Word"
begin

unbundle bit_operations_syntax

text \<open>
  Importing and exporting a bundle archive, \<^verbatim>\<open>src/core/bundle/tar.go\<close>. The archive is hostile until it has been
  verified, so the theorems quantify over every sequence of headers and bytes the tar reader can deliver
  and over every failure of the file system.

  The zstd and tar framing (third-party \<^verbatim>\<open>klauspost/compress\<close>, and \<^verbatim>\<open>archive/tar\<close>) is the parameter that turns the
  bytes of a file into a \<open>tar_source\<close>: the entries \<^verbatim>\<open>tar.Reader.Next\<close> returns, each with the bytes it delivers and
  the error it ends with, if any, and the error after the last entry. The file system below the target
  is an association list from absolute names to directories and files.
\<close>

section \<open>Names\<close>

datatype name_error =
    NameEmpty | NameTooLong nat | NameNUL | NameBackslash | NameAbsolute | NameDrive | NameEmptyClean
  | NameTraversal | NameAbsoluteClean | NameComponentTooLong nat

definition maxImportEntryNameLen :: nat where "maxImportEntryNameLen = 1024"
definition maxImportNameComponentLen :: nat where "maxImportNameComponentLen = 255"

definition safeRelPath :: "string \<Rightarrow> name_error + path" where
  "safeRelPath name =
     (if name = '''' then Inl NameEmpty
      else if length name > maxImportEntryNameLen then Inl (NameTooLong (length name))
      else if CHR 0x00 \<in> set name then Inl NameNUL
      else if backslash \<in> set name then Inl NameBackslash
      else if has_prefix name ''/'' then Inl NameAbsolute
      else if length name \<ge> 2 \<and> name ! 1 = CHR '':'' then Inl NameDrive
      else
        let cleaned = path_Clean name
        in if cleaned = ''.'' then Inl NameEmptyClean
           else if cleaned = ''..'' \<or> has_prefix cleaned ''../'' then Inl NameTraversal
           else if has_prefix cleaned ''/'' then Inl NameAbsoluteClean
           else case find (\<lambda>part. length part > maxImportNameComponentLen) (split_on slash cleaned) of
             Some part \<Rightarrow> Inl (NameComponentTooLong (length part))
           | None \<Rightarrow> Inr cleaned)"

text \<open>
  \<^verbatim>\<open>strings.ToLower\<close>: ASCII letters directly, other runes by the table \<open>lo\<close> of the \<^verbatim>\<open>unicode\<close> package; an
  invalid byte becomes the replacement character.
\<close>

definition lower_rune :: "(nat \<Rightarrow> nat) \<Rightarrow> nat \<Rightarrow> nat" where
  "lower_rune lo r = (if 65 \<le> r \<and> r \<le> 90 then r + 32 else if r < 128 then r else lo r)"

definition strings_ToLower :: "(nat \<Rightarrow> nat) \<Rightarrow> string \<Rightarrow> string" where
  "strings_ToLower lo s = concat (map (\<lambda>r. utf8_encode (lower_rune lo r)) (runes s))"

text \<open>\<^verbatim>\<open>strings.TrimRight(p, ". ")\<close>.\<close>

definition trim_dots :: "string \<Rightarrow> string" where
  "trim_dots s = rev (dropWhile (\<lambda>c. c = CHR ''.'' \<or> c = CHR '' '') (rev s))"

definition collisionKey :: "(nat \<Rightarrow> nat) \<Rightarrow> path \<Rightarrow> string" where
  "collisionKey lo rel = join_with [slash] (map (\<lambda>p. strings_ToLower lo (trim_dots p)) (split_on slash rel))"

section \<open>Archives and the target\<close>

datatype tar_type = TypeReg | TypeRegA | TypeDir | TypeSymlink | TypeLink | TypeOther nat

record tar_header =
  th_Typeflag :: tar_type
  th_Name :: string
  th_Size :: nat
  th_Mode :: int
  th_ModTime :: int

record tar_entry =
  te_Header :: tar_header
  te_Data :: string
  te_Error :: "string option"

datatype tar_source = SourceOpenError | SourceNotZstd | SourceEntries "tar_entry list" "string option"

datatype node = NDir | NFile string bool

type_synonym disk = "(path \<times> node) list"

text \<open>
  What the operating system does at the i-th entry: whether the context is cancelled, whether creating
  a directory fails (and after how many of the directories above it), whether opening or closing the file
  fails, and after how many bytes writing fails, if it does.
\<close>

record import_world =
  iw_cancelled :: "nat \<Rightarrow> bool"
  iw_abs :: "path option"
  iw_root :: "nat option"
  iw_mkdir :: "nat \<Rightarrow> nat option"
  iw_open :: "nat \<Rightarrow> bool"
  iw_write :: "nat \<Rightarrow> nat option"
  iw_close :: "nat \<Rightarrow> bool"

text \<open>The directories above a name, and the name itself.\<close>

fun prefixes_from :: "path \<Rightarrow> path \<Rightarrow> path list" where
  "prefixes_from seen [] = [seen]"
| "prefixes_from seen (c # p) =
     (if c = slash \<and> seen \<noteq> [] then seen # prefixes_from (seen @ [c]) p else prefixes_from (seen @ [c]) p)"

text \<open>\<^verbatim>\<open>os.MkdirAll\<close>: stops at the first name that is a file.\<close>

fun mkdirs :: "path list \<Rightarrow> disk \<Rightarrow> bool \<times> disk" where
  "mkdirs [] d = (True, d)"
| "mkdirs (p # ps) d =
     (case map_of d p of
        None \<Rightarrow> mkdirs ps ((p, NDir) # d)
      | Some NDir \<Rightarrow> mkdirs ps d
      | Some (NFile _ _) \<Rightarrow> (False, d))"

definition os_MkdirAll :: "nat option \<Rightarrow> path \<Rightarrow> disk \<Rightarrow> bool \<times> disk" where
  "os_MkdirAll fails p d =
     (case fails of
        None \<Rightarrow> mkdirs (prefixes_from [] p) d
      | Some k \<Rightarrow> (False, snd (mkdirs (take k (prefixes_from [] p)) d)))"

section \<open>Import\<close>

definition maxImportEntrySize :: int where "maxImportEntrySize = 8 * 2 ^ 30"
definition maxImportEntries :: nat where "maxImportEntries = 50000"
definition maxImportTotalSize :: int where "maxImportTotalSize = 64 * 2 ^ 30"

datatype extract_error = ExMkdir | ExOpen | ExCopy | ExClose | ExTooLarge

text \<open>
  \<^verbatim>\<open>extractRegularFile\<close>: the number of bytes written, the error and the disk. \<^verbatim>\<open>OpenFile\<close> truncates an existing file
  and keeps its mode; it fails on a directory.
\<close>

definition open_mode :: "disk \<Rightarrow> path \<Rightarrow> int \<Rightarrow> bool" where
  "open_mode d dest mode = (case map_of d dest of Some (NFile _ x) \<Rightarrow> x | _ \<Rightarrow> mode AND 73 \<noteq> 0)"

definition extractRegularFile ::
    "import_world \<Rightarrow> nat \<Rightarrow> path \<Rightarrow> tar_entry \<Rightarrow> int \<Rightarrow> disk \<Rightarrow> int \<times> extract_error option \<times> disk" where
  "extractRegularFile w i dest e limit d =
     (case os_MkdirAll (iw_mkdir w i) (filepath_Dir dest) d of
        (False, d1) \<Rightarrow> (0, Some ExMkdir, d1)
      | (True, d1) \<Rightarrow>
          if iw_open w i \<or> map_of d1 dest = Some NDir then (0, Some ExOpen, d1)
          else
            let x = open_mode d1 dest (th_Mode (te_Header e));
                avail = take (nat (limit + 1)) (te_Data e);
                out = (case iw_write w i of None \<Rightarrow> avail | Some k \<Rightarrow> take k avail);
                copyErr = (iw_write w i \<noteq> None \<or> int (length (te_Data e)) < limit + 1 \<and> te_Error e \<noteq> None);
                d2 = AList.update dest (NFile out x) d1;
                n = int (length out)
            in if copyErr then (n, Some ExCopy, d2)
               else if iw_close w i then (n, Some ExClose, d2)
               else if int (length (te_Data e)) \<ge> limit + 1 then (n, Some ExTooLarge, d2)
               else (n, None, d2))"

datatype import_error =
    ImpCancelled | ImpOpen | ImpZstd | ImpAbs | ImpRoot | ImpRead string | ImpTooMany | ImpName name_error
  | ImpDuplicate string string | ImpMkdir path | ImpArchiveTooLarge path | ImpEntryTooLarge path
  | ImpWrite path extract_error | ImpLink string | ImpType string

text \<open>The class each error is wrapped in; a cancelled context is returned bare.\<close>

fun import_class :: "import_error \<Rightarrow> err_class option" where
  "import_class ImpCancelled = None"
| "import_class ImpOpen = Some Usage"
| "import_class ImpAbs = Some Environment"
| "import_class ImpRoot = Some Environment"
| "import_class (ImpMkdir _) = Some Environment"
| "import_class (ImpWrite _ _) = Some Environment"
| "import_class _ = Some Verification"

record import_state =
  im_remaining :: int
  im_seen :: "(string \<times> string) list"
  im_disk :: disk

text \<open>The switch on the type of one accepted entry.\<close>

definition import_file ::
    "import_world \<Rightarrow> nat \<Rightarrow> path \<Rightarrow> path \<Rightarrow> tar_entry \<Rightarrow> import_state \<Rightarrow> import_error option \<times> import_state" where
  "import_file w i rel dest e st =
     (let overTotal = im_remaining st < maxImportEntrySize;
          allow = (if overTotal then im_remaining st else maxImportEntrySize)
      in case extractRegularFile w i dest e allow (im_disk st) of (n, err, d) \<Rightarrow>
           (case err of
              None \<Rightarrow> None
            | Some ExTooLarge \<Rightarrow> Some (if overTotal then ImpArchiveTooLarge rel else ImpEntryTooLarge rel)
            | Some ex \<Rightarrow> Some (ImpWrite rel ex),
            st\<lparr>im_remaining := im_remaining st - n, im_disk := d\<rparr>))"

definition import_entry ::
    "import_world \<Rightarrow> nat \<Rightarrow> path \<Rightarrow> path \<Rightarrow> tar_entry \<Rightarrow> import_state \<Rightarrow> import_error option \<times> import_state" where
  "import_entry w i rel dest e st =
     (case th_Typeflag (te_Header e) of
        TypeDir \<Rightarrow>
          (case os_MkdirAll (iw_mkdir w i) dest (im_disk st) of (ok, d) \<Rightarrow>
             (if ok then None else Some (ImpMkdir rel), st\<lparr>im_disk := d\<rparr>))
      | TypeReg \<Rightarrow> import_file w i rel dest e st
      | TypeRegA \<Rightarrow> import_file w i rel dest e st
      | TypeSymlink \<Rightarrow> (Some (ImpLink (th_Name (te_Header e))), st)
      | TypeLink \<Rightarrow> (Some (ImpLink (th_Name (te_Header e))), st)
      | TypeOther _ \<Rightarrow> (Some (ImpType (th_Name (te_Header e))), st))"

definition import_dest :: "path \<Rightarrow> path \<Rightarrow> path" where
  "import_dest absDir rel = filepath_Join [absDir, rel]"

text \<open>The loop; \<open>i\<close> entries have been read.\<close>

fun import_loop ::
    "(nat \<Rightarrow> nat) \<Rightarrow> import_world \<Rightarrow> path \<Rightarrow> nat \<Rightarrow> tar_entry list \<Rightarrow> string option \<Rightarrow> import_state
      \<Rightarrow> import_error option \<times> import_state" where
  "import_loop lo w absDir i [] fin st =
     (if iw_cancelled w i then (Some ImpCancelled, st)
      else case fin of None \<Rightarrow> (None, st) | Some msg \<Rightarrow> (Some (ImpRead msg), st))"
| "import_loop lo w absDir i (e # es) fin st =
     (if iw_cancelled w i then (Some ImpCancelled, st)
      else if Suc i > maxImportEntries then (Some ImpTooMany, st)
      else case safeRelPath (th_Name (te_Header e)) of
        Inl err \<Rightarrow> (Some (ImpName err), st)
      | Inr rel \<Rightarrow>
          let key = collisionKey lo rel
          in case map_of (im_seen st) key of
               Some prev \<Rightarrow> (Some (ImpDuplicate (th_Name (te_Header e)) prev), st)
             | None \<Rightarrow>
                 (case import_entry w i rel (import_dest absDir rel) e
                    (st\<lparr>im_seen := (key, th_Name (te_Header e)) # im_seen st\<rparr>) of
                    (Some err, st') \<Rightarrow> (Some err, st')
                  | (None, st') \<Rightarrow> import_loop lo w absDir (Suc i) es fin st'))"

definition importTar ::
    "(nat \<Rightarrow> nat) \<Rightarrow> import_world \<Rightarrow> tar_source \<Rightarrow> disk \<Rightarrow> import_error option \<times> disk" where
  "importTar lo w src d =
     (case src of
        SourceOpenError \<Rightarrow> (Some ImpOpen, d)
      | SourceNotZstd \<Rightarrow> (Some ImpZstd, d)
      | SourceEntries es fin \<Rightarrow>
          (case iw_abs w of
             None \<Rightarrow> (Some ImpAbs, d)
           | Some absDir \<Rightarrow>
               (case os_MkdirAll (iw_root w) absDir d of
                  (False, d1) \<Rightarrow> (Some ImpRoot, d1)
                | (True, d1) \<Rightarrow>
                    (case import_loop lo w absDir 0 es fin
                       \<lparr>im_remaining = maxImportTotalSize, im_seen = [], im_disk = d1\<rparr> of
                       (err, st) \<Rightarrow> (err, im_disk st)))))"

section \<open>Export\<close>

definition FixedModTime :: int where "FixedModTime = 86400"

text \<open>One regular file for the archive; \<open>ee_node\<close> is the file at \<^verbatim>\<open>absPath\<close>.\<close>

record export_entry =
  ee_relPath :: path
  ee_node :: entry
  ee_size :: int
  ee_exec :: bool

datatype export_error =
    ExpScan path string | ExpIrregular path | ExpMkdir | ExpTemp | ExpZstd | ExpCancelled | ExpHeader path
  | ExpCopy path | ExpCloseTar | ExpCloseZstd | ExpSync | ExpClose | ExpPublish

text \<open>The callback of \<^verbatim>\<open>collectExportEntries\<close>; \<open>xbit\<close> says which files are executable.\<close>

fun collect_events :: "(path \<Rightarrow> bool) \<Rightarrow> walk_event list \<Rightarrow> export_error + export_entry list" where
  "collect_events xbit [] = Inr []"
| "collect_events xbit (VisitErr p msg # evs) = Inl (ExpScan p msg)"
| "collect_events xbit (Visit p e # evs) =
     (if p = '''' \<or> is_dir e then collect_events xbit evs
      else if \<not> is_regular e then Inl (ExpIrregular p)
      else case collect_events xbit evs of
        Inl err \<Rightarrow> Inl err
      | Inr es \<Rightarrow>
          Inr (\<lparr>ee_relPath = p, ee_node = e, ee_size = (case stat_entry e of Some n \<Rightarrow> n | None \<Rightarrow> 0), ee_exec = xbit p\<rparr> # es))"

definition collectExportEntries :: "(path \<Rightarrow> bool) \<Rightarrow> entry \<Rightarrow> export_error + export_entry list" where
  "collectExportEntries xbit t =
     (case collect_events xbit (walk '''' t) of
        Inl err \<Rightarrow> Inl err
      | Inr es \<Rightarrow> Inr (sort_key ee_relPath es))"

text \<open>What fails while the archive is written, by the number of entries written.\<close>

record export_world =
  ew_mkdir :: bool
  ew_temp :: bool
  ew_zstd :: bool
  ew_cancelled :: "nat \<Rightarrow> bool"
  ew_header :: "nat \<Rightarrow> bool"
  ew_copy :: "nat \<Rightarrow> bool"
  ew_closeTar :: bool
  ew_closeZstd :: bool
  ew_sync :: bool
  ew_close :: bool
  ew_rename :: bool
  ew_remove :: bool

definition export_header :: "export_entry \<Rightarrow> tar_header" where
  "export_header e = \<lparr>th_Typeflag = TypeReg, th_Name = ee_relPath e, th_Size = nat (ee_size e),
     th_Mode = (if ee_exec e then 493 else 420), th_ModTime = FixedModTime\<rparr>"

fun export_loop :: "export_world \<Rightarrow> nat \<Rightarrow> export_entry list \<Rightarrow> export_error + tar_entry list" where
  "export_loop w i [] = Inr []"
| "export_loop w i (e # es) =
     (if ew_cancelled w i then Inl ExpCancelled
      else if ew_header w i then Inl (ExpHeader (ee_relPath e))
      else case read_entry (ee_node e) of
        ReadOK b \<Rightarrow>
          if ew_copy w i then Inl (ExpCopy (ee_relPath e))
          else (case export_loop w (Suc i) es of
            Inl err \<Rightarrow> Inl err
          | Inr out \<Rightarrow> Inr (\<lparr>te_Header = export_header e, te_Data = b, te_Error = None\<rparr> # out))
      | _ \<Rightarrow> Inl (ExpCopy (ee_relPath e)))"

text \<open>
  The outcome: the error, the bytes at \<^verbatim>\<open>tarPath\<close> (\<open>old\<close> were there before) and whether the temporary file is
  left behind. \<open>frame\<close> is the tar and zstd encoding.
\<close>

definition export_write ::
    "(tar_entry list \<Rightarrow> string) \<Rightarrow> export_world \<Rightarrow> export_entry list \<Rightarrow> export_error + string" where
  "export_write frame w entries =
     (if ew_zstd w then Inl ExpZstd
      else case export_loop w 0 entries of
        Inl err \<Rightarrow> Inl err
      | Inr es \<Rightarrow>
          if ew_closeTar w then Inl ExpCloseTar
          else if ew_closeZstd w then Inl ExpCloseZstd
          else if ew_sync w then Inl ExpSync
          else if ew_close w then Inl ExpClose
          else if ew_rename w then Inl ExpPublish
          else Inr (frame es))"

definition exportTar ::
    "(tar_entry list \<Rightarrow> string) \<Rightarrow> export_world \<Rightarrow> (path \<Rightarrow> bool) \<Rightarrow> entry \<Rightarrow> string option
      \<Rightarrow> export_error option \<times> string option \<times> bool" where
  "exportTar frame w xbit t old =
     (case collectExportEntries xbit t of
        Inl err \<Rightarrow> (Some err, old, False)
      | Inr entries \<Rightarrow>
          if ew_mkdir w then (Some ExpMkdir, old, False)
          else if ew_temp w then (Some ExpTemp, old, False)
          else case export_write frame w entries of
            Inl err \<Rightarrow> (Some err, old, ew_remove w)
          | Inr bytes \<Rightarrow> (None, Some bytes, False))"

section \<open>Lemmas: names\<close>

lemma safeRelPath_safe:
  assumes "safeRelPath name = Inr rel"
  shows "safe_rel_path rel" "path_Clean name = rel"
proof -
  have ne: "name \<noteq> ''''" "hd name \<noteq> slash"
    using assms by (auto simp: safeRelPath_def has_prefix_iff neq_Nil_conv split: if_splits)
  have r: "path_Clean name = rel" "rel \<noteq> ''.''" "rel \<noteq> ''..''" "\<not> has_prefix rel ''../''"
    using assms by (auto simp: safeRelPath_def Let_def split: if_splits option.splits)
  then show "path_Clean name = rel" "safe_rel_path rel" using clean_relative_safe [OF r(1) ne r(2-4)] by simp_all
qed

lemma prefixes_segment: "slash \<notin> set x \<Longrightarrow> prefixes_from s x = [s @ x]"
  by (induction x arbitrary: s) auto

lemma prefixes_append:
  "s @ a \<noteq> [] \<Longrightarrow> prefixes_from s (a @ slash # b) = prefixes_from s a @ prefixes_from (s @ a @ [slash]) b"
proof (induction a arbitrary: s)
  case (Cons c a)
  then show ?case by auto
qed simp

lemma prefixes_safe_segs:
  "segs \<noteq> [] \<Longrightarrow> \<forall>x \<in> set segs. safe_segment x \<and> slash \<notin> set x \<Longrightarrow>
     p \<in> set (prefixes_from s (join_with [slash] segs)) \<Longrightarrow> \<exists>q. safe_rel_path q \<and> p = s @ q"
proof (induction segs arbitrary: s)
  case (Cons x segs)
  have x: "safe_rel_path x" "slash \<notin> set x" "x \<noteq> []"
    using Cons.prems(2) by (auto simp: safe_rel_path_def split_on_no_occurrence safe_segment_def)
  show ?case
  proof (cases segs)
    case Nil
    then show ?thesis using Cons.prems(3) x by (auto simp: prefixes_segment)
  next
    case (Cons y ys)
    let ?r = "join_with [slash] segs"
    have join: "join_with [slash] (x # segs) = x @ slash # ?r" by (simp add: Cons)
    have "p = s @ x \<or> p \<in> set (prefixes_from ((s @ x) @ [slash]) ?r)"
      using Cons.prems(3) x unfolding join by (auto simp: prefixes_append prefixes_segment)
    then show ?thesis
    proof
      assume "p = s @ x"
      then show ?thesis using x by blast
    next
      assume "p \<in> set (prefixes_from ((s @ x) @ [slash]) ?r)"
      then obtain q where q: "safe_rel_path q" "p = (s @ x) @ [slash] @ q"
        using Cons.IH [of "(s @ x) @ [slash]"] Cons.prems(2) Cons by auto
      have "safe_rel_path (x @ slash # q)"
        using q(1) x Cons.prems(2) by (auto simp: safe_rel_path_def split_on_append_sep split_on_no_occurrence)
      then show ?thesis using q(2) by auto
    qed
  qed
qed simp

lemma prefixes_safe:
  assumes "safe_rel_path q" "p \<in> set (prefixes_from s q)"
  shows "\<exists>r. safe_rel_path r \<and> p = s @ r"
proof -
  have "q = join_with [slash] (split_on slash q)" by (simp add: join_split_on)
  then show ?thesis
    using prefixes_safe_segs [of "split_on slash q" p s] assms split_on_no_sep
    by (auto simp: safe_rel_path_def)
qed

text \<open>The target directory: an absolute, cleaned name other than the root.\<close>

definition target_dir :: "path \<Rightarrow> bool" where
  "target_dir dir \<longleftrightarrow> named_dir dir \<and> path_Clean dir = dir"

definition below :: "path \<Rightarrow> path \<Rightarrow> bool" where
  "below dir p \<longleftrightarrow> (\<exists>q. safe_rel_path q \<and> p = dir @ slash # q)"

lemma import_dest_eq: "target_dir dir \<Longrightarrow> safe_rel_path rel \<Longrightarrow> import_dest dir rel = dir @ slash # rel"
  using path_Clean_join [of rel dir] named_dir_segs [of dir] safe_rel_path_hd [of rel]
  by (auto simp: target_dir_def import_dest_def filepath_Join_def)

lemma prefixes_below:
  assumes "dir \<noteq> []" "safe_rel_path q" "p \<in> set (prefixes_from [] (dir @ slash # q))"
  shows "p \<in> set (prefixes_from [] dir) \<or> below dir p"
proof -
  consider "p \<in> set (prefixes_from [] dir)" | "p \<in> set (prefixes_from (dir @ [slash]) q)"
    using assms(1,3) by (auto simp: prefixes_append)
  then show ?thesis
  proof cases
    case 2
    then show ?thesis using prefixes_safe [OF assms(2)] by (fastforce simp: below_def)
  qed blast
qed

lemma dir_of_dest_cases [case_names top sub]:
  assumes "target_dir dir" "safe_rel_path rel"
  obtains "filepath_Dir (dir @ slash # rel) = dir"
  | q s where "safe_rel_path q" "filepath_Dir (dir @ slash # rel) = dir @ slash # q" "rel = q @ slash # s"
proof -
  have dir: "dir \<noteq> []" "path_Clean dir = dir" using assms(1) by (auto simp: target_dir_def named_dir_def)
  have segs: "\<forall>x \<in> set (split_on slash rel). safe_segment x \<and> slash \<notin> set x"
    using assms(2) split_on_no_sep by (auto simp: safe_rel_path_def)
  obtain ss s where ss: "split_on slash rel = ss @ [s]" by (metis rev_exhaust split_on_not_Nil)
  then have s: "slash \<notin> set s" using segs by auto
  have rel: "rel = join_with [slash] (ss @ [s])" using ss by (metis join_split_on)
  show thesis
  proof (cases "ss = []")
    case True
    then have "filepath_Dir (dir @ slash # rel) = path_Clean (dir @ [slash])"
      using last_index_byte_append [OF s, of dir] rel by (simp add: filepath_Dir_def)
    then show thesis using dir path_Clean_trailing that(1) by simp
  next
    case False
    let ?q = "join_with [slash] ss"
    have r: "rel = ?q @ slash # s" using False rel by (simp add: join_with_snoc)
    have q: "safe_rel_path ?q" using segs ss False by (simp add: safe_rel_path_def split_on_join)
    have "filepath_Dir (dir @ slash # rel) = path_Clean ((dir @ slash # ?q) @ [slash])"
      unfolding r filepath_Dir_def using last_index_byte_append [OF s, of "dir @ slash # ?q"] by simp
    also have "\<dots> = dir @ slash # ?q"
      using path_Clean_trailing [of "dir @ slash # ?q"] dir(1) path_Clean_join [OF q]
        named_dir_segs [of dir] assms(1) by (auto simp: target_dir_def)
    finally show thesis using q r that(2) by blast
  qed
qed

lemma dir_of_dest:
  assumes "target_dir dir" "safe_rel_path rel"
  shows "filepath_Dir (dir @ slash # rel) = dir \<or> (\<exists>q. safe_rel_path q \<and> filepath_Dir (dir @ slash # rel) = dir @ slash # q)"
  by (rule dir_of_dest_cases [OF assms]) auto

section \<open>Lemmas: the disk\<close>

lemma mkdirs_changes:
  "map_of (snd (mkdirs ps d)) p \<noteq> map_of d p \<Longrightarrow> p \<in> set ps \<and> map_of d p = None \<and> map_of (snd (mkdirs ps d)) p = Some NDir"
proof (induction ps d rule: mkdirs.induct)
  case (2 q ps d)
  show ?case
  proof (cases "map_of d q")
    case None
    then show ?thesis using 2 by (cases "p = q") auto
  next
    case (Some x)
    then show ?thesis using 2 by (cases x) auto
  qed
qed simp

lemma mkdirs_keeps: "map_of d p = Some x \<Longrightarrow> map_of (snd (mkdirs ps d)) p = Some x"
  using mkdirs_changes [of ps d p] by auto

lemma mkdirs_done: "mkdirs ps d = (True, d') \<Longrightarrow> p \<in> set ps \<Longrightarrow> map_of d' p = Some NDir"
proof (induction ps d arbitrary: d' rule: mkdirs.induct)
  case (2 q ps d)
  show ?case
  proof (cases "map_of d q")
    case None
    then show ?thesis using 2 mkdirs_keeps [of "(q, NDir) # d" q NDir ps] by (cases "p = q") auto
  next
    case (Some x)
    then show ?thesis using 2 mkdirs_keeps [of d q NDir ps] by (cases x; cases "p = q") auto
  qed
qed simp

lemma MkdirAll_changes:
  assumes "os_MkdirAll f dir d = (ok, d')" "map_of d' p \<noteq> map_of d p"
  shows "p \<in> set (prefixes_from [] dir) \<and> map_of d p = None \<and> map_of d' p = Some NDir"
proof (cases f)
  case None
  then show ?thesis using mkdirs_changes [of "prefixes_from [] dir" d p] assms by (simp add: os_MkdirAll_def)
next
  case (Some k)
  then show ?thesis
    using mkdirs_changes [of "take k (prefixes_from [] dir)" d p] assms in_set_takeD [of p k] by (auto simp: os_MkdirAll_def)
qed

lemma MkdirAll_done: "os_MkdirAll f dir d = (True, d') \<Longrightarrow> p \<in> set (prefixes_from [] dir) \<Longrightarrow> map_of d' p = Some NDir"
  by (auto simp: os_MkdirAll_def dest: mkdirs_done split: option.splits)

lemma prefixes_self: "prefixes_from s p \<noteq> [] \<and> last (prefixes_from s p) = s @ p"
  by (induction s p rule: prefixes_from.induct) auto

lemma MkdirAll_made: "os_MkdirAll f dir d = (True, d') \<Longrightarrow> map_of d' dir = Some NDir"
  using MkdirAll_done [of f dir d d' dir] prefixes_self [of "[]" dir] by (metis append_Nil last_in_set)

text \<open>What one file changes: directories above it that were missing, and the file itself.\<close>

lemma extract_changes:
  assumes "extractRegularFile w i dest e limit d = (n, err, d')" "map_of d' p \<noteq> map_of d p"
  shows "p = dest \<or> p \<in> set (prefixes_from [] (filepath_Dir dest)) \<and> map_of d p = None \<and> map_of d' p = Some NDir"
proof -
  obtain ok d1 where mk: "os_MkdirAll (iw_mkdir w i) (filepath_Dir dest) d = (ok, d1)"
    by (cases "os_MkdirAll (iw_mkdir w i) (filepath_Dir dest) d")
  have "p = dest \<or> map_of d' p = map_of d1 p"
    using assms(1) mk by (auto simp: extractRegularFile_def Let_def update_conv' split: if_splits bool.splits)
  then show ?thesis using MkdirAll_changes [OF mk, of p] assms(2) by auto
qed

lemma extract_written:
  assumes "extractRegularFile w i dest e limit d = (n, None, d')" "0 \<le> limit"
  shows "\<exists>x. map_of d' dest = Some (NFile (te_Data e) x)" "n = int (length (te_Data e))" "n \<le> limit"
  using assms
  by (auto simp: extractRegularFile_def Let_def update_conv' split: if_splits bool.splits prod.splits)

lemma extract_count:
  assumes "extractRegularFile w i dest e limit d = (n, err, d')" "0 \<le> limit"
  shows "0 \<le> n" "n \<le> limit + 1"
  using assms
  by (auto simp: extractRegularFile_def Let_def split: if_splits bool.splits prod.splits option.splits)

section \<open>Lemmas: the loop\<close>

definition ready :: "path \<Rightarrow> disk \<Rightarrow> bool" where
  "ready dir d \<longleftrightarrow> (\<forall>p \<in> set (prefixes_from [] dir). map_of d p = Some NDir)"

definition changes_below :: "path \<Rightarrow> disk \<Rightarrow> disk \<Rightarrow> bool" where
  "changes_below dir d d' \<longleftrightarrow> (\<forall>p. map_of d' p \<noteq> map_of d p \<longrightarrow> below dir p)"

lemma changes_below_refl [simp]: "changes_below dir d d"
  by (simp add: changes_below_def)

lemma changes_below_trans: "changes_below dir d d1 \<Longrightarrow> changes_below dir d1 d2 \<Longrightarrow> changes_below dir d d2"
  unfolding changes_below_def by metis

lemma prefixes_length: "p \<in> set (prefixes_from s q) \<Longrightarrow> length p \<le> length s + length q"
  by (induction s q rule: prefixes_from.induct) (auto split: if_splits)

lemma below_not_above: "below dir p \<Longrightarrow> p \<notin> set (prefixes_from [] dir)"
  using prefixes_length [of p "[]" dir] by (auto simp: below_def)

lemma ready_changes: "ready dir d \<Longrightarrow> changes_below dir d d' \<Longrightarrow> ready dir d'"
  unfolding ready_def changes_below_def using below_not_above by metis

text \<open>Making a directory at or below the target, when the target is there, changes names below it only.\<close>

lemma mkdir_below:
  assumes "os_MkdirAll f p d = (ok, d')" "ready dir d" "dir \<noteq> []" "p = dir \<or> (\<exists>q. safe_rel_path q \<and> p = dir @ slash # q)"
  shows "changes_below dir d d'"
  unfolding changes_below_def
proof (intro allI impI)
  fix x
  assume "map_of d' x \<noteq> map_of d x"
  then have x: "x \<in> set (prefixes_from [] p)" "map_of d x = None" using MkdirAll_changes [OF assms(1)] by auto
  then have "x \<notin> set (prefixes_from [] dir)" using assms(2) by (auto simp: ready_def)
  then show "below dir x" using assms(4) x(1) prefixes_below [OF assms(3)] by auto
qed

lemma target_ne: "target_dir dir \<Longrightarrow> dir \<noteq> []"
  by (auto simp: target_dir_def named_dir_def)

lemma extract_below:
  assumes "extractRegularFile w i (dir @ slash # rel) e limit d = (n, err, d')"
    and "target_dir dir" "safe_rel_path rel" "ready dir d"
  shows "changes_below dir d d'"
proof -
  obtain ok d1 where mk: "os_MkdirAll (iw_mkdir w i) (filepath_Dir (dir @ slash # rel)) d = (ok, d1)"
    by (cases "os_MkdirAll (iw_mkdir w i) (filepath_Dir (dir @ slash # rel)) d")
  have "changes_below dir d d1" using mkdir_below [OF mk assms(4) target_ne [OF assms(2)] dir_of_dest [OF assms(2,3)]] .
  moreover have "p = dir @ slash # rel \<or> map_of d' p = map_of d1 p" for p
    using assms(1) mk by (auto simp: extractRegularFile_def Let_def update_conv' split: if_splits bool.splits)
  ultimately show ?thesis using assms(3) unfolding changes_below_def below_def by metis
qed

lemma import_entry_below:
  assumes "import_entry w i rel (dir @ slash # rel) e st = (err, st')"
    and "target_dir dir" "safe_rel_path rel" "ready dir (im_disk st)"
  shows "changes_below dir (im_disk st) (im_disk st')"
proof (cases "th_Typeflag (te_Header e)")
  case TypeDir
  then obtain ok where "os_MkdirAll (iw_mkdir w i) (dir @ slash # rel) (im_disk st) = (ok, im_disk st')"
    using assms(1) by (auto simp: import_entry_def split: prod.splits)
  then show ?thesis using mkdir_below assms(3,4) target_ne [OF assms(2)] by blast
qed (use assms extract_below in \<open>auto simp: import_entry_def import_file_def Let_def split: prod.splits\<close>)

text \<open>The cases of one round of the loop.\<close>

lemma import_loop_round [consumes 1, case_names stop entry]:
  assumes "import_loop lo w dir i (e # es) fin st = (err, st')"
  obtains "st' = st" "err \<noteq> None"
  | rel err1 st1 where "safeRelPath (th_Name (te_Header e)) = Inr rel" "Suc i \<le> maxImportEntries"
      "map_of (im_seen st) (collisionKey lo rel) = None"
      "import_entry w i rel (import_dest dir rel) e
         (st\<lparr>im_seen := (collisionKey lo rel, th_Name (te_Header e)) # im_seen st\<rparr>) = (err1, st1)"
      "err1 \<noteq> None \<Longrightarrow> err = err1 \<and> st' = st1"
      "err1 = None \<Longrightarrow> import_loop lo w dir (Suc i) es fin st1 = (err, st')"
proof (cases "iw_cancelled w i \<or> Suc i > maxImportEntries")
  case True
  then show thesis using assms that(1) by (auto split: if_splits)
next
  case False
  show thesis
  proof (cases "safeRelPath (th_Name (te_Header e))")
    case (Inl x)
    then show thesis using False assms that(1) by auto
  next
    case (Inr rel)
    show thesis
    proof (cases "map_of (im_seen st) (collisionKey lo rel)")
      case None
      let ?st = "st\<lparr>im_seen := (collisionKey lo rel, th_Name (te_Header e)) # im_seen st\<rparr>"
      obtain err1 st1 where ie: "import_entry w i rel (import_dest dir rel) e ?st = (err1, st1)"
        by (cases "import_entry w i rel (import_dest dir rel) e ?st")
      show thesis
        by (rule that(2) [OF Inr _ None ie])
          (use assms False Inr None ie in \<open>auto simp: Let_def split: option.splits\<close>)
    next
      case (Some prev)
      then show thesis using False Inr assms that(1) by (auto simp: Let_def)
    qed
  qed
qed

lemma import_loop_below:
  "target_dir dir \<Longrightarrow> ready dir (im_disk st) \<Longrightarrow> import_loop lo w dir i es fin st = (err, st') \<Longrightarrow>
     changes_below dir (im_disk st) (im_disk st')"
proof (induction es arbitrary: i st)
  case Nil
  then show ?case by (auto split: if_splits option.splits)
next
  case (Cons e es)
  from Cons.prems(3) show ?case
  proof (cases rule: import_loop_round)
    case (entry rel err1 st1)
    have rel: "safe_rel_path rel" using safeRelPath_safe [OF entry(1)] by simp
    then have ch: "changes_below dir (im_disk st) (im_disk st1)"
      using import_entry_below [OF _ Cons.prems(1) rel] entry(4) Cons.prems(1,2) by (fastforce simp: import_dest_eq)
    then have "err1 = None \<Longrightarrow> changes_below dir (im_disk st1) (im_disk st')"
      using Cons.IH [OF Cons.prems(1) ready_changes [OF Cons.prems(2)]] entry(6) by blast
    then show ?thesis using ch entry(5) changes_below_trans by (cases err1) auto
  qed simp
qed

text \<open>How much is written.\<close>

fun node_bytes :: "node \<Rightarrow> int" where
  "node_bytes NDir = 0"
| "node_bytes (NFile b _) = int (length b)"

fun node_files :: "node \<Rightarrow> nat" where
  "node_files NDir = 0"
| "node_files (NFile _ _) = 1"

definition disk_bytes :: "disk \<Rightarrow> int" where
  "disk_bytes d = sum_list (map (\<lambda>x. node_bytes (snd x)) d)"

definition disk_files :: "disk \<Rightarrow> nat" where
  "disk_files d = sum_list (map (\<lambda>x. node_files (snd x)) d)"

lemma node_bytes_ge: "0 \<le> node_bytes x"
  by (cases x) auto

lemma update_bytes: "disk_bytes (AList.update p x d) \<le> disk_bytes d + node_bytes x"
  by (induction d) (auto simp: disk_bytes_def node_bytes_ge)

lemma update_files: "disk_files (AList.update p x d) \<le> disk_files d + node_files x"
  by (induction d) (auto simp: disk_files_def)

lemma mkdirs_bytes: "disk_bytes (snd (mkdirs ps d)) = disk_bytes d \<and> disk_files (snd (mkdirs ps d)) = disk_files d"
  by (induction ps d rule: mkdirs.induct) (auto simp: disk_bytes_def disk_files_def split: option.split node.split)

lemma MkdirAll_bytes: "os_MkdirAll f p d = (ok, d') \<Longrightarrow> disk_bytes d' = disk_bytes d \<and> disk_files d' = disk_files d"
  using mkdirs_bytes [of "prefixes_from [] p" d] mkdirs_bytes [of "take k (prefixes_from [] p)" d for k]
  by (auto simp: os_MkdirAll_def split: option.splits)

lemma extract_bytes:
  assumes "extractRegularFile w i dest e limit d = (n, err, d')"
  shows "disk_bytes d' \<le> disk_bytes d + n" "disk_files d' \<le> Suc (disk_files d)"
proof -
  obtain ok d1 where mk: "os_MkdirAll (iw_mkdir w i) (filepath_Dir dest) d = (ok, d1)"
    by (cases "os_MkdirAll (iw_mkdir w i) (filepath_Dir dest) d")
  have "d' = d1 \<and> n = 0 \<or> (\<exists>b x. d' = AList.update dest (NFile b x) d1 \<and> n = int (length b))"
    using assms mk by (auto simp: extractRegularFile_def Let_def split: if_splits bool.splits)
  moreover have "disk_bytes (AList.update dest (NFile b x) d1) \<le> disk_bytes d1 + int (length b) \<and>
      disk_files (AList.update dest (NFile b x) d1) \<le> Suc (disk_files d1)" for b x
    using update_bytes [of dest "NFile b x" d1] update_files [of dest "NFile b x" d1] by simp
  ultimately show "disk_bytes d' \<le> disk_bytes d + n" "disk_files d' \<le> Suc (disk_files d)"
    using MkdirAll_bytes [OF mk] by auto
qed

text \<open>One entry spends at most the budget and one byte, and exactly its length when it is accepted.\<close>

lemma import_entry_budget:
  assumes "import_entry w i rel dest e st = (err, st')" "0 \<le> im_remaining st"
  shows "disk_bytes (im_disk st') + im_remaining st' \<le> disk_bytes (im_disk st) + im_remaining st"
    and "disk_files (im_disk st') \<le> Suc (disk_files (im_disk st))"
    and "- 1 \<le> im_remaining st'" and "err = None \<Longrightarrow> 0 \<le> im_remaining st'"
    and "im_remaining st - (maxImportEntrySize + 1) \<le> im_remaining st'"
proof -
  have lim: "0 \<le> maxImportEntrySize" by (simp add: maxImportEntrySize_def)
  have one: "disk_bytes (im_disk st') + im_remaining st' \<le> disk_bytes (im_disk st) + im_remaining st \<and>
      disk_files (im_disk st') \<le> Suc (disk_files (im_disk st)) \<and> - 1 \<le> im_remaining st' \<and>
      (err = None \<longrightarrow> 0 \<le> im_remaining st') \<and> im_remaining st - (maxImportEntrySize + 1) \<le> im_remaining st'"
    if f: "import_file w i rel dest e st = (err, st')"
  proof -
    let ?allow = "if im_remaining st < maxImportEntrySize then im_remaining st else maxImportEntrySize"
    obtain n ex d where x: "extractRegularFile w i dest e ?allow (im_disk st) = (n, ex, d)"
      by (cases "extractRegularFile w i dest e ?allow (im_disk st)")
    have allow: "0 \<le> ?allow" using assms(2) lim by simp
    have st': "st' = st\<lparr>im_remaining := im_remaining st - n, im_disk := d\<rparr>" and none: "err = None \<longleftrightarrow> ex = None"
      using f x by (auto simp: import_file_def Let_def split: option.splits extract_error.splits)
    have "ex = None \<Longrightarrow> n \<le> ?allow" using extract_written(3) [of w i dest e ?allow "im_disk st" n d] x allow by simp
    moreover have "?allow \<le> im_remaining st" "?allow \<le> maxImportEntrySize" by auto
    ultimately show ?thesis
      using extract_bytes [OF x] extract_count [OF x allow] st' none lim by auto
  qed
  show "disk_bytes (im_disk st') + im_remaining st' \<le> disk_bytes (im_disk st) + im_remaining st"
    "disk_files (im_disk st') \<le> Suc (disk_files (im_disk st))"
    "- 1 \<le> im_remaining st'" "err = None \<Longrightarrow> 0 \<le> im_remaining st'"
    "im_remaining st - (maxImportEntrySize + 1) \<le> im_remaining st'"
    using assms lim one
    by (cases "th_Typeflag (te_Header e)"; auto simp: import_entry_def dest: MkdirAll_bytes split: prod.splits if_splits)+
qed

lemma import_loop_budget:
  assumes "import_loop lo w dir i es fin st = (err, st')" "0 \<le> im_remaining st"
  shows "disk_bytes (im_disk st') \<le> disk_bytes (im_disk st) + im_remaining st + 1 \<and>
    (err = None \<longrightarrow> disk_bytes (im_disk st') \<le> disk_bytes (im_disk st) + im_remaining st) \<and>
    disk_files (im_disk st') \<le> disk_files (im_disk st) + (maxImportEntries - i)"
  using assms
proof (induction es arbitrary: i st)
  case Nil
  then show ?case by (auto split: if_splits option.splits)
next
  case (Cons e es)
  from Cons.prems(1) show ?case
  proof (cases rule: import_loop_round)
    case stop
    then show ?thesis using Cons.prems(2) by simp
  next
    case (entry rel err1 st1)
    have rem: "0 \<le> im_remaining (st\<lparr>im_seen := (collisionKey lo rel, th_Name (te_Header e)) # im_seen st\<rparr>)"
      using Cons.prems(2) by simp
    note b = import_entry_budget [OF entry(4) rem]
    show ?thesis
    proof (cases err1)
      case None
      then show ?thesis using Cons.IH [of "Suc i" st1] entry(2,6) b by auto
    next
      case (Some x)
      then show ?thesis using entry(2,5) b by auto
    qed
  qed
qed

text \<open>What an accepted entry leaves on the disk.\<close>

definition is_file_entry :: "tar_entry \<Rightarrow> bool" where
  "is_file_entry e \<longleftrightarrow> th_Typeflag (te_Header e) = TypeReg \<or> th_Typeflag (te_Header e) = TypeRegA"

definition entry_node :: "tar_entry \<Rightarrow> node option" where
  "entry_node e =
     (if is_file_entry e then Some (NFile (te_Data e) (th_Mode (te_Header e) AND 73 \<noteq> 0))
      else if th_Typeflag (te_Header e) = TypeDir then Some NDir
      else None)"

lemma extract_mode:
  assumes "extractRegularFile w i dest e limit d = (n, None, d')" "0 \<le> limit" "\<nexists>b x. map_of d dest = Some (NFile b x)"
  shows "map_of d' dest = Some (NFile (te_Data e) (th_Mode (te_Header e) AND 73 \<noteq> 0))"
proof -
  obtain d1 where mk: "os_MkdirAll (iw_mkdir w i) (filepath_Dir dest) d = (True, d1)"
    using assms(1) by (auto simp: extractRegularFile_def split: prod.splits bool.splits)
  have "\<nexists>b x. map_of d1 dest = Some (NFile b x)"
    by (cases "map_of d1 dest = map_of d dest") (use MkdirAll_changes [OF mk, of dest] assms(3) in auto)
  then have "open_mode d1 dest m = (m AND 73 \<noteq> 0)" for m by (auto simp: open_mode_def split: option.split node.split)
  then show ?thesis
    using assms(1,2) mk by (auto simp: extractRegularFile_def Let_def update_conv' split: if_splits option.splits)
qed

lemma import_entry_node:
  assumes "import_entry w i rel dest e st = (None, st')" "0 \<le> im_remaining st"
    and "\<nexists>b x. map_of (im_disk st) dest = Some (NFile b x)"
  shows "entry_node e \<noteq> None" "map_of (im_disk st') dest = entry_node e" "im_seen st' = im_seen st"
    and "p \<noteq> dest \<Longrightarrow> map_of (im_disk st') p \<noteq> map_of (im_disk st) p \<Longrightarrow>
      map_of (im_disk st) p = None \<and> map_of (im_disk st') p = Some NDir"
proof -
  have regular: "map_of (im_disk st') dest = Some (NFile (te_Data e) (th_Mode (te_Header e) AND 73 \<noteq> 0)) \<and>
      im_seen st' = im_seen st \<and>
      (p \<noteq> dest \<longrightarrow> map_of (im_disk st') p \<noteq> map_of (im_disk st) p \<longrightarrow>
         map_of (im_disk st) p = None \<and> map_of (im_disk st') p = Some NDir)"
    if f: "import_file w i rel dest e st = (None, st')"
  proof -
    let ?allow = "if im_remaining st < maxImportEntrySize then im_remaining st else maxImportEntrySize"
    obtain n ex d where x: "extractRegularFile w i dest e ?allow (im_disk st) = (n, ex, d)"
      by (cases "extractRegularFile w i dest e ?allow (im_disk st)")
    have allow: "0 \<le> ?allow" using assms(2) by (simp add: maxImportEntrySize_def)
    have st': "st' = st\<lparr>im_remaining := im_remaining st - n, im_disk := d\<rparr>" and "ex = None"
      using f x by (auto simp: import_file_def Let_def split: option.splits extract_error.splits)
    with x have x': "extractRegularFile w i dest e ?allow (im_disk st) = (n, None, d)" by simp
    show ?thesis
      using extract_mode [OF x' allow assms(3)] extract_changes [OF x', of p] st' by auto
  qed
  have dir: "map_of (im_disk st') dest = Some NDir \<and> im_seen st' = im_seen st \<and>
      (map_of (im_disk st') p \<noteq> map_of (im_disk st) p \<longrightarrow>
         map_of (im_disk st) p = None \<and> map_of (im_disk st') p = Some NDir)"
    if "th_Typeflag (te_Header e) = TypeDir"
    using that assms(1) MkdirAll_made MkdirAll_changes [where p = p]
    by (auto simp: import_entry_def split: prod.splits if_splits)
  show "entry_node e \<noteq> None" "map_of (im_disk st') dest = entry_node e" "im_seen st' = im_seen st"
    "p \<noteq> dest \<Longrightarrow> map_of (im_disk st') p \<noteq> map_of (im_disk st) p \<Longrightarrow>
      map_of (im_disk st) p = None \<and> map_of (im_disk st') p = Some NDir"
    using assms(1) regular dir
    by (cases "th_Typeflag (te_Header e)"; auto simp: import_entry_def entry_node_def is_file_entry_def)+
qed

text \<open>Files below the target have a key that was seen.\<close>

definition files_seen :: "(nat \<Rightarrow> nat) \<Rightarrow> path \<Rightarrow> import_state \<Rightarrow> bool" where
  "files_seen lo dir st \<longleftrightarrow>
     (\<forall>r b x. safe_rel_path r \<longrightarrow> map_of (im_disk st) (dir @ slash # r) = Some (NFile b x) \<longrightarrow>
        collisionKey lo r \<in> fst ` set (im_seen st))"

lemma import_loop_exact:
  assumes "target_dir dir" "files_seen lo dir st" "0 \<le> im_remaining st"
    and "import_loop lo w dir i es fin st = (None, st')"
  shows "(\<forall>r x. safe_rel_path r \<longrightarrow> collisionKey lo r \<in> fst ` set (im_seen st) \<longrightarrow>
      map_of (im_disk st) (dir @ slash # r) = Some x \<longrightarrow> map_of (im_disk st') (dir @ slash # r) = Some x) \<and>
    (\<forall>e \<in> set es. \<exists>r. safeRelPath (th_Name (te_Header e)) = Inr r \<and> entry_node e \<noteq> None \<and>
      map_of (im_disk st') (dir @ slash # r) = entry_node e) \<and>
    (\<forall>r b x. safe_rel_path r \<longrightarrow> map_of (im_disk st') (dir @ slash # r) = Some (NFile b x) \<longrightarrow>
      map_of (im_disk st) (dir @ slash # r) = Some (NFile b x) \<or>
      (\<exists>e \<in> set es. safeRelPath (th_Name (te_Header e)) = Inr r \<and> entry_node e = Some (NFile b x)))"
  using assms(2-4)
proof (induction es arbitrary: i st)
  case Nil
  then show ?case by (auto split: if_splits option.splits)
next
  case (Cons e es)
  from Cons.prems(3) show ?case
  proof (cases rule: import_loop_round)
    case stop
    then show ?thesis by simp
  next
    case (entry rel err1 st1)
    let ?key = "collisionKey lo rel"
    let ?st = "st\<lparr>im_seen := (?key, th_Name (te_Header e)) # im_seen st\<rparr>"
    have rel: "safe_rel_path rel" using safeRelPath_safe [OF entry(1)] by simp
    have err1: "err1 = None" using entry(5) by (cases err1) auto
    have ie: "import_entry w i rel (dir @ slash # rel) e ?st = (None, st1)"
      using entry(4) err1 import_dest_eq [OF assms(1) rel] by simp
    have key: "?key \<notin> fst ` set (im_seen st)" using entry(3) by (simp add: map_of_eq_None_iff)
    have nofile: "\<nexists>b x. map_of (im_disk ?st) (dir @ slash # rel) = Some (NFile b x)"
      using Cons.prems(1) rel key by (auto simp: files_seen_def)
    have rem: "0 \<le> im_remaining ?st" using Cons.prems(2) by simp
    note node = import_entry_node [OF ie rem nofile]
    have seen1: "im_seen st1 = (?key, th_Name (te_Header e)) # im_seen st" using node(3) by simp
    have other: "map_of (im_disk st1) (dir @ slash # r) = map_of (im_disk st) (dir @ slash # r) \<or>
        map_of (im_disk st) (dir @ slash # r) = None \<and> map_of (im_disk st1) (dir @ slash # r) = Some NDir"
      if "r \<noteq> rel" for r using node(4) [of "dir @ slash # r"] that by auto
    have fs1: "files_seen lo dir st1"
      unfolding files_seen_def
    proof (intro allI impI)
      fix r b x
      assume r: "safe_rel_path r" "map_of (im_disk st1) (dir @ slash # r) = Some (NFile b x)"
      show "collisionKey lo r \<in> fst ` set (im_seen st1)"
      proof (cases "r = rel")
        case False
        then have "map_of (im_disk st) (dir @ slash # r) = Some (NFile b x)" using other [of r] r(2) by auto
        then have "collisionKey lo r \<in> fst ` set (im_seen st)" using Cons.prems(1) r(1) unfolding files_seen_def by blast
        then show ?thesis using seen1 by auto
      qed (use seen1 in simp)
    qed
    have IH: "(\<forall>r x. safe_rel_path r \<longrightarrow> collisionKey lo r \<in> fst ` set (im_seen st1) \<longrightarrow>
        map_of (im_disk st1) (dir @ slash # r) = Some x \<longrightarrow> map_of (im_disk st') (dir @ slash # r) = Some x)"
      "\<forall>e \<in> set es. \<exists>r. safeRelPath (th_Name (te_Header e)) = Inr r \<and> entry_node e \<noteq> None \<and>
        map_of (im_disk st') (dir @ slash # r) = entry_node e"
      "\<And>r b x. safe_rel_path r \<Longrightarrow> map_of (im_disk st') (dir @ slash # r) = Some (NFile b x) \<Longrightarrow>
        map_of (im_disk st1) (dir @ slash # r) = Some (NFile b x) \<or>
        (\<exists>e \<in> set es. safeRelPath (th_Name (te_Header e)) = Inr r \<and> entry_node e = Some (NFile b x))"
      using Cons.IH [OF fs1 _ entry(6) [OF err1]] import_entry_budget(4) [OF entry(4) rem] err1 by blast+
    have keep: "map_of (im_disk st') (dir @ slash # r) = Some x"
      if r: "safe_rel_path r" "collisionKey lo r \<in> fst ` set (im_seen st)" "map_of (im_disk st) (dir @ slash # r) = Some x" for r x
    proof -
      have "r \<noteq> rel" using r(2) key by auto
      then have "map_of (im_disk st1) (dir @ slash # r) = Some x" using other [of r] r(3) by auto
      then show ?thesis using IH(1) r(1,2) seen1 by auto
    qed
    have "map_of (im_disk st') (dir @ slash # rel) = entry_node e"
      using IH(1) rel seen1 node(1,2) by (cases "entry_node e") auto
    then have all: "\<forall>e' \<in> set (e # es). \<exists>r. safeRelPath (th_Name (te_Header e')) = Inr r \<and> entry_node e' \<noteq> None \<and>
        map_of (im_disk st') (dir @ slash # r) = entry_node e'"
      using IH(2) entry(1) node(1) by auto
    have from_entries: "map_of (im_disk st) (dir @ slash # r) = Some (NFile b x) \<or>
        (\<exists>e' \<in> set (e # es). safeRelPath (th_Name (te_Header e')) = Inr r \<and> entry_node e' = Some (NFile b x))"
      if r: "safe_rel_path r" "map_of (im_disk st') (dir @ slash # r) = Some (NFile b x)" for r b x
      using IH(3) [OF r] other [of r] node(2) entry(1) by (cases "r = rel") auto
    show ?thesis using keep all from_entries by blast
  qed
qed

section \<open>Lemmas: a well-behaved archive is accepted\<close>

lemma prefixes_split: "p \<in> set (prefixes_from s x) \<Longrightarrow> \<exists>z. s @ x = p @ z \<and> (z = [] \<or> hd z = slash)"
proof (induction s x rule: prefixes_from.induct)
  case (2 s c x)
  show ?case
  proof (cases "c = slash \<and> s \<noteq> [] \<and> p = s")
    case True
    then show ?thesis by auto
  next
    case False
    then have "p \<in> set (prefixes_from (s @ [c]) x)" using 2(3) by (auto split: if_splits)
    then show ?thesis using 2(1,2) by (cases "c = slash \<and> s \<noteq> []") auto
  qed
qed simp

lemma dir_of_dest_split:
  assumes "target_dir dir" "safe_rel_path rel"
  shows "\<exists>s. filepath_Dir (dir @ slash # rel) @ slash # s = dir @ slash # rel"
  by (rule dir_of_dest_cases [OF assms]) auto

definition quiet_import :: "import_world \<Rightarrow> bool" where
  "quiet_import w \<longleftrightarrow>
     (\<forall>i. \<not> iw_cancelled w i \<and> iw_mkdir w i = None \<and> \<not> iw_open w i \<and> iw_write w i = None \<and> \<not> iw_close w i) \<and>
     iw_root w = None"

lemma mkdirs_ok: "\<forall>p \<in> set ps. \<forall>b x. map_of d p \<noteq> Some (NFile b x) \<Longrightarrow> fst (mkdirs ps d)"
proof (induction ps d rule: mkdirs.induct)
  case (2 q ps d)
  then show ?case by (auto split: option.split node.split)
qed simp

text \<open>No name of the archive is a directory above another.\<close>

definition no_overlap :: "path set \<Rightarrow> bool" where
  "no_overlap R \<longleftrightarrow> (\<forall>r \<in> R. \<forall>r' \<in> R. \<forall>z. r' \<noteq> r @ slash # z)"

text \<open>What is below the target after the names \<open>R\<close> were imported.\<close>

definition holds_only :: "path \<Rightarrow> path set \<Rightarrow> disk \<Rightarrow> bool" where
  "holds_only dir R d \<longleftrightarrow>
     (\<forall>q x. map_of d (dir @ slash # q) = Some x \<longrightarrow>
        (case x of NFile _ _ \<Rightarrow> q \<in> R | NDir \<Rightarrow> \<exists>r \<in> R. \<exists>z. r = q @ slash # z))"

lemma parent_prefix:
  assumes "target_dir dir" "safe_rel_path rel" "dir @ slash # q \<in> set (prefixes_from [] (filepath_Dir (dir @ slash # rel)))"
  shows "\<exists>z. rel = q @ slash # z"
proof -
  obtain s where s: "filepath_Dir (dir @ slash # rel) @ slash # s = dir @ slash # rel"
    using dir_of_dest_split [OF assms(1,2)] by blast
  obtain z where z: "filepath_Dir (dir @ slash # rel) = (dir @ slash # q) @ z" "z = [] \<or> hd z = slash"
    using prefixes_split [OF assms(3)] by auto
  then show ?thesis using s by (cases z) auto
qed

lemma extract_quiet:
  assumes "quiet_import w" "target_dir dir" "safe_rel_path rel" "ready dir d" "holds_only dir R d"
    and "no_overlap (insert rel R)" "rel \<notin> R" "te_Error e = None" "int (length (te_Data e)) \<le> limit"
  shows "\<exists>d'. extractRegularFile w i (dir @ slash # rel) e limit d = (int (length (te_Data e)), None, d') \<and>
    holds_only dir (insert rel R) d'"
proof -
  let ?dest = "dir @ slash # rel"
  let ?parents = "prefixes_from [] (filepath_Dir ?dest)"
  have q: "iw_mkdir w i = None" "\<not> iw_open w i" "iw_write w i = None" "\<not> iw_close w i"
    using assms(1) by (auto simp: quiet_import_def)
  have nofile: "map_of d p \<noteq> Some (NFile b x)" if p: "p \<in> set ?parents" for p b x
  proof (cases "p \<in> set (prefixes_from [] dir)")
    case True
    then show ?thesis using assms(4) by (auto simp: ready_def)
  next
    case False
    then have "below dir p" using p dir_of_dest [OF assms(2,3)] prefixes_below [OF target_ne [OF assms(2)]] by metis
    then obtain r where r: "safe_rel_path r" "p = dir @ slash # r" by (auto simp: below_def)
    then obtain z where "rel = r @ slash # z" using parent_prefix [OF assms(2,3)] p by blast
    then have "r \<notin> R" using assms(6) by (auto simp: no_overlap_def)
    then show ?thesis using assms(5) r(2) by (fastforce simp: holds_only_def)
  qed
  obtain d1 where mk: "os_MkdirAll (iw_mkdir w i) (filepath_Dir ?dest) d = (True, d1)"
    using mkdirs_ok [of ?parents d] nofile q(1) by (cases "mkdirs ?parents d") (auto simp: os_MkdirAll_def)
  have d1: "map_of d1 (dir @ slash # r) = map_of d (dir @ slash # r) \<or>
      map_of d1 (dir @ slash # r) = Some NDir \<and> (\<exists>z. rel = r @ slash # z)" for r
    using MkdirAll_changes [OF mk, of "dir @ slash # r"] parent_prefix [OF assms(2,3), of r] by auto
  have "map_of d ?dest \<noteq> Some NDir" using assms(5,6) by (fastforce simp: holds_only_def no_overlap_def)
  then have "map_of d1 ?dest \<noteq> Some NDir" using d1 [of rel] by auto
  then have "extractRegularFile w i ?dest e limit d = (int (length (te_Data e)), None,
      AList.update ?dest (NFile (te_Data e) (open_mode d1 ?dest (th_Mode (te_Header e)))) d1)"
    using q mk assms(8,9) by (simp add: extractRegularFile_def Let_def)
  moreover have "holds_only dir (insert rel R) (AList.update ?dest (NFile (te_Data e) m) d1)" for m
    unfolding holds_only_def
  proof (intro allI impI)
    fix r x
    assume x: "map_of (AList.update ?dest (NFile (te_Data e) m) d1) (dir @ slash # r) = Some x"
    show "case x of NFile _ _ \<Rightarrow> r \<in> insert rel R | NDir \<Rightarrow> \<exists>r' \<in> insert rel R. \<exists>z. r' = r @ slash # z"
    proof (cases "r = rel")
      case True
      then show ?thesis using x by (auto simp: update_conv')
    next
      case False
      then have "map_of d1 (dir @ slash # r) = Some x" using x by (simp add: update_conv')
      then show ?thesis using d1 [of r] assms(5) by (fastforce simp: holds_only_def split: node.splits)
    qed
  qed
  ultimately show ?thesis by blast
qed

text \<open>The entries of an export: regular files under names that import accepts as they are.\<close>

definition plain_entry :: "tar_entry \<Rightarrow> bool" where
  "plain_entry e \<longleftrightarrow> th_Typeflag (te_Header e) = TypeReg \<and> te_Error e = None \<and>
     safeRelPath (th_Name (te_Header e)) = Inr (th_Name (te_Header e)) \<and>
     int (length (te_Data e)) \<le> maxImportEntrySize"

abbreviation entry_name :: "tar_entry \<Rightarrow> path" where
  "entry_name e \<equiv> th_Name (te_Header e)"

definition entries_bytes :: "tar_entry list \<Rightarrow> int" where
  "entries_bytes es = sum_list (map (\<lambda>e. int (length (te_Data e))) es)"

lemma entries_bytes_ge: "0 \<le> entries_bytes es"
  by (induction es) (auto simp: entries_bytes_def)

lemma import_loop_accepts:
  assumes "quiet_import w" "target_dir dir"
  shows "ready dir (im_disk st) \<Longrightarrow> holds_only dir R (im_disk st) \<Longrightarrow> list_all plain_entry es \<Longrightarrow>
    no_overlap (R \<union> entry_name ` set es) \<Longrightarrow> R \<inter> entry_name ` set es = {} \<Longrightarrow>
    distinct (map (\<lambda>e. collisionKey lo (entry_name e)) es) \<Longrightarrow>
    fst ` set (im_seen st) \<inter> (\<lambda>e. collisionKey lo (entry_name e)) ` set es = {} \<Longrightarrow>
    i + length es \<le> maxImportEntries \<Longrightarrow> entries_bytes es \<le> im_remaining st \<Longrightarrow>
    \<exists>st'. import_loop lo w dir i es None st = (None, st')"
proof (induction es arbitrary: i st R)
  case Nil
  then show ?case using assms(1) by (auto simp: quiet_import_def)
next
  case (Cons e es)
  let ?rel = "entry_name e"
  let ?st = "st\<lparr>im_seen := (collisionKey lo ?rel, ?rel) # im_seen st\<rparr>"
  let ?allow = "if im_remaining st < maxImportEntrySize then im_remaining st else maxImportEntrySize"
  have e: "th_Typeflag (te_Header e) = TypeReg" "te_Error e = None" "safeRelPath ?rel = Inr ?rel"
    "int (length (te_Data e)) \<le> maxImportEntrySize" using Cons.prems(3) by (auto simp: plain_entry_def)
  have rel: "safe_rel_path ?rel" using safeRelPath_safe [OF e(3)] by simp
  have len: "int (length (te_Data e)) \<le> ?allow"
    using e(4) Cons.prems(9) entries_bytes_ge [of es] by (auto simp: entries_bytes_def)
  have no: "no_overlap (insert ?rel R)" "?rel \<notin> R"
    using Cons.prems(4,5) by (auto simp: no_overlap_def)
  have "\<exists>d'. extractRegularFile w i (dir @ slash # ?rel) e ?allow (im_disk st) = (int (length (te_Data e)), None, d') \<and>
      holds_only dir (insert ?rel R) d'"
    by (rule extract_quiet [OF assms rel Cons.prems(1,2) no e(2) len])
  then obtain d' where d': "extractRegularFile w i (dir @ slash # ?rel) e ?allow (im_disk st)
      = (int (length (te_Data e)), None, d')" "holds_only dir (insert ?rel R) d'" by blast
  let ?st1 = "?st\<lparr>im_remaining := im_remaining st - int (length (te_Data e)), im_disk := d'\<rparr>"
  have ie: "import_entry w i ?rel (import_dest dir ?rel) e ?st = (None, ?st1)"
    using d'(1) e(1) import_dest_eq [OF assms(2) rel]
    by (cases "im_remaining st < maxImportEntrySize") (simp_all add: import_entry_def import_file_def Let_def)
  have key: "map_of (im_seen st) (collisionKey lo ?rel) = None"
    using Cons.prems(7) by (auto simp: map_of_eq_None_iff)
  have step: "import_loop lo w dir i (e # es) None st = import_loop lo w dir (Suc i) es None ?st1"
    using assms(1) Cons.prems(8) e(3) key ie by (simp add: quiet_import_def Let_def)
  have "ready dir d'"
    using ready_changes [OF Cons.prems(1) extract_below [OF d'(1) assms(2) rel Cons.prems(1)]] .
  moreover have "?rel \<notin> entry_name ` set es" using Cons.prems(6) by force
  ultimately show ?case
    unfolding step
    using Cons.IH [of ?st1 "insert ?rel R" "Suc i"] d'(2) Cons.prems(3-9) by (auto simp: entries_bytes_def)
qed

text \<open>The files of a tree never lie above one another.\<close>

lemma leaves_no_overlap:
  assumes "wf_tree t"
  shows "no_overlap (fst ` set (leaves t))"
  unfolding no_overlap_def
proof (intro ballI allI notI)
  fix r r' z
  assume r: "r \<in> fst ` set (leaves t)" "r' \<in> fst ` set (leaves t)" and eq: "r' = r @ slash # z"
  obtain ns e where ns: "r = names_path ns" "tree_lookup t ns = Some e" "\<not> is_dir e"
    using r(1) leaves_iff [OF assms] by auto
  obtain ms e' where ms: "r' = names_path ms" "tree_lookup t ms = Some e'" using r(2) leaves_iff [OF assms] by auto
  have good: "good_names ns" "good_names ms" using lookup_good_names [OF assms] ns(2) ms(2) by auto
  have "ms \<noteq> []" using ms(1) eq by auto
  show False
  proof (cases "ns = []")
    case True
    then show False using ns(2,3) ms(2) \<open>ms \<noteq> []\<close> by (cases t; cases ms) auto
  next
    case False
    have "ms = split_on slash (r @ slash # z)" using split_names_path [OF \<open>ms \<noteq> []\<close> good(2)] ms(1) eq by simp
    also have "\<dots> = ns @ split_on slash z"
      using split_names_path [OF False good(1)] ns(1) by (simp add: split_on_append_sep)
    finally have "ms = ns @ split_on slash z" .
    then have "tree_lookup e (split_on slash z) = Some e'" using ms(2) ns(2) by (simp add: lookup_append)
    then show False using ns(3) by (cases e; cases "split_on slash z") auto
  qed
qed

text \<open>What an export collects.\<close>

lemma collect_events_leaves:
  assumes "collect_events xbit evs = Inr es" "\<forall>e. Visit '''' e \<in> set evs \<longrightarrow> is_dir e"
  shows "map (\<lambda>x. (ee_relPath x, ee_node x)) es = concat (map event_leaf evs) \<and>
    (\<forall>x \<in> set es. is_regular (ee_node x) \<and> ee_exec x = xbit (ee_relPath x) \<and>
      ee_size x = (case stat_entry (ee_node x) of Some n \<Rightarrow> n | None \<Rightarrow> 0))"
  using assms
proof (induction xbit evs arbitrary: es rule: collect_events.induct)
  case (3 xbit p e evs)
  have vis: "\<forall>e'. Visit '''' e' \<in> set evs \<longrightarrow> is_dir e'" using 3(4) by auto
  show ?case
  proof (cases "p = '''' \<or> is_dir e")
    case True
    then have "is_dir e" using 3(4) by auto
    then show ?thesis using 3(1) [OF True _ vis] 3(3) True by simp
  next
    case False
    then show ?thesis using 3(2) [OF False _ _ vis] 3(3) by (auto split: if_splits sum.splits)
  qed
qed auto

definition tar_entry_of :: "export_entry \<Rightarrow> tar_entry" where
  "tar_entry_of x = \<lparr>te_Header = export_header x,
     te_Data = (case read_entry (ee_node x) of ReadOK b \<Rightarrow> b | _ \<Rightarrow> ''''), te_Error = None\<rparr>"

lemma export_loop_entries:
  "export_loop w i xs = Inr es \<Longrightarrow> es = map tar_entry_of xs \<and> (\<forall>x \<in> set xs. \<exists>b. read_entry (ee_node x) = ReadOK b)"
proof (induction xs arbitrary: i es)
  case (Cons x xs)
  then show ?case by (auto simp: tar_entry_of_def split: if_splits read_result.splits sum.splits)
qed simp

lemma regular_read: "is_regular e \<Longrightarrow> read_entry e = ReadOK b \<Longrightarrow> e = RegularFile b"
  by (cases e) auto

definition collected_entry :: "(path \<Rightarrow> bool) \<Rightarrow> path \<times> entry \<Rightarrow> export_entry" where
  "collected_entry xbit x = \<lparr>ee_relPath = fst x, ee_node = snd x,
     ee_size = (case stat_entry (snd x) of Some n \<Rightarrow> n | None \<Rightarrow> 0), ee_exec = xbit (fst x)\<rparr>"

lemma walk_root_dir:
  assumes "wf_tree t" "is_dir t"
  shows "\<forall>e. Visit '''' e \<in> set (walk '''' t) \<longrightarrow> is_dir e"
  using walk_visits [OF assms(1), of "[]" "''''"] assms(2) lookup_good_names [OF assms(1)] names_path_empty by fastforce

lemma collected_leaves:
  assumes "wf_tree t" "is_dir t" "collectExportEntries xbit t = Inr xs"
  shows "mset xs = mset (map (collected_entry xbit) (leaves t))" "sorted (map ee_relPath xs)" "distinct (map ee_relPath xs)"
proof -
  obtain ys where ys: "collect_events xbit (walk '''' t) = Inr ys" "xs = sort_key ee_relPath ys"
    using assms(3) by (auto simp: collectExportEntries_def split: sum.splits)
  note lv = collect_events_leaves [OF ys(1) walk_root_dir [OF assms(1,2)], folded leaves_def]
  have "map (collected_entry xbit) (map (\<lambda>x. (ee_relPath x, ee_node x)) ys) = ys"
    unfolding map_map comp_def by (rule map_idI) (use lv in \<open>auto simp: collected_entry_def intro!: export_entry.equality\<close>)
  then show m: "mset xs = mset (map (collected_entry xbit) (leaves t))" using lv ys(2) by simp
  show "sorted (map ee_relPath xs)" using ys(2) by simp
  have "mset (map ee_relPath xs) = mset (map fst (leaves t))"
    using m by (simp add: image_mset.compositionality comp_def collected_entry_def)
  then show "distinct (map ee_relPath xs)" using leaves_distinct [OF assms(1)] mset_eq_imp_distinct_iff by blast
qed

text \<open>The entries of an exported tree are its files.\<close>

definition tree_bytes :: "entry \<Rightarrow> int" where
  "tree_bytes t = sum_list (map (\<lambda>(r, e). case read_entry e of ReadOK b \<Rightarrow> int (length b) | _ \<Rightarrow> 0) (leaves t))"

lemma exported_entries:
  assumes "wf_tree t" "is_dir t" "collectExportEntries xbit t = Inr xs" "export_loop w 0 xs = Inr es"
  shows "(\<exists>e \<in> set es. entry_name e = r \<and> entry_node e = Some (NFile b x)) \<longleftrightarrow>
      (r, RegularFile b) \<in> set (leaves t) \<and> x = xbit r"
    and "entry_name ` set es = fst ` set (leaves t)" "length es = length (leaves t)"
    and "\<forall>e \<in> set es. th_Typeflag (te_Header e) = TypeReg \<and> te_Error e = None"
    and "\<forall>e \<in> set es. th_Size (te_Header e) = length (te_Data e) \<and> th_ModTime (te_Header e) = FixedModTime \<and>
      (th_Mode (te_Header e) = 420 \<or> th_Mode (te_Header e) = 493)"
    and "mset (map entry_name es) = mset (map fst (leaves t))"
    and "entries_bytes es = tree_bytes t"
proof -
  obtain ys where ys: "collect_events xbit (walk '''' t) = Inr ys" "xs = sort_key ee_relPath ys"
    using assms(3) by (auto simp: collectExportEntries_def split: sum.splits)
  have root: "\<forall>e. Visit '''' e \<in> set (walk '''' t) \<longrightarrow> is_dir e"
    using walk_visits [OF assms(1), of "[]" "''''"] assms(2) lookup_good_names [OF assms(1)] names_path_empty by fastforce
  note lv = collect_events_leaves [OF ys(1) root, folded leaves_def]
  have es: "es = map tar_entry_of xs" "\<forall>x \<in> set xs. \<exists>b. read_entry (ee_node x) = ReadOK b"
    using export_loop_entries [OF assms(4)] by auto
  have set_xs: "set xs = set ys" using ys(2) by simp
  have reg: "\<forall>x \<in> set xs. \<exists>b. ee_node x = RegularFile b \<and> ee_exec x = xbit (ee_relPath x)"
    using lv es(2) regular_read unfolding set_xs by blast
  have leaf: "(r, e) \<in> set (leaves t) \<longleftrightarrow> (\<exists>x \<in> set xs. ee_relPath x = r \<and> ee_node x = e)" for r e
  proof -
    have "set (leaves t) = (\<lambda>x. (ee_relPath x, ee_node x)) ` set xs" unfolding set_xs conjunct1 [OF lv, symmetric] by simp
    then show ?thesis by auto
  qed
  have node: "entry_node (tar_entry_of y) = Some (NFile b (ee_exec y))" if "ee_node y = RegularFile b" for y b
    using that by (simp add: entry_node_def is_file_entry_def tar_entry_of_def export_header_def)
  show "(\<exists>e \<in> set es. entry_name e = r \<and> entry_node e = Some (NFile b x)) \<longleftrightarrow>
      (r, RegularFile b) \<in> set (leaves t) \<and> x = xbit r"
    unfolding leaf es(1) using reg node by (fastforce simp: tar_entry_of_def export_header_def)
  show "entry_name ` set es = fst ` set (leaves t)"
    using leaf by (force simp: es(1) tar_entry_of_def export_header_def image_iff)
  show "length es = length (leaves t)" using es(1) ys(2) lv by (metis length_map length_sort)
  show "\<forall>e \<in> set es. th_Typeflag (te_Header e) = TypeReg \<and> te_Error e = None"
    by (auto simp: es(1) tar_entry_of_def export_header_def)
  have sz: "ee_size x = int (length b)" if "x \<in> set xs" "ee_node x = RegularFile b" for x b
    using lv that unfolding set_xs by auto
  show "\<forall>e \<in> set es. th_Size (te_Header e) = length (te_Data e) \<and> th_ModTime (te_Header e) = FixedModTime \<and>
      (th_Mode (te_Header e) = 420 \<or> th_Mode (te_Header e) = 493)"
    using reg sz by (fastforce simp: es(1) tar_entry_of_def export_header_def)
  show "mset (map entry_name es) = mset (map fst (leaves t))"
    unfolding conjunct1 [OF lv, symmetric] es(1) ys(2)    by (simp add: tar_entry_of_def export_header_def image_mset.compositionality comp_def)
  show "entries_bytes es = tree_bytes t"
  proof -
    let ?f = "\<lambda>e. case read_entry e of ReadOK b \<Rightarrow> int (length b) | _ \<Rightarrow> 0"
    have "entries_bytes es = sum_list (map (\<lambda>x. ?f (ee_node x)) xs)"
      unfolding es(1) entries_bytes_def map_map comp_def using es(2)
      by (intro arg_cong [of _ _ sum_list] map_cong) (auto simp: tar_entry_of_def split: read_result.splits)
    also have "\<dots> = sum_list (map (\<lambda>x. ?f (ee_node x)) ys)"
      by (metis (no_types) mset_map mset_sort sum_mset_sum_list ys(2))
    also have "\<dots> = sum_list (map (\<lambda>(r, e). ?f e) (leaves t))"
      unfolding conjunct1 [OF lv, symmetric] map_map by (simp add: comp_def)
    finally show ?thesis unfolding tree_bytes_def .
  qed
qed

section \<open>Properties\<close>

lemma importTar_Entries:
  assumes "importTar lo w (SourceEntries es fin) d = (err, d')" "iw_abs w = Some dir"
  obtains d1 st where "os_MkdirAll (iw_root w) dir d = (True, d1)"
    "import_loop lo w dir 0 es fin \<lparr>im_remaining = maxImportTotalSize, im_seen = [], im_disk = d1\<rparr> = (err, st)" "d' = im_disk st"
  | d1 where "os_MkdirAll (iw_root w) dir d = (False, d1)" "err = Some ImpRoot" "d' = d1"
  using assms by (auto simp: importTar_def split: prod.splits bool.splits)

lemma total_ge: "0 \<le> maxImportTotalSize"
  by (simp add: maxImportTotalSize_def)

text \<open>
  C19. Importing an archive never writes outside the target directory. Whatever names, types and bytes the
  archive holds and whatever calls of the operating system fail, the only names whose content changes are the
  target and the directories above it that had to be made, and names below it made of plain segments, none of
  them empty, a dot or two dots.
\<close>

theorem importTar_confines:
  assumes "iw_abs w = Some dir" "target_dir dir" "importTar lo w src d = (err, d')" "map_of d' p \<noteq> map_of d p"
  shows "p \<in> set (prefixes_from [] dir) \<and> map_of d p = None \<and> map_of d' p = Some NDir \<or>
    (\<exists>q. safe_rel_path q \<and> p = dir @ slash # q)"
proof (cases src)
  case (SourceEntries es fin)
  from assms(3) [unfolded SourceEntries] assms(1) show ?thesis
  proof (cases rule: importTar_Entries)
    case (1 d1 st)
    have "ready dir d1" using MkdirAll_done [OF 1(1)] by (simp add: ready_def)
    then have "changes_below dir d1 d'" using import_loop_below [OF assms(2) _ 1(2)] 1(3) by simp
    moreover have "map_of d1 p \<noteq> map_of d p \<Longrightarrow> p \<in> set (prefixes_from [] dir) \<and> map_of d p = None \<and> map_of d1 p = Some NDir"
      by (rule MkdirAll_changes [OF 1(1)])
    ultimately show ?thesis using assms(4)
      by (cases "map_of d1 p = map_of d p"; cases "map_of d' p = map_of d1 p") (auto simp: changes_below_def below_def)
  next
    case (2 d1)
    then show ?thesis using MkdirAll_changes [OF 2(1)] assms(4) by simp
  qed
qed (use assms in \<open>simp_all add: importTar_def\<close>)

definition demo_entry :: "string \<Rightarrow> tar_type \<Rightarrow> string \<Rightarrow> tar_entry" where
  "demo_entry name ty b = \<lparr>te_Header = \<lparr>th_Typeflag = ty, th_Name = name, th_Size = length b, th_Mode = 420, th_ModTime = 0\<rparr>,
     te_Data = b, te_Error = None\<rparr>"

definition demo_world :: import_world where
  "demo_world = \<lparr>iw_cancelled = (\<lambda>_. False), iw_abs = Some ''/t'', iw_root = None, iw_mkdir = (\<lambda>_. None),
     iw_open = (\<lambda>_. False), iw_write = (\<lambda>_. None), iw_close = (\<lambda>_. False)\<rparr>"

definition demo_source :: tar_source where
  "demo_source = SourceEntries [demo_entry ''repo/./a'' TypeReg ''x'', demo_entry ''../evil'' TypeReg ''y''] None"

definition demo_after :: disk where
  "demo_after = [(''/t/repo'', NDir), (''/t'', NDir), (''/t/repo/a'', NFile ''x'' False)]"

lemma demo_names:
  "safeRelPath ''repo/./a'' = Inr ''repo/a''" "safeRelPath ''../evil'' = Inl NameTraversal"
  "collisionKey id ''repo/a'' = ''repo/a''" "import_dest ''/t'' ''repo/a'' = ''/t/repo/a''" "filepath_Dir ''/t/repo/a'' = ''/t/repo''"
  "prefixes_from [] ''/t'' = [''/t'']" "prefixes_from [] ''/t/repo'' = [''/t'', ''/t/repo'']"
  by code_simp+

lemmas import_eval = importTar_def os_MkdirAll_def import_entry_def import_file_def extractRegularFile_def open_mode_def
  maxImportEntrySize_def maxImportTotalSize_def maxImportEntries_def

lemma demo_import: "importTar id demo_world demo_source [] = (Some (ImpName NameTraversal), demo_after)"
  by (simp add: demo_source_def demo_world_def demo_entry_def demo_names demo_after_def import_eval Let_def)

lemma demo_target: "target_dir ''/t''"
  by code_simp

theorem importTar_confines_witness:
  "''/t/repo/a'' \<in> set (prefixes_from [] ''/t'') \<and> map_of [] ''/t/repo/a'' = (None :: node option) \<and>
     map_of demo_after ''/t/repo/a'' = Some NDir \<or>
   (\<exists>q. safe_rel_path q \<and> ''/t/repo/a'' = ''/t'' @ slash # q)"
  by (rule importTar_confines [OF _ demo_target demo_import]) (simp add: demo_world_def, code_simp)

text \<open>
  C22. Importing an archive is bounded: at most 50000 files are created and at most 64 GiB (and one byte, when the
  limit is found to be exceeded) are written, however the archive expands; an import that succeeds stays within
  64 GiB.
\<close>

theorem importTar_bounded:
  assumes "iw_abs w = Some dir" "importTar lo w src d = (err, d')"
  shows "disk_files d' \<le> disk_files d + 50000 \<and> disk_bytes d' \<le> disk_bytes d + 64 * 2 ^ 30 + 1 \<and>
    (err = None \<longrightarrow> disk_bytes d' \<le> disk_bytes d + 64 * 2 ^ 30)"
proof -
  have "disk_files d' \<le> disk_files d + maxImportEntries \<and> disk_bytes d' \<le> disk_bytes d + maxImportTotalSize + 1 \<and>
      (err = None \<longrightarrow> disk_bytes d' \<le> disk_bytes d + maxImportTotalSize)"
  proof (cases src)
    case (SourceEntries es fin)
    from assms(2) [unfolded SourceEntries] assms(1) show ?thesis
    proof (cases rule: importTar_Entries)
      case (1 d1 st)
      then show ?thesis using import_loop_budget [OF 1(2)] MkdirAll_bytes [OF 1(1)] total_ge by auto
    next
      case (2 d1)
      then show ?thesis using MkdirAll_bytes [OF 2(1)] total_ge by simp
    qed
  qed (use assms total_ge in \<open>simp_all add: importTar_def\<close>)
  then show ?thesis by (auto simp: maxImportEntries_def maxImportTotalSize_def)
qed

theorem importTar_bounded_witness:
  "disk_files demo_after \<le> disk_files [] + 50000 \<and> disk_bytes demo_after \<le> disk_bytes [] + 64 * 2 ^ 30 + 1"
  using importTar_bounded [OF _ demo_import, of "''/t''"] by (simp add: demo_world_def)

text \<open>
  C20. A successful import into a fresh directory leaves exactly the archive on disk: every entry was a regular
  file or a directory under an accepted name and is there with its own bytes and mode, no later entry has
  replaced an earlier one, and there is no file that is not an entry.
\<close>

theorem importTar_exact:
  assumes "iw_abs w = Some dir" "target_dir dir" "\<And>q. map_of d (dir @ slash # q) = None"
    and "importTar lo w (SourceEntries es fin) d = (None, d')"
  shows "(\<forall>e \<in> set es. \<exists>r. safeRelPath (entry_name e) = Inr r \<and> entry_node e \<noteq> None \<and> map_of d' (dir @ slash # r) = entry_node e) \<and>
    (\<forall>r b x. safe_rel_path r \<longrightarrow> map_of d' (dir @ slash # r) = Some (NFile b x) \<longrightarrow>
      (\<exists>e \<in> set es. safeRelPath (entry_name e) = Inr r \<and> entry_node e = Some (NFile b x)))"
proof -
  obtain d1 st where loop: "os_MkdirAll (iw_root w) dir d = (True, d1)"
    "import_loop lo w dir 0 es fin \<lparr>im_remaining = maxImportTotalSize, im_seen = [], im_disk = d1\<rparr> = (None, st)" "d' = im_disk st"
    using importTar_Entries [OF assms(4,1)] by (metis option.distinct(1))
  have d1: "map_of d1 (dir @ slash # q) \<noteq> Some (NFile b x)" for q b x
    using MkdirAll_changes [OF loop(1), of "dir @ slash # q"] assms(3) [of q] by (metis node.distinct(1) option.distinct(1) option.inject)
  have fs: "files_seen lo dir \<lparr>im_remaining = maxImportTotalSize, im_seen = [], im_disk = d1\<rparr>"
    using d1 by (simp add: files_seen_def)
  have rem: "0 \<le> im_remaining \<lparr>im_remaining = maxImportTotalSize, im_seen = [], im_disk = d1\<rparr>" using total_ge by simp
  note exact = import_loop_exact [OF assms(2) fs rem loop(2)]
  then show ?thesis using loop(3) d1 by simp
qed

theorem importTar_exact_witness:
  "map_of (snd (importTar id demo_world (SourceEntries [demo_entry ''repo/./a'' TypeReg ''x''] None) [])) (''/t'' @ slash # ''repo/a'')
     = Some (NFile ''x'' False)"
proof -
  let ?e = "demo_entry ''repo/./a'' TypeReg ''x''"
  have run: "importTar id demo_world (SourceEntries [?e] None) [] = (None, demo_after)"
    by (simp add: demo_world_def demo_entry_def demo_names demo_after_def import_eval Let_def)
  have abs: "iw_abs demo_world = Some ''/t''" by (simp add: demo_world_def)
  have "\<exists>r. safeRelPath (entry_name ?e) = Inr r \<and> entry_node ?e \<noteq> None \<and> map_of demo_after (''/t'' @ slash # r) = entry_node ?e"
    using importTar_exact [OF abs demo_target _ run] by simp
  then show ?thesis using run by (simp add: demo_names demo_entry_def entry_node_def is_file_entry_def)
qed

text \<open>The entries a tar writer can represent and its reader gives back.\<close>

definition tar_writable :: "tar_entry \<Rightarrow> bool" where
  "tar_writable e \<longleftrightarrow> plain_entry e \<and> th_Size (te_Header e) = length (te_Data e) \<and> th_ModTime (te_Header e) = FixedModTime \<and>
      (th_Mode (te_Header e) = 420 \<or> th_Mode (te_Header e) = 493)"

text \<open>A tree whose files an import accepts: names it leaves alone, no two that could be one file, and within the limits.\<close>

definition importable :: "(nat \<Rightarrow> nat) \<Rightarrow> entry \<Rightarrow> bool" where
  "importable lo t \<longleftrightarrow>
     list_all (\<lambda>(r, e). safeRelPath r = Inr r \<and>
       (case e of RegularFile b \<Rightarrow> int (length b) \<le> maxImportEntrySize | _ \<Rightarrow> False)) (leaves t) \<and>
     distinct (map (collisionKey lo) (map fst (leaves t))) \<and>
     length (leaves t) \<le> maxImportEntries \<and> tree_bytes t \<le> maxImportTotalSize"

lemma exportTar_Some:
  assumes "exportTar frame w xbit t old = (None, bytes, tmp)"
  obtains xs es where "collectExportEntries xbit t = Inr xs" "export_loop w 0 xs = Inr es" "bytes = Some (frame es)" "\<not> tmp"
  using assms by (auto simp: exportTar_def export_write_def split: sum.splits if_splits)

lemma exported_writable:
  assumes "wf_tree t" "is_dir t" "collectExportEntries xbit t = Inr xs" "export_loop w 0 xs = Inr es" "importable lo t"
  shows "list_all tar_writable es"
  unfolding list_all_iff
proof
  fix e
  assume e: "e \<in> set es"
  note ex = exported_entries [OF assms(1-4)]
  have te: "th_Typeflag (te_Header e) = TypeReg" "te_Error e = None" "th_Size (te_Header e) = length (te_Data e)"
    "th_ModTime (te_Header e) = FixedModTime" "th_Mode (te_Header e) = 420 \<or> th_Mode (te_Header e) = 493"
    using ex(4,5) e by auto
  then have "entry_node e = Some (NFile (te_Data e) (th_Mode (te_Header e) AND 73 \<noteq> 0))"
    by (simp add: entry_node_def is_file_entry_def)
  then have "(entry_name e, RegularFile (te_Data e)) \<in> set (leaves t)" using ex(1) e by blast
  then show "tar_writable e" using assms(5) te by (fastforce simp: tar_writable_def plain_entry_def importable_def list_all_iff)
qed

text \<open>
  C21. Exporting a bundle and importing the archive gives the bundle back. When the tree holds only what an import
  accepts, the tar and zstd codecs read back the entries they wrote, and no call of the operating system fails, the
  import succeeds and the files below the target are exactly the files of the tree, with their bytes and their
  executable bits.
\<close>

theorem export_import_roundtrip:
  assumes tree: "wf_tree t" "is_dir t" "importable lo t"
    and export: "exportTar frame xw xbit t old = (None, Some bytes, tmp)"
    and codec: "\<And>es. list_all tar_writable es \<Longrightarrow> unframe (frame es) = SourceEntries es None"
    and world: "quiet_import w" "iw_abs w = Some dir" "target_dir dir"
    and fresh: "\<And>q. map_of d (dir @ slash # q) = None"
      "\<And>p b x. p \<in> set (prefixes_from [] dir) \<Longrightarrow> map_of d p \<noteq> Some (NFile b x)"
  shows "\<exists>d'. importTar lo w (unframe bytes) d = (None, d') \<and>
    (\<forall>r b x. safe_rel_path r \<longrightarrow>
      (map_of d' (dir @ slash # r) = Some (NFile b x) \<longleftrightarrow> (r, RegularFile b) \<in> set (leaves t) \<and> x = xbit r))"
proof -
  obtain xs es where xs: "collectExportEntries xbit t = Inr xs" "export_loop xw 0 xs = Inr es" "bytes = frame es"
    using export by (metis exportTar_Some option.inject)
  note ex = exported_entries [OF tree(1,2) xs(1,2)]
  have wr: "list_all tar_writable es" by (rule exported_writable [OF tree(1,2) xs(1,2) tree(3)])
  then have plain: "list_all plain_entry es" by (auto simp: list_all_iff tar_writable_def)
  have src: "unframe bytes = SourceEntries es None" using codec [OF wr] xs(3) by simp
  have "fst (os_MkdirAll None dir d)" using mkdirs_ok fresh(2) by (auto simp: os_MkdirAll_def)
  then obtain d1 where d1: "os_MkdirAll (iw_root w) dir d = (True, d1)"
    using world(1) by (cases "os_MkdirAll None dir d") (auto simp: quiet_import_def)
  have empty: "map_of d1 (dir @ slash # q) = None" for q
  proof -
    have "dir @ slash # q \<notin> set (prefixes_from [] dir)" using prefixes_length [of "dir @ slash # q" "[]" dir] by auto
    then show ?thesis using MkdirAll_changes [OF d1, of "dir @ slash # q"] fresh(1) [of q] by (metis option.distinct(1))
  qed
  let ?st = "\<lparr>im_remaining = maxImportTotalSize, im_seen = [], im_disk = d1\<rparr>"
  have keys: "distinct (map (\<lambda>e. collisionKey lo (entry_name e)) es)"
  proof -
    have "mset (map (collisionKey lo) (map entry_name es)) = mset (map (collisionKey lo) (map fst (leaves t)))"
      using ex(6) by (metis mset_map)
    then show ?thesis using tree(3) mset_eq_imp_distinct_iff by (fastforce simp: importable_def comp_def)
  qed
  have "\<exists>st'. import_loop lo w dir 0 es None ?st = (None, st')"
  proof (rule import_loop_accepts [OF world(1,3), where R = "{}"])
    show "ready dir (im_disk ?st)" using MkdirAll_done [OF d1] by (simp add: ready_def)
    show "holds_only dir {} (im_disk ?st)" by (simp add: holds_only_def empty)
    show "no_overlap ({} \<union> entry_name ` set es)" using leaves_no_overlap [OF tree(1)] ex(2) by simp
  qed (use plain keys tree(3) ex(3,7) in \<open>auto simp: importable_def\<close>)
  then obtain st where st: "import_loop lo w dir 0 es None ?st = (None, st)" by blast
  then have run: "importTar lo w (unframe bytes) d = (None, im_disk st)" using src world(2) d1 by (simp add: importTar_def)
  have same: "map_of (im_disk st) (dir @ slash # r) = Some (NFile b x) \<longleftrightarrow>
      (\<exists>e \<in> set es. entry_name e = r \<and> entry_node e = Some (NFile b x))" if "safe_rel_path r" for r b x
  proof -
    have nm: "safeRelPath (entry_name e) = Inr (entry_name e)" if "e \<in> set es" for e
      using plain that by (auto simp: list_all_iff plain_entry_def)
    have fs: "files_seen lo dir ?st" by (simp add: files_seen_def empty)
    note exact = import_loop_exact [OF world(3) fs _ st]
    have into: "map_of (im_disk st) (dir @ slash # entry_name e) = entry_node e" if "e \<in> set es" for e
      using exact total_ge nm [OF that] that by auto
    have none_else: "\<exists>e \<in> set es. entry_name e = r \<and> entry_node e = Some (NFile b x)"
      if "map_of (im_disk st) (dir @ slash # r) = Some (NFile b x)"
      using exact total_ge nm that \<open>safe_rel_path r\<close> by (auto simp: empty)
    show ?thesis
    proof
      assume "\<exists>e \<in> set es. entry_name e = r \<and> entry_node e = Some (NFile b x)"
      then show "map_of (im_disk st) (dir @ slash # r) = Some (NFile b x)" using into by auto
    qed (rule none_else)
  qed
  show ?thesis using run by (intro exI conjI allI impI) (assumption, simp only: same ex(1))
qed

text \<open>A small codec for the witness: names and contents with their length in unary, then the executable bit.\<close>

definition enc_str :: "string \<Rightarrow> string" where
  "enc_str s = replicate (length s) (CHR 0x01) @ CHR 0x00 # s"

definition enc_entry :: "tar_entry \<Rightarrow> string" where
  "enc_entry e = enc_str (entry_name e) @ enc_str (te_Data e) @ [if th_Mode (te_Header e) = 493 then CHR 0x01 else CHR 0x00]"

definition dec_str :: "string \<Rightarrow> string \<times> string" where
  "dec_str s = (let n = length (takeWhile (\<lambda>c. c = CHR 0x01) s); r = drop (Suc n) s in (take n r, drop n r))"

fun dec_entries :: "nat \<Rightarrow> string \<Rightarrow> tar_entry list" where
  "dec_entries 0 s = []"
| "dec_entries (Suc k) s =
     (if s = [] then []
      else case dec_str s of (name, s1) \<Rightarrow>
        (case dec_str s1 of (b, s2) \<Rightarrow>
          \<lparr>te_Header = \<lparr>th_Typeflag = TypeReg, th_Name = name, th_Size = length b,
             th_Mode = (if hd s2 = CHR 0x01 then 493 else 420), th_ModTime = FixedModTime\<rparr>,
           te_Data = b, te_Error = None\<rparr> # dec_entries k (tl s2)))"

definition demo_frame :: "tar_entry list \<Rightarrow> string" where
  "demo_frame es = concat (map enc_entry es)"

definition demo_unframe :: "string \<Rightarrow> tar_source" where
  "demo_unframe s = SourceEntries (dec_entries (length s) s) None"

lemma dec_enc: "dec_str (enc_str s @ z) = (s, z)"
  by (simp add: dec_str_def enc_str_def takeWhile_append)

lemma dec_entries_frame:
  "list_all tar_writable es \<Longrightarrow> length (demo_frame es) \<le> k \<Longrightarrow> dec_entries k (demo_frame es) = es"
proof (induction es arbitrary: k)
  case Nil
  then show ?case by (cases k) (simp_all add: demo_frame_def)
next
  case (Cons e es)
  have w: "tar_writable e" "list_all tar_writable es" using Cons.prems(1) by auto
  have len: "Suc (length (demo_frame es)) \<le> k" using Cons.prems(2) by (simp add: demo_frame_def enc_entry_def)
  then obtain j where j: "k = Suc j" "length (demo_frame es) \<le> j" by (cases k) auto
  have ne: "enc_entry e @ z \<noteq> []" for z by (simp add: enc_entry_def)
  have "dec_entries k (enc_entry e @ demo_frame es) = e # dec_entries j (demo_frame es)"
    using w(1) ne by (auto simp: j(1) enc_entry_def dec_enc tar_writable_def plain_entry_def)
  then show ?case using Cons.IH [OF w(2) j(2)] by (simp add: demo_frame_def)
qed

lemma demo_codec: "list_all tar_writable es \<Longrightarrow> demo_unframe (demo_frame es) = SourceEntries es None"
  using dec_entries_frame by (simp add: demo_unframe_def)

definition demo_tree :: entry where
  "demo_tree = Dir None [(''repo'', Dir None [(''a'', RegularFile ''x'')])]"

definition demo_export :: export_world where
  "demo_export = \<lparr>ew_mkdir = False, ew_temp = False, ew_zstd = False, ew_cancelled = (\<lambda>_. False), ew_header = (\<lambda>_. False),
     ew_copy = (\<lambda>_. False), ew_closeTar = False, ew_closeZstd = False, ew_sync = False, ew_close = False, ew_rename = False,
     ew_remove = False\<rparr>"

lemma demo_leaves: "leaves demo_tree = [(''repo/a'', RegularFile ''x'')]"
  by code_simp

lemma demo_repo_a: "safeRelPath ''repo/a'' = Inr ''repo/a''" "safe_rel_path ''repo/a''"
  by code_simp+

lemma demo_collected: "collectExportEntries (\<lambda>_. True) demo_tree =
    Inr [\<lparr>ee_relPath = ''repo/a'', ee_node = RegularFile ''x'', ee_size = 1, ee_exec = True\<rparr>]"
  by code_simp

theorem export_import_roundtrip_witness:
  "\<exists>d'. importTar id demo_world (demo_unframe (the (fst (snd (exportTar demo_frame demo_export (\<lambda>_. True) demo_tree None))))) [] = (None, d') \<and>
     map_of d' (''/t'' @ slash # ''repo/a'') = Some (NFile ''x'' True)"
proof -
  have tree: "wf_tree demo_tree" "is_dir demo_tree" by code_simp+
  have imp: "importable id demo_tree"
    by (simp add: importable_def demo_leaves tree_bytes_def demo_repo_a maxImportEntrySize_def maxImportEntries_def maxImportTotalSize_def)
  obtain bytes where ex: "exportTar demo_frame demo_export (\<lambda>_. True) demo_tree None = (None, Some bytes, False)"
    using demo_collected by (auto simp: exportTar_def export_write_def demo_export_def)
  have "\<exists>d'. importTar id demo_world (demo_unframe bytes) [] = (None, d') \<and>
    (\<forall>r b x. safe_rel_path r \<longrightarrow>
      (map_of d' (''/t'' @ slash # r) = Some (NFile b x) \<longleftrightarrow> (r, RegularFile b) \<in> set (leaves demo_tree) \<and> x = True))"
    by (rule export_import_roundtrip [OF tree imp ex demo_codec _ _ demo_target])
      (simp_all add: quiet_import_def demo_world_def)
  then show ?thesis using demo_repo_a(2) by (auto simp: ex demo_leaves)
qed

text \<open>
  Exports are deterministic: two exports that succeed, of trees with the same files and executable bits, write
  the same bytes, whatever was at the target before, in whatever order the directories list their entries and
  whatever the operating system did meanwhile.
\<close>

theorem exportTar_deterministic:
  assumes "wf_tree t" "is_dir t" "wf_tree t'" "is_dir t'"
    and "set (leaves t) = set (leaves t')" "\<And>r. r \<in> fst ` set (leaves t) \<Longrightarrow> xbit r = xbit' r"
    and "exportTar frame w xbit t old = (None, a, tmp)" "exportTar frame w' xbit' t' old' = (None, b, tmp')"
  shows "a = b"
proof -
  obtain xs es where xs: "collectExportEntries xbit t = Inr xs" "export_loop w 0 xs = Inr es" "a = Some (frame es)"
    using assms(7) by (rule exportTar_Some)
  obtain ys fs where ys: "collectExportEntries xbit' t' = Inr ys" "export_loop w' 0 ys = Inr fs" "b = Some (frame fs)"
    using assms(8) by (rule exportTar_Some)
  have map_eq: "map (collected_entry xbit) (leaves t) = map (collected_entry xbit') (leaves t)"
    using assms(6) by (auto simp: collected_entry_def)
  have "set xs = set ys"
    using collected_leaves(1) [OF assms(1,2) xs(1)] collected_leaves(1) [OF assms(3,4) ys(1)] assms(5) map_eq
    by (metis image_set mset_eq_setD)
  moreover note xs' = collected_leaves(2,3) [OF assms(1,2) xs(1)]
  moreover note ys' = collected_leaves(2,3) [OF assms(3,4) ys(1)]
  moreover have "inj_on ee_relPath (set xs \<union> set ys)" using xs'(2) calculation(1) by (simp add: distinct_map)
  ultimately have "xs = ys" by (meson map_sorted_distinct_set_unique)
  then show ?thesis using export_loop_entries [OF xs(2)] export_loop_entries [OF ys(2)] xs(3) ys(3) by simp
qed

theorem exportTar_deterministic_witness:
  "fst (snd (exportTar demo_frame demo_export (\<lambda>_. True) demo_tree None)) =
   fst (snd (exportTar demo_frame demo_export (\<lambda>r. r = ''repo/a'') (Dir None [(''empty'', Dir None []), (''repo'', Dir None [(''a'', RegularFile ''x'')])]) (Some ''stale'')))"
proof -
  let ?t = "Dir None [(''empty'', Dir None []), (''repo'', Dir None [(''a'', RegularFile ''x'')])]"
  have t: "wf_tree ?t" "is_dir ?t" "leaves ?t = [(''repo/a'', RegularFile ''x'')]" "wf_tree demo_tree" "is_dir demo_tree"
    by code_simp+
  have c: "collectExportEntries (\<lambda>r. r = ''repo/a'') ?t =
      Inr [\<lparr>ee_relPath = ''repo/a'', ee_node = RegularFile ''x'', ee_size = 1, ee_exec = True\<rparr>]"
    by code_simp
  obtain a where a: "exportTar demo_frame demo_export (\<lambda>_. True) demo_tree None = (None, a, False)"
    using demo_collected by (auto simp: exportTar_def export_write_def demo_export_def)
  obtain b where b: "exportTar demo_frame demo_export (\<lambda>r. r = ''repo/a'') ?t (Some ''stale'') = (None, b, False)"
    using c by (auto simp: exportTar_def export_write_def demo_export_def)
  have "a = b"
    by (rule exportTar_deterministic [OF t(4,5,1,2) _ _ a b]) (simp_all add: demo_leaves t(3))
  then show ?thesis using a b by simp
qed

text \<open>
  An export publishes all or nothing: unless it succeeds, the bytes at the target are the ones that were there
  before, and a temporary file stays behind only if removing it fails too; when it succeeds, nothing but the whole
  archive is there.
\<close>

theorem exportTar_atomic:
  assumes "exportTar frame w xbit t old = (err, bytes, tmp)"
  shows "(err \<noteq> None \<longrightarrow> bytes = old) \<and> (tmp \<longrightarrow> err \<noteq> None \<and> ew_remove w) \<and>
    (err = None \<longrightarrow> (\<exists>xs. collectExportEntries xbit t = Inr xs \<and> bytes = Some (frame (map tar_entry_of xs))))"
  using assms export_loop_entries
  by (fastforce simp: exportTar_def export_write_def split: sum.splits if_splits)

theorem exportTar_atomic_witness:
  "fst (snd (exportTar demo_frame (demo_export\<lparr>ew_sync := True\<rparr>) (\<lambda>_. True) demo_tree (Some ''old''))) = Some ''old''"
proof -
  obtain bytes tmp where e: "exportTar demo_frame (demo_export\<lparr>ew_sync := True\<rparr>) (\<lambda>_. True) demo_tree (Some ''old'') = (Some ExpSync, bytes, tmp)"
    using demo_collected by (auto simp: exportTar_def export_write_def demo_export_def)
  then show ?thesis using exportTar_atomic [OF e] by simp
qed

text \<open>
  Two entries of which one is a file and the other lies below it have different keys, so neither the traversal nor the
  duplicate check stops them; the import fails at the operating system and reports the class Environment.
\<close>

lemma file_above_file_is_environment:
  "importTar id demo_world (SourceEntries [demo_entry ''a'' TypeReg ''x'', demo_entry ''a/b'' TypeReg ''y''] None) []
     = (Some (ImpWrite ''a/b'' ExMkdir), [(''/t'', NDir), (''/t/a'', NFile ''x'' False)])
   \<and> import_class (ImpWrite ''a/b'' ExMkdir) = Some Environment"
proof -
  have names: "safeRelPath ''a'' = Inr ''a''" "safeRelPath ''a/b'' = Inr ''a/b''"
    "collisionKey id ''a'' = ''a''" "collisionKey id ''a/b'' = ''a/b''" "import_dest ''/t'' ''a'' = ''/t/a''"
    "import_dest ''/t'' ''a/b'' = ''/t/a/b''" "filepath_Dir ''/t/a'' = ''/t''" "filepath_Dir ''/t/a/b'' = ''/t/a''"
    "prefixes_from [] ''/t/a'' = [''/t'', ''/t/a'']"
    by code_simp+
  show ?thesis by (simp add: demo_world_def demo_entry_def demo_names names import_eval Let_def)
qed

end
