(* ===== verification/Repository.thy ===== *)
theory Repository
  imports Go_Sort Go_Path Go_Text Digest "HOL-Library.Product_Lexorder"
begin

text \<open>
  \<^verbatim>\<open>src/core/repository\<close>: where a package lies in the pool, and the writer of the index files \<^verbatim>\<open>Packages\<close>,
  \<^verbatim>\<open>Packages.gz\<close> and \<^verbatim>\<open>Release\<close> that the target's apt reads. The \<^verbatim>\<open>.deb\<close> reader (\<^verbatim>\<open>pault.ag/go/debian/deb\<close>) is the
  parameter \<open>load\<close>, a function from the bytes of a file to its control paragraph, and \<^verbatim>\<open>compress/gzip\<close> is the
  parameter \<open>gz\<close>. What apt sees in these files is stated with a reader of the deb822 format of the theory's own.
\<close>

section \<open>The pool\<close>

definition isLowerAlnum :: "char \<Rightarrow> bool" where
  "isLowerAlnum c \<longleftrightarrow> is_lower_byte c \<or> is_digit_byte c"

definition ValidPackageName :: "string \<Rightarrow> bool" where
  "ValidPackageName s \<longleftrightarrow>
     s \<noteq> '''' \<and> length s \<le> 255 \<and> isLowerAlnum (hd s) \<and>
     list_all (\<lambda>c. isLowerAlnum c \<or> c = CHR ''+'' \<or> c = CHR ''-'' \<or> c = CHR ''.'') s"

definition has_suffix :: "string \<Rightarrow> string \<Rightarrow> bool" where
  "has_suffix s t \<longleftrightarrow> has_prefix (rev s) (rev t)"

definition ValidFilename :: "string \<Rightarrow> bool" where
  "ValidFilename s \<longleftrightarrow>
     s \<noteq> '''' \<and> length s \<le> 255 \<and> \<not> (s = ''.'' \<or> s = ''..'' \<or> hd s = CHR ''.'') \<and> has_suffix s ''.deb'' \<and>
     list_all (\<lambda>c. \<not> (c = slash \<or> c = CHR 0x5C \<or> c = CHR '':'' \<or> is_control_byte c)) s"

definition poolPrefix :: "string \<Rightarrow> string" where
  "poolPrefix pkg =
     (if length pkg \<ge> 4 \<and> take 3 pkg = ''lib'' then take 4 pkg
      else if pkg = '''' then ''_''
      else take 1 pkg)"

definition PoolPath :: "string \<Rightarrow> string \<Rightarrow> path" where
  "PoolPath pkg filename =
     (if \<not> ValidPackageName pkg \<or> \<not> ValidFilename filename then ''''
      else ''pool/'' @ poolPrefix pkg @ ''/'' @ pkg @ ''/'' @ filename)"

section \<open>Errors\<close>

datatype path_fault =
  PathTooLong | PathNotUTF8 | PathBackslash | PathControl char | PathAbsolute | PathDrive | PathNotClean path | PathEscapes

datatype repo_error =
    RepoNoDir | RepoCancelled | RepoEmptyPath | RepoPath path path_fault | RepoLoad path | RepoNoPackage path
  | RepoHash path | RepoFieldName path string | RepoFieldTwice path string | RepoFieldByte path string char nat
  | RepoWrite string | RepoGzip | ReleaseName string | ReleaseBlank string string | ReleaseByte string char nat

section \<open>Checks\<close>

text \<open>The first byte of a kind, and where it is.\<close>

fun find_byte :: "(char \<Rightarrow> bool) \<Rightarrow> nat \<Rightarrow> string \<Rightarrow> (char \<times> nat) option" where
  "find_byte P i [] = None"
| "find_byte P i (c # s) = (if P c then Some (c, i) else find_byte P (Suc i) s)"

definition isASCIIAlnum :: "char \<Rightarrow> bool" where
  "isASCIIAlnum c \<longleftrightarrow> is_lower_byte c \<or> is_upper_byte c \<or> is_digit_byte c"

definition validFieldName :: "string \<Rightarrow> bool" where
  "validFieldName s \<longleftrightarrow>
     s \<noteq> '''' \<and> length s \<le> 255 \<and> isASCIIAlnum (hd s) \<and> list_all (\<lambda>c. isASCIIAlnum c \<or> c = CHR ''-'') (tl s)"

definition aptOwnsField :: "string \<Rightarrow> bool" where
  "aptOwnsField lower \<longleftrightarrow> lower \<in> set [''filename'', ''size'', ''md5sum'', ''sha1'', ''sha256'', ''sha512'']"

definition checkFieldValue :: "path \<Rightarrow> string \<Rightarrow> string \<Rightarrow> repo_error option" where
  "checkFieldValue poolPath key v =
     (case find_byte (\<lambda>c. c \<noteq> newline \<and> c \<noteq> CHR 0x09 \<and> is_control_byte c) 0 v of
        None \<Rightarrow> None
      | Some (c, i) \<Rightarrow> Some (RepoFieldByte poolPath key c i))"

definition checkPoolPath :: "path \<Rightarrow> repo_error option" where
  "checkPoolPath p =
     (if length p > 4096 then Some (RepoPath p PathTooLong)
      else if \<not> utf8_ValidString p then Some (RepoPath p PathNotUTF8)
      else case find_byte (\<lambda>c. c = CHR 0x5C \<or> is_control_byte c) 0 p of
        Some (c, _) \<Rightarrow> Some (RepoPath p (if c = CHR 0x5C then PathBackslash else PathControl c))
      | None \<Rightarrow>
          if has_prefix p ''/'' then Some (RepoPath p PathAbsolute)
          else if length p \<ge> 2 \<and> p ! 1 = CHR '':'' then Some (RepoPath p PathDrive)
          else if path_Clean p \<noteq> p then Some (RepoPath p (PathNotClean (path_Clean p)))
          else if p = ''.'' \<or> p = ''..'' \<or> has_prefix p ''../'' then Some (RepoPath p PathEscapes)
          else None)"

definition checkReleaseField :: "string \<Rightarrow> string \<Rightarrow> repo_error option" where
  "checkReleaseField key v =
     (if \<not> validFieldName key then Some (ReleaseName key)
      else if has_prefix v '' '' \<or> has_prefix v [CHR 0x09] then Some (ReleaseBlank key v)
      else case find_byte is_control_byte 0 v of
        None \<Rightarrow> None
      | Some (c, i) \<Rightarrow> Some (ReleaseByte key c i))"

section \<open>Stanzas\<close>

text \<open>
  A control paragraph: the order of its fields and their values. The code keeps the fields of a stanza as an order
  and a map from the names in it to values; the model keeps the list of pairs.
\<close>

record control_para =
  cp_Order :: "string list"
  cp_Values :: "(string \<times> string) list"

type_synonym field_list = "(string \<times> string) list"

definition para_value :: "control_para \<Rightarrow> string \<Rightarrow> string" where
  "para_value p k = (case map_of (cp_Values p) k of None \<Rightarrow> '''' | Some v \<Rightarrow> v)"

text \<open>The local function \<^verbatim>\<open>keep\<close>; its state is \<^verbatim>\<open>seen\<close> and the fields kept so far.\<close>

definition keep_field ::
    "path \<Rightarrow> control_para \<Rightarrow> string \<Rightarrow> string list \<times> field_list \<Rightarrow> repo_error + string list \<times> field_list" where
  "keep_field poolPath para key st =
     (case st of (seen, out) \<Rightarrow>
        if \<not> validFieldName key then Inl (RepoFieldName poolPath key)
        else
          let lower = to_lower key
          in if lower \<in> set seen then Inl (RepoFieldTwice poolPath key)
             else if aptOwnsField lower then Inr (lower # seen, out)
             else case checkFieldValue poolPath key (para_value para key) of
               Some err \<Rightarrow> Inl err
             | None \<Rightarrow> Inr (lower # seen, out @ [(key, para_value para key)]))"

fun keep_fields ::
    "path \<Rightarrow> control_para \<Rightarrow> string list \<Rightarrow> string list \<times> field_list \<Rightarrow> repo_error + string list \<times> field_list" where
  "keep_fields poolPath para [] st = Inr st"
| "keep_fields poolPath para (k # ks) st =
     (case keep_field poolPath para k st of
        Inl err \<Rightarrow> Inl err
      | Inr st' \<Rightarrow> keep_fields poolPath para ks st')"

text \<open>\<^verbatim>\<open>Package\<close> is hoisted, once; its other occurrences are skipped.\<close>

definition controlFields :: "path \<Rightarrow> control_para \<Rightarrow> repo_error + field_list" where
  "controlFields poolPath para =
     (let order = cp_Order para
      in case keep_fields poolPath para
             ((if ''Package'' \<in> set order then [''Package''] else []) @ filter (\<lambda>k. k \<noteq> ''Package'') order) ([], []) of
        Inl err \<Rightarrow> Inl err
      | Inr (_, out) \<Rightarrow> Inr out)"

text \<open>\<^verbatim>\<open>strings.Split(strings.TrimSuffix(value, "\n"), "\n")\<close>.\<close>

definition trim_newline :: "string \<Rightarrow> string" where
  "trim_newline v = (if v \<noteq> [] \<and> last v = newline then butlast v else v)"

definition value_lines :: "string \<Rightarrow> string list" where
  "value_lines v = split_on newline (trim_newline v)"

definition cont_line :: "string \<Rightarrow> string" where
  "cont_line line = CHR '' '' # (if line = '''' then ''.'' else line)"

definition writeControlField :: "string \<times> string \<Rightarrow> string" where
  "writeControlField kv =
     (let lines = value_lines (snd kv)
      in fst kv @ '': '' @ hd lines @ [newline] @ concat (map (\<lambda>l. cont_line l @ [newline]) (tl lines)))"

definition renderStanza :: "field_list \<Rightarrow> string" where
  "renderStanza fs = concat (map writeControlField fs)"

section \<open>Digests\<close>

record file_hashes =
  fh_Size :: int
  fh_MD5 :: string
  fh_SHA1 :: string
  fh_SHA256 :: string

record hash_suite =
  hs_MD5 :: hasher
  hs_SHA1 :: hasher
  hs_SHA256 :: hasher

definition zero_hashes :: file_hashes where
  "zero_hashes = \<lparr>fh_Size = 0, fh_MD5 = '''', fh_SHA1 = '''', fh_SHA256 = ''''\<rparr>"

definition AllReader :: "hash_suite \<Rightarrow> string \<Rightarrow> file_hashes" where
  "AllReader hs b = \<lparr>fh_Size = int (length b), fh_MD5 = hs_MD5 hs b, fh_SHA1 = hs_SHA1 hs b, fh_SHA256 = hs_SHA256 hs b\<rparr>"

section \<open>Reading the pool\<close>

record pool_file =
  pf_Path :: path
  pf_Hashes :: file_hashes

record release_fields =
  rf_Origin :: string
  rf_Label :: string
  rf_Suite :: string
  rf_Codename :: string
  rf_Architectures :: "string list"
  rf_Components :: "string list"
  rf_Description :: string
  rf_Date :: string
  rf_NotAutomatic :: bool
  rf_ButAutomaticUpgrades :: bool
  rf_ExtraFields :: field_list

record repo_input =
  ri_Dir :: path
  ri_Files :: "pool_file list"
  ri_Release :: release_fields
  ri_Compress :: bool

record stanza =
  sz_name :: string
  sz_arch :: string
  sz_version :: string
  sz_text :: string
  sz_hashes :: file_hashes

text \<open>What the operating system does: when the context is cancelled, which files cannot be hashed, and which
  index files cannot be written, and after how many bytes (\<^const>\<open>None\<close>: the file cannot be opened).\<close>

record repo_world =
  rw_cancelled :: "nat \<Rightarrow> bool"
  rw_hash :: "path \<Rightarrow> bool"
  rw_write :: "path \<Rightarrow> nat option option"

type_synonym files = "path \<rightharpoonup> string"
type_synonym deb_loader = "string \<Rightarrow> control_para option"

definition stanza_less :: "stanza \<Rightarrow> stanza \<Rightarrow> bool" where
  "stanza_less s t =
     (if sz_name s \<noteq> sz_name t then sz_name s < sz_name t
      else if sz_arch s \<noteq> sz_arch t then sz_arch s < sz_arch t
      else sz_version s < sz_version t)"

definition own_fields :: "path \<Rightarrow> file_hashes \<Rightarrow> field_list" where
  "own_fields p h =
     [(''Filename'', p), (''Size'', format_int (fh_Size h)), (''MD5sum'', fh_MD5 h), (''SHA1'', fh_SHA1 h), (''SHA256'', fh_SHA256 h)]"

definition readStanza :: "repo_world \<Rightarrow> hash_suite \<Rightarrow> deb_loader \<Rightarrow> files \<Rightarrow> path \<Rightarrow> pool_file \<Rightarrow> repo_error + stanza" where
  "readStanza w hs load fs dir pf =
     (if pf_Path pf = '''' then Inl RepoEmptyPath
      else case checkPoolPath (pf_Path pf) of
        Some err \<Rightarrow> Inl err
      | None \<Rightarrow>
          let full = filepath_Join [dir, pf_Path pf]
          in case Option.bind (fs full) load of
               None \<Rightarrow> Inl (RepoLoad (pf_Path pf))
             | Some para \<Rightarrow>
                 if para_value para ''Package'' = '''' then Inl (RepoNoPackage (pf_Path pf))
                 else if pf_Hashes pf = zero_hashes \<and> rw_hash w full then Inl (RepoHash (pf_Path pf))
                 else
                   let hashes = (if pf_Hashes pf = zero_hashes then AllReader hs (the (fs full)) else pf_Hashes pf)
                   in case controlFields (pf_Path pf) para of
                        Inl err \<Rightarrow> Inl err
                      | Inr out \<Rightarrow>
                          Inr \<lparr>sz_name = para_value para ''Package'', sz_arch = para_value para ''Architecture'',
                            sz_version = para_value para ''Version'',
                            sz_text = renderStanza (out @ own_fields (pf_Path pf) hashes), sz_hashes = hashes\<rparr>)"

fun read_stanzas ::
    "repo_world \<Rightarrow> hash_suite \<Rightarrow> deb_loader \<Rightarrow> files \<Rightarrow> path \<Rightarrow> nat \<Rightarrow> pool_file list \<Rightarrow> repo_error + stanza list" where
  "read_stanzas w hs load fs dir i [] = Inr []"
| "read_stanzas w hs load fs dir i (pf # pfs) =
     (if rw_cancelled w i then Inl RepoCancelled
      else case readStanza w hs load fs dir pf of
        Inl err \<Rightarrow> Inl err
      | Inr st \<Rightarrow>
          (case read_stanzas w hs load fs dir (Suc i) pfs of
             Inl err \<Rightarrow> Inl err
           | Inr sts \<Rightarrow> Inr (st # sts)))"

section \<open>Release\<close>

definition release_list :: "release_fields \<Rightarrow> field_list" where
  "release_list f =
     [(''Origin'', rf_Origin f), (''Label'', rf_Label f), (''Suite'', rf_Suite f), (''Codename'', rf_Codename f)] @
     (if rf_Architectures f \<noteq> [] then [(''Architectures'', join_with '' '' (rf_Architectures f))] else []) @
     (if rf_Components f \<noteq> [] then [(''Components'', join_with '' '' (rf_Components f))] else []) @
     [(''Date'', rf_Date f), (''Description'', rf_Description f)] @
     (if rf_NotAutomatic f then [(''NotAutomatic'', ''yes'')] else []) @
     (if rf_ButAutomaticUpgrades f then [(''ButAutomaticUpgrades'', ''yes'')] else []) @
     sort_key fst (rf_ExtraFields f)"

text \<open>Empty values are left out; the first refused field is the error.\<close>

definition written_fields :: "release_fields \<Rightarrow> field_list" where
  "written_fields f = filter (\<lambda>kv. snd kv \<noteq> '''') (release_list f)"

definition hash_block :: "string \<Rightarrow> (file_hashes \<Rightarrow> string) \<Rightarrow> (string \<times> file_hashes) list \<Rightarrow> string" where
  "hash_block name sel es =
     name @ '':'' @ [newline] @
     concat (map (\<lambda>(p, h). '' '' @ sel h @ '' '' @ format_int (fh_Size h) @ '' '' @ p @ [newline]) es)"

definition hashed_files :: "file_hashes \<Rightarrow> file_hashes \<Rightarrow> bool \<Rightarrow> (string \<times> file_hashes) list" where
  "hashed_files pkgHashes gzHashes compress =
     (''Packages'', pkgHashes) # (if compress then [(''Packages.gz'', gzHashes)] else [])"

definition renderRelease :: "release_fields \<Rightarrow> file_hashes \<Rightarrow> file_hashes \<Rightarrow> bool \<Rightarrow> repo_error + string" where
  "renderRelease f pkgHashes gzHashes compress =
     (case first_error (\<lambda>(k, v). checkReleaseField k v) (written_fields f) of
        Some err \<Rightarrow> Inl err
      | None \<Rightarrow>
          let es = hashed_files pkgHashes gzHashes compress
          in Inr (concat (map (\<lambda>(k, v). k @ '': '' @ v @ [newline]) (written_fields f)) @
               hash_block ''MD5Sum'' fh_MD5 es @ hash_block ''SHA1'' fh_SHA1 es @ hash_block ''SHA256'' fh_SHA256 es))"

section \<open>Write\<close>

record repo_result =
  rr_PackagesPath :: string
  rr_PackagesGzPath :: string
  rr_ReleasePath :: string
  rr_PackagesSHA256 :: string
  rr_PackagesGzSHA256 :: string
  rr_ReleaseSHA256 :: string
  rr_PackageCount :: nat
  rr_PoolBytes :: int

definition os_WriteFile :: "repo_world \<Rightarrow> path \<Rightarrow> string \<Rightarrow> files \<Rightarrow> bool \<times> files" where
  "os_WriteFile w p b fs =
     (case rw_write w p of
        None \<Rightarrow> (True, fs(p \<mapsto> b))
      | Some None \<Rightarrow> (False, fs)
      | Some (Some k) \<Rightarrow> (False, fs(p \<mapsto> take k b)))"

definition pool_bytes :: "stanza list \<Rightarrow> int" where
  "pool_bytes sts = foldl (\<lambda>n st. wrap64 (n + fh_Size (sz_hashes st))) 0 sts"

definition packages_text :: "stanza list \<Rightarrow> string" where
  "packages_text sts = join_with [newline] (map sz_text (slice_stable stanza_less sts))"

text \<open>The tail of \<^verbatim>\<open>Write\<close>: the Release file.\<close>

definition write_release ::
    "repo_world \<Rightarrow> hash_suite \<Rightarrow> repo_input \<Rightarrow> file_hashes \<Rightarrow> file_hashes \<Rightarrow> repo_result \<Rightarrow> files
      \<Rightarrow> (repo_error + repo_result) \<times> files" where
  "write_release w hs inp pkgHashes gzHashes res fs =
     (case renderRelease (ri_Release inp) pkgHashes gzHashes (ri_Compress inp) of
        Inl err \<Rightarrow> (Inl err, fs)
      | Inr release \<Rightarrow>
          (case os_WriteFile w (filepath_Join [ri_Dir inp, ''Release'']) release fs of
             (False, fs1) \<Rightarrow> (Inl (RepoWrite ''Release''), fs1)
           | (True, fs1) \<Rightarrow>
               (Inr (res\<lparr>rr_ReleasePath := ''Release'', rr_ReleaseSHA256 := hs_SHA256 hs release\<rparr>), fs1)))"

definition repo_Write ::
    "repo_world \<Rightarrow> hash_suite \<Rightarrow> deb_loader \<Rightarrow> (string \<Rightarrow> string option) \<Rightarrow> repo_input \<Rightarrow> files
      \<Rightarrow> (repo_error + repo_result) \<times> files" where
  "repo_Write w hs load gz inp fs =
     (if ri_Dir inp = '''' then (Inl RepoNoDir, fs)
      else case read_stanzas w hs load fs (ri_Dir inp) 0 (ri_Files inp) of
        Inl err \<Rightarrow> (Inl err, fs)
      | Inr sts \<Rightarrow>
          let packages = packages_text sts
          in case os_WriteFile w (filepath_Join [ri_Dir inp, ''Packages'']) packages fs of
               (False, fs1) \<Rightarrow> (Inl (RepoWrite ''Packages''), fs1)
             | (True, fs1) \<Rightarrow>
                 let pkgHashes = AllReader hs packages;
                     res = \<lparr>rr_PackagesPath = ''Packages'', rr_PackagesGzPath = '''', rr_ReleasePath = '''',
                       rr_PackagesSHA256 = fh_SHA256 pkgHashes, rr_PackagesGzSHA256 = '''', rr_ReleaseSHA256 = '''',
                       rr_PackageCount = length sts, rr_PoolBytes = pool_bytes sts\<rparr>
                 in if \<not> ri_Compress inp then write_release w hs inp pkgHashes zero_hashes res fs1
                    else case gz packages of
                      None \<Rightarrow> (Inl RepoGzip, fs1)
                    | Some gzb \<Rightarrow>
                        (case os_WriteFile w (filepath_Join [ri_Dir inp, ''Packages.gz'']) gzb fs1 of
                           (False, fs2) \<Rightarrow> (Inl (RepoWrite ''Packages.gz''), fs2)
                         | (True, fs2) \<Rightarrow>
                             let gzHashes = AllReader hs gzb
                             in write_release w hs inp pkgHashes gzHashes
                                  (res\<lparr>rr_PackagesGzPath := ''Packages.gz'', rr_PackagesGzSHA256 := fh_SHA256 gzHashes\<rparr>) fs2))"

section \<open>A reader of deb822 files\<close>

text \<open>
  Lines are grouped into paragraphs by empty lines. A line that starts with a space or a tab continues the field
  above it; any other line starts a field, whose name ends at the colon. A field is its name and the lines of its
  value, each without the one blank that introduces it.
\<close>

definition is_cont :: "string \<Rightarrow> bool" where
  "is_cont l \<longleftrightarrow> l \<noteq> [] \<and> (hd l = CHR '' '' \<or> hd l = CHR 0x09)"

definition first_value :: "string \<Rightarrow> string" where
  "first_value l = (case dropWhile (\<lambda>c. c \<noteq> CHR '':'') l of
     [] \<Rightarrow> [] | _ # v \<Rightarrow> if has_prefix v '' '' then tl v else v)"

function deb822_fields :: "string list \<Rightarrow> (string \<times> string list) list" where
  "deb822_fields [] = []"
| "deb822_fields (l # ls) =
     (takeWhile (\<lambda>c. c \<noteq> CHR '':'') l, first_value l # map tl (takeWhile is_cont ls)) # deb822_fields (dropWhile is_cont ls)"
  by pat_completeness auto

termination
  by (relation "measure length") (auto simp: less_Suc_eq_le length_dropWhile_le)

fun paragraphs_from :: "string list \<Rightarrow> string list \<Rightarrow> string list list" where
  "paragraphs_from acc [] = (if acc = [] then [] else [acc])"
| "paragraphs_from acc (l # ls) =
     (if l = [] then (if acc = [] then [] else [acc]) @ paragraphs_from [] ls else paragraphs_from (acc @ [l]) ls)"

definition deb822 :: "string \<Rightarrow> (string \<times> string list) list list" where
  "deb822 s = map deb822_fields (paragraphs_from [] (split_on newline s))"

section \<open>Lemmas: lines\<close>

abbreviation unlines :: "string list \<Rightarrow> string" where
  "unlines ls \<equiv> concat (map (\<lambda>l. l @ [newline]) ls)"

lemma split_unlines:
  "\<forall>l \<in> set ls. newline \<notin> set l \<Longrightarrow> split_on newline (unlines ls @ s) = ls @ split_on newline s"
proof (induction ls)
  case (Cons l ls)
  then show ?case using split_on_append_sep [of newline l "unlines ls @ s"] by (simp add: split_on_no_occurrence)
qed simp

definition field_lines :: "string \<times> string \<Rightarrow> string list" where
  "field_lines kv = (fst kv @ '': '' @ hd (value_lines (snd kv))) # map cont_line (tl (value_lines (snd kv)))"

lemma writeControlField_lines: "writeControlField kv = unlines (field_lines kv)"
  by (simp add: writeControlField_def field_lines_def Let_def comp_def)

definition stanza_lines :: "field_list \<Rightarrow> string list" where
  "stanza_lines fs = concat (map field_lines fs)"

lemma renderStanza_lines: "renderStanza fs = unlines (stanza_lines fs)"
  by (induction fs) (simp_all add: renderStanza_def stanza_lines_def writeControlField_lines)

lemma field_lines_no_newline:
  assumes "newline \<notin> set (fst kv)" "l \<in> set (field_lines kv)"
  shows "newline \<notin> set l \<and> l \<noteq> []"
proof -
  have "newline \<notin> set x" if "x \<in> set (value_lines (snd kv))" for x
    using that split_on_no_sep by (simp add: value_lines_def)
  moreover have "value_lines (snd kv) \<noteq> []" by (simp add: value_lines_def)
  moreover have "newline \<noteq> CHR '' ''" "newline \<noteq> CHR ''.''" "newline \<noteq> CHR '':''" by (simp_all add: newline_def)
  ultimately show ?thesis
    using assms by (cases "value_lines (snd kv)") (auto simp: field_lines_def cont_line_def split: if_splits)
qed

text \<open>What a reader sees of a value.\<close>

definition read_value :: "string \<Rightarrow> string list" where
  "read_value v = hd (value_lines v) # map (\<lambda>l. if l = '''' then ''.'' else l) (tl (value_lines v))"

definition plain_name :: "string \<Rightarrow> bool" where
  "plain_name k \<longleftrightarrow> k \<noteq> [] \<and> CHR '':'' \<notin> set k \<and> newline \<notin> set k \<and> hd k \<noteq> CHR '' '' \<and> hd k \<noteq> CHR 0x09"

lemma first_value_field: "CHR '':'' \<notin> set k \<Longrightarrow> first_value (k @ '': '' @ x) = x"
proof -
  assume "CHR '':'' \<notin> set k"
  then have "dropWhile (\<lambda>c. c \<noteq> CHR '':'') (k @ '': '' @ x) = '': '' @ x"
    by (induction k) auto
  then show ?thesis by (simp add: first_value_def has_prefix_def)
qed

lemma name_field: "CHR '':'' \<notin> set k \<Longrightarrow> takeWhile (\<lambda>c. c \<noteq> CHR '':'') (k @ '': '' @ x) = k"
  by (induction k) auto

lemma is_cont_cont_line: "is_cont (cont_line l)"
  by (simp add: is_cont_def cont_line_def)

lemma is_cont_name: "plain_name k \<Longrightarrow> \<not> is_cont (k @ x)"
  by (cases k) (auto simp: is_cont_def plain_name_def)

lemma takeWhile_conts:
  assumes "ms = [] \<or> \<not> is_cont (hd ms)"
  shows "takeWhile is_cont (map cont_line ls @ ms) = map cont_line ls" "dropWhile is_cont (map cont_line ls @ ms) = ms"
proof -
  have "takeWhile is_cont ms = []" "dropWhile is_cont ms = ms" using assms by (cases ms; simp)+
  then show "takeWhile is_cont (map cont_line ls @ ms) = map cont_line ls" "dropWhile is_cont (map cont_line ls @ ms) = ms"
    by (induction ls) (simp_all add: is_cont_cont_line)
qed

lemma stanza_lines_head:
  assumes "\<forall>kv \<in> set fs. plain_name (fst kv)"
  shows "stanza_lines fs = [] \<or> \<not> is_cont (hd (stanza_lines fs))"
  using assms is_cont_name by (cases fs) (auto simp: stanza_lines_def field_lines_def)

lemma deb822_stanza:
  "\<forall>kv \<in> set fs. plain_name (fst kv) \<Longrightarrow> deb822_fields (stanza_lines fs) = map (\<lambda>kv. (fst kv, read_value (snd kv))) fs"
proof (induction fs)
  case Nil
  then show ?case by (simp add: stanza_lines_def)
next
  case (Cons kv fs)
  let ?ls = "value_lines (snd kv)"
  have split: "stanza_lines (kv # fs) = (fst kv @ '': '' @ hd ?ls) # map cont_line (tl ?ls) @ stanza_lines fs"
    by (simp add: stanza_lines_def field_lines_def)
  have colon: "CHR '':'' \<notin> set (fst kv)" using Cons.prems by (simp add: plain_name_def)
  have conts: "takeWhile is_cont (map cont_line (tl ?ls) @ stanza_lines fs) = map cont_line (tl ?ls)"
    "dropWhile is_cont (map cont_line (tl ?ls) @ stanza_lines fs) = stanza_lines fs"
    using takeWhile_conts [OF stanza_lines_head] Cons.prems by auto
  have "map tl (map cont_line (tl ?ls)) = map (\<lambda>l. if l = '''' then ''.'' else l) (tl ?ls)"
    by (simp add: cont_line_def)
  then show ?case
    using Cons first_value_field [OF colon] name_field [OF colon] unfolding split deb822_fields.simps conts
    by (simp add: read_value_def)
qed

text \<open>Paragraphs.\<close>

lemma paragraphs_from_lines:
  "\<forall>l \<in> set ls. l \<noteq> [] \<Longrightarrow> paragraphs_from acc (ls @ ms) = paragraphs_from (acc @ ls) ms"
  by (induction ls arbitrary: acc) auto

lemma paragraphs_groups:
  assumes "\<forall>L \<in> set Ls. L \<noteq> [] \<and> (\<forall>l \<in> set L. l \<noteq> [])"
  shows "paragraphs_from [] (concat (map (\<lambda>L. L @ [[]]) Ls)) = Ls"
  using assms by (induction Ls) (auto simp: paragraphs_from_lines)

lemma split_join_unlines:
  assumes "Ls \<noteq> []" "\<forall>L \<in> set Ls. \<forall>l \<in> set L. newline \<notin> set l"
  shows "split_on newline (join_with [newline] (map unlines Ls)) = concat (map (\<lambda>L. L @ [[]]) Ls)"
  using assms
proof (induction Ls)
  case (Cons L Ls)
  show ?case
  proof (cases Ls)
    case Nil
    then show ?thesis using split_unlines [of L "[]"] Cons.prems by simp
  next
    case (Cons M Ms)
    have "split_on newline (unlines L @ newline # join_with [newline] (map unlines Ls))
        = L @ split_on newline (newline # join_with [newline] (map unlines Ls))"
      using Cons.prems(2) by (intro split_unlines) auto
    then show ?thesis using Cons.IH Cons.prems local.Cons by simp
  qed
qed simp

lemma deb822_stanzas:
  assumes "\<forall>fs \<in> set fss. fs \<noteq> [] \<and> (\<forall>kv \<in> set fs. plain_name (fst kv))"
  shows "deb822 (join_with [newline] (map renderStanza fss)) = map (map (\<lambda>kv. (fst kv, read_value (snd kv)))) fss"
proof (cases "fss = []")
  case False
  let ?Ls = "map stanza_lines fss"
  have lines: "newline \<notin> set l \<and> l \<noteq> []" if "fs \<in> set fss" "l \<in> set (stanza_lines fs)" for fs l
    using that assms field_lines_no_newline by (fastforce simp: stanza_lines_def plain_name_def)
  have ne: "stanza_lines fs \<noteq> []" if "fs \<in> set fss" for fs
  proof -
    have "fs \<noteq> []" using that assms by blast
    then show ?thesis by (cases fs) (simp_all add: stanza_lines_def field_lines_def)
  qed
  have render: "map renderStanza fss = map unlines ?Ls" by (simp add: renderStanza_lines)
  have "split_on newline (join_with [newline] (map unlines ?Ls)) = concat (map (\<lambda>L. L @ [[]]) ?Ls)"
    using False lines by (intro split_join_unlines) auto
  moreover have "paragraphs_from [] (concat (map (\<lambda>L. L @ [[]]) ?Ls)) = ?Ls"
    using lines ne by (intro paragraphs_groups) fastforce
  ultimately show ?thesis using assms by (simp add: deb822_def render deb822_stanza)
qed (simp add: deb822_def)

section \<open>Lemmas: fields\<close>

lemma find_byte_None: "find_byte P i s = None \<longleftrightarrow> (\<forall>c \<in> set s. \<not> P c)"
  by (induction s arbitrary: i) auto

lemma alnum_bytes: "isASCIIAlnum c \<Longrightarrow> c \<noteq> CHR '':'' \<and> c \<noteq> newline \<and> c \<noteq> CHR '' '' \<and> c \<noteq> CHR 0x09"
  by (auto simp: isASCIIAlnum_def is_lower_byte_def is_upper_byte_def is_digit_byte_def newline_def)

lemma validFieldName_plain: "validFieldName k \<Longrightarrow> plain_name k"
  using alnum_bytes by (cases k) (fastforce simp: validFieldName_def plain_name_def list_all_iff newline_def)+

text \<open>The names \<^verbatim>\<open>controlFields\<close> goes through, and what it keeps.\<close>

definition hoisted :: "control_para \<Rightarrow> string list" where
  "hoisted para = (if ''Package'' \<in> set (cp_Order para) then [''Package''] else []) @ filter (\<lambda>k. k \<noteq> ''Package'') (cp_Order para)"

definition kept :: "control_para \<Rightarrow> string list \<Rightarrow> field_list" where
  "kept para ks = map (\<lambda>k. (k, para_value para k)) (filter (\<lambda>k. \<not> aptOwnsField (to_lower k)) ks)"

lemma keep_fields_Inr:
  "keep_fields p para ks (seen, out) = Inr (seen', out') \<Longrightarrow> distinct seen \<Longrightarrow>
    out' = out @ kept para ks \<and> seen' = rev (map to_lower ks) @ seen \<and> distinct seen' \<and> list_all validFieldName ks"
proof (induction ks arbitrary: seen out)
  case (Cons k ks)
  have k: "validFieldName k" "to_lower k \<notin> set seen"
    using Cons.prems(1) by (auto simp: keep_field_def Let_def split: if_splits)
  let ?out = "if aptOwnsField (to_lower k) then out else out @ [(k, para_value para k)]"
  have "keep_fields p para ks (to_lower k # seen, ?out) = Inr (seen', out')"
    using Cons.prems(1) by (auto simp: keep_field_def Let_def split: if_splits option.splits)
  moreover have "distinct (to_lower k # seen)" using k(2) Cons.prems(2) by simp
  ultimately have IH: "out' = ?out @ kept para ks \<and> seen' = rev (map to_lower ks) @ to_lower k # seen \<and>
      distinct seen' \<and> list_all validFieldName ks"
    by (rule Cons.IH)
  then have "seen' = rev (map to_lower (k # ks)) @ seen" "out' = out @ kept para (k # ks)" by (simp_all add: kept_def)
  then show ?case using IH k(1) by (metis list.pred_inject(2))
qed (simp add: kept_def)

lemma set_hoisted: "set (hoisted para) = set (cp_Order para)"
  by (auto simp: hoisted_def)

lemma controlFields_Inr:
  assumes "controlFields p para = Inr out"
  shows "out = kept para (hoisted para)" "distinct (map to_lower (hoisted para))" "list_all validFieldName (hoisted para)"
proof -
  obtain seen where "keep_fields p para (hoisted para) ([], []) = Inr (seen, out)"
    using assms by (auto simp: controlFields_def hoisted_def Let_def split: sum.splits)
  note run = keep_fields_Inr [OF this, simplified]
  then show "out = kept para (hoisted para)" "list_all validFieldName (hoisted para)" by auto
  have "distinct (rev (map to_lower (hoisted para)))" using run by metis
  then show "distinct (map to_lower (hoisted para))" by simp
qed

definition own_names :: "string list" where
  "own_names = [''Filename'', ''Size'', ''MD5sum'', ''SHA1'', ''SHA256'']"

lemma own_fields_names: "map fst (own_fields p h) = own_names"
  by (simp add: own_fields_def own_names_def)

lemma own_names_facts:
  "list_all (\<lambda>k. aptOwnsField (to_lower k)) own_names" "distinct (map to_lower own_names)" "list_all plain_name own_names" "distinct own_names"
  by code_simp+

text \<open>Every field of a stanza, and no name twice up to the case of its letters.\<close>

lemma stanza_fields:
  assumes "controlFields p para = Inr out"
  shows "\<forall>kv \<in> set (out @ own_fields p h). plain_name (fst kv)"
    and "distinct (map (\<lambda>kv. to_lower (fst kv)) (out @ own_fields p h))"
proof -
  note cf = controlFields_Inr [OF assms]
  have own: "fst ` set (own_fields p h) = set own_names" by (metis own_fields_names list.set_map)
  have names: "map fst out = filter (\<lambda>k. \<not> aptOwnsField (to_lower k)) (hoisted para)"
    by (simp add: cf(1) kept_def comp_def)
  have "plain_name k" if "k \<in> set (map fst out)" for k
    using that cf(3) validFieldName_plain unfolding names by (auto simp: list_all_iff)
  then show "\<forall>kv \<in> set (out @ own_fields p h). plain_name (fst kv)"
    using own own_names_facts(3) by (auto simp: list_all_iff)
  have "map (\<lambda>kv. to_lower (fst kv)) out = map to_lower (filter (\<lambda>k. \<not> aptOwnsField (to_lower k)) (hoisted para))"
    unfolding names [symmetric] by simp
  moreover have "distinct \<dots>" using cf(2) by (rule distinct_map_filter)
  moreover have "map (\<lambda>kv. to_lower (fst kv)) (own_fields p h) = map to_lower own_names"
    unfolding own_fields_names [symmetric, of p h] by simp
  moreover have "set (map to_lower (filter (\<lambda>k. \<not> aptOwnsField (to_lower k)) (hoisted para))) \<inter> set (map to_lower own_names) = {}"
    using own_names_facts(1) by (auto simp: list_all_iff)
  ultimately show "distinct (map (\<lambda>kv. to_lower (fst kv)) (out @ own_fields p h))"
    using own_names_facts(2) by simp
qed

section \<open>Lemmas: the pool\<close>

lemma checkPoolPath_safe: "checkPoolPath p = None \<Longrightarrow> p \<noteq> '''' \<Longrightarrow> safe_rel_path p"
  by (rule cleaned_relative_safe)
    (auto simp: checkPoolPath_def has_prefix_def neq_Nil_conv split: if_splits option.splits prod.splits)

text \<open>\<^verbatim>\<open>readStanza\<close> refuses the empty path before it checks the others.\<close>

definition check_pool_file :: "path \<Rightarrow> repo_error option" where
  "check_pool_file p = (if p = '''' then Some RepoEmptyPath else checkPoolPath p)"

interpretation pool_gate: path_gate check_pool_file
  by unfold_locales (auto simp: check_pool_file_def checkPoolPath_safe split: if_splits)

lemma checkPoolPath_bytes: "checkPoolPath p = None \<Longrightarrow> c \<in> set p \<Longrightarrow> \<not> is_control_byte c \<and> c \<noteq> CHR 0x5C"
  by (auto simp: checkPoolPath_def find_byte_None split: if_splits option.splits prod.splits)

lemma newline_control: "is_control_byte newline"
  by (simp add: is_control_byte_def newline_def)

text \<open>Values on one line are read back as they are.\<close>

lemma value_lines_single: "newline \<notin> set v \<Longrightarrow> value_lines v = [v]"
  by (cases "v = []") (auto simp: value_lines_def trim_newline_def split_on_no_occurrence dest: last_in_set)

lemma read_value_single: "newline \<notin> set v \<Longrightarrow> read_value v = [v]"
  by (simp add: read_value_def value_lines_single)

lemma itoa_digits: "c \<in> set (itoa n) \<Longrightarrow> is_digit_byte c"
proof (induction n rule: itoa.induct)
  case (1 n)
  have d: "is_digit_byte (char_of (48 + m))" if "m < 10" for m :: nat
    using that by (simp add: is_digit_byte_def)
  show ?case
  proof (cases "n < 10")
    case True
    then show ?thesis using 1(2) d by (simp add: itoa.simps [of n])
  next
    case False
    have "n mod 10 < 10" by simp
    then show ?thesis using False 1 d [of "n mod 10"] by (auto simp: itoa.simps [of n])
  qed
qed

lemma format_int_plain: "newline \<notin> set (format_int n)"
proof -
  have "\<not> is_digit_byte newline" "newline \<noteq> CHR ''-''" by (simp_all add: is_digit_byte_def newline_def)
  then show ?thesis using itoa_digits by (auto simp: format_int_def)
qed

definition hex_fields :: "file_hashes \<Rightarrow> bool" where
  "hex_fields h \<longleftrightarrow> list_all is_hex_byte (fh_MD5 h) \<and> list_all is_hex_byte (fh_SHA1 h) \<and> list_all is_hex_byte (fh_SHA256 h)"

definition hex_suite :: "hash_suite \<Rightarrow> bool" where
  "hex_suite hs \<longleftrightarrow> (\<forall>b. hex_fields (AllReader hs b))"

lemma hex_plain: "list_all is_hex_byte s \<Longrightarrow> newline \<notin> set s"
proof -
  have "\<not> is_hex_byte newline" by code_simp
  then show "list_all is_hex_byte s \<Longrightarrow> newline \<notin> set s" by (auto simp: list_all_iff)
qed

definition file_hashes_of :: "hash_suite \<Rightarrow> pool_file \<Rightarrow> string \<Rightarrow> file_hashes" where
  "file_hashes_of hs pf b = (if pf_Hashes pf = zero_hashes then AllReader hs b else pf_Hashes pf)"

lemma own_fields_read:
  assumes "hex_fields h" "newline \<notin> set p"
  shows "map (\<lambda>kv. (fst kv, read_value (snd kv))) (own_fields p h) = map (\<lambda>kv. (fst kv, [snd kv])) (own_fields p h)"
  using assms format_int_plain by (simp add: own_fields_def read_value_single hex_plain hex_fields_def)

text \<open>
  What the index says about a file of the pool, as a reader sees it: the fields apt takes as facts about the file are
  there once and describe the file that was opened; all other fields are the ones of its control paragraph.
\<close>

definition indexed_as :: "hash_suite \<Rightarrow> deb_loader \<Rightarrow> files \<Rightarrow> path \<Rightarrow> pool_file \<Rightarrow> (string \<times> string list) list \<Rightarrow> bool" where
  "indexed_as hs load fs dir pf flds \<longleftrightarrow>
     (\<exists>b para. fs (filepath_Join [dir, pf_Path pf]) = Some b \<and> load b = Some para \<and>
        distinct (map (\<lambda>f. to_lower (fst f)) flds) \<and>
        set (filter (\<lambda>f. aptOwnsField (to_lower (fst f))) flds) =
          (\<lambda>kv. (fst kv, [snd kv])) ` set (own_fields (pf_Path pf) (file_hashes_of hs pf b)) \<and>
        set (filter (\<lambda>f. \<not> aptOwnsField (to_lower (fst f))) flds) =
          {(k, read_value (para_value para k)) | k. k \<in> set (cp_Order para) \<and> \<not> aptOwnsField (to_lower k)})"

lemma readStanza_Inr:
  assumes "readStanza w hs load fs dir pf = Inr st"
  obtains b para out where "fs (filepath_Join [dir, pf_Path pf]) = Some b" "load b = Some para"
    "controlFields (pf_Path pf) para = Inr out" "sz_text st = renderStanza (out @ own_fields (pf_Path pf) (file_hashes_of hs pf b))"
    "checkPoolPath (pf_Path pf) = None" "pf_Path pf \<noteq> ''''" "sz_hashes st = file_hashes_of hs pf b"
    "sz_name st = para_value para ''Package''" "sz_arch st = para_value para ''Architecture''" "sz_version st = para_value para ''Version''"
  using assms
  by (auto simp: readStanza_def Let_def file_hashes_of_def split: if_splits option.splits bind_splits sum.splits)

definition index_fields :: "hash_suite \<Rightarrow> deb_loader \<Rightarrow> files \<Rightarrow> path \<Rightarrow> pool_file \<Rightarrow> field_list" where
  "index_fields hs load fs dir pf =
     (let b = the (fs (filepath_Join [dir, pf_Path pf])); para = the (load b)
      in kept para (hoisted para) @ own_fields (pf_Path pf) (file_hashes_of hs pf b))"

lemma readStanza_indexed:
  assumes "readStanza w hs load fs dir pf = Inr st" "hex_suite hs" "hex_fields (pf_Hashes pf)"
  defines "flds \<equiv> index_fields hs load fs dir pf"
  shows "sz_text st = renderStanza flds" "flds \<noteq> []" "\<forall>kv \<in> set flds. plain_name (fst kv)"
    "indexed_as hs load fs dir pf (map (\<lambda>kv. (fst kv, read_value (snd kv))) flds)"
proof -
  obtain b para out where r: "fs (filepath_Join [dir, pf_Path pf]) = Some b" "load b = Some para"
    "controlFields (pf_Path pf) para = Inr out" "sz_text st = renderStanza (out @ own_fields (pf_Path pf) (file_hashes_of hs pf b))"
    "checkPoolPath (pf_Path pf) = None"
    using assms(1) by (rule readStanza_Inr)
  let ?h = "file_hashes_of hs pf b"
  let ?own = "own_fields (pf_Path pf) ?h"
  let ?rd = "\<lambda>kv. (fst kv, read_value (snd kv))"
  let ?owns = "\<lambda>f :: string \<times> string list. aptOwnsField (to_lower (fst f))"
  note sf = stanza_fields [OF r(3), of ?h]
  have hex: "hex_fields ?h" using assms(2,3) by (simp add: file_hashes_of_def hex_suite_def)
  have nl: "newline \<notin> set (pf_Path pf)" using checkPoolPath_bytes [OF r(5)] newline_control by blast
  have out: "filter ?owns (map ?rd out) = []" "filter (\<lambda>f. \<not> ?owns f) (map ?rd out) = map ?rd out"
    unfolding controlFields_Inr(1) [OF r(3)] by (auto simp: kept_def filter_empty_conv intro!: filter_True)
  have names: "map fst (map ?rd ?own) = own_names" using own_fields_names by (simp add: comp_def)
  have "list_all ?owns (map ?rd ?own)"
    using own_names_facts(1) unfolding names [symmetric] by (simp add: list_all_iff)
  then have own: "filter ?owns (map ?rd ?own) = map ?rd ?own" "filter (\<lambda>f. \<not> ?owns f) (map ?rd ?own) = []"
    by (auto simp: list_all_iff filter_empty_conv intro!: filter_True)
  have kept: "set (map ?rd out) = {(k, read_value (para_value para k)) | k. k \<in> set (cp_Order para) \<and> \<not> aptOwnsField (to_lower k)}"
    unfolding controlFields_Inr(1) [OF r(3)] by (auto simp: kept_def set_hoisted)
  have "indexed_as hs load fs dir pf (map ?rd (out @ ?own))"
    unfolding indexed_as_def
  proof (intro exI conjI)
    show "distinct (map (\<lambda>f. to_lower (fst f)) (map ?rd (out @ ?own)))" using sf(2) by (simp add: comp_def)
    have "filter ?owns (map ?rd (out @ ?own)) = map (\<lambda>kv. (fst kv, [snd kv])) ?own"
      unfolding map_append filter_append out(1) own(1) append_Nil by (rule own_fields_read [OF hex nl])
    then show "set (filter ?owns (map ?rd (out @ ?own))) = (\<lambda>kv. (fst kv, [snd kv])) ` set ?own"
      by (metis list.set_map)
    show "set (filter (\<lambda>f. \<not> ?owns f) (map ?rd (out @ ?own))) =
        {(k, read_value (para_value para k)) | k. k \<in> set (cp_Order para) \<and> \<not> aptOwnsField (to_lower k)}"
      unfolding map_append filter_append out(2) own(2) using kept by simp
  qed (use r in simp_all)
  moreover have "out @ ?own \<noteq> []" by (simp add: own_fields_def)
  moreover have "flds = out @ ?own" using r(1,2) controlFields_Inr(1) [OF r(3)] by (simp add: flds_def index_fields_def)
  ultimately show "sz_text st = renderStanza flds" "flds \<noteq> []" "\<forall>kv \<in> set flds. plain_name (fst kv)"
    "indexed_as hs load fs dir pf (map (\<lambda>kv. (fst kv, read_value (snd kv))) flds)"
    using r(4) sf(1) by simp_all
qed

lemma read_stanzas_Inr:
  "read_stanzas w hs load fs dir i pfs = Inr sts \<Longrightarrow> list_all2 (\<lambda>pf st. readStanza w hs load fs dir pf = Inr st) pfs sts"
  by (induction pfs arbitrary: i sts) (auto split: if_splits sum.splits)

section \<open>Lemmas: the index files\<close>

definition stanza_key :: "stanza \<Rightarrow> string \<times> string \<times> string" where
  "stanza_key s = (sz_name s, sz_arch s, sz_version s)"

interpretation stanzas: keyed_less stanza_less stanza_key
  by unfold_locales (auto simp: stanza_less_def stanza_key_def less_prod_def')

lemma pool_names: "safe_rel_path ''Packages''" "safe_rel_path ''Packages.gz''" "safe_rel_path ''Release''"
  by code_simp+

lemma index_path:
  assumes "named_dir dir" "safe_rel_path n"
  shows "filepath_Join [dir, n] = path_Clean dir @ slash # n"
proof -
  have "dir \<noteq> ''''" using assms(1) by (simp add: named_dir_def)
  moreover have "n \<noteq> ''''" using assms(2) by (intro notI) (simp add: safe_rel_path_def safe_segment_def)
  ultimately show ?thesis
    using path_Clean_join [OF assms(2)] named_dir_segs [OF assms(1)] by (simp add: filepath_Join_def)
qed

lemmas index_paths = index_path [OF _ pool_names(1)] index_path [OF _ pool_names(2)] index_path [OF _ pool_names(3)]

lemma os_WriteFile_ok: "os_WriteFile w p b fs = (True, fs') \<Longrightarrow> fs' = fs(p \<mapsto> b)"
  by (auto simp: os_WriteFile_def split: option.splits)

lemma write_release_ok:
  assumes "write_release w hs inp ph gh res fs = (Inr res', fs')"
  shows "\<exists>rel. renderRelease (ri_Release inp) ph gh (ri_Compress inp) = Inr rel \<and>
    fs' = fs(filepath_Join [ri_Dir inp, ''Release''] \<mapsto> rel) \<and> res' = res\<lparr>rr_ReleasePath := ''Release'', rr_ReleaseSHA256 := hs_SHA256 hs rel\<rparr>"
proof -
  obtain rel where rel: "renderRelease (ri_Release inp) ph gh (ri_Compress inp) = Inr rel"
    using assms by (cases "renderRelease (ri_Release inp) ph gh (ri_Compress inp)") (simp_all add: write_release_def)
  obtain ok fs1 where wr: "os_WriteFile w (filepath_Join [ri_Dir inp, ''Release'']) rel fs = (ok, fs1)" by (metis surj_pair)
  have ok using assms by (cases ok) (simp_all add: write_release_def rel wr)
  then show ?thesis using assms wr os_WriteFile_ok by (simp add: write_release_def rel)
qed

lemma repo_Write_ok:
  assumes "repo_Write w hs load gz inp fs = (Inr res, fs')" "named_dir (ri_Dir inp)"
  obtains sts rel gzb where
    "read_stanzas w hs load fs (ri_Dir inp) 0 (ri_Files inp) = Inr sts"
    "fs' (filepath_Join [ri_Dir inp, ''Packages'']) = Some (packages_text sts)"
    "fs' (filepath_Join [ri_Dir inp, ''Release'']) = Some rel"
    "renderRelease (ri_Release inp) (AllReader hs (packages_text sts)) (if ri_Compress inp then AllReader hs gzb else zero_hashes)
       (ri_Compress inp) = Inr rel"
    "ri_Compress inp \<longrightarrow> gz (packages_text sts) = Some gzb \<and> fs' (filepath_Join [ri_Dir inp, ''Packages.gz'']) = Some gzb"
    "rr_PackagesSHA256 res = hs_SHA256 hs (packages_text sts)" "rr_ReleaseSHA256 res = hs_SHA256 hs rel"
    "rr_PackageCount res = length sts"
proof -
  let ?p = "\<lambda>n. filepath_Join [ri_Dir inp, n]"
  have ne: "?p ''Packages'' \<noteq> ?p ''Packages.gz''" "?p ''Packages'' \<noteq> ?p ''Release''" "?p ''Packages.gz'' \<noteq> ?p ''Release''"
    using assms(2) by (simp_all add: index_paths)
  obtain sts where sts: "read_stanzas w hs load fs (ri_Dir inp) 0 (ri_Files inp) = Inr sts"
    using assms(1) by (auto simp: repo_Write_def split: if_splits sum.splits)
  obtain fs1 where fs1: "os_WriteFile w (?p ''Packages'') (packages_text sts) fs = (True, fs1)"
    using assms(1) sts by (auto simp: repo_Write_def Let_def split: if_splits prod.splits bool.splits)
  note f1 = os_WriteFile_ok [OF fs1]
  show thesis
  proof (cases "ri_Compress inp")
    case False
    then obtain rel where "renderRelease (ri_Release inp) (AllReader hs (packages_text sts)) zero_hashes (ri_Compress inp) = Inr rel"
      "fs' = fs1(?p ''Release'' \<mapsto> rel)" "rr_PackagesSHA256 res = hs_SHA256 hs (packages_text sts)"
      "rr_ReleaseSHA256 res = hs_SHA256 hs rel" "rr_PackageCount res = length sts"
      using assms(1) sts fs1 by (auto simp: repo_Write_def Let_def AllReader_def split: if_splits dest!: write_release_ok)
    then show thesis using that [OF sts, of rel] False f1 ne by simp
  next
    case True
    then obtain gzb where gzb: "gz (packages_text sts) = Some gzb"
      using assms(1) sts fs1 by (auto simp: repo_Write_def Let_def split: if_splits option.splits)
    obtain fs2 where fs2: "os_WriteFile w (?p ''Packages.gz'') gzb fs1 = (True, fs2)"
      using assms(1) sts fs1 gzb True by (auto simp: repo_Write_def Let_def split: if_splits prod.splits bool.splits)
    note f2 = os_WriteFile_ok [OF fs2]
    obtain rel where "renderRelease (ri_Release inp) (AllReader hs (packages_text sts)) (AllReader hs gzb) (ri_Compress inp) = Inr rel"
      "fs' = fs2(?p ''Release'' \<mapsto> rel)" "rr_PackagesSHA256 res = hs_SHA256 hs (packages_text sts)"
      "rr_ReleaseSHA256 res = hs_SHA256 hs rel" "rr_PackageCount res = length sts"
      using assms(1) sts fs1 fs2 gzb True
      by (auto simp: repo_Write_def Let_def AllReader_def split: if_splits dest!: write_release_ok)
    then show thesis using that [OF sts, of rel gzb] True f1 f2 gzb ne by simp
  qed
qed

text \<open>The Release file, line by line.\<close>

lemma deb822_fields_group:
  assumes "CHR '':'' \<notin> set n" "\<forall>c \<in> set cs. is_cont c" "ms = [] \<or> \<not> is_cont (hd ms)"
  shows "deb822_fields ((n @ '':'' @ v) # cs @ ms) = (n, (if has_prefix v '' '' then tl v else v) # map tl cs) # deb822_fields ms"
proof -
  have "takeWhile (\<lambda>c. c \<noteq> CHR '':'') (n @ '':'' @ v) = n" "dropWhile (\<lambda>c. c \<noteq> CHR '':'') (n @ '':'' @ v) = '':'' @ v"
    using assms(1) by (induction n) auto
  moreover have "takeWhile is_cont ms = []" "dropWhile is_cont ms = ms" using assms(3) by (cases ms; simp)+
  then have "takeWhile is_cont (cs @ ms) = cs" "dropWhile is_cont (cs @ ms) = ms" using assms(2) by (simp_all add: takeWhile_append)
  ultimately show ?thesis by (simp add: first_value_def)
qed

declare deb822_fields.simps [simp del]

definition hash_line :: "(file_hashes \<Rightarrow> string) \<Rightarrow> string \<times> file_hashes \<Rightarrow> string" where
  "hash_line sel e = sel (snd e) @ '' '' @ format_int (fh_Size (snd e)) @ '' '' @ fst e"

definition block_lines :: "string \<Rightarrow> (file_hashes \<Rightarrow> string) \<Rightarrow> (string \<times> file_hashes) list \<Rightarrow> string list" where
  "block_lines name sel es = (name @ '':'' @ []) # map (\<lambda>e. CHR '' '' # hash_line sel e) es"

lemma hash_block_lines: "hash_block name sel es = unlines (block_lines name sel es)"
  unfolding hash_block_def block_lines_def by (induction es) (auto simp: hash_line_def)

lemma deb822_block:
  assumes "CHR '':'' \<notin> set name" "ms = [] \<or> \<not> is_cont (hd ms)"
  shows "deb822_fields (block_lines name sel es @ ms) = (name, '''' # map (hash_line sel) es) # deb822_fields ms"
proof -
  have "deb822_fields ((name @ '':'' @ []) # map (\<lambda>e. CHR '' '' # hash_line sel e) es @ ms) =
      (name, (if has_prefix [] '' '' then tl [] else []) # map tl (map (\<lambda>e. CHR '' '' # hash_line sel e) es)) # deb822_fields ms"
    by (rule deb822_fields_group) (use assms in \<open>auto simp: is_cont_def\<close>)
  then show ?thesis by (simp add: block_lines_def has_prefix_def comp_def)
qed

definition simple_line :: "string \<times> string \<Rightarrow> string" where
  "simple_line kv = fst kv @ '': '' @ snd kv"

lemma deb822_simple:
  assumes "ms = [] \<or> \<not> is_cont (hd ms)"
  shows "\<forall>kv \<in> set fs. plain_name (fst kv) \<Longrightarrow>
    deb822_fields (map simple_line fs @ ms) = map (\<lambda>kv. (fst kv, [snd kv])) fs @ deb822_fields ms"
proof (induction fs)
  case (Cons kv fs)
  have head: "map simple_line fs @ ms = [] \<or> \<not> is_cont (hd (map simple_line fs @ ms))"
    using assms Cons.prems is_cont_name by (cases fs) (auto simp: simple_line_def)
  have "deb822_fields ((fst kv @ '':'' @ ('' '' @ snd kv)) # [] @ map simple_line fs @ ms) =
      (fst kv, (if has_prefix ('' '' @ snd kv) '' '' then tl ('' '' @ snd kv) else '' '' @ snd kv) # map tl []) # deb822_fields (map simple_line fs @ ms)"
    using Cons.prems head by (intro deb822_fields_group) (auto simp: plain_name_def)
  then show ?case using Cons.IH Cons.prems by (simp add: simple_line_def [of kv] has_prefix_def)
qed simp

definition release_lines :: "field_list \<Rightarrow> (string \<times> file_hashes) list \<Rightarrow> string list" where
  "release_lines fs es = map simple_line fs @ block_lines ''MD5Sum'' fh_MD5 es @ block_lines ''SHA1'' fh_SHA1 es @ block_lines ''SHA256'' fh_SHA256 es"

lemma renderRelease_Inr:
  assumes "renderRelease f ph gh c = Inr rel"
  shows "rel = unlines (release_lines (written_fields f) (hashed_files ph gh c))"
    and "\<forall>kv \<in> set (written_fields f). validFieldName (fst kv) \<and> newline \<notin> set (snd kv)"
proof -
  have ok: "first_error (\<lambda>(k, v). checkReleaseField k v) (written_fields f) = None"
    using assms by (auto simp: renderRelease_def split: option.splits)
  have rel: "concat (map (\<lambda>(k, v). k @ '': '' @ v @ [newline]) xs) = unlines (map simple_line xs)" for xs
    by (induction xs) (auto simp: simple_line_def)
  show "rel = unlines (release_lines (written_fields f) (hashed_files ph gh c))"
    using assms ok by (simp add: renderRelease_def Let_def rel [simplified] release_lines_def hash_block_lines)
  have "validFieldName k \<and> newline \<notin> set v" if "checkReleaseField k v = None" for k v
    using that newline_control by (auto simp: checkReleaseField_def find_byte_None split: if_splits option.splits prod.splits)
  then show "\<forall>kv \<in> set (written_fields f). validFieldName (fst kv) \<and> newline \<notin> set (snd kv)"
    using ok by (fastforce simp: first_error_None)
qed

lemma block_names: "CHR '':'' \<notin> set ''MD5Sum''" "CHR '':'' \<notin> set ''SHA1''" "CHR '':'' \<notin> set ''SHA256''"
  "plain_name ''MD5Sum''" "plain_name ''SHA1''" "plain_name ''SHA256''"
  by code_simp+

lemma block_head: "plain_name name \<Longrightarrow> \<not> is_cont (hd (block_lines name sel es @ ms))"
  by (simp add: block_lines_def is_cont_name)

lemma deb822_release:
  assumes "renderRelease f ph gh c = Inr rel" "hex_fields ph" "hex_fields gh"
  defines "es \<equiv> hashed_files ph gh c"
  shows "deb822 rel = [map (\<lambda>kv. (fst kv, [snd kv])) (written_fields f) @
    [(''MD5Sum'', '''' # map (hash_line fh_MD5) es), (''SHA1'', '''' # map (hash_line fh_SHA1) es),
     (''SHA256'', '''' # map (hash_line fh_SHA256) es)]]"
proof -
  let ?L = "release_lines (written_fields f) es"
  note rr = renderRelease_Inr [OF assms(1), folded es_def]
  have plain: "\<forall>kv \<in> set (written_fields f). plain_name (fst kv)" using rr(2) validFieldName_plain by blast
  have es: "newline \<notin> set (hash_line sel e)" if "sel = fh_MD5 \<or> sel = fh_SHA1 \<or> sel = fh_SHA256" "e \<in> set es" for sel e
    using that assms(2,3) format_int_plain hex_plain
    by (auto simp: es_def hashed_files_def hash_line_def hex_fields_def newline_def split: if_splits)
  have nl: "newline \<noteq> CHR '' ''" "newline \<noteq> CHR '':''" "newline \<notin> set ''MD5Sum''" "newline \<notin> set ''SHA1''" "newline \<notin> set ''SHA256''"
    by (simp_all add: newline_def)
  have block: "newline \<notin> set l \<and> l \<noteq> []"
    if "l \<in> set (block_lines n sel es)" "newline \<notin> set n" "sel = fh_MD5 \<or> sel = fh_SHA1 \<or> sel = fh_SHA256" for l n sel
    using that es nl(1,2) by (auto simp: block_lines_def)
  have simple: "newline \<notin> set l \<and> l \<noteq> []" if "l \<in> set (map simple_line (written_fields f))" for l
    using that rr(2) plain nl(1,2) by (fastforce simp: simple_line_def plain_name_def)
  have "newline \<notin> set l \<and> l \<noteq> []" if "l \<in> set ?L" for l
    using that block nl(3-5) simple unfolding release_lines_def set_append by blast
  then have "split_on newline rel = ?L @ [[]]" "\<forall>l \<in> set ?L. l \<noteq> []"
    using split_unlines [of ?L "[]"] rr(1) by auto
  then have "paragraphs_from [] (split_on newline rel) = [?L]"
    using paragraphs_from_lines [of ?L "[]" "[[]]"] by (simp add: release_lines_def block_lines_def)
  moreover have "deb822_fields ?L = map (\<lambda>kv. (fst kv, [snd kv])) (written_fields f) @
    [(''MD5Sum'', '''' # map (hash_line fh_MD5) es), (''SHA1'', '''' # map (hash_line fh_SHA1) es),
     (''SHA256'', '''' # map (hash_line fh_SHA256) es)]"
  proof -
    have b3: "deb822_fields (block_lines ''SHA256'' fh_SHA256 es) = [(''SHA256'', '''' # map (hash_line fh_SHA256) es)]"
      using deb822_block [OF block_names(3), of "[]"] by (simp add: deb822_fields.simps)
    have b2: "deb822_fields (block_lines ''SHA1'' fh_SHA1 es @ block_lines ''SHA256'' fh_SHA256 es) =
        (''SHA1'', '''' # map (hash_line fh_SHA1) es) # deb822_fields (block_lines ''SHA256'' fh_SHA256 es)"
      by (rule deb822_block [OF block_names(2)]) (use block_head [OF block_names(6), of _ _ "[]"] in simp)
    have b1: "deb822_fields (block_lines ''MD5Sum'' fh_MD5 es @ block_lines ''SHA1'' fh_SHA1 es @ block_lines ''SHA256'' fh_SHA256 es) =
        (''MD5Sum'', '''' # map (hash_line fh_MD5) es) # deb822_fields (block_lines ''SHA1'' fh_SHA1 es @ block_lines ''SHA256'' fh_SHA256 es)"
      by (rule deb822_block [OF block_names(1)]) (use block_head [OF block_names(5)] in simp)
    show ?thesis unfolding release_lines_def
      using deb822_simple [OF _ plain] block_head [OF block_names(4)] by (simp only: b1 b2 b3 simp_thms)
  qed
  ultimately show ?thesis by (simp add: deb822_def)
qed

section \<open>Properties\<close>

lemma list_all2_map_eq: "list_all2 P xs ys \<Longrightarrow> (\<And>x y. P x y \<Longrightarrow> f y = g x) \<Longrightarrow> map f ys = map g xs"
  by (induction rule: list_all2_induct) auto

lemma list_all2_pick:
  assumes "list_all2 P xs ys" "x \<in> set xs"
  obtains y where "P x y"
  using assms by (induction arbitrary: thesis rule: list_all2_induct) auto

lemma mset_list_all2_right:
  "list_all2 P xs ys \<Longrightarrow> mset ys' = mset ys \<Longrightarrow> \<exists>xs'. mset xs' = mset xs \<and> list_all2 P xs' ys'"
  using list_all2_reorder_left_invariance [of "\<lambda>y x. P x y" ys xs ys'] by (auto simp: list_all2_conv_all_nth)


text \<open>A repository for the witnesses: one vendor package whose control data tries to state its own digests.\<close>

definition demo_suite :: hash_suite where
  "demo_suite = \<lparr>hs_MD5 = (\<lambda>_. ''aa''), hs_SHA1 = (\<lambda>_. ''bb''), hs_SHA256 = (\<lambda>b. if b = ''deb'' then ''cc'' else ''dd'')\<rparr>"

definition demo_para :: control_para where
  "demo_para = \<lparr>cp_Order = [''Version'', ''sHa512'', ''Package'', ''filename'', ''Description''],
     cp_Values = [(''Package'', ''a''), (''Version'', ''1''), (''sHa512'', ''ff''), (''filename'', ''../x''),
       (''Description'', ''one'' @ [newline, newline] @ ''two'' @ [newline])]\<rparr>"

definition demo_input :: repo_input where
  "demo_input = \<lparr>ri_Dir = ''/r'', ri_Files = [\<lparr>pf_Path = ''pool/a/a/a_1.deb'', pf_Hashes = zero_hashes\<rparr>],
     ri_Release = \<lparr>rf_Origin = ''debark'', rf_Label = '''', rf_Suite = ''bundle'', rf_Codename = '''', rf_Architectures = [''amd64''],
       rf_Components = [], rf_Description = '''', rf_Date = '''', rf_NotAutomatic = False, rf_ButAutomaticUpgrades = False,
       rf_ExtraFields = []\<rparr>, ri_Compress = False\<rparr>"

definition demo_loader :: deb_loader where
  "demo_loader b = (if b = ''deb'' then Some demo_para else None)"

definition demo_repo_world :: repo_world where
  "demo_repo_world = \<lparr>rw_cancelled = (\<lambda>_. False), rw_hash = (\<lambda>_. False), rw_write = (\<lambda>_. None)\<rparr>"

abbreviation demo_write :: "(repo_error + repo_result) \<times> files" where
  "demo_write \<equiv> repo_Write demo_repo_world demo_suite demo_loader Some demo_input [''/r/pool/a/a/a_1.deb'' \<mapsto> ''deb'']"

lemma demo_write_ok: "\<exists>res fs. demo_write = (Inr res, fs)"
proof -
  have "isl (fst demo_write) = False" by code_simp
  then show ?thesis by (cases "fst demo_write") (metis surjective_pairing sum.disc(1))+
qed

lemma demo_suite_hex: "hex_suite demo_suite"
  by (simp add: hex_suite_def hex_fields_def AllReader_def demo_suite_def is_hex_byte_def)

lemma demo_input_facts: "named_dir (ri_Dir demo_input)" "\<forall>pf \<in> set (ri_Files demo_input). hex_fields (pf_Hashes pf)"
  by (code_simp, simp add: demo_input_def zero_hashes_def hex_fields_def)


text \<open>
  C18. The Release file says nothing but the truth. When the writer succeeds, a reader finds one paragraph in it: the
  fields the caller asked for, each on its own line with its own value, and then the three hash blocks, which hold the
  digests and sizes of the very Packages and Packages.gz files on disk. No value can add a field or a block.
\<close>

theorem Release_true:
  assumes "repo_Write w hs load gz inp fs = (Inr res, fs')" "named_dir (ri_Dir inp)" "hex_suite hs"
  shows "\<exists>rel pkgs gzb. fs' (filepath_Join [ri_Dir inp, ''Release'']) = Some rel \<and>
    fs' (filepath_Join [ri_Dir inp, ''Packages'']) = Some pkgs \<and>
    (ri_Compress inp \<longrightarrow> fs' (filepath_Join [ri_Dir inp, ''Packages.gz'']) = Some gzb \<and> gz pkgs = Some gzb) \<and>
    rr_PackagesSHA256 res = hs_SHA256 hs pkgs \<and> rr_ReleaseSHA256 res = hs_SHA256 hs rel \<and>
    (let es = (''Packages'', AllReader hs pkgs) # (if ri_Compress inp then [(''Packages.gz'', AllReader hs gzb)] else [])
     in deb822 rel = [map (\<lambda>kv. (fst kv, [snd kv])) (written_fields (ri_Release inp)) @
          [(''MD5Sum'', '''' # map (hash_line fh_MD5) es), (''SHA1'', '''' # map (hash_line fh_SHA1) es),
           (''SHA256'', '''' # map (hash_line fh_SHA256) es)]])"
proof -
  obtain sts rel gzb where ok:
    "fs' (filepath_Join [ri_Dir inp, ''Packages'']) = Some (packages_text sts)"
    "fs' (filepath_Join [ri_Dir inp, ''Release'']) = Some rel"
    "renderRelease (ri_Release inp) (AllReader hs (packages_text sts)) (if ri_Compress inp then AllReader hs gzb else zero_hashes)
       (ri_Compress inp) = Inr rel"
    "ri_Compress inp \<longrightarrow> gz (packages_text sts) = Some gzb \<and> fs' (filepath_Join [ri_Dir inp, ''Packages.gz'']) = Some gzb"
    "rr_PackagesSHA256 res = hs_SHA256 hs (packages_text sts)" "rr_ReleaseSHA256 res = hs_SHA256 hs rel"
    using assms(1,2) by (rule repo_Write_ok)
  have hex: "hex_fields (AllReader hs (packages_text sts))" "hex_fields (if ri_Compress inp then AllReader hs gzb else zero_hashes)"
    using assms(3) by (simp_all add: hex_suite_def zero_hashes_def hex_fields_def)
  show ?thesis
    using ok deb822_release [OF ok(3) hex]
    by (intro exI [of _ rel] exI [of _ "packages_text sts"] exI [of _ gzb]) (simp add: hashed_files_def Let_def)
qed

theorem Release_true_witness:
  "\<exists>rel pkgs. snd demo_write ''/r/Release'' = Some rel \<and> snd demo_write ''/r/Packages'' = Some pkgs \<and>
    deb822 rel = [[(''Origin'', [''debark'']), (''Suite'', [''bundle'']), (''Architectures'', [''amd64'']),
      (''MD5Sum'', ['''', hash_line fh_MD5 (''Packages'', AllReader demo_suite pkgs)]),
      (''SHA1'', ['''', hash_line fh_SHA1 (''Packages'', AllReader demo_suite pkgs)]),
      (''SHA256'', ['''', hash_line fh_SHA256 (''Packages'', AllReader demo_suite pkgs)])]]"
proof -
  obtain res fs where run: "demo_write = (Inr res, fs)" using demo_write_ok by blast
  have p: "filepath_Join [ri_Dir demo_input, ''Packages''] = ''/r/Packages''" "filepath_Join [ri_Dir demo_input, ''Release''] = ''/r/Release''"
    "written_fields (ri_Release demo_input) = [(''Origin'', ''debark''), (''Suite'', ''bundle''), (''Architectures'', ''amd64'')]"
    "\<not> ri_Compress demo_input"
    by code_simp+
  from Release_true [OF run demo_input_facts(1) demo_suite_hex, unfolded p(1-3)] show ?thesis
    using run p(4) by (auto simp: Let_def)
qed

text \<open>
  An extra field named SHA256 is accepted and comes before the block the writer computes, so a reader finds two.
\<close>

definition forged_release :: release_fields where
  "forged_release = \<lparr>rf_Origin = '''', rf_Label = '''', rf_Suite = '''', rf_Codename = '''', rf_Architectures = [],
     rf_Components = [], rf_Description = '''', rf_Date = '''', rf_NotAutomatic = False, rf_ButAutomaticUpgrades = False,
     rf_ExtraFields = [(''SHA256'', ''00 1 Packages'')]\<rparr>"

lemma extra_field_forges_hashes:
  "\<exists>rel. renderRelease forged_release zero_hashes zero_hashes False = Inr rel \<and>
    map fst (hd (deb822 rel)) = [''SHA256'', ''MD5Sum'', ''SHA1'', ''SHA256'']"
proof -
  have w: "written_fields forged_release = [(''SHA256'', ''00 1 Packages'')]"
    "checkReleaseField ''SHA256'' ''00 1 Packages'' = None"
    by code_simp+
  then obtain rel where "renderRelease forged_release zero_hashes zero_hashes False = Inr rel"
    by (auto simp: renderRelease_def Let_def)
  moreover have "hex_fields zero_hashes" by (simp add: hex_fields_def zero_hashes_def)
  ultimately show ?thesis using deb822_release [of forged_release zero_hashes zero_hashes False rel] w(1) by auto
qed

section \<open>Where a package lies\<close>

lemma package_name_bytes:
  assumes "ValidPackageName pkg" "c \<in> set pkg"
  shows "c \<noteq> slash \<and> c \<noteq> CHR 0x5C \<and> \<not> is_control_byte c \<and> byte c < 128"
proof -
  have "isLowerAlnum c \<or> c = CHR ''+'' \<or> c = CHR ''-'' \<or> c = CHR ''.''"
    using assms by (auto simp: ValidPackageName_def list_all_iff)
  then show ?thesis
    by (auto simp: isLowerAlnum_def is_lower_byte_def is_digit_byte_def is_control_byte_def)
qed

lemma package_name_hd: "ValidPackageName pkg \<Longrightarrow> pkg \<noteq> [] \<and> hd pkg \<noteq> CHR ''.''"
  by (auto simp: ValidPackageName_def isLowerAlnum_def is_lower_byte_def is_digit_byte_def)

lemma poolPrefix_take: "pkg \<noteq> [] \<Longrightarrow> \<exists>n. 0 < n \<and> n \<le> 4 \<and> poolPrefix pkg = take n pkg"
  by (cases "length pkg \<ge> 4 \<and> take 3 pkg = ''lib''") (auto simp: poolPrefix_def)

lemma safe_segment_hd: "s \<noteq> [] \<Longrightarrow> hd s \<noteq> CHR ''.'' \<Longrightarrow> safe_segment s"
  by (auto simp: safe_segment_def)

lemma PoolPath_segments:
  assumes "ValidPackageName pkg" "ValidFilename fn"
  shows "split_on slash (PoolPath pkg fn) = [''pool'', poolPrefix pkg, pkg, fn]"
proof -
  obtain n where n: "poolPrefix pkg = take n pkg" using poolPrefix_take package_name_hd [OF assms(1)] by blast
  have pkg: "slash \<notin> set pkg" using package_name_bytes [OF assms(1)] by blast
  then have "slash \<notin> set (poolPrefix pkg)" unfolding n using in_set_takeD by fast
  moreover have "slash \<notin> set fn" using assms(2) by (auto simp: ValidFilename_def list_all_iff)
  moreover have "PoolPath pkg fn = join_with [slash] [''pool'', poolPrefix pkg, pkg, fn]"
    using assms by (simp add: PoolPath_def)
  ultimately show ?thesis
    using split_on_join [of "[''pool'', poolPrefix pkg, pkg, fn]" slash] pkg by simp
qed

lemma PoolPath_safe:
  assumes "ValidPackageName pkg" "ValidFilename fn"
  shows "safe_rel_path (PoolPath pkg fn)"
proof -
  have pkg: "pkg \<noteq> [] \<and> hd pkg \<noteq> CHR ''.''" by (rule package_name_hd [OF assms(1)])
  then obtain n where "0 < n" "poolPrefix pkg = take n pkg" using poolPrefix_take by blast
  then have "safe_segment (poolPrefix pkg)" using pkg by (intro safe_segment_hd) auto
  moreover have "safe_segment fn" "safe_segment pkg" "safe_segment ''pool''"
    using pkg assms(2) by (auto simp: ValidFilename_def intro!: safe_segment_hd)
  ultimately show ?thesis by (simp add: safe_rel_path_def PoolPath_segments [OF assms])
qed

lemma PoolPath_valid: "PoolPath pkg fn \<noteq> '''' \<longleftrightarrow> ValidPackageName pkg \<and> ValidFilename fn"
  by (simp add: PoolPath_def)

text \<open>
  The place of a package in the pool. Whatever name and file name a package claims, PoolPath is empty or a path of
  four plain segments below pool, which joined to any repository directory stays inside it, and it determines the
  package and the file name; so two selections never share a file unless they agree in both.
\<close>

theorem PoolPath_confines:
  assumes "PoolPath pkg fn \<noteq> ''''" "named_dir dir"
  shows "filepath_Join [dir, PoolPath pkg fn] = path_Clean dir @ ''/pool/'' @ poolPrefix pkg @ ''/'' @ pkg @ ''/'' @ fn \<and>
    safe_rel_path (PoolPath pkg fn) \<and> (PoolPath pkg fn = PoolPath pkg' fn' \<longrightarrow> pkg = pkg' \<and> fn = fn')"
proof -
  have v: "ValidPackageName pkg" "ValidFilename fn" using assms(1) PoolPath_valid by auto
  note safe = PoolPath_safe [OF v]
  have "pkg = pkg' \<and> fn = fn'" if eq: "PoolPath pkg fn = PoolPath pkg' fn'"
  proof -
    have "ValidPackageName pkg'" "ValidFilename fn'" using assms(1) unfolding eq PoolPath_valid by auto
    then have "[''pool'', poolPrefix pkg, pkg, fn] = [''pool'', poolPrefix pkg', pkg', fn']"
      using PoolPath_segments [OF v] PoolPath_segments eq by metis
    then show ?thesis by simp
  qed
  then show ?thesis using index_path [OF assms(2) safe] safe v by (auto simp: PoolPath_def)
qed

theorem PoolPath_confines_witness:
  "filepath_Join [''/b/repo'', PoolPath ''libonig5'' ''libonig5_6.deb''] = ''/b/repo/pool/libo/libonig5/libonig5_6.deb'' \<and>
   PoolPath ''../../etc'' ''x.deb'' = ''''"
proof -
  have h: "PoolPath ''libonig5'' ''libonig5_6.deb'' \<noteq> ''''" "named_dir ''/b/repo''" "path_Clean ''/b/repo'' = ''/b/repo''"
    "poolPrefix ''libonig5'' = ''libo''" "PoolPath ''../../etc'' ''x.deb'' = ''''"
    by code_simp+
  show ?thesis using PoolPath_confines [OF h(1,2)] h(3-5) by simp
qed

text \<open>
  The package index does not depend on the order in which the pool was listed: when no two of its packages agree in
  name, architecture and version, two runs over the same files in any order write the same Packages file.
\<close>

theorem Packages_order_insensitive:
  assumes "repo_Write w hs load gz inp fs = (Inr res, a)" "repo_Write w' hs load gz' inp' fs = (Inr res', b)"
    and "ri_Dir inp' = ri_Dir inp" "named_dir (ri_Dir inp)" "mset (ri_Files inp') = mset (ri_Files inp)"
    and "\<And>pf1 pf2 s1 s2. pf1 \<in> set (ri_Files inp) \<Longrightarrow> pf2 \<in> set (ri_Files inp) \<Longrightarrow>
      readStanza w hs load fs (ri_Dir inp) pf1 = Inr s1 \<Longrightarrow> readStanza w hs load fs (ri_Dir inp) pf2 = Inr s2 \<Longrightarrow>
      stanza_key s1 = stanza_key s2 \<Longrightarrow> s1 = s2"
  shows "a (filepath_Join [ri_Dir inp, ''Packages'']) = b (filepath_Join [ri_Dir inp, ''Packages''])"
proof -
  obtain sts where sts: "read_stanzas w hs load fs (ri_Dir inp) 0 (ri_Files inp) = Inr sts"
    "a (filepath_Join [ri_Dir inp, ''Packages'']) = Some (packages_text sts)" using assms(1,4) by (rule repo_Write_ok)
  have nd: "named_dir (ri_Dir inp')" using assms(3,4) by simp
  obtain sts' where sts': "read_stanzas w' hs load fs (ri_Dir inp') 0 (ri_Files inp') = Inr sts'"
    "b (filepath_Join [ri_Dir inp', ''Packages'']) = Some (packages_text sts')" using assms(2) nd by (rule repo_Write_ok)
  let ?r = "readStanza w hs load fs (ri_Dir inp)"
  have "map Inr sts = map ?r (ri_Files inp)"
    by (rule list_all2_map_eq [OF read_stanzas_Inr [OF sts(1)]]) simp
  moreover have "map Inr sts' = map ?r (ri_Files inp')"
  proof -
    have agree: "?r pf = Inr st" if r': "readStanza w' hs load fs (ri_Dir inp) pf = Inr st" and mem: "pf \<in> set (ri_Files inp)" for pf st
    proof -
      obtain st0 where "?r pf = Inr st0" using read_stanzas_Inr [OF sts(1)] mem by (rule list_all2_pick)
      then show ?thesis using r'
        by (auto simp: readStanza_def Let_def split: if_splits option.splits sum.splits)
    qed
    have "list_all2 (\<lambda>pf st. ?r pf = Inr st) (ri_Files inp') sts'"
      by (rule list.rel_mono_strong [OF read_stanzas_Inr [OF sts'(1)]]) (use agree mset_eq_setD [OF assms(5)] assms(3) in auto)
    then show ?thesis by (rule list_all2_map_eq) simp
  qed
  ultimately have "mset (map Inr sts :: (repo_error + stanza) list) = mset (map Inr sts')"
    using assms(5) by (metis mset_map)
  then have "image_mset projr (mset (map Inr sts :: (repo_error + stanza) list)) = image_mset projr (mset (map Inr sts' :: (repo_error + stanza) list))"
    by simp
  then have m: "mset sts = mset sts'" by (simp add: image_mset.compositionality comp_def)
  have "inj_on stanza_key (set sts)"
  proof (intro inj_onI)
    fix s1 s2
    assume "s1 \<in> set sts" "s2 \<in> set sts" "stanza_key s1 = stanza_key s2"
    moreover have "\<exists>pf \<in> set (ri_Files inp). ?r pf = Inr s" if "s \<in> set sts" for s
      using that \<open>map Inr sts = map ?r (ri_Files inp)\<close> by (metis (no_types, lifting) image_eqI image_iff list.set_map)
    ultimately show "s1 = s2" using assms(6) by blast
  qed
  then have "packages_text sts = packages_text sts'"
    unfolding packages_text_def using stanzas.slice_stable_deterministic [OF m] by simp
  then show ?thesis using sts(2) sts'(2) assms(3) by simp
qed

end
