(* ===== verification/Bundle_Pool.thy ===== *)
theory Bundle_Pool
  imports Repository Resolve Lock Bundle_Tree Dpkg_Version
begin

text \<open>
  The decisions of \<^verbatim>\<open>src/core/bundle\<close> about the pool: which files a pruning run removes (\<^verbatim>\<open>prune.go\<close>), which files
  are on the media without being in the index (\<^verbatim>\<open>unreferenced.go\<close>), and the lock the assembler writes (\<^verbatim>\<open>buildLock\<close>
  of \<^verbatim>\<open>assemble.go\<close>). The version library the pruning uses (\<^verbatim>\<open>pault.ag/go/debian/version\<close>) is a parameter: \<open>parse\<close>
  and \<open>cmp\<close>.
\<close>

section \<open>prune.go\<close>

record pool_entry =
  pe_Name :: string
  pe_Arch :: string
  pe_Version :: string
  pe_Path :: path
  pe_UserSupplied :: bool
  pe_LockReferenced :: bool

type_synonym prune_key = "string \<times> string"

definition pruneKey :: "pool_entry \<Rightarrow> prune_key" where
  "pruneKey f = (pe_Name f, pe_Arch f)"

text \<open>One round of the first loop: \<^verbatim>\<open>best\<close> after the file.\<close>

definition best_step ::
    "(string \<Rightarrow> 'v option) \<Rightarrow> ('v \<Rightarrow> 'v \<Rightarrow> int) \<Rightarrow> (prune_key \<rightharpoonup> 'v) \<Rightarrow> pool_entry \<Rightarrow> (prune_key \<rightharpoonup> 'v)" where
  "best_step parse cmp best f =
     (case parse (pe_Version f) of
        None \<Rightarrow> best
      | Some v \<Rightarrow>
          (case best (pruneKey f) of
             None \<Rightarrow> best(pruneKey f \<mapsto> v)
           | Some cur \<Rightarrow> if cmp v cur > 0 then best(pruneKey f \<mapsto> v) else best))"

definition prune_best ::
    "(string \<Rightarrow> 'v option) \<Rightarrow> ('v \<Rightarrow> 'v \<Rightarrow> int) \<Rightarrow> pool_entry list \<Rightarrow> (prune_key \<rightharpoonup> 'v)" where
  "prune_best parse cmp files = foldl (best_step parse cmp) Map.empty files"

definition prunable ::
    "(string \<Rightarrow> 'v option) \<Rightarrow> ('v \<Rightarrow> 'v \<Rightarrow> int) \<Rightarrow> (prune_key \<rightharpoonup> 'v) \<Rightarrow> pool_entry \<Rightarrow> bool" where
  "prunable parse cmp best f =
     (case parse (pe_Version f) of
        None \<Rightarrow> False
      | Some v \<Rightarrow>
          \<not> (pe_UserSupplied f \<or> pe_LockReferenced f) \<and>
          (case best (pruneKey f) of None \<Rightarrow> False | Some b \<Rightarrow> cmp v b < 0))"

definition pruneDecide ::
    "(string \<Rightarrow> 'v option) \<Rightarrow> ('v \<Rightarrow> 'v \<Rightarrow> int) \<Rightarrow> pool_entry list \<Rightarrow> pool_entry list" where
  "pruneDecide parse cmp files = filter (prunable parse cmp (prune_best parse cmp files)) files"

section \<open>unreferenced.go\<close>

definition maxUnreferencedNamed :: nat where "maxUnreferencedNamed = 5"
definition UnreferencedFile :: string where "UnreferencedFile = ''last-run-unreferenced.txt''"
definition WarnUnreferenced :: string where "WarnUnreferenced = ''pool.unreferenced''"

text \<open>The walk of the pool; \<open>pool\<close> is what is at \<^verbatim>\<open>repo/pool\<close>, paths are relative to \<^verbatim>\<open>repo\<close>.\<close>

fun unreferenced_events :: "path set \<Rightarrow> walk_event list \<Rightarrow> string + path list" where
  "unreferenced_events inIndex [] = Inr []"
| "unreferenced_events inIndex (VisitErr p msg # evs) = Inl msg"
| "unreferenced_events inIndex (Visit p e # evs) =
     (case unreferenced_events inIndex evs of
        Inl msg \<Rightarrow> Inl msg
      | Inr out \<Rightarrow> Inr (if is_dir e \<or> p \<in> inIndex then out else p # out))"

definition unreferencedPoolFiles :: "entry option \<Rightarrow> pool_file list \<Rightarrow> string + path list" where
  "unreferencedPoolFiles pool indexed =
     (case pool of
        None \<Rightarrow> Inr []
      | Some t \<Rightarrow>
          (case unreferenced_events (set (map pf_Path indexed)) (walk ''pool'' t) of
             Inl msg \<Rightarrow> Inl msg
           | Inr out \<Rightarrow> Inr (sort out)))"

text \<open>\<^verbatim>\<open>indexedByDir[d]\<close>.\<close>

definition indexed_by_dir :: "selection list \<Rightarrow> path \<Rightarrow> selection list" where
  "indexed_by_dir selections d =
     filter (\<lambda>sel. PoolPath (sel_Name sel) (sel_Filename sel) \<noteq> '''' \<and>
       filepath_Dir (PoolPath (sel_Name sel) (sel_Filename sel)) = d) selections"

definition unreferenced_part :: "selection list \<Rightarrow> path \<Rightarrow> string" where
  "unreferenced_part selections rel =
     (case indexed_by_dir selections (filepath_Dir rel) of
        [] \<Rightarrow> rel @ '' (Packages indexes no version of this package)''
      | sel # sels \<Rightarrow>
          rel @ '' (Packages indexes '' @ sel_Name sel @ '' '' @
            join_with '', '' (sort (map sel_Version (sel # sels))) @ '')'')"

definition unreferenced_names :: "path list \<Rightarrow> selection list \<Rightarrow> string list" where
  "unreferenced_names unreferenced selections =
     sort (remdups (concat (map (\<lambda>rel. map sel_Name (indexed_by_dir selections (filepath_Dir rel))) unreferenced)))"

definition unreferencedWarning :: "path list \<Rightarrow> selection list \<Rightarrow> lock_warning option" where
  "unreferencedWarning unreferenced selections =
     (if unreferenced = [] then None
      else
        let parts = map (unreferenced_part selections) (take maxUnreferencedNamed unreferenced) @
              (if length unreferenced > maxUnreferencedNamed
               then [''and '' @ itoa (length unreferenced - maxUnreferencedNamed) @ '' more''] else [])
        in Some \<lparr>lw_Code = WarnUnreferenced,
             lw_Message = itoa (length unreferenced) @ '' file(s) in repo/pool are not indexed by repo/Packages: they are on the media and covered by the manifest and its signature, but apt on the target cannot see or install them. '' @
               join_with ''; '' parts @ ''. The complete list is in '' @ UnreferencedFile @ ''.'',
             lw_Packages = unreferenced_names unreferenced selections\<rparr>)"

section \<open>assemble.go: the lock\<close>

definition lock_package_of :: "selection \<Rightarrow> lock_package" where
  "lock_package_of sel =
     \<lparr>pkg_Name = sel_Name sel, pkg_Arch = sel_Arch sel, pkg_Version = sel_Version sel,
      pkg_SourcePackage = sel_SourcePackage sel, pkg_Filename = PoolPath (sel_Name sel) (sel_Filename sel),
      pkg_Size = sel_Size sel, pkg_SHA256 = sel_SHA256 sel, pkg_Origin = sel_Origin sel, pkg_Reason = sel_Reason sel,
      pkg_PublisherVerification = sel_PublisherVerification sel, pkg_Flags = sel_Flags sel, pkg_Essential = sel_Essential sel\<rparr>"

definition package_less :: "lock_package \<Rightarrow> lock_package \<Rightarrow> bool" where
  "package_less a b =
     (if pkg_Name a \<noteq> pkg_Name b then pkg_Name a < pkg_Name b
      else if pkg_Arch a \<noteq> pkg_Arch b then pkg_Arch a < pkg_Arch b
      else pkg_Version a < pkg_Version b)"

text \<open>
  \<^verbatim>\<open>extra\<close> holds the warnings only assembly can know about, \<^const>\<open>None\<close> for one that is not raised. The order of packages
  that agree in name, architecture and version is not fixed by \<^verbatim>\<open>sort.Slice\<close>; the model keeps the order they came in.
\<close>

definition buildLock ::
    "lock_doc \<Rightarrow> selection list \<Rightarrow> string list \<Rightarrow> lock_stats \<Rightarrow> lock_warning option list \<Rightarrow> lock_doc" where
  "buildLock tmpl selections planInstall stats extra =
     tmpl\<lparr>lk_Warnings := lk_Warnings tmpl @ List.map_filter (\<lambda>w. w) extra,
       lk_Packages := slice_stable package_less (map lock_package_of selections),
       lk_Install := sort planInstall, lk_Stats := stats\<rparr>"

text \<open>\<^verbatim>\<open>writeLines\<close>: the bytes of the file.\<close>

definition lines_file :: "string list \<Rightarrow> string" where
  "lines_file ls = concat (map (\<lambda>l. l @ [newline]) (sort ls))"

text \<open>\<^verbatim>\<open>plausibleArch\<close>. The loop goes through runes; one that is not ASCII is refused as its bytes are.\<close>

definition plausibleArch :: "string \<Rightarrow> bool" where
  "plausibleArch a \<longleftrightarrow>
     a \<noteq> '''' \<and> length a \<le> 32 \<and> is_lower_byte (hd a) \<and>
     list_all (\<lambda>c. is_lower_byte c \<or> is_digit_byte c \<or> c = CHR ''-'') (tl a)"

section \<open>Pruning\<close>

text \<open>What pruning relies on: the comparison of versions is a total preorder.\<close>

locale version_order =
  fixes cmp :: "'v \<Rightarrow> 'v \<Rightarrow> int" and ok :: "'v \<Rightarrow> bool"
  assumes swap: "ok x \<Longrightarrow> ok y \<Longrightarrow> cmp y x > 0 \<longleftrightarrow> cmp x y < 0"
    and trans: "ok x \<Longrightarrow> ok y \<Longrightarrow> ok z \<Longrightarrow> cmp x y \<le> 0 \<Longrightarrow> cmp y z \<le> 0 \<Longrightarrow> cmp x z \<le> 0"
begin

lemma less_trans: "ok x \<Longrightarrow> ok y \<Longrightarrow> ok z \<Longrightarrow> cmp x y < 0 \<Longrightarrow> cmp y z \<le> 0 \<Longrightarrow> cmp x z < 0"
  using swap trans by (metis dual_order.strict_iff_not linorder_not_le)

lemma refl: "ok x \<Longrightarrow> cmp x x = 0"
  using swap [of x x] by linarith

text \<open>The versions of a group, and its best.\<close>

definition versions :: "(string \<Rightarrow> 'v option) \<Rightarrow> pool_entry list \<Rightarrow> prune_key \<Rightarrow> 'v set" where
  "versions parse files k = {v. \<exists>f \<in> set files. pruneKey f = k \<and> parse (pe_Version f) = Some v}"

lemma prune_best_snoc: "prune_best parse cmp (fs @ [f]) = best_step parse cmp (prune_best parse cmp fs) f"
  by (simp add: prune_best_def)

lemma versions_snoc:
  "versions parse (fs @ [f]) k =
     (case parse (pe_Version f) of Some v \<Rightarrow> if pruneKey f = k then insert v (versions parse fs k) else versions parse fs k
      | None \<Rightarrow> versions parse fs k)"
  by (auto simp: versions_def split: option.splits)

lemma prune_best_max:
  assumes "\<forall>s v. parse s = Some v \<longrightarrow> ok v"
  shows "case prune_best parse cmp fs k of
      None \<Rightarrow> versions parse fs k = {}
    | Some b \<Rightarrow> b \<in> versions parse fs k \<and> (\<forall>v \<in> versions parse fs k. cmp v b \<le> 0)"
proof (induction fs rule: rev_induct)
  case Nil
  then show ?case by (simp add: prune_best_def versions_def)
next
  case (snoc f fs)
  have oks: "ok v" if "v \<in> versions parse fs k" for v using that assms by (auto simp: versions_def)
  show ?case
  proof (cases "parse (pe_Version f)")
    case None
    then show ?thesis using snoc by (auto simp: prune_best_snoc versions_snoc best_step_def split: option.splits)
  next
    case (Some v)
    have v: "ok v" using assms Some by blast
    show ?thesis
    proof (cases "pruneKey f = k")
      case False
      then show ?thesis using snoc Some
        by (auto simp: prune_best_snoc versions_snoc best_step_def split: option.splits)
    next
      case True
      show ?thesis
      proof (cases "prune_best parse cmp fs k")
        case None
        then show ?thesis using snoc Some True refl [OF v] by (simp add: prune_best_snoc versions_snoc best_step_def)
      next
        case (Some b)
        have b: "b \<in> versions parse fs k" "\<forall>u \<in> versions parse fs k. cmp u b \<le> 0" using snoc Some by auto
        have "cmp b v \<le> 0" if "cmp v b > 0" using that swap [OF oks [OF b(1)] v] by linarith
        then have "\<forall>u \<in> versions parse fs k. cmp u v \<le> 0" if "cmp v b > 0"
          using that b trans oks v by blast
        then show ?thesis using b Some True \<open>parse (pe_Version f) = Some v\<close> refl [OF v]
          by (auto simp: prune_best_snoc versions_snoc best_step_def not_less)
      qed
    qed
  qed
qed

lemma prunable_iff:
  assumes "\<forall>s v. parse s = Some v \<longrightarrow> ok v" "f \<in> set fs"
  shows "prunable parse cmp (prune_best parse cmp fs) f \<longleftrightarrow>
    \<not> pe_UserSupplied f \<and> \<not> pe_LockReferenced f \<and>
    (\<exists>v g u. parse (pe_Version f) = Some v \<and> g \<in> set fs \<and> pruneKey g = pruneKey f \<and> parse (pe_Version g) = Some u \<and> cmp v u < 0)"
proof (cases "parse (pe_Version f)")
  case (Some v)
  have v: "ok v" "v \<in> versions parse fs (pruneKey f)" using assms Some by (auto simp: versions_def)
  then obtain b where b: "prune_best parse cmp fs (pruneKey f) = Some b" "b \<in> versions parse fs (pruneKey f)"
    "\<forall>u \<in> versions parse fs (pruneKey f). cmp u b \<le> 0"
    using prune_best_max [OF assms(1), of fs "pruneKey f"] by (auto split: option.splits)
  have "cmp v b < 0 \<longleftrightarrow> (\<exists>u \<in> versions parse fs (pruneKey f). cmp v u < 0)"
    using b v assms(1) less_trans by (auto simp: versions_def) blast
  then show ?thesis using Some b(1) by (auto simp: prunable_def versions_def)
qed (simp add: prunable_def)

lemma group_survivor:
  assumes "\<forall>s v. parse s = Some v \<longrightarrow> ok v" "f \<in> set fs" "parse (pe_Version f) = Some v"
  shows "\<exists>g \<in> set fs. pruneKey g = pruneKey f \<and> \<not> prunable parse cmp (prune_best parse cmp fs) g \<and>
    (\<exists>u. parse (pe_Version g) = Some u \<and> cmp v u \<le> 0)"
proof -
  have v: "v \<in> versions parse fs (pruneKey f)" using assms by (auto simp: versions_def)
  then obtain b where b: "prune_best parse cmp fs (pruneKey f) = Some b" "b \<in> versions parse fs (pruneKey f)"
    "\<forall>u \<in> versions parse fs (pruneKey f). cmp u b \<le> 0"
    using prune_best_max [OF assms(1), of fs "pruneKey f"] by (auto split: option.splits)
  then obtain g where "g \<in> set fs" "pruneKey g = pruneKey f" "parse (pe_Version g) = Some b" by (auto simp: versions_def)
  moreover have "ok b" using calculation(3) assms(1) by blast
  ultimately show ?thesis using b v refl by (intro bexI [of _ g]) (auto simp: prunable_def)
qed

end

text \<open>The comparison of \<^verbatim>\<open>core/apt\<close> meets the contract on every version without a NUL byte.\<close>

interpretation dpkg: version_order compareVersionsFallback nul_free
proof
  show "compareVersionsFallback y x > 0 \<longleftrightarrow> compareVersionsFallback x y < 0" if "nul_free x" "nul_free y" for x y
    using fallback.cmp_antisym [OF that] by (auto simp: sgn_if split: if_splits)
  show "compareVersionsFallback x z \<le> 0"
    if "nul_free x" "nul_free y" "nul_free z" "compareVersionsFallback x y \<le> 0" "compareVersionsFallback y z \<le> 0" for x y z
    using fallback.cmp_trans that by blast
qed

text \<open>
  C37. Pruning removes exactly what is superseded. A file is removed if and only if it was neither supplied by the
  operator nor named by the plan, its version parses, and some file of the same package and architecture has a strictly
  higher version; the order of the pool does not matter. So a version that does not parse is never removed and never
  decides anything, and every package and architecture keeps a file at least as new as each of its files.
\<close>

theorem pruneDecide_exact:
  assumes "version_order cmp (\<lambda>v. \<exists>s. parse s = Some v)"
  shows "set (pruneDecide parse cmp fs) =
      {f \<in> set fs. \<not> pe_UserSupplied f \<and> \<not> pe_LockReferenced f \<and>
        (\<exists>v g u. parse (pe_Version f) = Some v \<and> g \<in> set fs \<and> pruneKey g = pruneKey f \<and> parse (pe_Version g) = Some u \<and> cmp v u < 0)} \<and>
    (\<forall>f v. f \<in> set fs \<and> parse (pe_Version f) = Some v \<longrightarrow>
      (\<exists>g u. g \<in> set fs \<and> g \<notin> set (pruneDecide parse cmp fs) \<and> pruneKey g = pruneKey f \<and> parse (pe_Version g) = Some u \<and> cmp v u \<le> 0))"
proof -
  have ok: "\<forall>s v. parse s = Some v \<longrightarrow> (\<exists>s. parse s = Some v)" by blast
  note iff = version_order.prunable_iff [OF assms ok] and survivor = version_order.group_survivor [OF assms ok]
  have set: "set (pruneDecide parse cmp fs) = {f \<in> set fs. prunable parse cmp (prune_best parse cmp fs) f}"
    by (auto simp: pruneDecide_def)
  have "\<exists>g u. g \<in> set fs \<and> g \<notin> set (pruneDecide parse cmp fs) \<and> pruneKey g = pruneKey f \<and> parse (pe_Version g) = Some u \<and> cmp v u \<le> 0"
    if "f \<in> set fs" "parse (pe_Version f) = Some v" for f v
    using survivor [OF that] unfolding set by blast
  moreover have "{f \<in> set fs. prunable parse cmp (prune_best parse cmp fs) f} =
      {f \<in> set fs. \<not> pe_UserSupplied f \<and> \<not> pe_LockReferenced f \<and>
        (\<exists>v g u. parse (pe_Version f) = Some v \<and> g \<in> set fs \<and> pruneKey g = pruneKey f \<and> parse (pe_Version g) = Some u \<and> cmp v u < 0)}"
    by (intro Collect_cong conj_cong refl iff)
  ultimately show ?thesis unfolding set by simp
qed

definition demo_deb :: "string \<Rightarrow> bool \<Rightarrow> pool_entry" where
  "demo_deb v locked = \<lparr>pe_Name = ''a'', pe_Arch = ''amd64'', pe_Version = v, pe_Path = ''pool/a/a/a_'' @ v @ ''.deb'',
     pe_UserSupplied = False, pe_LockReferenced = locked\<rparr>"

definition demo_parse :: "string \<Rightarrow> string option" where
  "demo_parse s = (if nul_free s then Some s else None)"

theorem pruneDecide_exact_witness:
  "demo_deb ''1.0~rc1'' False \<in> set (pruneDecide demo_parse compareVersionsFallback
     [demo_deb ''1.0~rc1'' False, demo_deb ''1.0'' False, demo_deb ''0.9'' True])"
proof -
  have o: "version_order compareVersionsFallback (\<lambda>v. \<exists>s. demo_parse s = Some v)"
  proof -
    have nf: "nul_free v" if "\<exists>s. demo_parse s = Some v" for v using that by (auto simp: demo_parse_def split: if_splits)
    show ?thesis by (rule version_order.intro) (rule dpkg.swap [OF nf nf], assumption+, rule dpkg.trans [OF nf nf nf], assumption+)
  qed
  have p: "demo_parse ''1.0~rc1'' = Some ''1.0~rc1''" "demo_parse ''1.0'' = Some ''1.0''"
    by (simp_all add: demo_parse_def nul_free_def)
  have c: "compareVersionsFallback ''1.0~rc1'' ''1.0'' < 0" by code_simp
  let ?fs = "[demo_deb ''1.0~rc1'' False, demo_deb ''1.0'' False, demo_deb ''0.9'' True]" and ?f = "demo_deb ''1.0~rc1'' False"
  have "\<exists>v g u. demo_parse (pe_Version ?f) = Some v \<and> g \<in> set ?fs \<and> pruneKey g = pruneKey ?f \<and>
      demo_parse (pe_Version g) = Some u \<and> compareVersionsFallback v u < 0"
    by (intro exI [of _ "''1.0~rc1''"] exI [of _ "demo_deb ''1.0'' False"] exI [of _ "''1.0''"])
      (use p c in \<open>simp add: demo_deb_def pruneKey_def\<close>)
  moreover have "?f \<in> set ?fs" "\<not> pe_UserSupplied ?f" "\<not> pe_LockReferenced ?f" by (simp_all add: demo_deb_def)
  ultimately show ?thesis unfolding conjunct1 [OF pruneDecide_exact [OF o, of ?fs]] mem_Collect_eq by (intro conjI)
qed

section \<open>What crosses the gap\<close>

lemma unreferenced_events_Inr:
  assumes "unreferenced_events idx evs = Inr out"
  shows "out = filter (\<lambda>p. p \<notin> idx) (map fst (concat (map event_leaf evs)))" "VisitErr p msg \<notin> set evs"
  using assms by (induction idx evs arbitrary: out rule: unreferenced_events.induct) (auto split: sum.splits if_splits)

lemma unreferenced_events_total: "\<forall>p msg. VisitErr p msg \<notin> set evs \<Longrightarrow> \<exists>out. unreferenced_events idx evs = Inr out"
  by (induction idx evs rule: unreferenced_events.induct) auto

lemma pool_good: "good_names [''pool'']" "names_path [''pool''] = ''pool''"
  by code_simp+

lemma pool_leaves:
  assumes "wf_tree t"
  shows "p \<in> fst ` set (concat (map event_leaf (walk ''pool'' t))) \<longleftrightarrow>
    (\<exists>ns e. p = names_path (''pool'' # ns) \<and> tree_lookup t ns = Some e \<and> \<not> is_dir e)"
proof -
  have "p \<in> fst ` set (concat (map event_leaf (walk ''pool'' t))) \<longleftrightarrow> (\<exists>e. Visit p e \<in> set (walk ''pool'' t) \<and> \<not> is_dir e)"
    using leaves_walk [of p _ "walk ''pool'' t"] by force
  also have "\<dots> \<longleftrightarrow> (\<exists>ns e. p = names_path (''pool'' # ns) \<and> tree_lookup t ns = Some e \<and> \<not> is_dir e)"
    using walk_visits [OF assms pool_good(1), of p] unfolding pool_good(2) by auto
  finally show ?thesis .
qed

text \<open>
  C38. Nothing crosses the gap unmentioned. When the scan of the pool succeeds, its report is the sorted list, without
  repetitions, of exactly the files below repo/pool that the package index does not name; so every file on the media is
  in the index or in the report, and never in both.
\<close>

theorem unreferencedPoolFiles_exact:
  assumes "wf_tree t" "unreferencedPoolFiles (Some t) indexed = Inr out"
  shows "sorted out \<and> distinct out \<and>
    set out = {names_path (''pool'' # ns) | ns. \<exists>e. tree_lookup t ns = Some e \<and> \<not> is_dir e} - pf_Path ` set indexed"
proof -
  let ?leaf = "concat (map event_leaf (walk ''pool'' t))"
  obtain us where us: "unreferenced_events (pf_Path ` set indexed) (walk ''pool'' t) = Inr us" "out = sort us"
    using assms(2) by (auto simp: unreferencedPoolFiles_def split: sum.splits)
  note out = unreferenced_events_Inr(1) [OF us(1)]
  have "distinct (map fst ?leaf)" using leaf_paths_distinct [OF assms(1) pool_good(1)] unfolding pool_good(2) .
  then have "distinct out" unfolding us(2) out by simp
  moreover have "set out = fst ` set ?leaf - pf_Path ` set indexed" unfolding us(2) out by auto
  moreover have "fst ` set ?leaf = {names_path (''pool'' # ns) | ns. \<exists>e. tree_lookup t ns = Some e \<and> \<not> is_dir e}"
    using pool_leaves [OF assms(1)] by blast
  ultimately show ?thesis using us(2) by simp
qed

definition demo_pool :: entry where
  "demo_pool = Dir None [(''a'', Dir None [(''a'', Dir None [(''a_2.deb'', RegularFile ''new''), (''a_1.deb'', RegularFile ''old'')])])]"

definition demo_indexed :: "pool_file list" where
  "demo_indexed = [\<lparr>pf_Path = ''pool/a/a/a_2.deb'', pf_Hashes = zero_hashes\<rparr>]"

theorem unreferencedPoolFiles_exact_witness:
  "sorted [''pool/a/a/a_1.deb''] \<and> distinct [''pool/a/a/a_1.deb''] \<and>
    set [''pool/a/a/a_1.deb''] = {names_path (''pool'' # ns) | ns. \<exists>e. tree_lookup demo_pool ns = Some e \<and> \<not> is_dir e} - pf_Path ` set demo_indexed"
proof -
  have "wf_tree demo_pool" "unreferencedPoolFiles (Some demo_pool) demo_indexed = Inr [''pool/a/a/a_1.deb'']" by code_simp+
  then show ?thesis by (rule unreferencedPoolFiles_exact)
qed

text \<open>Files in one directory of the pool belong to one package, so the name a warning quotes is right for all of them.\<close>

lemma PoolPath_Dir:
  assumes "PoolPath pkg fn \<noteq> ''''"
  shows "filepath_Dir (PoolPath pkg fn) = ''pool/'' @ poolPrefix pkg @ ''/'' @ pkg"
proof -
  have v: "ValidPackageName pkg" "ValidFilename fn" using assms PoolPath_valid by auto
  let ?d = "''pool/'' @ poolPrefix pkg @ ''/'' @ pkg"
  have fn: "slash \<notin> set fn" using v(2) by (auto simp: ValidFilename_def list_all_iff)
  have eq: "PoolPath pkg fn = ?d @ slash # fn" using v by (simp add: PoolPath_def)
  have "last_index_byte slash (d @ slash # fn) = Some (length d)" for d
    by (rule last_index_byte_append [OF fn])
  then have "filepath_Dir (d @ slash # fn) = path_Clean (d @ [slash])" for d by (simp add: filepath_Dir_def)
  then have "filepath_Dir (PoolPath pkg fn) = path_Clean (?d @ [slash])" unfolding eq .
  moreover have "path_Clean (?d @ [slash]) = path_Clean ?d"
    by (rule path_Clean_trailing) simp
  moreover have "safe_rel_path ?d"
    using PoolPath_safe [OF v] split_on_append_sep [of slash ?d fn] by (simp add: safe_rel_path_def eq)
  ultimately show ?thesis using path_Clean_safe by simp
qed

lemma dir_names_package:
  assumes "s \<in> set (indexed_by_dir selections d)" "s' \<in> set (indexed_by_dir selections d)"
  shows "sel_Name s = sel_Name s'"
proof -
  have seg: "split_on slash (''pool/'' @ poolPrefix n @ ''/'' @ n) = [''pool'', poolPrefix n, n]" if "PoolPath n fn \<noteq> ''''" for n fn
  proof -
    have v: "ValidPackageName n" "ValidFilename fn" using that PoolPath_valid by auto
    have "split_on slash (PoolPath n fn) = split_on slash (''pool/'' @ poolPrefix n @ ''/'' @ n) @ split_on slash fn"
      using split_on_append_sep [of slash "''pool/'' @ poolPrefix n @ ''/'' @ n" fn] v by (simp add: PoolPath_def)
    moreover have "slash \<notin> set fn" using v(2) by (auto simp: ValidFilename_def list_all_iff)
    ultimately show ?thesis using PoolPath_segments [OF v] by (simp add: split_on_no_occurrence)
  qed
  have "PoolPath (sel_Name s) (sel_Filename s) \<noteq> ''''" "PoolPath (sel_Name s') (sel_Filename s') \<noteq> ''''"
    "filepath_Dir (PoolPath (sel_Name s) (sel_Filename s)) = filepath_Dir (PoolPath (sel_Name s') (sel_Filename s'))"
    using assms by (auto simp: indexed_by_dir_def)
  then have "[''pool'', poolPrefix (sel_Name s), sel_Name s] = [''pool'', poolPrefix (sel_Name s'), sel_Name s']"
    using seg PoolPath_Dir by metis
  then show ?thesis by simp
qed

lemma unreferencedWarning_names:
  assumes "unreferencedWarning us sels = Some w"
  shows "sorted (lw_Packages w)" "distinct (lw_Packages w)"
    "set (lw_Packages w) = {sel_Name s | s rel. rel \<in> set us \<and> s \<in> set (indexed_by_dir sels (filepath_Dir rel))}"
proof -
  have "lw_Packages w = unreferenced_names us sels"
    using assms unfolding unreferencedWarning_def Let_def by (cases "us = []") auto
  then show "sorted (lw_Packages w)" "distinct (lw_Packages w)"
    "set (lw_Packages w) = {sel_Name s | s rel. rel \<in> set us \<and> s \<in> set (indexed_by_dir sels (filepath_Dir rel))}"
    by (auto simp: unreferenced_names_def)
qed

section \<open>The lock of a build\<close>

definition package_key :: "lock_package \<Rightarrow> string \<times> string \<times> string" where
  "package_key p = (pkg_Name p, pkg_Arch p, pkg_Version p)"

interpretation lock_packages: keyed_less package_less package_key
  by unfold_locales (auto simp: package_less_def package_key_def less_prod_def')

lemma PoolPath_filename_ok:
  assumes "PoolPath pkg fn \<noteq> ''''"
  shows "checkFilename (PoolPath pkg fn) = None"
proof -
  have v: "ValidPackageName pkg" "ValidFilename fn" using assms PoolPath_valid by auto
  obtain n where n: "poolPrefix pkg = take n pkg" using poolPrefix_take package_name_hd [OF v(1)] by blast
  have "\<not> is_control_byte c \<and> c \<noteq> CHR 0x5C" if "c \<in> set (PoolPath pkg fn)" for c
  proof -
    have "c \<in> set ''pool/'' \<or> c \<in> set pkg \<or> c \<in> set fn \<or> c = slash"
      using that v n by (auto simp: PoolPath_def dest: in_set_takeD)
    moreover have "\<not> is_control_byte c \<and> c \<noteq> CHR 0x5C" if "c \<in> set fn" using that v(2) by (auto simp: ValidFilename_def list_all_iff)
    moreover have "\<not> is_control_byte c \<and> c \<noteq> CHR 0x5C" if "c \<in> set ''pool/'' \<or> c = slash"
      using that by (auto simp: is_control_byte_def)
    ultimately show ?thesis using package_name_bytes [OF v(1), of c] by blast
  qed
  moreover have "is_control_byte (CHR 0x00)" by (simp add: is_control_byte_def)
  ultimately show ?thesis
    using PoolPath_safe [OF v] v unfolding checkFilename_None by (auto simp: PoolPath_def has_prefix_def list_ex_iff)
qed

text \<open>
  C39. The lock an assembly writes names what it placed. It keeps the caller's document and its warnings, its packages are
  the selections, in the order of name, architecture and version, each under its place in the pool; the order of the
  selections is immaterial as long as those three identify them. When every selection has a place in the pool and no two
  share one, which is what placing them checks, the lock passes the checks every reader of a lock makes of its paths.
\<close>

theorem buildLock_exact:
  fixes selections tmpl inst stats extra
  defines "place \<equiv> \<lambda>s. PoolPath (sel_Name s) (sel_Filename s)" and "l \<equiv> buildLock tmpl selections inst stats extra"
  shows "mset (lk_Packages l) = image_mset lock_package_of (mset selections) \<and> sorted (map package_key (lk_Packages l)) \<and>
    sorted (lk_Install l) \<and> mset (lk_Install l) = mset inst \<and>
    (\<exists>ws. lk_Warnings l = lk_Warnings tmpl @ ws \<and> set ws = {w. Some w \<in> set extra}) \<and>
    l\<lparr>lk_Packages := [], lk_Install := [], lk_Stats := stats, lk_Warnings := []\<rparr> =
      tmpl\<lparr>lk_Packages := [], lk_Install := [], lk_Stats := stats, lk_Warnings := []\<rparr> \<and>
    (distinct (map place selections) \<and> (\<forall>s \<in> set selections. place s \<noteq> '''') \<longrightarrow> checkLoadSafety l = None) \<and>
    (\<forall>selections'. mset selections' = mset selections \<and> inj_on selection_key (set selections) \<longrightarrow>
      buildLock tmpl selections' inst stats extra = l)"
proof (intro conjI allI impI)
  let ?ps = "map lock_package_of selections"
  have ps: "mset (lk_Packages l) = mset ?ps" by (simp add: l_def buildLock_def lock_packages.slice_stable_mset)
  then show "mset (lk_Packages l) = image_mset lock_package_of (mset selections)" by simp
  show "sorted (map package_key (lk_Packages l))" by (simp add: l_def buildLock_def lock_packages.slice_stable_sorted)
  show "sorted (lk_Install l)" "mset (lk_Install l) = mset inst" by (simp_all add: l_def buildLock_def)
  show "\<exists>ws. lk_Warnings l = lk_Warnings tmpl @ ws \<and> set ws = {w. Some w \<in> set extra}"
    by (force simp: l_def buildLock_def map_filter_def image_iff intro!: exI [of _ "List.map_filter (\<lambda>w. w) extra"])
  show "l\<lparr>lk_Packages := [], lk_Install := [], lk_Stats := stats, lk_Warnings := []\<rparr> =
      tmpl\<lparr>lk_Packages := [], lk_Install := [], lk_Stats := stats, lk_Warnings := []\<rparr>" by (simp add: l_def buildLock_def)
  show "checkLoadSafety l = None" if "distinct (map place selections) \<and> (\<forall>s \<in> set selections. place s \<noteq> '''')"
  proof -
    have "mset (map pkg_Filename (lk_Packages l)) = mset (map place selections)"
      using arg_cong [OF ps, of "image_mset pkg_Filename"]
      by (simp add: image_mset.compositionality comp_def lock_package_of_def place_def)
    then have "distinct (map pkg_Filename (lk_Packages l))" using that mset_eq_imp_distinct_iff by blast
    moreover have "\<forall>p \<in> set (lk_Packages l). checkFilename (pkg_Filename p) = None"
      using that PoolPath_filename_ok mset_eq_setD [OF ps] by (auto simp: lock_package_of_def place_def)
    ultimately show ?thesis by (simp add: checkLoadSafety_None)
  qed
  show "buildLock tmpl selections' inst stats extra = l"
    if "mset selections' = mset selections \<and> inj_on selection_key (set selections)" for selections'
  proof -
    have "inj_on package_key (set ?ps)"
      using that by (auto simp: inj_on_def package_key_def selection_key_def lock_package_of_def)
    then have "slice_stable package_less ?ps = slice_stable package_less (map lock_package_of selections')"
      using that by (intro lock_packages.slice_stable_deterministic) simp_all
    then show ?thesis by (simp add: l_def buildLock_def)
  qed
qed

definition demo_locked :: selection where
  "demo_locked = (demo_selection ''jq'' ReasonRequested)\<lparr>sel_SHA256 := ''aa''\<rparr>"

theorem buildLock_exact_witness:
  "checkLoadSafety (buildLock demo_lock [demo_locked] [''jq:amd64=1''] (lk_Stats demo_lock) [None]) = None"
proof -
  have "PoolPath (sel_Name demo_locked) (sel_Filename demo_locked) \<noteq> ''''" by code_simp
  then show ?thesis
    using buildLock_exact [of demo_lock "[demo_locked]" "[''jq:amd64=1'']" "lk_Stats demo_lock" "[None]"] by simp
qed

end
