(* ===== verification/Install_Plan.thy ===== *)
theory Install_Plan
  imports Lock Go_Text Bundle_Tree "HOL-Library.Word"
begin

text \<open>
  The decisions of \<^verbatim>\<open>src/core/install\<close>, the part of debark that runs on the target: what the lock asks for
  (\<^verbatim>\<open>select.go\<close>), how apt's simulation is read (\<^verbatim>\<open>parse.go\<close>), the preconditions (\<^verbatim>\<open>precondition.go\<close>), whether the pool
  holds what is asked for (\<^verbatim>\<open>bundle.go\<close>), how far the machine is from an assumed base (\<^verbatim>\<open>basedivergence.go\<close>), whether a
  kept source can be trusted (\<^verbatim>\<open>keepsource.go\<close>) and the private view of apt (\<^verbatim>\<open>privateroot.go\<close>). Messages that only
  restate their arguments are constructors.
\<close>

section \<open>select.go\<close>

datatype select_error = MalformedEntry string | EntryNotInPackages string | OnlyMissing "string list"

definition archQualifiedEntry :: "lock_package \<Rightarrow> string" where
  "archQualifiedEntry p = pkg_Name p @ '':'' @ pkg_Arch p @ ''='' @ pkg_Version p"

definition splitInstallEntry :: "string \<Rightarrow> (string \<times> string \<times> string) option" where
  "splitInstallEntry s =
     (case index_byte (CHR ''='') s of
        None \<Rightarrow> None
      | Some eq \<Rightarrow>
          if eq = 0 \<or> eq = length s - 1 then None
          else
            let left = take eq s; version = drop (eq + 1) s
            in case index_byte (CHR '':'') left of
                 None \<Rightarrow> None
               | Some colon \<Rightarrow>
                   if colon = 0 \<or> colon = length left - 1 then None
                   else Some (take colon left, drop (colon + 1) left, version))"

text \<open>The loop over \<^verbatim>\<open>lk.Install\<close>; a selected entry is the pair of its text and its package.\<close>

fun select_entries :: "lock_doc \<Rightarrow> string list \<Rightarrow> select_error + (string \<times> lock_package) list" where
  "select_entries lk [] = Inr []"
| "select_entries lk (entry # entries) =
     (case splitInstallEntry entry of
        None \<Rightarrow> Inl (MalformedEntry entry)
      | Some (name, arch, version) \<Rightarrow>
          (case lock_Find (Some lk) name arch of
             None \<Rightarrow> Inl (EntryNotInPackages entry)
           | Some p \<Rightarrow>
               if pkg_Version p \<noteq> version then Inl (EntryNotInPackages entry)
               else (case select_entries lk entries of
                 Inl e \<Rightarrow> Inl e
               | Inr rest \<Rightarrow> Inr ((entry, p) # rest))))"

definition wanted_names :: "string list \<Rightarrow> string list" where
  "wanted_names only = filter (\<lambda>n. n \<noteq> '''') (map trim_space only)"

definition restrict_only :: "string list \<Rightarrow> (string \<times> lock_package) list \<Rightarrow> select_error + (string \<times> lock_package) list" where
  "restrict_only only xs =
     (if only = [] then Inr xs
      else
        let wanted = wanted_names only;
            missing = filter (\<lambda>n. \<forall>x \<in> set xs. pkg_Name (snd x) \<noteq> n) (remdups wanted)
        in if missing \<noteq> [] then Inl (OnlyMissing (sort missing))
           else Inr (filter (\<lambda>x. pkg_Name (snd x) \<in> set wanted) xs))"

text \<open>Entries of equal text keep the order they came in; \<^verbatim>\<open>sort.Slice\<close> leaves it open.\<close>

definition selectInstallSet :: "bool \<Rightarrow> string list \<Rightarrow> lock_doc \<Rightarrow> select_error + string list \<times> lock_package list" where
  "selectInstallSet all only lk =
     (case (if all then Inr (map (\<lambda>p. (archQualifiedEntry p, p)) (lk_Packages lk)) else select_entries lk (lk_Install lk)) of
        Inl e \<Rightarrow> Inl e
      | Inr xs \<Rightarrow>
          (case restrict_only only xs of
             Inl e \<Rightarrow> Inl e
           | Inr ys \<Rightarrow> let zs = sort_key fst ys in Inr (map fst zs, map snd zs)))"

definition selectUpgradeSet :: "lock_doc \<Rightarrow> lock_package list \<Rightarrow> string list \<times> lock_package list \<times> nat" where
  "selectUpgradeSet lk base =
     (let upgrades = filter (\<lambda>p. pkg_Reason p = ReasonUpgrade) (lk_Packages lk);
          already = set (map (\<lambda>p. pkg_Name p @ '':'' @ pkg_Arch p) base);
          xs = map (\<lambda>p. (archQualifiedEntry p, p)) (filter (\<lambda>p. pkg_Name p @ '':'' @ pkg_Arch p \<notin> already) upgrades);
          zs = sort_key fst xs
      in (map fst zs, map snd zs, length upgrades))"

definition mergeSortedUnique :: "string list \<Rightarrow> string list \<Rightarrow> string list" where
  "mergeSortedUnique a b = (if b = [] then a else sort (remdups (a @ b)))"

section \<open>parse.go\<close>

fun has_infix :: "string \<Rightarrow> string \<Rightarrow> bool" where
  "has_infix [] t = (t = [])"
| "has_infix (c # s) t = (has_prefix (c # s) t \<or> has_infix s t)"

definition trim_prefix :: "string \<Rightarrow> string \<Rightarrow> string" where
  "trim_prefix s p = (if has_prefix s p then drop (length p) s else s)"

definition ends_in :: "string \<Rightarrow> char \<Rightarrow> bool" where
  "ends_in s c \<longleftrightarrow> s \<noteq> [] \<and> last s = c"

definition nameVersion :: "string \<Rightarrow> string \<Rightarrow> string" where
  "nameVersion name version = (if version = '''' then name else name @ ''='' @ version)"

text \<open>The fields after an optional old version in brackets.\<close>

definition after_bracket :: "string list \<Rightarrow> string list" where
  "after_bracket fs = (case dropWhile (\<lambda>f. \<not> ends_in f (CHR '']'')) fs of [] \<Rightarrow> [] | _ # rest \<Rightarrow> rest)"

definition parseInstLine :: "string \<Rightarrow> (string \<times> string \<times> bool) option" where
  "parseInstLine line =
     (if \<not> has_prefix line ''Inst '' then None
      else case strings_Fields (drop 5 line) of
        name # f # fs \<Rightarrow>
          let upgrade = has_prefix f ''['';
              rest = (if upgrade then after_bracket (f # fs) else f # fs)
          in (case rest of
                [] \<Rightarrow> None
              | v # _ \<Rightarrow>
                  let version = trim_prefix v ''(''
                  in if version = '''' then None else Some (name, version, upgrade))
      | _ \<Rightarrow> None)"

definition parseRemvLine :: "string \<Rightarrow> (string \<times> string) option" where
  "parseRemvLine line =
     (if \<not> has_prefix line ''Remv '' then None
      else case strings_Fields (drop 5 line) of
        [] \<Rightarrow> None
      | [name] \<Rightarrow> Some (name, '''')
      | name # f # _ \<Rightarrow>
          let v = trim_prefix f ''[''
          in Some (name, if ends_in v (CHR '']'') then butlast v else v))"

definition maxUnmetDetailLines :: nat where "maxUnmetDetailLines = 20"

definition isUnmetHeaderLine :: "string \<Rightarrow> bool" where
  "isUnmetHeaderLine line \<longleftrightarrow> has_prefix line ''The following packages have unmet dependencies''"

definition isUnmetDetailLine :: "string \<Rightarrow> bool" where
  "isUnmetDetailLine raw \<longleftrightarrow> trim_space raw \<noteq> '''' \<and> (has_prefix raw '' '' \<or> has_prefix raw [CHR 0x09])"

datatype apt_problem = AptLine string | AptMoreUnmet

record sim_state =
  sm_install :: "string list"
  sm_upgrade :: "string list"
  sm_remove :: "string list"
  sm_problems :: "apt_problem list"
  sm_inUnmet :: bool
  sm_kept :: nat

definition add_once :: "string \<Rightarrow> string list \<Rightarrow> string list" where
  "add_once x xs = (if x \<in> set xs then xs else xs @ [x])"

text \<open>The \<^verbatim>\<open>switch\<close> on the kind of a line.\<close>

definition sim_switch :: "string \<Rightarrow> sim_state \<Rightarrow> sim_state" where
  "sim_switch line st =
     (if has_prefix line ''Inst '' then
        (case parseInstLine line of
           None \<Rightarrow> st
         | Some (name, version, upgrade) \<Rightarrow>
             if upgrade then st\<lparr>sm_upgrade := add_once (nameVersion name version) (sm_upgrade st)\<rparr>
             else st\<lparr>sm_install := add_once (nameVersion name version) (sm_install st)\<rparr>)
      else if has_prefix line ''Remv '' then
        (case parseRemvLine line of
           None \<Rightarrow> st
         | Some (name, version) \<Rightarrow> st\<lparr>sm_remove := add_once (nameVersion name version) (sm_remove st)\<rparr>)
      else if has_prefix line ''Conf '' then st
      else if isUnmetHeaderLine line then
        st\<lparr>sm_problems := sm_problems st @ [AptLine line], sm_inUnmet := True, sm_kept := 0\<rparr>
      else if has_prefix line ''E: '' \<or> has_infix line ''Unable to correct problems'' \<or> has_infix line ''unmet dependencies'' then
        st\<lparr>sm_problems := sm_problems st @ [AptLine line]\<rparr>
      else st)"

definition sim_line :: "string \<Rightarrow> sim_state \<Rightarrow> sim_state" where
  "sim_line text st =
     (let raw = rev (dropWhile (\<lambda>c. c = CHR 0x0D) (rev text));
          line = trim_space raw
      in if \<not> sm_inUnmet st then sim_switch line st
         else if line = '''' \<or> has_prefix line ''E:'' then sim_switch line (st\<lparr>sm_inUnmet := False\<rparr>)
         else if isUnmetDetailLine raw then
           (if sm_kept st < maxUnmetDetailLines
            then st\<lparr>sm_problems := sm_problems st @ [AptLine line], sm_kept := Suc (sm_kept st)\<rparr>
            else if sm_kept st = maxUnmetDetailLines
            then st\<lparr>sm_problems := sm_problems st @ [AptMoreUnmet], sm_kept := Suc (sm_kept st)\<rparr>
            else st)
         else sim_switch line (st\<lparr>sm_inUnmet := False\<rparr>))"

definition zero_sim :: sim_state where
  "zero_sim = \<lparr>sm_install = [], sm_upgrade = [], sm_remove = [], sm_problems = [], sm_inUnmet = False, sm_kept = 0\<rparr>"

text \<open>A scanner with a buffer of 4 MiB; its error is not asked for.\<close>

definition simScanBuffer :: int where "simScanBuffer = 4194304"

definition sim_lines :: "string \<Rightarrow> string list" where
  "sim_lines out = map drop_cr (takeWhile (\<lambda>l. int (length l) < simScanBuffer) (drop_last_empty (split_on newline out)))"

definition parseAptSim :: "string \<Rightarrow> string list \<times> string list \<times> string list \<times> apt_problem list" where
  "parseAptSim out =
     (let st = fold sim_line (sim_lines out) zero_sim
      in (sort (sm_install st), sort (sm_upgrade st), sort (sm_remove st), sm_problems st))"

section \<open>precondition.go\<close>

record os_release =
  or_ID :: string
  or_VersionID :: string
  or_VersionCodename :: string

definition unquoteShellValue :: "string \<Rightarrow> string" where
  "unquoteShellValue s =
     (if length s \<ge> 2 \<and> (hd s = CHR 0x22 \<and> last s = CHR 0x22 \<or> hd s = CHR 0x27 \<and> last s = CHR 0x27)
      then butlast (tl s) else s)"

definition os_release_line :: "string \<Rightarrow> os_release \<Rightarrow> os_release" where
  "os_release_line text rel =
     (let line = trim_space text
      in if line = '''' \<or> has_prefix line ''#'' then rel
         else case index_byte (CHR ''='') line of
           None \<Rightarrow> rel
         | Some i \<Rightarrow>
             let key = trim_space (take i line); val = unquoteShellValue (trim_space (drop (Suc i) line))
             in if key = ''ID'' then rel\<lparr>or_ID := val\<rparr>
                else if key = ''VERSION_ID'' then rel\<lparr>or_VersionID := val\<rparr>
                else if key = ''VERSION_CODENAME'' then rel\<lparr>or_VersionCodename := val\<rparr>
                else rel)"

definition zero_os_release :: os_release where
  "zero_os_release = \<lparr>or_ID = '''', or_VersionID = '''', or_VersionCodename = ''''\<rparr>"

definition readOSRelease :: "string option \<Rightarrow> os_release" where
  "readOSRelease content =
     (case content of None \<Rightarrow> zero_os_release | Some data \<Rightarrow> fold os_release_line (scan_lines data) zero_os_release)"

text \<open>\<^verbatim>\<open>diskShortfall\<close> on machine words: \<open>None\<close> when there is room.\<close>

definition maxInt64 :: "64 word" where "maxInt64 = 2 ^ 63 - 1"

definition diskShortfall :: "64 word \<Rightarrow> 64 word \<Rightarrow> 64 word option" where
  "diskShortfall freeBytes requiredBytes =
     (if requiredBytes \<le>s 0 then None
      else
        let freeSigned = (if freeBytes > maxInt64 then maxInt64 else freeBytes)
        in if requiredBytes \<le>s freeSigned then None else Some (requiredBytes - freeSigned))"

definition parseForeignArchs :: "string \<Rightarrow> string list" where
  "parseForeignArchs out = sort (strings_Fields out)"

definition missingForeignArchs :: "string list \<Rightarrow> string list \<Rightarrow> string \<Rightarrow> string list" where
  "missingForeignArchs required enabled nativeArch =
     (let have = set (filter (\<lambda>a. a \<noteq> '''') (map trim_space (enabled @ [nativeArch])))
      in sort (remdups (filter (\<lambda>a. a \<noteq> '''' \<and> a \<notin> have) (map trim_space required))))"

definition addArchitectureCommand :: "string list \<Rightarrow> string" where
  "addArchitectureCommand archs = join_with '' && '' (map (\<lambda>a. ''dpkg --add-architecture '' @ a) archs)"

section \<open>bundle.go\<close>

text \<open>\<^verbatim>\<open>filepath.IsLocal\<close> on Unix.\<close>

definition filepath_IsLocal :: "path \<Rightarrow> bool" where
  "filepath_IsLocal p \<longleftrightarrow>
     p \<noteq> '''' \<and> \<not> has_prefix p ''/'' \<and> path_Clean p \<noteq> ''..'' \<and> \<not> has_prefix (path_Clean p) ''../''"

datatype install_problem =
    ProbArch string string | ProbForeign "string list" "string list"
  | ProbFilename string path | ProbPoolMissing string path | ProbPoolIrregular string path
  | ProbDisk "64 word" | ProbApt apt_problem | ProbSimulate string | ProbApply string

text \<open>
  Whether \<^verbatim>\<open>os.Stat\<close> finds a regular file, where it finds something; \<open>links\<close> says where the special entries lead. A link
  above a file is not followed: the verifier has refused every bundle that holds one.
\<close>

definition stat_regular :: "(entry \<Rightarrow> bool) \<Rightarrow> entry \<Rightarrow> bool option" where
  "stat_regular links e =
     (case e of
        Dir _ _ \<Rightarrow> Some False
      | RegularFile _ \<Rightarrow> Some True
      | UnreadableFile _ _ \<Rightarrow> Some True
      | Special _ ok _ \<Rightarrow> if ok then Some (links e) else None)"

definition repo_lookup :: "entry \<Rightarrow> path \<Rightarrow> entry option" where
  "repo_lookup tree rel = tree_lookup tree (split_on slash (path_Clean (''repo/'' @ rel)))"

definition pool_problem :: "(entry \<Rightarrow> bool) \<Rightarrow> entry \<Rightarrow> lock_package \<Rightarrow> install_problem list" where
  "pool_problem links tree p =
     (let who = pkg_Name p @ '':'' @ pkg_Arch p
      in if pkg_Filename p = '''' \<or> \<not> filepath_IsLocal (pkg_Filename p) then [ProbFilename who (pkg_Filename p)]
         else case Option.bind (repo_lookup tree (pkg_Filename p)) (stat_regular links) of
           None \<Rightarrow> [ProbPoolMissing who (pkg_Filename p)]
         | Some regular \<Rightarrow> if regular then [] else [ProbPoolIrregular who (pkg_Filename p)])"

definition missingPoolFiles :: "(entry \<Rightarrow> bool) \<Rightarrow> entry \<Rightarrow> lock_package list \<Rightarrow> install_problem list" where
  "missingPoolFiles links tree pkgs = concat (map (pool_problem links tree) pkgs)"

section \<open>basedivergence.go\<close>

record bundle_origin =
  bo_Kind :: string
  bo_BaseID :: string
  bo_AssumedInstalled :: "string list"

definition originSynthesized :: string where "originSynthesized = ''synthesized''"

fun replace_crlf_lines :: "string \<Rightarrow> string" where
  "replace_crlf_lines [] = []"
| "replace_crlf_lines [c] = [c]"
| "replace_crlf_lines (c # d # s) =
     (if c = CHR 0x0D \<and> d = newline then newline # replace_crlf_lines s else c # replace_crlf_lines (d # s))"

definition dpkgStatusInstalled :: "string \<Rightarrow> string \<Rightarrow> string \<Rightarrow> bool" where
  "dpkgStatusInstalled desired errFlag state \<longleftrightarrow>
     (desired = ''install'' \<or> desired = ''hold'') \<and> errFlag = ''ok'' \<and> state = ''installed''"

definition installed_line :: "string \<Rightarrow> string list" where
  "installed_line line =
     (case strings_Fields line of
        [pkg, desired, errFlag, state] \<Rightarrow> if dpkgStatusInstalled desired errFlag state then [pkg] else []
      | _ \<Rightarrow> [])"

definition parseDpkgInstalledSet :: "string \<Rightarrow> string list" where
  "parseDpkgInstalledSet out = concat (map installed_line (split_on newline (replace_crlf_lines out)))"

record base_divergence =
  bd_BaseID :: string
  bd_Assumed :: nat
  bd_Missing :: "string list"

definition maxEntryLen :: nat where "maxEntryLen = 256"

definition printableEntry :: "string \<Rightarrow> bool" where
  "printableEntry s \<longleftrightarrow> length s \<le> maxEntryLen \<and> list_all (\<lambda>c. 33 \<le> byte c \<and> byte c \<le> 126) s"

definition compareAssumedInstalled :: "bundle_origin \<Rightarrow> string list \<Rightarrow> base_divergence \<times> nat" where
  "compareAssumedInstalled origin installed =
     (let entries = filter (\<lambda>e. e \<noteq> '''') (map trim_space (bo_AssumedInstalled origin));
          usable = remdups (filter printableEntry entries)
      in (\<lparr>bd_BaseID = bo_BaseID origin, bd_Assumed = length usable,
            bd_Missing = sort (filter (\<lambda>e. e \<notin> set installed) usable)\<rparr>,
          length (filter (\<lambda>e. \<not> printableEntry e) entries)))"

text \<open>\<^verbatim>\<open>groupThousands\<close>: a comma before every group of three digits but the first.\<close>

fun group_digits :: "string \<Rightarrow> string" where
  "group_digits [] = []"
| "group_digits (c # s) = (if s \<noteq> [] \<and> length s mod 3 = 0 then c # CHR '','' # group_digits s else c # group_digits s)"

definition groupThousands :: "nat \<Rightarrow> string" where
  "groupThousands n = group_digits (itoa n)"

definition maxNamedMissing :: nat where "maxNamedMissing = 10"

definition divergenceSentence :: "base_divergence \<Rightarrow> string" where
  "divergenceSentence d =
     (if bd_Assumed d = 0
      then ''this bundle's assumed base lists no packages, so there was nothing to compare against this machine''
      else if bd_Missing d = []
      then ''all '' @ groupThousands (bd_Assumed d) @ '' packages the base assumes are present on this machine - nothing it assumed is missing''
      else groupThousands (length (bd_Missing d)) @ '' of the '' @ groupThousands (bd_Assumed d) @
        '' assumed base packages are not present on this machine: '' @
        join_with '', '' (take maxNamedMissing (bd_Missing d)) @
        (if length (bd_Missing d) > maxNamedMissing
         then '' and '' @ groupThousands (length (bd_Missing d) - maxNamedMissing) @ '' more'' else '''') @
        '' - the bundle was resolved as if this machine already had them, so it may be short'')"

section \<open>keepsource.go\<close>

text \<open>Permissions of a path: an error, or the nine bits, the sticky bit and whether they mean anything on this system.\<close>

type_synonym permissions = "path \<Rightarrow> string + nat \<times> bool \<times> bool"

datatype keep_problem = KeepUnreadable path | KeepWritable nat | KeepAncestorUnreadable path | KeepAncestor path nat

definition writable_by_others :: "nat \<Rightarrow> bool" where
  "writable_by_others perm \<longleftrightarrow> (perm div 16) mod 2 = 1 \<or> (perm div 2) mod 2 = 1"

fun keep_ancestors :: "permissions \<Rightarrow> nat \<Rightarrow> path \<Rightarrow> keep_problem option" where
  "keep_ancestors modes 0 dir = None"
| "keep_ancestors modes (Suc n) dir =
     (case modes dir of
        Inl _ \<Rightarrow> Some (KeepAncestorUnreadable dir)
      | Inr (perm, sticky, known) \<Rightarrow>
          if known \<and> (perm div 2) mod 2 = 1 \<and> \<not> sticky then Some (KeepAncestor dir perm)
          else if filepath_Dir dir = dir then None
          else keep_ancestors modes n (filepath_Dir dir))"

definition keepSourceTrustProblem :: "permissions \<Rightarrow> path \<Rightarrow> keep_problem option" where
  "keepSourceTrustProblem modes repoDir =
     (case modes repoDir of
        Inl _ \<Rightarrow> Some (KeepUnreadable repoDir)
      | Inr (perm, _, known) \<Rightarrow>
          if \<not> known then None
          else if writable_by_others perm then Some (KeepWritable perm)
          else keep_ancestors modes 64 (filepath_Dir repoDir))"

section \<open>privateroot.go\<close>

definition toSlash :: "path \<Rightarrow> path" where
  "toSlash p = map (\<lambda>c. if c = CHR 0x5C then slash else c) p"

definition sourceStanza :: "path \<Rightarrow> string" where
  "sourceStanza absRepoDir =
     ''Types: deb'' @ [newline] @ ''URIs: file://'' @ toSlash absRepoDir @ [newline] @ ''Suites: ./'' @ [newline] @
     ''Trusted: yes'' @ [newline]"

record private_root =
  pr_dir :: path
  pr_repoDir :: path
  pr_baseOpts :: "string list"

definition root_opts :: "path \<Rightarrow> bool \<Rightarrow> string list" where
  "root_opts dir fast =
     [''-o'', ''Dir::Etc::sourcelist=/dev/null'',
      ''-o'', ''Dir::Etc::sourceparts='' @ toSlash (filepath_Join [dir, ''sources.list.d'']),
      ''-o'', ''Dir::Etc::preferences=/dev/null'',
      ''-o'', ''Dir::Etc::preferencesparts='' @ toSlash (filepath_Join [dir, ''preferences.d'']),
      ''-o'', ''Dir::State::lists='' @ toSlash (filepath_Join [dir, ''lists'']),
      ''-o'', ''Dir::Cache::pkgcache='', ''-o'', ''Dir::Cache::srcpkgcache='', ''-o'', ''Acquire::Languages=none'',
      ''-o'', ''APT::Sandbox::User=root''] @
     (if fast then [''-o'', ''Dpkg::Options::=--force-unsafe-io'', ''-o'', ''Dpkg::Use-Pty=false''] else [])"

definition AptArgs :: "private_root \<Rightarrow> bool \<Rightarrow> string list" where
  "AptArgs p yes = pr_baseOpts p @ (if yes then [''-y''] else [])"

section \<open>What the lock asks for\<close>

lemma splitInstallEntry_eq: "splitInstallEntry = parseInstallEntry"
  by (rule ext) (simp add: splitInstallEntry_def parseInstallEntry_def Let_def)

lemma archQualifiedEntry_eq: "archQualifiedEntry = pkg_entry"
  by (rule ext) (simp add: archQualifiedEntry_def pkg_entry_def install_entry_def)

lemma pkg_entry_inj:
  assumes "lock_wf lk"
  shows "inj_on pkg_entry (set (lk_Packages lk))"
proof (rule inj_onI)
  fix p q assume pq: "p \<in> set (lk_Packages lk)" "q \<in> set (lk_Packages lk)" "pkg_entry p = pkg_entry q"
  then have "pkg_key p = pkg_key q"
    using assms parse_pkg_entry [of p] parse_pkg_entry [of q] by (simp add: lock_wf_def)
  with pq(1,2) assms show "p = q"
    using entry_ident_inj [of p "lk_Packages lk" q] by (simp add: lock_wf_def pkg_key_def pkg_ident_def)
qed

lemma select_entries_wf:
  assumes "lock_wf lk" "set es \<subseteq> set (lk_Install lk)"
  shows "\<exists>ps. select_entries lk es = Inr (map (\<lambda>p. (pkg_entry p, p)) ps) \<and> es = map pkg_entry ps \<and> set ps \<subseteq> set (lk_Packages lk)"
  using assms(2)
proof (induction es)
  case (Cons e es)
  then obtain ps where ps: "select_entries lk es = Inr (map (\<lambda>p. (pkg_entry p, p)) ps)" "es = map pkg_entry ps" "set ps \<subseteq> set (lk_Packages lk)"
    by auto
  from Cons.prems assms(1) obtain p where p: "p \<in> set (lk_Packages lk)" "e = pkg_entry p" "package_wf p"
    by (auto simp: lock_wf_def)
  have "lock_Find (Some lk) (pkg_Name p) (pkg_Arch p) = Some p"
    using lock_Find_wf [OF assms(1) p(1)] by simp
  then have "select_entries lk (e # es) = Inr (map (\<lambda>p. (pkg_entry p, p)) (p # ps))"
    using p ps by (simp add: splitInstallEntry_eq parse_pkg_entry pkg_key_def)
  then show ?case using p ps by (intro exI [of _ "p # ps"]) simp
qed simp

text \<open>What a run asks for: the set \<^verbatim>\<open>--all\<close> or the lock's install list, narrowed by \<^verbatim>\<open>--only\<close>.\<close>

definition asked_for :: "bool \<Rightarrow> string list \<Rightarrow> lock_doc \<Rightarrow> lock_package set" where
  "asked_for all only lk =
     {p \<in> set (lk_Packages lk). (all \<or> pkg_entry p \<in> set (lk_Install lk)) \<and> (only \<noteq> [] \<longrightarrow> pkg_Name p \<in> set (wanted_names only))}"

lemma candidates:
  assumes "lock_wf lk"
  shows "\<exists>ps. (if all then Inr (map (\<lambda>p. (archQualifiedEntry p, p)) (lk_Packages lk)) else select_entries lk (lk_Install lk)) =
      Inr (map (\<lambda>p. (pkg_entry p, p)) ps) \<and> set ps = asked_for all [] lk \<and> distinct (map pkg_entry ps)"
proof (cases all)
  case True
  have "distinct (lk_Packages lk)" using assms by (simp add: lock_wf_def distinct_map)
  then show ?thesis using True pkg_entry_inj [OF assms]
    by (intro exI [of _ "lk_Packages lk"]) (auto simp: archQualifiedEntry_eq asked_for_def distinct_map)
next
  case False
  obtain ps where ps: "select_entries lk (lk_Install lk) = Inr (map (\<lambda>p. (pkg_entry p, p)) ps)"
    "lk_Install lk = map pkg_entry ps" "set ps \<subseteq> set (lk_Packages lk)"
    using select_entries_wf [OF assms, of "lk_Install lk"] by auto
  have "set ps = {p \<in> set (lk_Packages lk). pkg_entry p \<in> pkg_entry ` set ps}"
    using ps(3) inj_on_image_mem_iff [OF pkg_entry_inj [OF assms]] by auto
  moreover have "distinct (lk_Install lk)" using assms by (simp add: lock_wf_def)
  ultimately show ?thesis using False ps by (intro exI [of _ ps]) (simp add: asked_for_def)
qed

lemma sort_Nil_iff: "sort xs = [] \<longleftrightarrow> xs = []"
  by (metis set_sort set_empty)

lemma entry_no_option:
  assumes "package_wf p"
  shows "\<not> has_prefix (pkg_entry p) ''-''"
proof (cases "pkg_Name p")
  case (Cons c n)
  then have "lower_alnum c" using assms by (simp add: package_wf_def validPackageName_def)
  then have "c \<noteq> CHR ''-''" by (auto simp: lower_alnum_def is_lower_byte_def is_digit_byte_def)
  then show ?thesis using Cons by (simp add: pkg_entry_def install_entry_def has_prefix_def)
qed (use name_bytes(1) [OF assms] in simp)

text \<open>A selection sorted by its entries.\<close>

lemma sort_entries: "sort_key fst (map (\<lambda>p. (pkg_entry p, p)) ps) = map (\<lambda>p. (pkg_entry p, p)) (sort_key pkg_entry ps)"
proof -
  have ins: "insort_key fst (pkg_entry p, p) (map (\<lambda>p. (pkg_entry p, p)) qs) = map (\<lambda>p. (pkg_entry p, p)) (insort_key pkg_entry p qs)" for p qs
    by (induction qs) auto
  show ?thesis by (induction ps) (simp_all add: ins)
qed

text \<open>A list of packages of the lock whose entries are in order, without repetitions, and safe to hand to apt.\<close>

definition good_request :: "lock_doc \<Rightarrow> lock_package list \<Rightarrow> bool" where
  "good_request lk pkgs \<longleftrightarrow>
     set pkgs \<subseteq> set (lk_Packages lk) \<and> sorted (map pkg_entry pkgs) \<and> distinct (map pkg_ident pkgs) \<and>
     (\<forall>p \<in> set pkgs. \<not> has_prefix (pkg_entry p) ''-'' \<and> parseInstallEntry (pkg_entry p) = Some (pkg_key p))"

lemma sorted_selection:
  assumes "lock_wf lk" "set ps \<subseteq> set (lk_Packages lk)" "distinct (map pkg_entry ps)"
  shows "good_request lk (sort_key pkg_entry ps)"
proof -
  have "inj_on pkg_ident (set ps)" using assms(1,2) by (auto simp: lock_wf_def distinct_map intro: inj_on_subset)
  then have "distinct (map pkg_ident (sort_key pkg_entry ps))" using assms(3) by (simp add: distinct_map)
  moreover have "package_wf p" if "p \<in> set ps" for p using that assms(1,2) by (auto simp: lock_wf_def)
  ultimately show ?thesis using assms(2) by (simp add: good_request_def entry_no_option parse_pkg_entry)
qed

lemma selectInstallSet_wf:
  assumes wf: "lock_wf lk"
  shows "case selectInstallSet all only lk of
      Inl e \<Rightarrow> \<exists>missing. e = OnlyMissing missing \<and> missing \<noteq> [] \<and> sorted missing \<and> distinct missing \<and>
        set missing = set (wanted_names only) - pkg_Name ` asked_for all [] lk
    | Inr (names, pkgs) \<Rightarrow> names = map pkg_entry pkgs \<and> good_request lk pkgs \<and> set pkgs = asked_for all only lk \<and>
        (only \<noteq> [] \<longrightarrow> set (wanted_names only) \<subseteq> pkg_Name ` set pkgs)"
proof -
  obtain ps where ps: "(if all then Inr (map (\<lambda>p. (archQualifiedEntry p, p)) (lk_Packages lk)) else select_entries lk (lk_Install lk)) =
      Inr (map (\<lambda>p. (pkg_entry p, p)) ps)" "set ps = asked_for all [] lk" "distinct (map pkg_entry ps)"
    using candidates [OF wf] by blast
  have sub: "set ps \<subseteq> set (lk_Packages lk)" using ps(2) by (auto simp: asked_for_def)
  let ?missing = "sort (filter (\<lambda>n. \<forall>x \<in> set ps. pkg_Name x \<noteq> n) (remdups (wanted_names only)))"
  let ?kept = "if only = [] then ps else filter (\<lambda>p. pkg_Name p \<in> set (wanted_names only)) ps"
  let ?out = "sort_key pkg_entry ?kept"
  have kept: "map (\<lambda>p. (pkg_entry p, p)) (filter P qs) = filter (P \<circ> snd) (map (\<lambda>p. (pkg_entry p, p)) qs)" for P qs
    by (simp add: filter_map comp_def)
  have restrict: "restrict_only only (map (\<lambda>p. (pkg_entry p, p)) ps) =
      (if only \<noteq> [] \<and> ?missing \<noteq> [] then Inl (OnlyMissing ?missing) else Inr (map (\<lambda>p. (pkg_entry p, p)) ?kept))"
    by (simp add: restrict_only_def Let_def kept comp_def sort_Nil_iff)
  have res: "selectInstallSet all only lk = (if only \<noteq> [] \<and> ?missing \<noteq> [] then Inl (OnlyMissing ?missing) else Inr (map pkg_entry ?out, ?out))"
    unfolding selectInstallSet_def ps(1) sum.case restrict by (simp add: sort_entries Let_def comp_def)
  have mset: "set ?missing = set (wanted_names only) - pkg_Name ` asked_for all [] lk" using ps(2) by auto
  have setout: "set ?out = asked_for all only lk" using ps(2) by (auto simp: asked_for_def)
  show ?thesis
  proof (cases "only \<noteq> [] \<and> ?missing \<noteq> []")
    case True
    then show ?thesis unfolding res using mset by (simp del: set_sort)
  next
    case False
    have "filter (\<lambda>n. \<forall>x \<in> set ps. pkg_Name x \<noteq> n) (remdups (wanted_names only)) = []" if "only \<noteq> []"
      using False that by (simp add: sort_Nil_iff)
    then have "set (wanted_names only) \<subseteq> pkg_Name ` set ?out" if "only \<noteq> []" using that by (auto simp: filter_empty_conv)
    moreover have "set ?kept \<subseteq> set (lk_Packages lk)" "distinct (map pkg_entry ?kept)"
      using sub ps(3) by (auto simp: distinct_map_filter)
    then have "good_request lk ?out" by (rule sorted_selection [OF wf])
    ultimately have "map pkg_entry ?out = map pkg_entry ?out \<and> good_request lk ?out \<and> set ?out = asked_for all only lk \<and>
        (only \<noteq> [] \<longrightarrow> set (wanted_names only) \<subseteq> pkg_Name ` set ?out)" using setout by blast
    then show ?thesis unfolding res if_not_P [OF False] sum.case prod.case .
  qed
qed

text \<open>
  C12. The request comes from the lock alone. For a lock that passes its validation, selecting packages either fails
  because --only names something the lock does not ask for, and then says exactly which names those are, or it gives the
  packages that were asked for, each once, as name:arch=version entries in order; an entry can not be read as an option
  of apt, and no two entries name one package of one architecture.
\<close>

theorem selectInstallSet_exact:
  assumes "lock_Validate (Some lk) = None"
  shows "case selectInstallSet all only lk of
      Inl e \<Rightarrow> \<exists>missing. e = OnlyMissing missing \<and> missing \<noteq> [] \<and> sorted missing \<and> distinct missing \<and>
        set missing = set (wanted_names only) - pkg_Name ` asked_for all [] lk
    | Inr (names, pkgs) \<Rightarrow> names = map pkg_entry pkgs \<and> good_request lk pkgs \<and> set pkgs = asked_for all only lk \<and>
        (only \<noteq> [] \<longrightarrow> set (wanted_names only) \<subseteq> pkg_Name ` set pkgs)"
  using selectInstallSet_wf [of lk] assms lock_Validate_wf by blast

theorem selectInstallSet_exact_witness:
  "selectInstallSet False [''vlc''] demo_lock = Inr ([''vlc:amd64=1:3.0-1''], [demo_package]) \<and>
    set [demo_package] = asked_for False [''vlc''] demo_lock"
proof -
  have "selectInstallSet False [''vlc''] demo_lock = Inr ([''vlc:amd64=1:3.0-1''], [demo_package])" by code_simp
  then show ?thesis using selectInstallSet_exact [OF demo_lock_valid, where all = False and only = "[''vlc'']"] by simp
qed

text \<open>Adding the upgrades of the lock keeps one version for each package and architecture.\<close>

lemma name_arch_inj:
  assumes "package_wf p" "package_wf q" "pkg_Name p @ '':'' @ pkg_Arch p = pkg_Name q @ '':'' @ pkg_Arch q"
  shows "pkg_ident p = pkg_ident q"
proof -
  have "takeWhile (\<lambda>c. c \<noteq> CHR '':'') (pkg_Name r @ '':'' @ pkg_Arch r) = pkg_Name r" if "package_wf r" for r
    using name_bytes(2) [OF that] by (subst takeWhile_append2) auto
  then have "pkg_Name p = pkg_Name q" using assms by metis
  then show ?thesis using assms(3) by (simp add: pkg_ident_def)
qed

definition upgrades_of :: "lock_doc \<Rightarrow> lock_package list \<Rightarrow> lock_package set" where
  "upgrades_of lk base = {p \<in> set (lk_Packages lk). pkg_Reason p = ReasonUpgrade \<and> p \<notin> set base}"

lemma selectUpgradeSet_wf:
  assumes "lock_wf lk" "set base \<subseteq> set (lk_Packages lk)"
  shows "\<exists>ps. selectUpgradeSet lk base = (map pkg_entry ps, ps, length (filter (\<lambda>p. pkg_Reason p = ReasonUpgrade) (lk_Packages lk))) \<and>
    good_request lk ps \<and> set ps = upgrades_of lk base"
proof -
  let ?na = "\<lambda>p. pkg_Name p @ '':'' @ pkg_Arch p"
  let ?up = "filter (\<lambda>p. pkg_Reason p = ReasonUpgrade) (lk_Packages lk)"
  let ?xs = "filter (\<lambda>p. ?na p \<notin> ?na ` set base) ?up"
  have wf: "package_wf p" if "p \<in> set (lk_Packages lk)" for p using that assms(1) by (simp add: lock_wf_def)
  have same: "p = q" if "p \<in> set (lk_Packages lk)" "q \<in> set base" "?na p = ?na q" for p q
    using name_arch_inj [OF wf wf that(3)] that assms entry_ident_inj [of p "lk_Packages lk" q] by (auto simp: lock_wf_def)
  have "set ?xs = upgrades_of lk base" unfolding upgrades_of_def using same by (auto simp del: append_Cons append_Nil)
  moreover have "distinct (map pkg_entry (lk_Packages lk))"
    using assms(1) pkg_entry_inj by (auto simp: lock_wf_def distinct_map)
  then have "distinct (map pkg_entry ?xs)" by (simp add: distinct_map_filter)
  then have "good_request lk (sort_key pkg_entry ?xs)" by (intro sorted_selection [OF assms(1)]) auto
  moreover have "selectUpgradeSet lk base = (map pkg_entry (sort_key pkg_entry ?xs), sort_key pkg_entry ?xs, length ?up)"
    unfolding selectUpgradeSet_def archQualifiedEntry_eq Let_def set_map sort_entries by (simp add: comp_def)
  ultimately show ?thesis by (intro exI [of _ "sort_key pkg_entry ?xs"]) (simp del: filter_filter)
qed

section \<open>Preconditions\<close>

lemma sint_small: "sint x = uint x" if "uint x < 2 ^ 63" for x :: "64 word"
proof -
  have "sint x = signed_take_bit 63 (uint x)" by (simp add: sint_uint)
  also have "\<dots> = uint x" using that uint_ge_0 [of x] by (intro signed_take_bit_int_eq_self) linarith+
  finally show ?thesis .
qed

lemma maxInt64_uint: "uint maxInt64 = 2 ^ 63 - 1" and maxInt64_sint: "sint maxInt64 = 2 ^ 63 - 1"
  by (simp_all add: maxInt64_def)

lemma sint_below: "sint (x :: 64 word) < 2 ^ 63"
  using sint_lt [of x] by simp

text \<open>
  C40. The disk check never wraps. For any two words, read as the signed number of bytes required and the unsigned number
  of bytes free, it reports no shortfall exactly when the one is at most the other as integers, and otherwise the
  difference of the integers.
\<close>

theorem diskShortfall_exact:
  "if sint required \<le> uint free then diskShortfall free required = None
   else \<exists>short. diskShortfall free required = Some short \<and> sint short = sint required - uint free"
proof (cases "sint required \<le> uint free")
  case True
  moreover have "required \<le>s 0 \<or> required \<le>s (if free > maxInt64 then maxInt64 else free)"
  proof (cases "free > maxInt64")
    case True
    then show ?thesis using sint_below [of required] by (simp add: word_sle_eq maxInt64_sint)
  next
    case False
    then have "uint free < 2 ^ 63" using maxInt64_uint by (simp add: word_less_def)
    then show ?thesis using \<open>sint required \<le> uint free\<close> by (simp add: word_sle_eq sint_small word_less_def maxInt64_uint)
  qed
  ultimately show ?thesis by (auto simp: diskShortfall_def Let_def)
next
  case False
  have f: "uint free < 2 ^ 63" using False sint_below [of required] by linarith
  have "\<not> free > maxInt64" using f by (simp add: word_less_def maxInt64_uint)
  moreover have pos: "0 < sint required" using False uint_ge_0 [of free] by linarith
  ultimately have d: "diskShortfall free required = Some (required - free)"
    using False f by (simp add: diskShortfall_def word_sle_eq sint_small)
  have "required - free = word_of_int (sint required - uint free)" by (simp add: wi_hom_sub [symmetric])
  moreover have "sint (word_of_int (sint required - uint free) :: 64 word) = signed_take_bit 63 (sint required - uint free)"
    using sint_sbintrunc' [of "sint required - uint free", where 'a = 64] by (simp del: of_int_diff)
  then have "sint (word_of_int (sint required - uint free) :: 64 word) = sint required - uint free"
    using False sint_below [of required] uint_ge_0 [of free]
    by (subst signed_take_bit_int_eq_self [symmetric, of 63]) linarith+
  ultimately show ?thesis using False d by simp
qed

text \<open>What a machine lacks: every architecture asked for that it neither is nor accepts.\<close>

lemma missingForeignArchs_exact:
  "sorted (missingForeignArchs required enabled native) \<and> distinct (missingForeignArchs required enabled native) \<and>
   set (missingForeignArchs required enabled native) =
     trim_space ` set required - trim_space ` set (native # enabled) - {''''}"
  by (auto simp: missingForeignArchs_def Let_def)

lemma group_digits_filter: "CHR '','' \<notin> set s \<Longrightarrow> filter (\<lambda>c. c \<noteq> CHR '','') (group_digits s) = s"
  by (induction s) auto

text \<open>A pool without problems holds a regular file for every package.\<close>

lemma missingPoolFiles_Nil:
  "missingPoolFiles links tree pkgs = [] \<longleftrightarrow>
     (\<forall>p \<in> set pkgs. pkg_Filename p \<noteq> '''' \<and> filepath_IsLocal (pkg_Filename p) \<and>
        Option.bind (repo_lookup tree (pkg_Filename p)) (stat_regular links) = Some True)"
proof -
  have "pool_problem links tree p = [] \<longleftrightarrow> pkg_Filename p \<noteq> '''' \<and> filepath_IsLocal (pkg_Filename p) \<and>
      Option.bind (repo_lookup tree (pkg_Filename p)) (stat_regular links) = Some True" for p
    by (auto simp: pool_problem_def Let_def split: option.splits if_splits)
  then show ?thesis by (simp add: missingPoolFiles_def)
qed

end
