(* ===== verification/Install.thy ===== *)
theory Install
  imports Install_Plan Verify Dferr Go_Rune
begin

text \<open>
  The run of an installation, \<^verbatim>\<open>src/core/install/runner.go\<close>, with the processes it starts (\<^verbatim>\<open>exec.go\<close>), the private view of
  apt it builds (\<^verbatim>\<open>privateroot.go\<close>) and the log it keeps (\<^verbatim>\<open>evidencelog.go\<close>). A run is a function on an \<open>exec\<close>: the
  report so far, the captured output, and the trace of everything that was attempted outside the process, in order. The
  machine answers through the record \<open>install_world\<close>; what a process prints and how it exits may depend on all that
  happened before. The bundle does not change while a run lasts.
\<close>

section \<open>exec.go\<close>

text \<open>\<^verbatim>\<open>failureLineRE\<close>: \<^verbatim>\<open>^(?:E:|dpkg(?:-[a-z]+)?:)\<close>.\<close>

definition failureLine :: "string \<Rightarrow> bool" where
  "failureLine s \<longleftrightarrow>
     has_prefix s ''E:'' \<or> has_prefix s ''dpkg:'' \<or>
     has_prefix s ''dpkg-'' \<and>
       (let name = takeWhile is_lower_byte (drop 5 s) in name \<noteq> '''' \<and> has_prefix (drop (5 + length name) s) '':'')"

definition maxDetailLines :: nat where "maxDetailLines = 6"
definition maxDetailBytes :: nat where "maxDetailBytes = 600"

fun detail_line :: "string \<Rightarrow> bool \<times> string list \<Rightarrow> bool \<times> string list" where
  "detail_line raw (inFailure, kept) =
     (let trimmed = trim_space raw
      in if trimmed = '''' then (False, kept)
         else if failureLine trimmed then (True, kept @ [trimmed])
         else if inFailure \<and> (has_prefix raw '' '' \<or> has_prefix raw [CHR 0x09]) then (True, kept @ [trimmed])
         else (False, kept))"

definition last_lines :: "string list \<Rightarrow> string list" where
  "last_lines ls = rev (take maxDetailLines (filter (\<lambda>l. l \<noteq> '''') (map trim_space (rev ls))))"

definition elide :: "string list \<Rightarrow> string list" where
  "elide kept = (if length kept > maxDetailLines then take (maxDetailLines - 1) kept @ [''...'', last kept] else kept)"

primrec rune_cut :: "string \<Rightarrow> nat \<Rightarrow> nat" where
  "rune_cut s 0 = 0"
| "rune_cut s (Suc n) = (if cont_byte (s ! Suc n) then rune_cut s n else Suc n)"

definition failureDetail :: "string \<Rightarrow> string" where
  "failureDetail b =
     (let ls = split_on newline (replace_crlf_lines b);
          found = snd (fold detail_line ls (False, []));
          kept = (if found = [] then last_lines ls else found)
      in if kept = [] then ''''
         else
           let detail = join_with ''; '' (elide kept)
           in if length detail > maxDetailBytes then take (rune_cut detail (maxDetailBytes - 3)) detail @ ''...'' else detail)"

text \<open>\<^verbatim>\<open>filepath.Base\<close>.\<close>

definition filepath_Base :: "path \<Rightarrow> string" where
  "filepath_Base p =
     (if p = '''' then ''.''
      else
        let q = rev (dropWhile (\<lambda>c. c = slash) (rev p))
        in if q = '''' then [slash]
           else case last_index_byte slash q of None \<Rightarrow> q | Some i \<Rightarrow> drop (Suc i) q)"

text \<open>What the operating system says of a process: its exit code, or why it was not run; and what it printed.\<close>

datatype proc_end = Exited int | NotRun string

record process =
  pc_end :: proc_end
  pc_output :: string

definition process_error :: "path \<Rightarrow> process \<Rightarrow> string option" where
  "process_error path p =
     (case pc_end p of
        Exited code \<Rightarrow>
          if code = 0 then None
          else
            let detail = failureDetail (pc_output p); head = filepath_Base path @ '' exited '' @ format_int code
            in Some (if detail \<noteq> '''' then head @ '': '' @ detail else head)
      | NotRun msg \<Rightarrow> Some (''run '' @ filepath_Base path @ '': '' @ msg))"

fun setEnv :: "string list \<Rightarrow> string \<Rightarrow> string \<Rightarrow> string list" where
  "setEnv [] key val = [key @ ''='' @ val]"
| "setEnv (kv # env) key val =
     (if has_prefix kv (key @ ''='') then (key @ ''='' @ val) # env else kv # setEnv env key val)"

definition buildEnv :: "string list \<Rightarrow> bool \<Rightarrow> string list" where
  "buildEnv environ fast =
     (let env = setEnv (setEnv (setEnv environ ''LC_ALL'' ''C'') ''LANG'' ''C'') ''LANGUAGE'' ''C''
      in if fast then setEnv env ''DEBIAN_FRONTEND'' ''noninteractive'' else env)"

section \<open>iface.go and api.go\<close>

record install_options =
  io_Verify :: verify_options
  io_Upgrade :: bool
  io_All :: bool
  io_Only :: "string list"
  io_KeepSource :: bool
  io_Fast :: bool
  io_Dpkg :: bool
  io_Yes :: bool
  io_EvidencePath :: path

datatype install_warning =
    WarnCodename string string | WarnNoOrigin | WarnAssumedBase string | WarnNoQuery string | WarnDivergence string
  | WarnUnusable string | WarnKeepDpkg | WarnRawDpkg | WarnNoUpgrades | WarnPersist string | WarnStandingTrust path path
  | WarnEvidence string

record install_report =
  ir_BundlePath :: path
  ir_BundleID :: string
  ir_Verify :: "report option"
  ir_Applied :: bool
  ir_OK :: bool
  ir_ToInstall :: "string list"
  ir_ToUpgrade :: "string list"
  ir_ToRemove :: "string list"
  ir_AlreadyCurrent :: int
  ir_TargetExpected :: "lock_target option"
  ir_TargetActual :: "lock_target option"
  ir_BaseDivergence :: "base_divergence option"
  ir_Warnings :: "install_warning list"
  ir_Problems :: "install_problem list"
  ir_AptOutputDigest :: string

record install_deps =
  dp_AptPath :: path
  dp_DpkgPath :: path
  dp_DpkgQueryPath :: path
  dp_Root :: path

definition install_New :: "install_deps \<Rightarrow> install_deps" where
  "install_New deps =
     (let deps = (if dp_AptPath deps = '''' then deps\<lparr>dp_AptPath := ''apt-get''\<rparr> else deps);
          deps = (if dp_DpkgPath deps = '''' then deps\<lparr>dp_DpkgPath := ''dpkg''\<rparr> else deps)
      in if dp_DpkgQueryPath deps = '''' then deps\<lparr>dp_DpkgQueryPath := ''dpkg-query''\<rparr> else deps)"

definition effectiveRoot :: "install_deps \<Rightarrow> path" where
  "effectiveRoot deps = (if dp_Root deps \<noteq> '''' then dp_Root deps else ''/'')"

section \<open>A run\<close>

text \<open>What a run attempts outside its own process.\<close>

datatype effect =
    Ran "string list" "string list"
  | MadeTemp path
  | MadeDir path
  | WroteFile path string
  | RemovedAll path
  | AppendedLog path install_report
  | Emitted string install_report

text \<open>
  The machine: the bundle a path leads to with its resolved root, \<^verbatim>\<open>filepath.Abs\<close>, \<^verbatim>\<open>os.Stat\<close> (an error, or whether it is
  a directory), \<^verbatim>\<open>exec.LookPath\<close> (an error), processes, readable files, permissions, free bytes, failing file operations,
  the temporary directory, the terminal, the environment, and the codec of \<^verbatim>\<open>snapshot.json\<close>.
\<close>

record install_world =
  iw_bundle :: "path \<Rightarrow> (path \<times> entry) option"
  iw_links :: "entry \<Rightarrow> bool"
  iw_Abs :: "path \<Rightarrow> path option"
  iw_Stat :: "path \<Rightarrow> string + bool"
  iw_LookPath :: "string \<Rightarrow> string option"
  iw_run :: "effect list \<Rightarrow> string list \<Rightarrow> string list \<Rightarrow> process"
  iw_ReadFile :: "path \<Rightarrow> string option"
  iw_modes :: permissions
  iw_diskFree :: "path \<Rightarrow> 64 word option"
  iw_fault :: "effect list \<Rightarrow> effect \<Rightarrow> string option"
  iw_MkdirTemp :: "string + path"
  iw_terminal :: bool
  iw_environ :: "string list"
  iw_getenv :: "string \<Rightarrow> string"
  iw_home :: "string option"
  iw_TempDir :: path
  iw_origin :: "string \<Rightarrow> bundle_origin option"
  iw_locks :: lock_codec
  iw_sha256 :: hasher
  iw_fold :: "nat \<Rightarrow> nat"

record exec =
  ex_report :: install_report
  ex_output :: string
  ex_trace :: "effect list"
  ex_root :: "path option"

datatype load_failure = LockLoad load_error | LockInvalid lock_error

datatype install_msg =
    MsgWhitespace | MsgOpenBundle | MsgNotDirectory | MsgSkipDigests | MsgVerifier | MsgVerifierUnclassified | MsgUnverified
  | MsgLock load_failure | MsgDpkg string | MsgApt string | MsgArchQuery string | MsgArch string string
  | MsgForeignQuery string | MsgForeign "string list" "string list" string | MsgKeepSource keep_problem
  | MsgSelect select_error | MsgPrivateRoot string | MsgUpdate string | MsgProblems "install_problem list"
  | MsgConfirm | MsgApply string

type_synonym install_error = "err_class \<times> install_msg"

text \<open>A step returns a value or ends the run, as \<^verbatim>\<open>return finish(err)\<close> does; \<^const>\<open>None\<close> is \<^verbatim>\<open>finish(nil)\<close>.\<close>

type_synonym 'a step = "exec \<Rightarrow> (install_error option + 'a) \<times> exec"

definition give :: "'a \<Rightarrow> 'a step" where "give x s = (Inr x, s)"
definition finish :: "install_error option \<Rightarrow> 'a step" where "finish e s = (Inl e, s)"

definition andThen :: "'a step \<Rightarrow> ('a \<Rightarrow> 'b step) \<Rightarrow> 'b step" where
  "andThen m f s = (case m s of (Inl e, s') \<Rightarrow> (Inl e, s') | (Inr x, s') \<Rightarrow> f x s')"

definition on_report :: "(install_report \<Rightarrow> install_report) \<Rightarrow> unit step" where
  "on_report f s = (Inr (), s\<lparr>ex_report := f (ex_report s)\<rparr>)"

definition get_report :: "install_report step" where "get_report s = (Inr (ex_report s), s)"

definition warn :: "install_warning \<Rightarrow> unit step" where
  "warn w = on_report (\<lambda>r. r\<lparr>ir_Warnings := ir_Warnings r @ [w]\<rparr>)"

definition trouble :: "install_problem list \<Rightarrow> unit step" where
  "trouble ps = on_report (\<lambda>r. r\<lparr>ir_Problems := ir_Problems r @ ps\<rparr>)"

text \<open>A file operation: its error, if it fails.\<close>

definition perform :: "install_world \<Rightarrow> effect \<Rightarrow> string option step" where
  "perform w e s = (Inr (iw_fault w (ex_trace s) e), s\<lparr>ex_trace := ex_trace s @ [e]\<rparr>)"

text \<open>\<^verbatim>\<open>runProcess\<close> followed by \<^verbatim>\<open>record\<close>: the output and the error. The callback of the caller is left out.\<close>

definition runProcess :: "install_world \<Rightarrow> path \<Rightarrow> string list \<Rightarrow> bool \<Rightarrow> (string \<times> string option) step" where
  "runProcess w path args fast s =
     (let env = buildEnv (iw_environ w) fast; p = iw_run w (ex_trace s) (path # args) env
      in (Inr (pc_output p, process_error path p),
          s\<lparr>ex_trace := ex_trace s @ [Ran (path # args) env], ex_output := ex_output s @ pc_output p\<rparr>))"

definition digestSoFar :: "install_world \<Rightarrow> unit step" where
  "digestSoFar w s =
     (Inr (), if ex_output s = '''' then s else s\<lparr>ex_report := (ex_report s)\<lparr>ir_AptOutputDigest := iw_sha256 w (ex_output s)\<rparr>\<rparr>)"

definition emit :: "install_world \<Rightarrow> string \<Rightarrow> unit step" where
  "emit w kind s = (Inr (), s\<lparr>ex_trace := ex_trace s @ [Emitted kind (ex_report s)]\<rparr>)"

definition TypeInstallPlan :: string where "TypeInstallPlan = ''install.plan''"
definition TypeInstallResult :: string where "TypeInstallResult = ''install.result''"

section \<open>runner.go: verification and the machine\<close>

text \<open>A verifier: its report and its error, which may carry a class of its own.\<close>

datatype verifier_fault = Classified err_class | Unclassified

type_synonym install_verifier = "path \<Rightarrow> verify_options \<Rightarrow> report option \<times> verifier_fault option"

definition loadLock :: "lock_codec \<Rightarrow> entry \<Rightarrow> load_failure + lock_doc" where
  "loadLock cd tree =
     (case tree_lock cd tree of
        Inl e \<Rightarrow> Inl (LockLoad e)
      | Inr lk \<Rightarrow> (case lock_Validate (Some lk) of Some e \<Rightarrow> Inl (LockInvalid e) | None \<Rightarrow> Inr lk))"

text \<open>What is read below a bundle directory.\<close>

definition bundle_tree :: "install_world \<Rightarrow> path \<Rightarrow> entry" where
  "bundle_tree w dir = (case iw_bundle w dir of None \<Rightarrow> Dir None [] | Some (_, tree) \<Rightarrow> tree)"

definition resolveBundleDir :: "install_world \<Rightarrow> path \<Rightarrow> install_msg + path" where
  "resolveBundleDir w path =
     (case iw_bundle w path of
        None \<Rightarrow> Inl MsgOpenBundle
      | Some (_, e) \<Rightarrow> if is_dir e then Inr path else Inl MsgNotDirectory)"

text \<open>The beginning of \<^verbatim>\<open>execute\<close>, up to the lock.\<close>

definition open_verified ::
    "install_world \<Rightarrow> install_verifier \<Rightarrow> path \<Rightarrow> install_options \<Rightarrow> (path \<times> report \<times> lock_doc) step" where
  "open_verified w verifier bundlePath opts =
     (if list_ex (\<lambda>c. c = CHR '' '' \<or> c = CHR 0x09 \<or> c = newline) bundlePath then finish (Some (Usage, MsgWhitespace))
      else case resolveBundleDir w bundlePath of
        Inl msg \<Rightarrow> finish (Some (Usage, msg))
      | Inr given \<Rightarrow>
          let bundleDir = (case iw_Abs w given of Some a \<Rightarrow> a | None \<Rightarrow> given) in
          if vo_SkipFileDigests (io_Verify opts) then finish (Some (Usage, MsgSkipDigests))
          else
            let (vrep, verr) = verifier bundleDir (io_Verify opts) in
            andThen (on_report (\<lambda>r. r\<lparr>ir_Verify := vrep, ir_BundleID := (case vrep of None \<Rightarrow> '''' | Some v \<Rightarrow> vr_BundleID v)\<rparr>)) (\<lambda>_.
              case verr of
                Some (Classified c) \<Rightarrow> finish (Some (c, MsgVerifier))
              | Some Unclassified \<Rightarrow> finish (Some (Verification, MsgVerifierUnclassified))
              | None \<Rightarrow>
                  (case vrep of
                     None \<Rightarrow> finish (Some (Verification, MsgUnverified))
                   | Some v \<Rightarrow>
                       if \<not> vr_OK v then finish (Some (Verification, MsgUnverified))
                       else case loadLock (iw_locks w) (bundle_tree w bundleDir) of
                         Inl e \<Rightarrow> finish (Some (Usage, MsgLock e))
                       | Inr lk \<Rightarrow>
                           andThen (on_report (\<lambda>r. r\<lparr>ir_TargetExpected := Some (lk_Target lk)\<rparr>)) (\<lambda>_. give (bundleDir, v, lk)))))"

definition lookExecutable :: "install_world \<Rightarrow> path \<Rightarrow> string option" where
  "lookExecutable w path =
     (if trim_space path = '''' then Some ''no path configured''
      else if slash \<in> set path then
        (case iw_Stat w path of Inl msg \<Rightarrow> Some msg | Inr dir \<Rightarrow> if dir then Some (path @ '' is a directory'') else None)
      else iw_LookPath w path)"

definition find_tools :: "install_world \<Rightarrow> install_deps \<Rightarrow> bool \<Rightarrow> unit step" where
  "find_tools w deps dpkg =
     (case lookExecutable w (dp_DpkgPath deps) of
        Some e \<Rightarrow> finish (Some (Environment, MsgDpkg e))
      | None \<Rightarrow>
          if dpkg then give ()
          else case lookExecutable w (dp_AptPath deps) of
            Some e \<Rightarrow> finish (Some (Environment, MsgApt e))
          | None \<Rightarrow> give ())"

record machine =
  mc_arch :: string
  mc_foreign :: "string list"
  mc_foreignErr :: "string option"
  mc_release :: os_release

definition query_machine :: "install_world \<Rightarrow> install_deps \<Rightarrow> machine step" where
  "query_machine w deps =
     andThen (runProcess w (dp_DpkgPath deps) [''--print-architecture''] False) (\<lambda>(archOut, archErr).
       case archErr of
         Some e \<Rightarrow> finish (Some (Environment, MsgArchQuery e))
       | None \<Rightarrow>
           andThen (runProcess w (dp_DpkgPath deps) [''--print-foreign-architectures''] False) (\<lambda>(foreignOut, foreignErr).
             let actualArch = trim_space archOut;
                 actualForeign = (case foreignErr of None \<Rightarrow> parseForeignArchs foreignOut | Some _ \<Rightarrow> []);
                 rel = readOSRelease (iw_ReadFile w (filepath_Join [effectiveRoot deps, ''etc'', ''os-release'']))
             in andThen (on_report (\<lambda>r. r\<lparr>ir_TargetActual := Some \<lparr>tg_DistroID = or_ID rel, tg_VersionID = or_VersionID rel,
                    tg_Codename = or_VersionCodename rel, tg_Arch = actualArch, tg_ForeignArchs = actualForeign,
                    tg_APTVersion = '''', tg_DpkgVersion = ''''\<rparr>\<rparr>)) (\<lambda>_.
                  give \<lparr>mc_arch = actualArch, mc_foreign = actualForeign, mc_foreignErr = foreignErr, mc_release = rel\<rparr>)))"

definition requiredForeign :: "lock_doc \<Rightarrow> report \<Rightarrow> string list" where
  "requiredForeign lk vrep =
     (case vr_Target vrep of
        None \<Rightarrow> tg_ForeignArchs (lk_Target lk)
      | Some t \<Rightarrow>
          if mt_ForeignArchs t \<noteq> [] then mergeSortedUnique (tg_ForeignArchs (lk_Target lk)) (mt_ForeignArchs t)
          else tg_ForeignArchs (lk_Target lk))"

definition check_target :: "install_world \<Rightarrow> lock_doc \<Rightarrow> report \<Rightarrow> machine \<Rightarrow> unit step" where
  "check_target w lk vrep mc =
     (let want = tg_Arch (lk_Target lk); required = requiredForeign lk vrep;
          missing = missingForeignArchs required (mc_foreign mc) (mc_arch mc);
          codename = tg_Codename (lk_Target lk); here = or_VersionCodename (mc_release mc)
      in if want \<noteq> '''' \<and> mc_arch mc \<noteq> '''' \<and> mc_arch mc \<noteq> want
         then andThen (trouble [ProbArch want (mc_arch mc)]) (\<lambda>_. finish (Some (TargetMismatch, MsgArch want (mc_arch mc))))
         else if required \<noteq> [] \<and> mc_foreignErr mc \<noteq> None
         then finish (Some (Environment, MsgForeignQuery (the (mc_foreignErr mc))))
         else if missing \<noteq> []
         then andThen (trouble [ProbForeign missing (mc_foreign mc)]) (\<lambda>_.
           finish (Some (TargetMismatch, MsgForeign missing (mc_foreign mc) (addArchitectureCommand missing))))
         else if codename \<noteq> '''' \<and> here \<noteq> '''' \<and> \<not> EqualFold (iw_fold w) codename here then warn (WarnCodename codename here)
         else give ())"

definition dpkgInstalledQueryArgs :: "string list" where
  "dpkgInstalledQueryArgs = [''-W'', ''--showformat=${Package}:${Architecture} ${Status}'' @ [CHR 0x5C, CHR ''n'']]"

definition readBundleSnapshotDoc :: "install_world \<Rightarrow> entry \<Rightarrow> bundle_origin option" where
  "readBundleSnapshotDoc w tree =
     (case root_read tree snapshotDocumentName of ReadOK raw \<Rightarrow> iw_origin w raw | _ \<Rightarrow> None)"

definition noteBaseDivergence :: "install_world \<Rightarrow> install_deps \<Rightarrow> entry \<Rightarrow> unit step" where
  "noteBaseDivergence w deps tree =
     (case readBundleSnapshotDoc w tree of
        None \<Rightarrow> warn WarnNoOrigin
      | Some origin \<Rightarrow>
          if bo_Kind origin \<noteq> originSynthesized then give ()
          else
            andThen (warn (WarnAssumedBase (bo_BaseID origin))) (\<lambda>_.
            andThen (runProcess w (dp_DpkgQueryPath deps) dpkgInstalledQueryArgs False) (\<lambda>(out, qerr).
              case qerr of
                Some e \<Rightarrow> warn (WarnNoQuery e)
              | None \<Rightarrow>
                  let (d, unusable) = compareAssumedInstalled origin (parseDpkgInstalledSet out) in
                  andThen (on_report (\<lambda>r. r\<lparr>ir_BaseDivergence := Some d\<rparr>)) (\<lambda>_.
                  andThen (warn (WarnDivergence (divergenceSentence d))) (\<lambda>_.
                    if unusable > 0 then warn (WarnUnusable (groupThousands unusable)) else give ())))))"

definition check_keep_source :: "install_world \<Rightarrow> install_options \<Rightarrow> path \<Rightarrow> unit step" where
  "check_keep_source w opts repoDir =
     (if \<not> io_KeepSource opts then give ()
      else if io_Dpkg opts then warn WarnKeepDpkg
      else case keepSourceTrustProblem (iw_modes w) repoDir of
        Some problem \<Rightarrow> finish (Some (Usage, MsgKeepSource problem))
      | None \<Rightarrow> give ())"

section \<open>runner.go: the plan\<close>

text \<open>The order of \<^verbatim>\<open>pkgs\<close> after an upgrade; packages that agree in it keep the order they came in.\<close>

definition ident_less :: "lock_package \<Rightarrow> lock_package \<Rightarrow> bool" where
  "ident_less a b = (if pkg_Name a \<noteq> pkg_Name b then pkg_Name a < pkg_Name b else pkg_Arch a < pkg_Arch b)"

interpretation idents: keyed_less ident_less pkg_ident
  by unfold_locales (auto simp: ident_less_def pkg_ident_def less_prod_def')

definition select_request :: "install_options \<Rightarrow> lock_doc \<Rightarrow> (string list \<times> lock_package list) step" where
  "select_request opts lk =
     (if io_Dpkg opts then
        andThen (warn WarnRawDpkg) (\<lambda>_.
          give (sort (map (\<lambda>p. nameVersion (pkg_Name p) (pkg_Version p)) (lk_Packages lk)), lk_Packages lk))
      else case selectInstallSet (io_All opts) (io_Only opts) lk of
        Inl e \<Rightarrow> finish (Some (Usage, MsgSelect e))
      | Inr (names, pkgs) \<Rightarrow>
          if \<not> io_Upgrade opts then give (names, pkgs)
          else
            let (upNames, upPkgs, total) = selectUpgradeSet lk pkgs in
            andThen (if total = 0 then warn WarnNoUpgrades else give ()) (\<lambda>_.
              give (mergeSortedUnique names upNames, slice_stable ident_less (pkgs @ upPkgs))))"

text \<open>The sum of the sizes wraps as \<^verbatim>\<open>int64\<close> does.\<close>

definition required_bytes :: "lock_package list \<Rightarrow> 64 word" where
  "required_bytes pkgs = fold (\<lambda>p n. n + word_of_int (pkg_Size p)) pkgs 0"

definition disk_problem :: "install_world \<Rightarrow> path \<Rightarrow> lock_package list \<Rightarrow> install_problem list" where
  "disk_problem w root pkgs =
     (case iw_diskFree w root of
        None \<Rightarrow> []
      | Some free \<Rightarrow> (case diskShortfall free (required_bytes pkgs) of None \<Rightarrow> [] | Some n \<Rightarrow> [ProbDisk n]))"

definition sourcesFileName :: string where "sourcesFileName = ''debark-bundle.sources''"

text \<open>The loop over the directories of the private root.\<close>

fun make_dirs :: "install_world \<Rightarrow> path \<Rightarrow> path list \<Rightarrow> string option step" where
  "make_dirs w dir [] = give None"
| "make_dirs w dir (sub # subs) =
     andThen (perform w (MadeDir (filepath_Join [dir, sub]))) (\<lambda>e.
       case e of Some msg \<Rightarrow> give (Some (''create '' @ sub @ '': '' @ msg)) | None \<Rightarrow> make_dirs w dir subs)"

definition unwind :: "install_world \<Rightarrow> path \<Rightarrow> string \<Rightarrow> (string + private_root) step" where
  "unwind w dir msg = andThen (perform w (RemovedAll dir)) (\<lambda>_. give (Inl msg))"

definition newPrivateRoot :: "install_world \<Rightarrow> path \<Rightarrow> bool \<Rightarrow> (string + private_root) step" where
  "newPrivateRoot w repoDir fast =
     (case iw_Abs w repoDir of
        None \<Rightarrow> give (Inl ''resolve repository path'')
      | Some absRepo \<Rightarrow>
          (case iw_Stat w absRepo of
             Inl msg \<Rightarrow> give (Inl (''bundle repository: '' @ msg))
           | Inr isDir \<Rightarrow>
               if \<not> isDir then give (Inl (''bundle repository: '' @ absRepo @ '' is not a directory''))
               else case iw_MkdirTemp w of
                 Inl msg \<Rightarrow> give (Inl (''create private apt root: '' @ msg))
               | Inr dir \<Rightarrow>
                   andThen (perform w (MadeTemp dir)) (\<lambda>_.
                   andThen (make_dirs w dir [''sources.list.d'', ''preferences.d'', ''lists/partial'']) (\<lambda>e.
                     case e of
                       Some msg \<Rightarrow> unwind w dir msg
                     | None \<Rightarrow>
                         andThen (perform w (WroteFile (filepath_Join [dir, ''sources.list.d'', sourcesFileName]) (sourceStanza absRepo))) (\<lambda>e.
                           case e of
                             Some msg \<Rightarrow> unwind w dir (''write '' @ sourcesFileName @ '': '' @ msg)
                           | None \<Rightarrow> give (Inr \<lparr>pr_dir = dir, pr_repoDir = absRepo, pr_baseOpts = root_opts dir fast\<rparr>))))))"

text \<open>The deferred \<^verbatim>\<open>pr.Close()\<close>: the root to remove when the run ends.\<close>

definition defer_close :: "private_root \<Rightarrow> unit step" where
  "defer_close pr s = (Inr (), s\<lparr>ex_root := Some (pr_dir pr)\<rparr>)"

definition simulate :: "install_world \<Rightarrow> install_deps \<Rightarrow> bool \<Rightarrow> private_root \<Rightarrow> string list \<Rightarrow> unit step" where
  "simulate w deps fast pr names =
     (if names = [] then give ()
      else
        andThen (runProcess w (dp_AptPath deps) (AptArgs pr False @ [''-s'', ''install''] @ names) fast) (\<lambda>(out, simErr).
          let (toInstall, toUpgrade, toRemove, problems) = parseAptSim out;
              already = int (length names) - int (length toInstall) - int (length toUpgrade)
          in on_report (\<lambda>r. r\<lparr>ir_ToInstall := toInstall, ir_ToUpgrade := toUpgrade, ir_ToRemove := toRemove,
               ir_Problems := ir_Problems r @ map ProbApt problems @
                 (case simErr of Some e \<Rightarrow> if problems = [] then [ProbSimulate e] else [] | None \<Rightarrow> []),
               ir_AlreadyCurrent := (if already > 0 then already else ir_AlreadyCurrent r)\<rparr>)))"

definition apt_view :: "install_world \<Rightarrow> install_deps \<Rightarrow> bool \<Rightarrow> path \<Rightarrow> string list \<Rightarrow> private_root step" where
  "apt_view w deps fast repoDir names =
     andThen (newPrivateRoot w repoDir fast) (\<lambda>r.
       case r of
         Inl msg \<Rightarrow> finish (Some (Environment, MsgPrivateRoot msg))
       | Inr pr \<Rightarrow>
           andThen (defer_close pr) (\<lambda>_.
           andThen (runProcess w (dp_AptPath deps) (AptArgs pr False @ [''update'']) fast) (\<lambda>(_, uerr).
             case uerr of
               Some e \<Rightarrow> finish (Some (Environment, MsgUpdate e))
             | None \<Rightarrow> andThen (simulate w deps fast pr names) (\<lambda>_. give pr))))"

text \<open>What the plan hands to the installation.\<close>

record install_plan =
  ip_bundleDir :: path
  ip_lock :: lock_doc
  ip_names :: "string list"
  ip_pkgs :: "lock_package list"
  ip_poolProblems :: "install_problem list"
  ip_diskProblem :: bool
  ip_root :: "private_root option"

definition repo_dir :: "path \<Rightarrow> path" where
  "repo_dir bundleDir = filepath_Join [bundleDir, repoDirName]"

definition plan_packages ::
    "install_world \<Rightarrow> install_deps \<Rightarrow> install_options \<Rightarrow> path \<Rightarrow> lock_doc \<Rightarrow> install_plan step" where
  "plan_packages w deps opts bundleDir lk =
     andThen (select_request opts lk) (\<lambda>(names, pkgs).
       let pool = missingPoolFiles (iw_links w) (bundle_tree w bundleDir) pkgs;
           disk = disk_problem w (effectiveRoot deps) pkgs;
           plan = \<lparr>ip_bundleDir = bundleDir, ip_lock = lk, ip_names = names, ip_pkgs = pkgs, ip_poolProblems = pool,
                   ip_diskProblem = (disk \<noteq> []), ip_root = None\<rparr>
       in andThen (trouble (pool @ disk)) (\<lambda>_.
            if io_Dpkg opts then andThen (on_report (\<lambda>r. r\<lparr>ir_ToInstall := names\<rparr>)) (\<lambda>_. give plan)
            else andThen (apt_view w deps (io_Fast opts) (repo_dir bundleDir) names) (\<lambda>pr. give (plan\<lparr>ip_root := Some pr\<rparr>))))"

definition make_plan ::
    "install_world \<Rightarrow> install_verifier \<Rightarrow> install_deps \<Rightarrow> path \<Rightarrow> install_options \<Rightarrow> install_plan step" where
  "make_plan w verifier deps bundlePath opts =
     andThen (open_verified w verifier bundlePath opts) (\<lambda>(bundleDir, vrep, lk).
     andThen (find_tools w deps (io_Dpkg opts)) (\<lambda>_.
     andThen (query_machine w deps) (\<lambda>mc.
     andThen (check_target w lk vrep mc) (\<lambda>_.
     andThen (noteBaseDivergence w deps (bundle_tree w bundleDir)) (\<lambda>_.
     andThen (check_keep_source w opts (repo_dir bundleDir)) (\<lambda>_.
     andThen (plan_packages w deps opts bundleDir lk) (\<lambda>plan.
     andThen (on_report (\<lambda>r. r\<lparr>ir_OK := (ir_Problems r = [])\<rparr>)) (\<lambda>_.
     andThen (digestSoFar w) (\<lambda>_.
     andThen (emit w TypeInstallPlan) (\<lambda>_. give plan))))))))))"

section \<open>runner.go: the installation\<close>

definition requireConfirmation :: "install_world \<Rightarrow> install_options \<Rightarrow> bool" where
  "requireConfirmation w opts \<longleftrightarrow> io_Yes opts \<or> iw_terminal w"

definition applyApt ::
    "install_world \<Rightarrow> install_deps \<Rightarrow> install_options \<Rightarrow> private_root \<Rightarrow> string list \<Rightarrow> string option step" where
  "applyApt w deps opts pr names =
     (if names = [] then give None
      else
        andThen (runProcess w (dp_AptPath deps) (AptArgs pr (io_Yes opts) @ [''install''] @ names) (io_Fast opts)) (\<lambda>(_, err).
          give (map_option (\<lambda>e. ''apt-get install: '' @ e) err)))"

text \<open>
  \<^verbatim>\<open>poolDebFiles\<close>. No rune outside ASCII has one of the letters of the suffix as its lower case, so lowering the bytes
  decides the suffix as \<^verbatim>\<open>strings.ToLower\<close> does.
\<close>

definition base_name :: "path \<Rightarrow> string" where
  "base_name p = (case last_index_byte slash p of None \<Rightarrow> p | Some i \<Rightarrow> drop (Suc i) p)"

definition is_deb :: "path \<Rightarrow> bool" where
  "is_deb p \<longleftrightarrow> has_prefix (rev (to_lower (base_name p))) (rev ''.deb'')"

fun deb_events :: "walk_event list \<Rightarrow> string + path list" where
  "deb_events [] = Inr []"
| "deb_events (VisitErr p msg # evs) = Inl msg"
| "deb_events (Visit p e # evs) =
     (case deb_events evs of
        Inl msg \<Rightarrow> Inl msg
      | Inr out \<Rightarrow> Inr (if \<not> is_dir e \<and> is_deb p then p # out else out))"

definition poolDebFiles :: "path \<Rightarrow> entry \<Rightarrow> string + path list" where
  "poolDebFiles repoDir tree =
     (case tree_lookup tree [repoDirName, ''pool''] of
        None \<Rightarrow> Inl ''no such file or directory''
      | Some pool \<Rightarrow>
          (case deb_events (walk (filepath_Join [repoDir, ''pool'']) pool) of
             Inl msg \<Rightarrow> Inl msg
           | Inr files \<Rightarrow> Inr (sort files)))"

definition chunkSize :: nat where "chunkSize = 200"

function chunks :: "nat \<Rightarrow> 'a list \<Rightarrow> 'a list list" where
  "chunks n xs = (if xs = [] \<or> n = 0 then [] else take n xs # chunks n (drop n xs))"
  by pat_completeness auto
termination by (relation "measure (\<lambda>(n, xs). length xs)") auto

declare chunks.simps [simp del]

definition fastArgs :: "bool \<Rightarrow> string list" where
  "fastArgs fast = (if fast then [''--force-unsafe-io''] else [])"

fun unpack_chunks :: "install_world \<Rightarrow> path \<Rightarrow> bool \<Rightarrow> path list list \<Rightarrow> string option step" where
  "unpack_chunks w dpkg fast [] = give None"
| "unpack_chunks w dpkg fast (c # cs) =
     andThen (runProcess w dpkg (fastArgs fast @ [''--unpack''] @ c) fast) (\<lambda>(_, err).
       case err of Some e \<Rightarrow> give (Some (''dpkg --unpack: '' @ e)) | None \<Rightarrow> unpack_chunks w dpkg fast cs)"

definition applyDpkg :: "install_world \<Rightarrow> install_deps \<Rightarrow> install_options \<Rightarrow> path \<Rightarrow> string option step" where
  "applyDpkg w deps opts bundleDir =
     (case poolDebFiles (repo_dir bundleDir) (bundle_tree w bundleDir) of
        Inl msg \<Rightarrow> give (Some (''list pool files: '' @ msg))
      | Inr [] \<Rightarrow> give (Some (''no .deb files found under '' @ filepath_Join [repo_dir bundleDir, ''pool'']))
      | Inr files \<Rightarrow>
          andThen (unpack_chunks w (dp_DpkgPath deps) (io_Fast opts) (chunks chunkSize files)) (\<lambda>e.
            case e of
              Some msg \<Rightarrow> give (Some msg)
            | None \<Rightarrow>
                andThen (runProcess w (dp_DpkgPath deps) (fastArgs (io_Fast opts) @ [''--configure'', ''-a'']) (io_Fast opts)) (\<lambda>(_, err).
                  give (map_option (\<lambda>m. ''dpkg --configure -a: '' @ m) err))))"

text \<open>\<^verbatim>\<open>PersistSource\<close>; the private file is read back before it is copied.\<close>

definition PersistSource :: "install_world \<Rightarrow> private_root \<Rightarrow> path \<Rightarrow> (string + path) step" where
  "PersistSource w pr root =
     (case iw_ReadFile w (filepath_Join [pr_dir pr, ''sources.list.d'', sourcesFileName]) of
        None \<Rightarrow> give (Inl ''read private .sources'')
      | Some content \<Rightarrow>
          let destDir = filepath_Join [root, ''etc'', ''apt'', ''sources.list.d'']; dest = filepath_Join [destDir, sourcesFileName] in
          andThen (perform w (MadeDir destDir)) (\<lambda>e.
            case e of
              Some msg \<Rightarrow> give (Inl (''create '' @ destDir @ '': '' @ msg))
            | None \<Rightarrow>
                andThen (perform w (WroteFile dest content)) (\<lambda>e.
                  case e of Some msg \<Rightarrow> give (Inl (''write '' @ dest @ '': '' @ msg)) | None \<Rightarrow> give (Inr dest))))"

definition keep_source :: "install_world \<Rightarrow> private_root \<Rightarrow> path \<Rightarrow> unit step" where
  "keep_source w pr root =
     andThen (PersistSource w pr root) (\<lambda>r.
       case r of Inl e \<Rightarrow> warn (WarnPersist e) | Inr dest \<Rightarrow> warn (WarnStandingTrust dest (pr_repoDir pr)))"

definition DefaultEvidencePath :: "install_world \<Rightarrow> path" where
  "DefaultEvidencePath w =
     (if iw_getenv w ''DEBARK_STATE_DIR'' \<noteq> '''' then filepath_Join [iw_getenv w ''DEBARK_STATE_DIR'', ''install-log.ndjson'']
      else
        let home = (case iw_home w of None \<Rightarrow> iw_TempDir w | Some h \<Rightarrow> if h = '''' then iw_TempDir w else h);
            base = (if iw_getenv w ''XDG_STATE_HOME'' = '''' then filepath_Join [home, ''.local'', ''state''] else iw_getenv w ''XDG_STATE_HOME'')
        in filepath_Join [base, ''debark'', ''install-log.ndjson''])"

text \<open>\<^verbatim>\<open>appendEvidenceLog\<close>: the directory is made, then one record is appended.\<close>

definition appendEvidenceLog :: "install_world \<Rightarrow> path \<Rightarrow> string option step" where
  "appendEvidenceLog w path =
     andThen (if filepath_Dir path = ''.'' then give None else perform w (MadeDir (filepath_Dir path))) (\<lambda>e.
       case e of
         Some msg \<Rightarrow> give (Some (''create '' @ filepath_Dir path @ '': '' @ msg))
       | None \<Rightarrow> andThen get_report (\<lambda>r. perform w (AppendedLog path r)))"

definition evidence_path :: "install_world \<Rightarrow> install_options \<Rightarrow> path" where
  "evidence_path w opts = (if io_EvidencePath opts = '''' then DefaultEvidencePath w else io_EvidencePath opts)"

definition recordEvidence :: "install_world \<Rightarrow> install_options \<Rightarrow> unit step" where
  "recordEvidence w opts =
     andThen (appendEvidenceLog w (evidence_path w opts)) (\<lambda>e.
       case e of Some msg \<Rightarrow> warn (WarnEvidence msg) | None \<Rightarrow> give ())"

definition refusal_class :: "install_plan \<Rightarrow> err_class" where
  "refusal_class plan =
     (if ip_poolProblems plan \<noteq> [] then Verification else if ip_diskProblem plan then Environment else Resolution)"

text \<open>The mutating call, and what is kept of it.\<close>

definition install_packages :: "install_world \<Rightarrow> install_deps \<Rightarrow> install_options \<Rightarrow> install_plan \<Rightarrow> string option step" where
  "install_packages w deps opts plan =
     (case ip_root plan of
        None \<Rightarrow> applyDpkg w deps opts (ip_bundleDir plan)
      | Some pr \<Rightarrow>
          andThen (applyApt w deps opts pr (ip_names plan)) (\<lambda>err.
            if err = None \<and> io_KeepSource opts
            then andThen (keep_source w pr (effectiveRoot deps)) (\<lambda>_. give err) else give err))"

definition apply_plan :: "install_world \<Rightarrow> install_deps \<Rightarrow> install_options \<Rightarrow> install_plan \<Rightarrow> unit step" where
  "apply_plan w deps opts plan =
     andThen get_report (\<lambda>r.
       if \<not> ir_OK r then finish (Some (refusal_class plan, MsgProblems (ir_Problems r)))
       else if \<not> requireConfirmation w opts then finish (Some (Usage, MsgConfirm))
       else
         andThen (install_packages w deps opts plan) (\<lambda>err.
         andThen (on_report (\<lambda>r. r\<lparr>ir_Applied := True, ir_OK := (err = None),
           ir_Problems := ir_Problems r @ (case err of None \<Rightarrow> [] | Some e \<Rightarrow> [ProbApply e])\<rparr>)) (\<lambda>_.
         andThen (digestSoFar w) (\<lambda>_.
         andThen (emit w TypeInstallResult) (\<lambda>_.
         andThen (recordEvidence w opts) (\<lambda>_.
           finish (map_option (\<lambda>e. (Resolution, MsgApply e)) err)))))))"

definition zero_install_report :: "path \<Rightarrow> install_report" where
  "zero_install_report bundlePath =
     \<lparr>ir_BundlePath = bundlePath, ir_BundleID = '''', ir_Verify = None, ir_Applied = False, ir_OK = False, ir_ToInstall = [],
      ir_ToUpgrade = [], ir_ToRemove = [], ir_AlreadyCurrent = 0, ir_TargetExpected = None, ir_TargetActual = None,
      ir_BaseDivergence = None, ir_Warnings = [], ir_Problems = [], ir_AptOutputDigest = ''''\<rparr>"

definition run_steps ::
    "install_world \<Rightarrow> install_verifier \<Rightarrow> install_deps \<Rightarrow> path \<Rightarrow> install_options \<Rightarrow> bool \<Rightarrow> unit step" where
  "run_steps w verifier deps bundlePath opts applying =
     andThen (make_plan w verifier deps bundlePath opts) (\<lambda>plan.
       if \<not> applying then finish None else apply_plan w deps opts plan)"

text \<open>The deferred removal of the private root.\<close>

definition close_root :: "exec \<Rightarrow> effect list" where
  "close_root s = (case ex_root s of None \<Rightarrow> [] | Some dir \<Rightarrow> [RemovedAll dir])"

definition start_exec :: "path \<Rightarrow> exec" where
  "start_exec bundlePath = \<lparr>ex_report = zero_install_report bundlePath, ex_output = '''', ex_trace = [], ex_root = None\<rparr>"

text \<open>The result of a run: the report, the error, and the trace. The two time stamps of the report are left out.\<close>

definition execute ::
    "install_world \<Rightarrow> install_verifier \<Rightarrow> install_deps \<Rightarrow> path \<Rightarrow> install_options \<Rightarrow> bool \<Rightarrow>
      install_report \<times> install_error option \<times> effect list" where
  "execute w verifier deps bundlePath opts applying =
     (case run_steps w verifier deps bundlePath opts applying (start_exec bundlePath) of
        (r, s) \<Rightarrow> (ex_report s, (case r of Inl e \<Rightarrow> e | Inr _ \<Rightarrow> None), ex_trace s @ close_root s))"

definition install_Plan where "install_Plan w verifier deps bundlePath opts = execute w verifier deps bundlePath opts False"
definition install_Apply where "install_Apply w verifier deps bundlePath opts = execute w verifier deps bundlePath opts True"

section \<open>What steps leave behind\<close>

text \<open>
  A step \<^emph>\<open>emits\<close> only effects of a kind when it appends such effects to the trace and leaves the private root alone. The
  rules follow the combinators, so that a step is analysed by \<open>intro emits_intros\<close>.
\<close>

named_theorems emits_intros

definition emits :: "(effect \<Rightarrow> bool) \<Rightarrow> 'a step \<Rightarrow> bool" where
  "emits P m \<longleftrightarrow> (\<forall>s. ex_root (snd (m s)) = ex_root s \<and> (\<exists>ts. ex_trace (snd (m s)) = ex_trace s @ ts \<and> list_all P ts))"

lemma emitsD:
  assumes "emits P m" "m s = (r, s')"
  shows "ex_root s' = ex_root s" "\<exists>ts. ex_trace s' = ex_trace s @ ts \<and> list_all P ts"
  using assms unfolding emits_def by (metis snd_conv)+

lemma emits_mono: "emits P m \<Longrightarrow> (\<And>e. P e \<Longrightarrow> Q e) \<Longrightarrow> emits Q m"
  unfolding emits_def by (metis list.pred_mono_strong)

lemma emits_pure [emits_intros]:
  "emits P (give x)" "emits P (finish e)" "emits P (on_report f)" "emits P get_report" "emits P (warn v)" "emits P (trouble ps)"
  "emits P (digestSoFar w)"
  by (simp_all add: emits_def give_def finish_def on_report_def get_report_def warn_def trouble_def digestSoFar_def)

lemma emits_effect [emits_intros]:
  "P e \<Longrightarrow> emits P (perform w e)"
  "(\<And>env. P (Ran (path # args) env)) \<Longrightarrow> emits P (runProcess w path args fast)"
  "(\<And>r. P (Emitted kind r)) \<Longrightarrow> emits P (emit w kind)"
  by (simp_all add: emits_def perform_def runProcess_def emit_def Let_def)

lemma emits_andThen_result:
  assumes m: "emits P m" and f: "\<And>x s s'. m s = (Inr x, s') \<Longrightarrow> emits P (f x)"
  shows "emits P (andThen m f)"
  unfolding emits_def
proof
  fix s
  obtain r s' where ms: "m s = (r, s')" by fastforce
  obtain ts where ts: "ex_trace s' = ex_trace s @ ts" "list_all P ts" "ex_root s' = ex_root s" using emitsD [OF m ms] by blast
  show "ex_root (snd (andThen m f s)) = ex_root s \<and> (\<exists>ts. ex_trace (snd (andThen m f s)) = ex_trace s @ ts \<and> list_all P ts)"
  proof (cases r)
    case (Inl e)
    then show ?thesis using ms ts by (simp add: andThen_def)
  next
    case (Inr x)
    obtain us where "ex_trace (snd (f x s')) = ex_trace s' @ us" "list_all P us" "ex_root (snd (f x s')) = ex_root s'"
      using f [of s x s'] ms Inr unfolding emits_def by blast
    then show ?thesis using ms ts Inr by (simp add: andThen_def)
  qed
qed

lemma emits_andThen [emits_intros]: "emits P m \<Longrightarrow> (\<And>x. emits P (f x)) \<Longrightarrow> emits P (andThen m f)"
  by (rule emits_andThen_result)

lemma emits_cases [emits_intros]:
  "(b \<Longrightarrow> emits P m) \<Longrightarrow> (\<not> b \<Longrightarrow> emits P n) \<Longrightarrow> emits P (if b then m else n)"
  "(opt = None \<Longrightarrow> emits P m) \<Longrightarrow> (\<And>x. opt = Some x \<Longrightarrow> emits P (f x)) \<Longrightarrow> emits P (case opt of None \<Rightarrow> m | Some x \<Rightarrow> f x)"
  "(\<And>x. res = Inl x \<Longrightarrow> emits P (g x)) \<Longrightarrow> (\<And>y. res = Inr y \<Longrightarrow> emits P (h y)) \<Longrightarrow> emits P (case res of Inl x \<Rightarrow> g x | Inr y \<Rightarrow> h y)"
  "(\<And>x y. pair = (x, y) \<Longrightarrow> emits P (k x y)) \<Longrightarrow> emits P (case pair of (x, y) \<Rightarrow> k x y)"
  "(\<And>c. fault = Classified c \<Longrightarrow> emits P (l c)) \<Longrightarrow> (fault = Unclassified \<Longrightarrow> emits P m) \<Longrightarrow>
    emits P (case fault of Classified c \<Rightarrow> l c | Unclassified \<Rightarrow> m)"
  by (auto split: option.splits sum.splits prod.splits verifier_fault.splits)

text \<open>The queries a plan may make: none of them changes the machine, and those of apt see only the private root.\<close>

definition query :: "install_world \<Rightarrow> install_deps \<Rightarrow> string list \<Rightarrow> bool" where
  "query w deps argv \<longleftrightarrow>
     argv \<in> {[dp_DpkgPath deps, ''--print-architecture''], [dp_DpkgPath deps, ''--print-foreign-architectures''],
             dp_DpkgQueryPath deps # dpkgInstalledQueryArgs} \<or>
     (\<exists>dir fast. iw_MkdirTemp w = Inr dir \<and>
        (argv = dp_AptPath deps # root_opts dir fast @ [''update''] \<or>
         (\<exists>names. argv = dp_AptPath deps # root_opts dir fast @ [''-s'', ''install''] @ names)))"

text \<open>The effects of a plan: queries, and files below the temporary directory.\<close>

fun plan_effect :: "install_world \<Rightarrow> install_deps \<Rightarrow> effect \<Rightarrow> bool" where
  "plan_effect w deps (Ran argv env) = query w deps argv"
| "plan_effect w deps (MadeTemp p) = (iw_MkdirTemp w = Inr p)"
| "plan_effect w deps (MadeDir p) =
     (\<exists>dir sub. iw_MkdirTemp w = Inr dir \<and> sub \<in> {''sources.list.d'', ''preferences.d'', ''lists/partial''} \<and> p = filepath_Join [dir, sub])"
| "plan_effect w deps (WroteFile p content) =
     (\<exists>dir repo. iw_MkdirTemp w = Inr dir \<and> p = filepath_Join [dir, ''sources.list.d'', sourcesFileName] \<and> content = sourceStanza repo)"
| "plan_effect w deps (RemovedAll p) = (iw_MkdirTemp w = Inr p)"
| "plan_effect w deps (AppendedLog p r) = False"
| "plan_effect w deps (Emitted kind r) = True"

lemma open_verified_emits: "emits P (open_verified w verifier bundlePath opts)"
  unfolding open_verified_def Let_def
  by (intro emits_intros)

lemma preparation_emits [emits_intros]:
  "emits P (find_tools w deps dpkg)" "emits P (check_target w lk vrep mc)" "emits P (check_keep_source w opts repoDir)"
  "(\<And>argv env. query w deps argv \<Longrightarrow> P (Ran argv env)) \<Longrightarrow> emits P (query_machine w deps)"
  "(\<And>argv env. query w deps argv \<Longrightarrow> P (Ran argv env)) \<Longrightarrow> emits P (noteBaseDivergence w deps tree)"
  "emits P (select_request opts lk)"
proof -
  show "emits P (find_tools w deps dpkg)" unfolding find_tools_def by (intro emits_intros)
  show "emits P (check_target w lk vrep mc)" unfolding check_target_def Let_def by (intro emits_intros)
  show "emits P (check_keep_source w opts repoDir)" unfolding check_keep_source_def by (intro emits_intros)
  show "emits P (query_machine w deps)" if "\<And>argv env. query w deps argv \<Longrightarrow> P (Ran argv env)"
    unfolding query_machine_def Let_def by (intro emits_intros that) (simp_all add: query_def)
  show "emits P (noteBaseDivergence w deps tree)" if "\<And>argv env. query w deps argv \<Longrightarrow> P (Ran argv env)"
    unfolding noteBaseDivergence_def Let_def by (intro emits_intros that) (simp_all add: query_def)
  show "emits P (select_request opts lk)" unfolding select_request_def Let_def by (intro emits_intros)
qed

section \<open>The private root\<close>

lemma make_dirs_emits:
  "(\<And>sub. sub \<in> set subs \<Longrightarrow> P (MadeDir (filepath_Join [dir, sub]))) \<Longrightarrow> emits P (make_dirs w dir subs)"
  by (induction w dir subs rule: make_dirs.induct) (auto intro!: emits_intros)

lemma newPrivateRoot_emits: "emits (plan_effect w deps) (newPrivateRoot w repoDir fast)"
  unfolding newPrivateRoot_def unwind_def
  by (intro emits_intros make_dirs_emits) auto

lemma andThen_Inr: "andThen m f s = (Inr y, s'') \<longleftrightarrow> (\<exists>x s'. m s = (Inr x, s') \<and> f x s' = (Inr y, s''))"
  by (auto simp: andThen_def split: prod.splits sum.splits)

lemma andThen_Inl:
  "andThen m f s = (Inl e, s'') \<longleftrightarrow> m s = (Inl e, s'') \<or> (\<exists>x s'. m s = (Inr x, s') \<and> f x s' = (Inl e, s''))"
  by (auto simp: andThen_def split: prod.splits sum.splits)

lemmas step_simps = andThen_Inr andThen_Inl give_def finish_def perform_def

lemma make_dirs_Inl: "make_dirs w dir subs s \<noteq> (Inl e, s')"
  by (induction subs arbitrary: s) (auto simp: step_simps split: option.splits)

text \<open>A private root in the temporary directory, or a failure that removed what it had made.\<close>

lemma newPrivateRoot_cases:
  assumes "newPrivateRoot w repoDir fast s = (r, s')"
  shows "(\<exists>msg. r = Inr (Inl msg) \<and> s' = s) \<or>
    (\<exists>msg dir t. r = Inr (Inl msg) \<and> iw_MkdirTemp w = Inr dir \<and> ex_trace s' = t @ [RemovedAll dir]) \<or>
    (\<exists>pr. r = Inr (Inr pr) \<and> iw_MkdirTemp w = Inr (pr_dir pr) \<and> pr_baseOpts pr = root_opts (pr_dir pr) fast)"
  using assms make_dirs_Inl [of w]
  unfolding newPrivateRoot_def unwind_def
  by (auto simp: give_def perform_def andThen_def simp del: make_dirs.simps split: option.splits sum.splits if_splits prod.splits)

text \<open>An open root will be closed; a trace is tidy when the temporary directory it made is removed at its end.\<close>

definition opened :: "exec \<Rightarrow> bool" where
  "opened s \<longleftrightarrow> (\<forall>dir. MadeTemp dir \<in> set (ex_trace s) \<longrightarrow> ex_root s = Some dir)"

definition tidy :: "exec \<Rightarrow> bool" where
  "tidy s \<longleftrightarrow> (\<forall>dir. MadeTemp dir \<in> set (ex_trace s) \<longrightarrow> last (ex_trace s @ close_root s) = RemovedAll dir)"

lemma opened_tidy: "opened s \<Longrightarrow> tidy s"
  by (auto simp: opened_def tidy_def close_root_def)

section \<open>The plan\<close>

text \<open>A step from states with \<open>I\<close> goes on in \<open>Q\<close> or ends the run in \<open>E\<close>.\<close>

definition goes :: "(exec \<Rightarrow> bool) \<Rightarrow> 'a step \<Rightarrow> ('a \<Rightarrow> exec \<Rightarrow> bool) \<Rightarrow> (exec \<Rightarrow> bool) \<Rightarrow> bool" where
  "goes I m Q E \<longleftrightarrow> (\<forall>s r s'. I s \<longrightarrow> m s = (r, s') \<longrightarrow> (case r of Inl e \<Rightarrow> E s' | Inr x \<Rightarrow> Q x s'))"

lemma goes_andThen: "goes I m B E \<Longrightarrow> (\<And>x. goes (B x) (f x) Q E) \<Longrightarrow> goes I (andThen m f) Q E"
  unfolding goes_def
proof (intro allI impI)
  fix s r s'
  assume m: "\<forall>s r s'. I s \<longrightarrow> m s = (r, s') \<longrightarrow> (case r of Inl e \<Rightarrow> E s' | Inr x \<Rightarrow> B x s')"
    and f: "\<And>x. \<forall>s r s'. B x s \<longrightarrow> f x s = (r, s') \<longrightarrow> (case r of Inl e \<Rightarrow> E s' | Inr y \<Rightarrow> Q y s')"
    and I: "I s" and run: "andThen m f s = (r, s')"
  obtain q t where q: "m s = (q, t)" by fastforce
  have post: "case q of Inl e \<Rightarrow> E t | Inr x \<Rightarrow> B x t" using m I q by blast
  show "case r of Inl e \<Rightarrow> E s' | Inr y \<Rightarrow> Q y s'"
  proof (cases q)
    case (Inl e)
    then show ?thesis using run q post by (auto simp: andThen_def)
  next
    case (Inr x)
    then show ?thesis using run q post f [of x] by (auto simp: andThen_def)
  qed
qed

lemma goes_emits: "emits P m \<Longrightarrow> (\<And>s ts s'. I s \<Longrightarrow> list_all P ts \<Longrightarrow> ex_trace s' = ex_trace s @ ts \<Longrightarrow> ex_root s' = ex_root s \<Longrightarrow> I s') \<Longrightarrow>
    (\<And>s. I s \<Longrightarrow> E s) \<Longrightarrow> goes I m (\<lambda>_. I) E"
  unfolding goes_def
proof (intro allI impI)
  fix s r s'
  assume m: "emits P m" and I: "\<And>s ts s'. I s \<Longrightarrow> list_all P ts \<Longrightarrow> ex_trace s' = ex_trace s @ ts \<Longrightarrow> ex_root s' = ex_root s \<Longrightarrow> I s'"
    and E: "\<And>s. I s \<Longrightarrow> E s" and run: "I s" "m s = (r, s')"
  have "I s'" using I run(1) emitsD [OF m run(2)] by blast
  then show "case r of Inl e \<Rightarrow> E s' | Inr x \<Rightarrow> I s'" using E by (cases r) auto
qed

definition no_temp :: "effect \<Rightarrow> bool" where
  "no_temp e \<longleftrightarrow> (\<forall>dir. e \<noteq> MadeTemp dir)"

text \<open>Before the private root is made, after it, and when the run ends.\<close>

definition before_root :: "install_world \<Rightarrow> install_deps \<Rightarrow> exec \<Rightarrow> bool" where
  "before_root w deps s \<longleftrightarrow> list_all (plan_effect w deps) (ex_trace s) \<and> list_all no_temp (ex_trace s) \<and> ex_root s = None"

definition after_root :: "install_world \<Rightarrow> install_deps \<Rightarrow> exec \<Rightarrow> bool" where
  "after_root w deps s \<longleftrightarrow> list_all (plan_effect w deps) (ex_trace s) \<and> opened s \<and> list_all (plan_effect w deps) (close_root s)"

definition at_end :: "install_world \<Rightarrow> install_deps \<Rightarrow> exec \<Rightarrow> bool" where
  "at_end w deps s \<longleftrightarrow> list_all (plan_effect w deps) (ex_trace s @ close_root s) \<and> tidy s"

lemma root_states:
  "before_root w deps s \<Longrightarrow> after_root w deps s" "after_root w deps s \<Longrightarrow> at_end w deps s"
  by (auto simp: before_root_def after_root_def at_end_def opened_def no_temp_def list_all_iff close_root_def intro: opened_tidy)

lemma goes_before:
  "emits (\<lambda>e. plan_effect w deps e \<and> no_temp e) m \<Longrightarrow> goes (before_root w deps) m (\<lambda>_. before_root w deps) (at_end w deps)"
proof (erule goes_emits)
  show "before_root w deps s'" if "before_root w deps s" "list_all (\<lambda>e. plan_effect w deps e \<and> no_temp e) ts"
    "ex_trace s' = ex_trace s @ ts" "ex_root s' = ex_root s" for s ts s' using that by (auto simp: before_root_def list_all_iff)
qed (use root_states in blast)

lemma goes_after:
  "emits (\<lambda>e. plan_effect w deps e \<and> no_temp e) m \<Longrightarrow> goes (after_root w deps) m (\<lambda>_. after_root w deps) (at_end w deps)"
proof (erule goes_emits)
  show "after_root w deps s'" if "after_root w deps s" "list_all (\<lambda>e. plan_effect w deps e \<and> no_temp e) ts"
    "ex_trace s' = ex_trace s @ ts" "ex_root s' = ex_root s" for s ts s'
    using that by (auto simp: after_root_def opened_def no_temp_def list_all_iff close_root_def)
qed (use root_states in blast)

lemma goes_weaken: "goes I m Q E \<Longrightarrow> (\<And>x s. Q x s \<Longrightarrow> Q' x s) \<Longrightarrow> goes I m Q' E"
  unfolding goes_def by (fastforce split: sum.splits)

lemma newPrivateRoot_goes:
  "goes (before_root w deps) (andThen (newPrivateRoot w repoDir fast) (\<lambda>r.
     case r of Inl msg \<Rightarrow> finish (err msg) | Inr pr \<Rightarrow> andThen (defer_close pr) (\<lambda>_. give pr)))
   (\<lambda>pr s. after_root w deps s \<and> iw_MkdirTemp w = Inr (pr_dir pr) \<and> pr_baseOpts pr = root_opts (pr_dir pr) fast) (at_end w deps)"
  unfolding goes_def
proof (intro allI impI)
  fix s r s'
  assume I: "before_root w deps s" and run: "andThen (newPrivateRoot w repoDir fast) (\<lambda>r.
     case r of Inl msg \<Rightarrow> finish (err msg) | Inr pr \<Rightarrow> andThen (defer_close pr) (\<lambda>_. give pr)) s = (r, s')"
  obtain q t where q: "newPrivateRoot w repoDir fast s = (q, t)" by fastforce
  have t: "list_all (plan_effect w deps) (ex_trace t)" "ex_root t = None"
    using emitsD [OF newPrivateRoot_emits [of w deps] q] I by (auto simp: before_root_def)
  have same: "dir = dir'" if "MadeTemp dir \<in> set (ex_trace t)" "iw_MkdirTemp w = Inr dir'" for dir dir'
    using that t(1) by (auto simp: list_all_iff)
  from newPrivateRoot_cases [OF q]
  show "case r of Inl e \<Rightarrow> at_end w deps s' | Inr pr \<Rightarrow> after_root w deps s' \<and> iw_MkdirTemp w = Inr (pr_dir pr) \<and> pr_baseOpts pr = root_opts (pr_dir pr) fast"
  proof (elim disjE exE conjE)
    fix msg assume "q = Inr (Inl msg)" "t = s"
    then show ?thesis using run q I root_states by (auto simp: andThen_def finish_def)
  next
    fix msg dir u assume u: "q = Inr (Inl msg)" "iw_MkdirTemp w = Inr dir" "ex_trace t = u @ [RemovedAll dir]"
    then have "at_end w deps t" using t same by (auto simp: at_end_def tidy_def close_root_def)
    then show ?thesis using run q u by (auto simp: andThen_def finish_def)
  next
    fix pr assume pr: "q = Inr (Inr pr)" "iw_MkdirTemp w = Inr (pr_dir pr)" "pr_baseOpts pr = root_opts (pr_dir pr) fast"
    then have "after_root w deps (t\<lparr>ex_root := Some (pr_dir pr)\<rparr>)"
      using t same by (auto simp: after_root_def opened_def close_root_def)
    then show ?thesis using run q pr by (auto simp: andThen_def defer_close_def give_def)
  qed
qed

lemma andThen_assoc: "andThen (andThen m f) g = andThen m (\<lambda>x. andThen (f x) g)"
  by (rule ext) (auto simp: andThen_def split: prod.splits sum.splits)

lemma andThen_give: "andThen (give x) f = f x" and andThen_finish: "andThen (finish e) f = finish e"
  by (rule ext, simp add: andThen_def give_def finish_def)+

lemma apt_view_eq:
  "apt_view w deps fast repoDir names =
     andThen (andThen (newPrivateRoot w repoDir fast) (\<lambda>r.
       case r of Inl msg \<Rightarrow> finish (Some (Environment, MsgPrivateRoot msg)) | Inr pr \<Rightarrow> andThen (defer_close pr) (\<lambda>_. give pr)))
     (\<lambda>pr. andThen (runProcess w (dp_AptPath deps) (AptArgs pr False @ [''update'']) fast) (\<lambda>(_, uerr).
        case uerr of
          Some e \<Rightarrow> finish (Some (Environment, MsgUpdate e))
        | None \<Rightarrow> andThen (simulate w deps fast pr names) (\<lambda>_. give pr)))"
proof -
  have eq: "(case r of Inl msg \<Rightarrow> finish (Some (Environment, MsgPrivateRoot msg)) | Inr pr \<Rightarrow> andThen (defer_close pr) (\<lambda>_. f pr)) =
      andThen (case r of Inl msg \<Rightarrow> finish (Some (Environment, MsgPrivateRoot msg)) | Inr pr \<Rightarrow> andThen (defer_close pr) (\<lambda>_. give pr)) f"
    for r and f :: "private_root \<Rightarrow> private_root step"
    by (cases r) (simp_all add: andThen_assoc andThen_give andThen_finish)
  show ?thesis unfolding apt_view_def andThen_assoc
    by (rule arg_cong [of _ _ "andThen (newPrivateRoot w repoDir fast)"], rule ext, rule eq)
qed

definition root_ok :: "install_world \<Rightarrow> bool \<Rightarrow> private_root \<Rightarrow> bool" where
  "root_ok w fast pr \<longleftrightarrow> iw_MkdirTemp w = Inr (pr_dir pr) \<and> pr_baseOpts pr = root_opts (pr_dir pr) fast"

lemma goes_facts: "(\<And>s. I s \<Longrightarrow> A) \<Longrightarrow> (A \<Longrightarrow> goes I m Q E) \<Longrightarrow> goes I m Q E"
  unfolding goes_def by blast

lemma goes_value:
  assumes "goes I m (\<lambda>_. J) E" "\<And>s x s'. m s = (Inr x, s') \<Longrightarrow> V x"
  shows "goes I m (\<lambda>x s. J s \<and> V x) E"
  using assms unfolding goes_def by (metis (mono_tags, lifting) sum.case_eq_if sum.collapse(2))

lemma apt_query: "root_ok w fast pr \<Longrightarrow> query w deps (dp_AptPath deps # AptArgs pr False @ [''update''])"
  "root_ok w fast pr \<Longrightarrow> query w deps (dp_AptPath deps # AptArgs pr False @ [''-s'', ''install''] @ names)"
  by (auto simp: query_def root_ok_def AptArgs_def)

lemma apt_view_goes:
  "goes (before_root w deps) (apt_view w deps fast repoDir names) (\<lambda>pr s. after_root w deps s \<and> root_ok w fast pr) (at_end w deps)"
  unfolding apt_view_eq
proof (rule goes_andThen [OF newPrivateRoot_goes], fold root_ok_def)
  fix pr
  let ?I = "\<lambda>s. after_root w deps s \<and> root_ok w fast pr"
  show "goes ?I (andThen (runProcess w (dp_AptPath deps) (AptArgs pr False @ [''update'']) fast) (\<lambda>(_, uerr).
        case uerr of Some e \<Rightarrow> finish (Some (Environment, MsgUpdate e))
        | None \<Rightarrow> andThen (simulate w deps fast pr names) (\<lambda>_. give pr))) (\<lambda>pr s. after_root w deps s \<and> root_ok w fast pr) (at_end w deps)"
  proof (rule goes_facts [of _ "root_ok w fast pr"])
    assume ok: "root_ok w fast pr"
    let ?P = "\<lambda>e. plan_effect w deps e \<and> no_temp e"
    have "emits ?P (runProcess w (dp_AptPath deps) (AptArgs pr False @ [''update'']) fast)"
      by (intro emits_intros) (simp add: no_temp_def apt_query [OF ok])
    moreover have "emits ?P (simulate w deps fast pr names)"
      unfolding simulate_def Let_def by (intro emits_intros) (simp_all add: no_temp_def apt_query(2) [OF ok, simplified])
    ultimately have "emits ?P (andThen (runProcess w (dp_AptPath deps) (AptArgs pr False @ [''update'']) fast) (\<lambda>(_, uerr).
        case uerr of Some e \<Rightarrow> finish (Some (Environment, MsgUpdate e))
        | None \<Rightarrow> andThen (simulate w deps fast pr names) (\<lambda>_. give pr)))" by (intro emits_andThen emits_cases emits_pure)
    then have "goes (after_root w deps) (andThen (runProcess w (dp_AptPath deps) (AptArgs pr False @ [''update'']) fast) (\<lambda>(_, uerr).
        case uerr of Some e \<Rightarrow> finish (Some (Environment, MsgUpdate e))
        | None \<Rightarrow> andThen (simulate w deps fast pr names) (\<lambda>_. give pr))) (\<lambda>pr s. after_root w deps s \<and> root_ok w fast pr) (at_end w deps)"
      using ok by (intro goes_value goes_after) (auto simp: step_simps split: option.splits prod.splits)
    then show ?thesis unfolding goes_def by blast
  qed blast
qed

text \<open>The whole plan: where it goes, and what it hands on.\<close>

lemma plan_packages_goes:
  "goes (before_root w deps) (plan_packages w deps opts bundleDir lk) (\<lambda>_. after_root w deps) (at_end w deps)"
proof -
  have apt: "goes (before_root w deps) (andThen (apt_view w deps (io_Fast opts) (repo_dir bundleDir) names) (\<lambda>pr. give (g pr)))
      (\<lambda>_. after_root w deps) (at_end w deps)" for names and g :: "private_root \<Rightarrow> install_plan"
    by (rule goes_andThen [OF goes_weaken [OF apt_view_goes, where Q' = "\<lambda>_. after_root w deps"] goes_after]) (simp, intro emits_intros)
  have dpkg: "goes (before_root w deps) (andThen (on_report f) (\<lambda>_. give plan)) (\<lambda>_. after_root w deps) (at_end w deps)"
    for f and plan :: install_plan
    by (rule goes_weaken [OF goes_before]) (intro emits_intros, simp add: root_states)
  show ?thesis
    unfolding plan_packages_def Let_def case_prod_beta
    by (rule goes_andThen [OF goes_before], intro emits_intros, rule goes_andThen [OF goes_before], intro emits_intros)
      (simp add: apt dpkg)
qed

lemma make_plan_goes:
  "goes (before_root w deps) (make_plan w verifier deps bundlePath opts) (\<lambda>_. after_root w deps) (at_end w deps)"
proof -
  have tail: "goes (after_root w deps) (andThen (on_report f) (\<lambda>_. andThen (digestSoFar w) (\<lambda>_. andThen (emit w TypeInstallPlan) (\<lambda>_. give plan))))
      (\<lambda>_. after_root w deps) (at_end w deps)" for f and plan :: install_plan
    by (rule goes_after) (intro emits_intros, simp add: no_temp_def)
  show ?thesis
    unfolding make_plan_def case_prod_beta
    by (intro goes_andThen [OF goes_before] goes_andThen [OF plan_packages_goes] tail open_verified_emits emits_intros)
      (simp_all add: no_temp_def)
qed

lemma start_before: "before_root w deps (start_exec bundlePath)"
  by (simp add: before_root_def start_exec_def)

text \<open>
  C9. Planning an installation changes nothing. Whatever the bundle, the machine and the verifier do, every process a
  plan starts asks dpkg for its architectures or its installed packages, or asks apt, restricted to the private root, to
  read the package lists or to simulate; every file it writes lies in the temporary directory it made, which the last
  step of the run removes.
\<close>

theorem Plan_changes_nothing:
  assumes "install_Plan w verifier deps bundlePath opts = (report, err, trace)"
  shows "list_all (plan_effect w deps) trace \<and> (\<forall>dir. MadeTemp dir \<in> set trace \<longrightarrow> last trace = RemovedAll dir)"
proof -
  obtain r s where run: "run_steps w verifier deps bundlePath opts False (start_exec bundlePath) = (r, s)" by fastforce
  have "goes (before_root w deps) (run_steps w verifier deps bundlePath opts False) (\<lambda>_. at_end w deps) (at_end w deps)"
    unfolding run_steps_def
    by (rule goes_andThen [OF make_plan_goes]) (auto simp: goes_def finish_def intro: root_states)
  then have "at_end w deps s"
    using run start_before unfolding goes_def by (cases r) fastforce+
  moreover have "trace = ex_trace s @ close_root s" using assms run by (auto simp: install_Plan_def execute_def)
  ultimately show ?thesis by (auto simp: at_end_def tidy_def close_root_def split: option.splits)
qed

section \<open>What the plan hands on\<close>

lemma open_verified_Inr:
  assumes "open_verified w verifier bundlePath opts s = (Inr (dir, v, lk), s')"
  shows "\<not> vo_SkipFileDigests (io_Verify opts)" "verifier dir (io_Verify opts) = (Some v, None)" "vr_OK v"
    "loadLock (iw_locks w) (bundle_tree w dir) = Inr lk"
  using assms unfolding open_verified_def Let_def
  by (auto simp: step_simps split: if_splits option.splits sum.splits prod.splits verifier_fault.splits)

lemma loadLock_Inr: "loadLock cd tree = Inr lk \<longleftrightarrow> tree_lock cd tree = Inr lk \<and> lock_wf lk"
  by (auto simp: loadLock_def lock_Validate_wf [symmetric] split: sum.splits option.splits)

text \<open>The request of a run: what was asked for, and with \<^verbatim>\<open>--upgrade\<close> the upgrades of the lock.\<close>

definition request_of :: "install_options \<Rightarrow> lock_doc \<Rightarrow> lock_package set" where
  "request_of opts lk =
     asked_for (io_All opts) (io_Only opts) lk \<union>
     (if io_Upgrade opts then {p \<in> set (lk_Packages lk). pkg_Reason p = ReasonUpgrade} else {})"

lemma sorted_entries_eq:
  assumes "lock_wf lk" "sorted ns" "distinct ns" "set ns = pkg_entry ` set ps" "set ps \<subseteq> set (lk_Packages lk)" "distinct ps"
  shows "ns = map pkg_entry (sort_key pkg_entry ps) \<and> good_request lk (sort_key pkg_entry ps)"
proof -
  have "inj_on pkg_entry (set ps)" using pkg_entry_inj [OF assms(1)] assms(5) inj_on_subset by blast
  then have d: "distinct (map pkg_entry ps)" using assms(6) by (simp add: distinct_map)
  then have "distinct (map pkg_entry (sort_key pkg_entry ps))" by (simp add: distinct_map)
  then have "ns = map pkg_entry (sort_key pkg_entry ps)" using assms(2-4) by (intro sorted_distinct_set_unique) simp_all
  then show ?thesis using sorted_selection [OF assms(1,5) d] by blast
qed

lemma selectInstallSet_Inr:
  assumes "lock_wf lk" "selectInstallSet all only lk = Inr (names, pkgs)"
  shows "names = map pkg_entry pkgs" "good_request lk pkgs" "set pkgs = asked_for all only lk"
  using selectInstallSet_wf [OF assms(1), where all = all and only = only] assms(2) by auto

lemma good_request_distinct: "good_request lk ps \<Longrightarrow> distinct ps"
  by (simp add: good_request_def distinct_map)

lemma select_request_Inr:
  assumes wf: "lock_wf lk" and apt: "\<not> io_Dpkg opts" and run: "select_request opts lk s = (Inr (names, pkgs), s')"
  shows "\<exists>qs. names = map pkg_entry qs \<and> good_request lk qs \<and> set qs = request_of opts lk \<and> set pkgs = request_of opts lk"
proof -
  obtain ns ps where sel: "selectInstallSet (io_All opts) (io_Only opts) lk = Inr (ns, ps)"
    using apt run by (auto simp: select_request_def step_simps split: sum.splits prod.splits)
  note good = selectInstallSet_Inr [OF wf sel]
  show ?thesis
  proof (cases "io_Upgrade opts")
    case False
    then show ?thesis using apt run sel good by (intro exI [of _ ps]) (auto simp: select_request_def step_simps request_of_def)
  next
    case True
    have sub: "set ps \<subseteq> set (lk_Packages lk)" using good(2) by (simp add: good_request_def)
    obtain us n where us: "selectUpgradeSet lk ps = (map pkg_entry us, us, n)" "good_request lk us" "set us = upgrades_of lk ps"
      using selectUpgradeSet_wf [OF wf sub] by blast
    have names: "names = mergeSortedUnique ns (map pkg_entry us)" and pkgs: "pkgs = slice_stable ident_less (ps @ us)"
      using apt run sel True us(1) by (auto simp: select_request_def step_simps split: if_splits)
    have un: "set (ps @ us) = request_of opts lk"
      using good(3) us(3) True by (auto simp: request_of_def upgrades_of_def)
    have "set (ps @ us) \<subseteq> set (lk_Packages lk)" "distinct (ps @ us)"
      using sub us(3) good(3) good_request_distinct [OF good(2)] good_request_distinct [OF us(2)] by (auto simp: upgrades_of_def)
    moreover have "sorted names" "distinct names" "set names = pkg_entry ` set (ps @ us)"
      using good(1,2) us(2) pkg_entry_inj [OF wf] sub good_request_distinct [OF good(2)]
      by (auto simp: names mergeSortedUnique_def good_request_def distinct_map intro: inj_on_subset)
    ultimately have "names = map pkg_entry (sort_key pkg_entry (ps @ us)) \<and> good_request lk (sort_key pkg_entry (ps @ us))"
      using sorted_entries_eq [OF wf] by blast
    then show ?thesis using un pkgs by (intro exI [of _ "sort_key pkg_entry (ps @ us)"]) (simp add: idents.slice_stable_set)
  qed
qed



lemma newPrivateRoot_ok: "newPrivateRoot w repoDir fast s = (Inr (Inr pr), s') \<Longrightarrow> root_ok w fast pr"
  using newPrivateRoot_cases [of w repoDir fast s "Inr (Inr pr)" s'] by (auto simp: root_ok_def)

lemma apt_view_ok: "apt_view w deps fast repoDir names s = (Inr pr, s') \<Longrightarrow> root_ok w fast pr"
proof -
  assume "apt_view w deps fast repoDir names s = (Inr pr, s')"
  then obtain r t where r: "newPrivateRoot w repoDir fast s = (Inr r, t)" and rest: "(case r of
         Inl msg \<Rightarrow> finish (Some (Environment, MsgPrivateRoot msg))
       | Inr pr \<Rightarrow>
           andThen (defer_close pr) (\<lambda>_.
           andThen (runProcess w (dp_AptPath deps) (AptArgs pr False @ [''update'']) fast) (\<lambda>(_, uerr).
             case uerr of
               Some e \<Rightarrow> finish (Some (Environment, MsgUpdate e))
             | None \<Rightarrow> andThen (simulate w deps fast pr names) (\<lambda>_. give pr)))) t = (Inr pr, s')"
    unfolding apt_view_def andThen_Inr by blast
  show ?thesis
  proof (cases r)
    case (Inr q)
    then have "q = pr" using rest by (auto simp: step_simps split: option.split_asm)
    then show ?thesis using newPrivateRoot_ok r Inr by blast
  qed (use rest in \<open>simp add: finish_def\<close>)
qed

definition plan_ok :: "install_world \<Rightarrow> install_verifier \<Rightarrow> install_options \<Rightarrow> install_plan \<Rightarrow> bool" where
  "plan_ok w verifier opts plan \<longleftrightarrow>
     \<not> vo_SkipFileDigests (io_Verify opts) \<and>
     (\<exists>v. verifier (ip_bundleDir plan) (io_Verify opts) = (Some v, None) \<and> vr_OK v) \<and>
     loadLock (iw_locks w) (bundle_tree w (ip_bundleDir plan)) = Inr (ip_lock plan) \<and>
     (io_Dpkg opts \<longleftrightarrow> ip_root plan = None) \<and> (\<forall>pr. ip_root plan = Some pr \<longrightarrow> root_ok w (io_Fast opts) pr) \<and>
     (\<not> io_Dpkg opts \<longrightarrow> (\<exists>pkgs. ip_names plan = map pkg_entry pkgs \<and> good_request (ip_lock plan) pkgs \<and>
        set pkgs = request_of opts (ip_lock plan)))"

lemma plan_packages_Inr:
  assumes "plan_packages w deps opts bundleDir lk s = (Inr plan, s')" "lock_wf lk"
  shows "ip_bundleDir plan = bundleDir" "ip_lock plan = lk" "io_Dpkg opts \<longleftrightarrow> ip_root plan = None"
    "ip_root plan = Some pr \<Longrightarrow> root_ok w (io_Fast opts) pr"
    "\<not> io_Dpkg opts \<Longrightarrow> \<exists>pkgs. ip_names plan = map pkg_entry pkgs \<and> good_request lk pkgs \<and> set pkgs = request_of opts lk"
proof -
  obtain names pkgs t where sel: "select_request opts lk s = (Inr (names, pkgs), t)" and names: "ip_names plan = names"
    and rest: "ip_bundleDir plan = bundleDir \<and> ip_lock plan = lk \<and> (io_Dpkg opts \<longleftrightarrow> ip_root plan = None) \<and>
      (\<forall>pr. ip_root plan = Some pr \<longrightarrow> root_ok w (io_Fast opts) pr)"
    using assms(1) unfolding plan_packages_def Let_def by (auto simp: step_simps dest: apt_view_ok split: if_splits)
  show "ip_bundleDir plan = bundleDir" "ip_lock plan = lk" "io_Dpkg opts \<longleftrightarrow> ip_root plan = None"
    "ip_root plan = Some pr \<Longrightarrow> root_ok w (io_Fast opts) pr" using rest by blast+
  show "\<exists>pkgs. ip_names plan = map pkg_entry pkgs \<and> good_request lk pkgs \<and> set pkgs = request_of opts lk" if "\<not> io_Dpkg opts"
    using select_request_Inr [OF assms(2) that sel] names by blast
qed

lemma make_plan_ok:
  assumes "make_plan w verifier deps bundlePath opts s = (Inr plan, s')"
  shows "plan_ok w verifier opts plan"
proof -
  obtain dir v lk s1 s2 s3 where o: "open_verified w verifier bundlePath opts s = (Inr (dir, v, lk), s1)"
    and p: "plan_packages w deps opts dir lk s2 = (Inr plan, s3)"
    using assms unfolding make_plan_def by (auto simp: andThen_Inr give_def)
  note o = open_verified_Inr [OF o]
  have "lock_wf lk" using o(4) by (simp add: loadLock_Inr)
  note p = plan_packages_Inr [OF p this]
  show ?thesis unfolding plan_ok_def using o p by auto
qed

section \<open>The installation\<close>

definition kept_source :: "install_deps \<Rightarrow> path" where
  "kept_source deps = filepath_Join [effectiveRoot deps, ''etc'', ''apt'', ''sources.list.d'']"

fun apply_effect :: "install_world \<Rightarrow> install_deps \<Rightarrow> install_options \<Rightarrow> install_plan \<Rightarrow> effect \<Rightarrow> bool" where
  "apply_effect w deps opts plan (Ran argv env) =
     (case ip_root plan of
        Some pr \<Rightarrow> argv = dp_AptPath deps # AptArgs pr (io_Yes opts) @ [''install''] @ ip_names plan
      | None \<Rightarrow>
          argv = dp_DpkgPath deps # fastArgs (io_Fast opts) @ [''--configure'', ''-a''] \<or>
          (\<exists>files c. poolDebFiles (repo_dir (ip_bundleDir plan)) (bundle_tree w (ip_bundleDir plan)) = Inr files \<and>
             c \<in> set (chunks chunkSize files) \<and> argv = dp_DpkgPath deps # fastArgs (io_Fast opts) @ [''--unpack''] @ c))"
| "apply_effect w deps opts plan (MadeTemp p) = False"
| "apply_effect w deps opts plan (MadeDir p) =
     (io_KeepSource opts \<and> \<not> io_Dpkg opts \<and> p = kept_source deps \<or> p = filepath_Dir (evidence_path w opts))"
| "apply_effect w deps opts plan (WroteFile p content) =
     (io_KeepSource opts \<and> \<not> io_Dpkg opts \<and> p = filepath_Join [kept_source deps, sourcesFileName])"
| "apply_effect w deps opts plan (RemovedAll p) = False"
| "apply_effect w deps opts plan (AppendedLog p r) = (p = evidence_path w opts)"
| "apply_effect w deps opts plan (Emitted kind r) = (kind = TypeInstallResult)"

lemma unpack_chunks_emits:
  "(\<And>c env. c \<in> set cs \<Longrightarrow> P (Ran (dpkg # fastArgs fast @ [''--unpack''] @ c) env)) \<Longrightarrow> emits P (unpack_chunks w dpkg fast cs)"
  by (induction cs) (auto intro!: emits_intros)

lemma applyDpkg_emits: "ip_root plan = None \<Longrightarrow> emits (apply_effect w deps opts plan) (applyDpkg w deps opts (ip_bundleDir plan))"
  unfolding applyDpkg_def by (intro emits_intros unpack_chunks_emits) (auto split: list.splits intro!: emits_intros unpack_chunks_emits)

lemma apply_plan_emits:
  assumes "plan_ok w verifier opts plan"
  shows "emits (apply_effect w deps opts plan) (apply_plan w deps opts plan)"
proof -
  have "emits (apply_effect w deps opts plan) (install_packages w deps opts plan)"
    using assms unfolding install_packages_def applyApt_def keep_source_def PersistSource_def Let_def
    by (intro emits_intros applyDpkg_emits) (auto simp: plan_ok_def kept_source_def)
  then show ?thesis
    unfolding apply_plan_def recordEvidence_def appendEvidenceLog_def
    by (intro emits_andThen emits_cases emits_pure emits_effect) auto
qed

lemma make_plan_report:
  assumes "make_plan w verifier deps bundlePath opts s = (Inr plan, s')"
  shows "ir_OK (ex_report s') \<longleftrightarrow> ir_Problems (ex_report s') = []"
proof -
  obtain t where "andThen (on_report (\<lambda>r. r\<lparr>ir_OK := (ir_Problems r = [])\<rparr>)) (\<lambda>_. andThen (digestSoFar w) (\<lambda>_.
      andThen (emit w TypeInstallPlan) (\<lambda>_. give plan))) t = (Inr plan, s')"
    using assms unfolding make_plan_def case_prod_beta andThen_Inr [of _ _ _ "_ :: install_plan"] by (auto simp: andThen_Inr give_def)
  then show ?thesis by (cases "ex_output t = []") (auto simp: andThen_def give_def on_report_def digestSoFar_def emit_def)
qed

text \<open>A run that went beyond the plan was asked to, had a plan without problems, and was confirmed.\<close>

lemma execute_trace:
  assumes "execute w verifier deps bundlePath opts applying = (report, err, trace)" "e \<in> set trace"
  obtains (planned) "plan_effect w deps e"
  | (installed) plan s where "applying" "make_plan w verifier deps bundlePath opts (start_exec bundlePath) = (Inr plan, s)"
      "ir_Problems (ex_report s) = []" "requireConfirmation w opts" "apply_effect w deps opts plan e"
proof -
  let ?s0 = "start_exec bundlePath"
  obtain q s where q: "make_plan w verifier deps bundlePath opts ?s0 = (q, s)" by fastforce
  have ends: "case q of Inl e \<Rightarrow> at_end w deps s | Inr plan \<Rightarrow> after_root w deps s"
    using make_plan_goes [of w deps verifier bundlePath opts] start_before q unfolding goes_def by blast
  have plan_trace: "plan_effect w deps e" if "e \<in> set (ex_trace s @ close_root s)"
  proof -
    have "at_end w deps s" using ends root_states(2) by (cases q) auto
    then show ?thesis using that by (auto simp: at_end_def list_all_iff)
  qed
  show thesis
  proof (cases q)
    case (Inl f)
    then have "trace = ex_trace s @ close_root s" using assms(1) q by (simp add: execute_def run_steps_def andThen_def)
    then show ?thesis using plan_trace assms(2) planned by blast
  next
    case (Inr p)
    show ?thesis
    proof (cases applying)
      case False
      then have "trace = ex_trace s @ close_root s"
        using assms(1) q Inr by (simp add: execute_def run_steps_def andThen_def finish_def)
      then show ?thesis using plan_trace assms(2) planned by blast
    next
      case True
      obtain r t where t: "apply_plan w deps opts p s = (r, t)" by fastforce
      have trace: "trace = ex_trace t @ close_root t" using assms(1) q Inr True t by (simp add: execute_def run_steps_def andThen_def)
      have ok: "plan_ok w verifier opts p" using make_plan_ok q Inr by blast
      obtain ts where ts: "ex_trace t = ex_trace s @ ts" "list_all (apply_effect w deps opts p) ts" "ex_root t = ex_root s"
        using emitsD [OF apply_plan_emits [OF ok] t] by blast
      show ?thesis
      proof (cases "e \<in> set ts")
        case False
        then show ?thesis using trace ts assms(2) plan_trace planned by (auto simp: close_root_def)
      next
        case e: True
        have "ir_OK (ex_report s) \<and> requireConfirmation w opts"
          using t ts(1) e by (auto simp: apply_plan_def andThen_def get_report_def finish_def split: if_splits)
        then have "ir_Problems (ex_report s) = []" "requireConfirmation w opts" using make_plan_report q Inr by blast+
        then show ?thesis using installed [of p s] True q Inr e ts(2) by (auto simp: list_all_iff)
      qed
    qed
  qed
qed

section \<open>The verifier and the installer together\<close>

text \<open>The classes of the verifier's own errors, and the verifier as the installer calls it.\<close>

fun verify_error_class :: "verify_error \<Rightarrow> err_class" where
  "verify_error_class (NoVerifier e) = verifier_error_class e"
| "verify_error_class (CheckNotAttempted e) = Environment"
| "verify_error_class e = Usage"

definition standardVerifier :: "verify_env \<Rightarrow> install_world \<Rightarrow> install_verifier" where
  "standardVerifier env w dir opts =
     (case runVerify env dir (iw_bundle w dir) opts of
        Inl e \<Rightarrow> (None, Some (Classified (verify_error_class e)))
      | Inr r \<Rightarrow> (Some r, None))"

text \<open>A package whose file on the medium is the one the lock describes.\<close>

definition genuine :: "verify_env \<Rightarrow> entry \<Rightarrow> lock_package \<Rightarrow> bool" where
  "genuine env tree p \<longleftrightarrow>
     (\<exists>ns b. ''repo/'' @ pkg_Filename p = names_path ns \<and> tree_lookup tree ns = Some (RegularFile b) \<and>
        int (length b) = pkg_Size p \<and> digest_Equal (ve_sha256 env b) (pkg_SHA256 p))"

text \<open>A file on the medium, under the path \<open>f\<close>, whose bytes the manifest describes.\<close>

definition listed :: "verify_env \<Rightarrow> entry \<Rightarrow> path \<Rightarrow> path \<Rightarrow> bool" where
  "listed env tree pool f \<longleftrightarrow>
     (\<exists>ns b m canon mf. f = join_with [slash] (pool # ns) \<and> tree_lookup tree ([repoDirName, ''pool''] @ ns) = Some (RegularFile b) \<and>
        manifest_Load (ve_docs env) tree = Inr (m, canon) \<and> mf \<in> set (mn_Files m) \<and>
        mf_Path mf = names_path ([repoDirName, ''pool''] @ ns) \<and> ve_sha256 env b = mf_SHA256 mf)"

lemma standardVerifier_OK:
  assumes "standardVerifier env w dir opts = (Some v, None)"
  obtains root tree where "iw_bundle w dir = Some (root, tree)" "bundle_tree w dir = tree" "runVerify env dir (Some (root, tree)) opts = Inr v"
proof -
  have v: "runVerify env dir (iw_bundle w dir) opts = Inr v" using assms by (auto simp: standardVerifier_def split: sum.splits)
  then obtain root tree where "iw_bundle w dir = Some (root, tree)"
    by (cases "iw_bundle w dir") (auto simp: runVerify_def)
  then show thesis using that v by (simp add: bundle_tree_def)
qed

lemma chunks_parts: "c \<in> set (chunks n xs) \<Longrightarrow> set c \<subseteq> set xs \<and> length c \<le> n"
proof (induction n xs rule: chunks.induct)
  case (1 n xs)
  then show ?case using 1(2) set_take_subset [of n xs] set_drop_subset [of n xs]
    by (subst (asm) (2) chunks.simps) (auto split: if_splits)
qed

lemma chunks_concat: "n > 0 \<Longrightarrow> concat (chunks n xs) = xs"
proof (induction n xs rule: chunks.induct)
  case (1 n xs)
  then show ?case by (subst chunks.simps) auto
qed

lemma deb_events_Inr: "deb_events evs = Inr out \<Longrightarrow> f \<in> set out \<Longrightarrow> \<exists>e. Visit f e \<in> set evs \<and> \<not> is_dir e"
  by (induction evs arbitrary: out rule: deb_events.induct) (auto split: sum.splits if_splits, blast+)

lemma walk_below:
  "p \<noteq> '''' \<Longrightarrow> Visit f e \<in> set (walk p t) \<Longrightarrow> wf_tree t \<Longrightarrow> \<exists>ns. f = join_with [slash] (p # ns) \<and> tree_lookup t ns = Some e"
proof (induction p t rule: walk.induct)
  case (1 p err es)
  show ?case
  proof (cases "f = p \<and> e = Dir err es")
    case True
    then show ?thesis by (intro exI [of _ "[]"]) simp
  next
    case False
    then obtain x where x: "x \<in> set es" "Visit f e \<in> set (walk (rel_join p (fst x)) (snd x))"
      using 1(3) by (auto split: option.splits)
    then obtain ns where ns: "f = join_with [slash] (rel_join p (fst x) # ns)" "tree_lookup (snd x) ns = Some e"
      using 1(1) [of x] 1(2,4) by (auto simp: rel_join_def)
    have "f = join_with [slash] (p # fst x # ns)" using ns(1) 1(2) by (cases ns) (auto simp: rel_join_def)
    moreover have "map_of es (fst x) = Some (snd x)" using x(1) 1(4) by simp
    then have "tree_lookup (Dir err es) (fst x # ns) = Some e" using ns(2) by simp
    ultimately show ?thesis by blast
  qed
qed (auto intro: exI [of _ "[]"])

lemma pool_listed:
  assumes wf: "wf_tree tree" and hex: "hex_hash (ve_sha256 env)" and skip: "\<not> vo_SkipFileDigests opts"
    and ok: "runVerify env dir (Some (root, tree)) opts = Inr r" "vr_OK r"
    and debs: "poolDebFiles repoDir tree = Inr files" "f \<in> set files" and ne: "filepath_Join [repoDir, ''pool''] \<noteq> ''''"
  shows "listed env tree (filepath_Join [repoDir, ''pool'']) f"
proof -
  obtain pool out where pool: "tree_lookup tree [repoDirName, ''pool''] = Some pool" "deb_events (walk (filepath_Join [repoDir, ''pool'']) pool) = Inr out" "f \<in> set out"
    using debs by (auto simp: poolDebFiles_def split: option.splits sum.splits)
  have "wf_tree pool" using wf pool(1) by (rule wf_tree_lookup)
  then obtain ns e where ns: "f = join_with [slash] (filepath_Join [repoDir, ''pool''] # ns)" "tree_lookup pool ns = Some e" "\<not> is_dir e"
    using deb_events_Inr [OF pool(2,3)] walk_below [OF ne] by blast
  then have e: "tree_lookup tree ([repoDirName, ''pool''] @ ns) = Some e" unfolding lookup_append using pool(1) by simp
  obtain m canon where m: "manifest_Load (ve_docs env) tree = Inr (m, canon)"
    and files: "\<forall>f \<in> set (mn_Files m). \<exists>ns b. mf_Path f = names_path ns \<and> tree_lookup tree ns = Some (RegularFile b) \<and>
       int (length b) = mf_Size f \<and> ve_sha256 env b = mf_SHA256 f"
    and entries: "\<forall>ns e. tree_lookup tree ns = Some e \<and> \<not> is_dir e \<longrightarrow>
       is_regular e \<and> names_path ns \<in> {manifest_FileName, SigFileName} \<union> mf_Path ` set (mn_Files m)"
    using verified_files [OF wf hex skip ok] by blast
  let ?ns = "[repoDirName, ''pool''] @ ns"
  have good: "good_names ?ns" by (rule lookup_good_names [OF wf e])
  have "names_path ?ns \<noteq> n" if "n \<in> {manifest_FileName, SigFileName}" for n
  proof
    assume "names_path ?ns = n"
    moreover have "good_names [n]" "names_path [n] = n" "n \<noteq> repoDirName"
      using that by (auto simp: names_path_def manifest_FileName_def SigFileName_def repoDirName_def)
    ultimately show False using names_path_inj [OF good, of "[n]"] by simp
  qed
  moreover have "names_path ?ns \<in> {manifest_FileName, SigFileName} \<union> mf_Path ` set (mn_Files m)" using entries e ns(3) by blast
  ultimately obtain mf where mf: "mf \<in> set (mn_Files m)" "mf_Path mf = names_path ?ns" unfolding Un_iff image_iff by metis
  then obtain ns' b where b: "mf_Path mf = names_path ns'" "tree_lookup tree ns' = Some (RegularFile b)" "ve_sha256 env b = mf_SHA256 mf"
    using files by blast
  have "ns' = ?ns" by (rule names_path_inj [OF lookup_good_names [OF wf b(2)] good]) (simp only: b(1) [symmetric] mf(2))
  then show ?thesis unfolding listed_def
    by (intro exI [of _ ns] exI [of _ b] exI [of _ m] exI [of _ canon] exI [of _ mf] conjI) (use ns(1) b m mf in simp_all)
qed

lemma repo_dir_ne: "filepath_Join [repo_dir dir, ''pool''] \<noteq> ''''"
proof -
  have "path_Clean p \<noteq> ''''" for p by (simp add: path_Clean_def Let_def)
  then show ?thesis by (simp add: filepath_Join_def Let_def)
qed


section \<open>An honest installation succeeds\<close>

text \<open>A step that, from a report without problems, returns a value with \<open>V\<close> and leaves it without problems.\<close>

definition goes_on :: "'a step \<Rightarrow> ('a \<Rightarrow> bool) \<Rightarrow> bool" where
  "goes_on m V \<longleftrightarrow> (\<forall>s. ir_Problems (ex_report s) = [] \<longrightarrow> (\<exists>x s'. m s = (Inr x, s') \<and> V x \<and> ir_Problems (ex_report s') = []))"

lemma goes_onD: "goes_on m V \<Longrightarrow> ir_Problems (ex_report s) = [] \<Longrightarrow> \<exists>x s'. m s = (Inr x, s') \<and> V x \<and> ir_Problems (ex_report s') = []"
  by (simp add: goes_on_def)

lemma goes_on_andThen: "goes_on m V \<Longrightarrow> (\<And>x. V x \<Longrightarrow> goes_on (f x) W) \<Longrightarrow> goes_on (andThen m f) W"
  unfolding goes_on_def andThen_def by (fastforce split: prod.splits sum.splits)

lemma goes_on_give: "V x \<Longrightarrow> goes_on (give x) V"
  by (auto simp: goes_on_def give_def)

lemma goes_on_unit:
  "(\<And>r. ir_Problems (f r) = ir_Problems r) \<Longrightarrow> V () \<Longrightarrow> goes_on (on_report f) V" "V () \<Longrightarrow> goes_on (warn v) V"
  "V () \<Longrightarrow> goes_on (trouble []) V" "V () \<Longrightarrow> goes_on (digestSoFar w) V" "V () \<Longrightarrow> goes_on (emit w kind) V" "V () \<Longrightarrow> goes_on (defer_close pr) V"
  by (auto simp: goes_on_def on_report_def warn_def trouble_def digestSoFar_def emit_def defer_close_def)

text \<open>The machine cooperates: its processes succeed, no file operation fails, and nothing apt prints is a problem.\<close>

definition cooperative :: "install_world \<Rightarrow> bool" where
  "cooperative w \<longleftrightarrow>
     (\<forall>t argv env. pc_end (iw_run w t argv env) = Exited 0 \<and>
        (\<forall>i u r ps. parseAptSim (pc_output (iw_run w t argv env)) = (i, u, r, ps) \<longrightarrow> ps = [])) \<and>
     (\<forall>t e. iw_fault w t e = None)"

lemma process_ok: "cooperative w \<Longrightarrow> (\<And>out. V (out, None)) \<Longrightarrow> goes_on (runProcess w path args fast) V"
  by (auto simp: goes_on_def runProcess_def process_error_def cooperative_def Let_def)

lemma perform_ok: "cooperative w \<Longrightarrow> V None \<Longrightarrow> goes_on (perform w e) V"
  by (auto simp: goes_on_def perform_def cooperative_def)

lemma make_dirs_ok: "cooperative w \<Longrightarrow> V None \<Longrightarrow> goes_on (make_dirs w dir subs) V"
  by (induction subs) (auto intro!: goes_on_give goes_on_andThen [OF perform_ok [of w "\<lambda>e. e = None"]])

lemma newPrivateRoot_succeeds:
  assumes "cooperative w" "iw_Abs w repoDir = Some absRepo" "iw_Stat w absRepo = Inr True" "iw_MkdirTemp w = Inr dir"
  shows "goes_on (newPrivateRoot w repoDir fast) (\<lambda>r. r = Inr \<lparr>pr_dir = dir, pr_repoDir = absRepo, pr_baseOpts = root_opts dir fast\<rparr>)"
  unfolding newPrivateRoot_def using assms
  by (auto simp del: make_dirs.simps intro!: goes_on_give goes_on_andThen [OF perform_ok [of w "\<lambda>e. e = None"]] goes_on_andThen [OF make_dirs_ok [of w "\<lambda>e. e = None"]])

lemma simulate_succeeds: "cooperative w \<Longrightarrow> goes_on (simulate w deps fast pr names) (\<lambda>_. True)"
  unfolding goes_on_def
proof (intro allI impI)
  fix s :: exec assume co: "cooperative w" and s: "ir_Problems (ex_report s) = []"
  obtain i u r ps where p: "parseAptSim (pc_output (iw_run w (ex_trace s) (dp_AptPath deps # AptArgs pr False @ [''-s'', ''install''] @ names)
      (buildEnv (iw_environ w) fast))) = (i, u, r, ps)" using prod_cases4 by blast
  then have "ps = []" using co by (auto simp: cooperative_def)
  then show "\<exists>x s'. simulate w deps fast pr names s = (Inr x, s') \<and> True \<and> ir_Problems (ex_report s') = []"
    using s p co by (auto simp: cooperative_def simulate_def give_def andThen_def runProcess_def process_error_def on_report_def Let_def)
qed

lemma apt_view_succeeds:
  assumes "cooperative w" "iw_Abs w repoDir = Some absRepo" "iw_Stat w absRepo = Inr True" "iw_MkdirTemp w = Inr dir"
  shows "goes_on (apt_view w deps fast repoDir names) (\<lambda>pr. pr = \<lparr>pr_dir = dir, pr_repoDir = absRepo, pr_baseOpts = root_opts dir fast\<rparr>)"
  unfolding apt_view_def
  by (rule goes_on_andThen [OF newPrivateRoot_succeeds [OF assms]])
    (auto intro!: goes_on_give goes_on_andThen [OF goes_on_unit(6) [where V = "\<lambda>_. True"]]
      goes_on_andThen [OF process_ok [OF assms(1), of "\<lambda>x. snd x = None"]] goes_on_andThen [OF simulate_succeeds [OF assms(1)]])

text \<open>What an installation with apt needs of its environment, once the bundle is verified.\<close>

definition ready :: "install_world \<Rightarrow> install_deps \<Rightarrow> install_options \<Rightarrow> path \<Rightarrow> report \<Rightarrow> lock_doc \<Rightarrow> path \<Rightarrow> bool" where
  "ready w deps opts dir v lk tmp \<longleftrightarrow>
     cooperative w \<and> \<not> io_Dpkg opts \<and> \<not> io_KeepSource opts \<and> io_Only opts = [] \<and> requireConfirmation w opts \<and>
     lookExecutable w (dp_DpkgPath deps) = None \<and> lookExecutable w (dp_AptPath deps) = None \<and>
     (\<forall>t env. trim_space (pc_output (iw_run w t [dp_DpkgPath deps, ''--print-architecture''] env)) = tg_Arch (lk_Target lk)) \<and>
     requiredForeign lk v = [] \<and> iw_diskFree w (effectiveRoot deps) = None \<and>
     (\<exists>absRepo. iw_Abs w (repo_dir dir) = Some absRepo \<and> iw_Stat w absRepo = Inr True) \<and> iw_MkdirTemp w = Inr tmp"

lemma query_machine_ok:
  assumes "ready w deps opts dir v lk tmp"
  shows "goes_on (query_machine w deps) (\<lambda>mc. mc_arch mc = tg_Arch (lk_Target lk) \<and> mc_foreignErr mc = None)"
  using assms unfolding goes_on_def query_machine_def
  by (auto simp: ready_def cooperative_def andThen_def runProcess_def process_error_def on_report_def give_def Let_def)

lemma check_target_ok:
  assumes "ready w deps opts dir v lk tmp" "mc_arch mc = tg_Arch (lk_Target lk)"
  shows "goes_on (check_target w lk v mc) (\<lambda>_. True)"
  using assms unfolding check_target_def
  by (auto simp: ready_def Let_def missingForeignArchs_def intro!: goes_on_give goes_on_unit(2))

lemma noteBaseDivergence_ok: "cooperative w \<Longrightarrow> goes_on (noteBaseDivergence w deps tree) (\<lambda>_. True)"
  unfolding noteBaseDivergence_def Let_def case_prod_beta
  by (auto intro!: goes_on_give goes_on_unit goes_on_andThen [OF goes_on_unit(2) [where V = "\<lambda>_. True"]]
    goes_on_andThen [OF process_ok [where V = "\<lambda>x. snd x = None"]] goes_on_andThen [OF goes_on_unit(1) [where V = "\<lambda>_. True"]] split: option.splits)

lemma select_request_ok:
  assumes "lock_wf lk" "\<not> io_Dpkg opts" "io_Only opts = []"
  shows "goes_on (select_request opts lk) (\<lambda>x. set (snd x) = request_of opts lk \<and>
    (\<exists>qs. fst x = map pkg_entry qs \<and> good_request lk qs \<and> set qs = request_of opts lk))"
proof -
  have "wanted_names [] = []" by (simp add: wanted_names_def)
  then obtain ns ps where sel: "selectInstallSet (io_All opts) (io_Only opts) lk = Inr (ns, ps)"
    using selectInstallSet_wf [OF assms(1), where all = "io_All opts" and only = "io_Only opts"] assms(3)
    by (cases "selectInstallSet (io_All opts) (io_Only opts) lk") fastforce+
  have "\<exists>x s'. select_request opts lk s = (Inr x, s') \<and> ir_Problems (ex_report s') = ir_Problems (ex_report s)" for s
    using assms(2) sel by (auto simp: select_request_def andThen_def give_def warn_def on_report_def Let_def split: prod.splits)
  then show ?thesis unfolding goes_on_def using select_request_Inr [OF assms(1,2)] by (metis prod.collapse)
qed

lemma safe_local:
  assumes "safe_rel_path f"
  shows "f \<noteq> ''''" "filepath_IsLocal f" "safe_rel_path (''repo/'' @ f)"
proof -
  have up: "\<not> safe_rel_path (''../'' @ r)" for r
    using split_on_append_sep [of slash "''..''" r] by (simp add: safe_rel_path_def safe_segment_def split_on_no_occurrence)
  show ne: "f \<noteq> ''''" using safe_rel_path_hd [OF assms] by blast
  have "\<not> safe_rel_path ''..''" by (simp add: safe_rel_path_def safe_segment_def)
  then have "f \<noteq> ''..''" using assms by blast
  moreover have "\<not> has_prefix f ''../''" using assms up unfolding has_prefix_iff by blast
  moreover have "\<not> has_prefix f ''/''" using safe_rel_path_hd [OF assms] by (cases f) (auto simp: has_prefix_def)
  ultimately show "filepath_IsLocal f" using ne path_Clean_safe [OF assms] by (simp add: filepath_IsLocal_def)
  show "safe_rel_path (''repo/'' @ f)"
    using assms split_on_append_sep [of slash "''repo''" f] by (simp add: safe_rel_path_def safe_segment_def split_on_no_occurrence)
qed

lemma genuine_in_pool:
  assumes "wf_tree tree" "package_wf p" "genuine env tree p"
  shows "pool_problem links tree p = []"
proof -
  have safe: "safe_rel_path (pkg_Filename p)" using assms(2) by (simp add: package_wf_def checkFilename_None)
  obtain ns b where b: "''repo/'' @ pkg_Filename p = names_path ns" "tree_lookup tree ns = Some (RegularFile b)"
    using assms(3) by (auto simp: genuine_def)
  have "ns \<noteq> []" using b(1) by auto
  then have "split_on slash (''repo/'' @ pkg_Filename p) = ns"
    using split_names_path lookup_good_names [OF assms(1) b(2)] b(1) by simp
  then have "repo_lookup tree (pkg_Filename p) = Some (RegularFile b)"
    using b(2) path_Clean_safe [OF safe_local(3) [OF safe]] by (simp add: repo_lookup_def)
  then show ?thesis using safe_local [OF safe] by (simp add: pool_problem_def Let_def stat_regular_def)
qed

lemma plan_packages_ok:
  assumes "ready w deps opts dir v lk tmp" "lock_wf lk" "\<And>p. p \<in> set (lk_Packages lk) \<Longrightarrow> pool_problem (iw_links w) (bundle_tree w dir) p = []"
  shows "goes_on (plan_packages w deps opts dir lk) (\<lambda>plan. \<exists>pr qs. ip_root plan = Some pr \<and> pr_baseOpts pr = root_opts tmp (io_Fast opts) \<and>
    ip_names plan = map pkg_entry qs \<and> good_request lk qs \<and> set qs = request_of opts lk)"
proof -
  have r: "cooperative w" "\<not> io_Dpkg opts" "io_Only opts = []" "iw_MkdirTemp w = Inr tmp" "iw_diskFree w (effectiveRoot deps) = None"
    using assms(1) by (auto simp: ready_def)
  obtain absRepo where a: "iw_Abs w (repo_dir dir) = Some absRepo" "iw_Stat w absRepo = Inr True" using assms(1) by (auto simp: ready_def)
  have pool: "missingPoolFiles (iw_links w) (bundle_tree w dir) pkgs = []" if "set pkgs = request_of opts lk" for pkgs
    using that assms(3) by (auto simp: missingPoolFiles_def request_of_def asked_for_def split: if_splits)
  show ?thesis
    unfolding plan_packages_def Let_def case_prod_beta
    by (rule goes_on_andThen [OF select_request_ok [OF assms(2) r(2,3)]])
      (auto simp: pool r disk_problem_def intro!: goes_on_give goes_on_andThen [OF goes_on_unit(3) [where V = "\<lambda>_. True"]]
        goes_on_andThen [OF apt_view_succeeds [OF r(1) a r(4)]])
qed

lemma open_verified_ok:
  assumes "\<not> list_ex (\<lambda>c. c = CHR '' '' \<or> c = CHR 0x09 \<or> c = newline) bundlePath" "resolveBundleDir w bundlePath = Inr bundlePath"
    "iw_Abs w bundlePath = Some dir" "\<not> vo_SkipFileDigests (io_Verify opts)" "verifier dir (io_Verify opts) = (Some v, None)" "vr_OK v"
    "loadLock (iw_locks w) (bundle_tree w dir) = Inr lk"
  shows "goes_on (open_verified w verifier bundlePath opts) (\<lambda>x. x = (dir, v, lk))"
  unfolding goes_on_def open_verified_def using assms by (simp add: andThen_def on_report_def give_def)

lemma make_plan_succeeds:
  assumes o: "goes_on (open_verified w verifier bundlePath opts) (\<lambda>x. x = (dir, v, lk))" and r: "ready w deps opts dir v lk tmp"
    and lk: "lock_wf lk" "\<And>p. p \<in> set (lk_Packages lk) \<Longrightarrow> pool_problem (iw_links w) (bundle_tree w dir) p = []"
  shows "goes_on (make_plan w verifier deps bundlePath opts) (\<lambda>plan. \<exists>pr qs. ip_root plan = Some pr \<and>
    pr_baseOpts pr = root_opts tmp (io_Fast opts) \<and> ip_names plan = map pkg_entry qs \<and> good_request lk qs \<and> set qs = request_of opts lk)"
proof -
  have tools: "goes_on (find_tools w deps (io_Dpkg opts)) (\<lambda>_. True)" "goes_on (check_keep_source w opts repoDir) (\<lambda>_. True)" for repoDir
    using r by (auto simp: ready_def find_tools_def check_keep_source_def intro!: goes_on_give)
  have co: "cooperative w" using r by (simp add: ready_def)
  show ?thesis
    unfolding make_plan_def case_prod_beta
    by (rule goes_on_andThen [OF o], simp only: fst_conv snd_conv, rule goes_on_andThen [OF tools(1)],
        rule goes_on_andThen [OF query_machine_ok [OF r]],
        rule goes_on_andThen [OF check_target_ok [OF r]], simp, rule goes_on_andThen [OF noteBaseDivergence_ok [OF co]],
        rule goes_on_andThen [OF tools(2)], rule goes_on_andThen [OF plan_packages_ok [OF r lk]], assumption,
        rule goes_on_andThen [OF goes_on_unit(1) [where V = "\<lambda>_. True"]], simp, simp,
        rule goes_on_andThen [OF goes_on_unit(4) [where V = "\<lambda>_. True"]], simp,
        rule goes_on_andThen [OF goes_on_unit(5) [where V = "\<lambda>_. True"]], simp, rule goes_on_give, assumption)
qed

lemma apply_plan_succeeds:
  assumes r: "ready w deps opts dir v lk tmp" and p: "ip_root plan = Some pr" "pr_baseOpts pr = root_opts tmp (io_Fast opts)"
    and s: "ir_OK (ex_report s)" "ir_Problems (ex_report s) = []"
  shows "\<exists>s'. apply_plan w deps opts plan s = (Inl None, s') \<and> ir_OK (ex_report s') \<and> ir_Applied (ex_report s') \<and> ir_Problems (ex_report s') = [] \<and>
    (ip_names plan \<noteq> [] \<longrightarrow> Ran (dp_AptPath deps # root_opts tmp (io_Fast opts) @ (if io_Yes opts then [''-y''] else []) @ [''install''] @ ip_names plan)
       (buildEnv (iw_environ w) (io_Fast opts)) \<in> set (ex_trace s'))"
proof -
  have co: "cooperative w" "requireConfirmation w opts" "\<not> io_KeepSource opts" using r by (auto simp: ready_def)
  have ev: "\<exists>t'. recordEvidence w opts t = (Inr (), t') \<and> ex_report t' = ex_report t \<and> set (ex_trace t) \<subseteq> set (ex_trace t')" for t
    using co(1) by (auto simp: cooperative_def recordEvidence_def appendEvidenceLog_def andThen_def perform_def get_report_def give_def)
  have apt: "\<exists>t'. install_packages w deps opts plan t = (Inr None, t') \<and> ex_report t' = ex_report t \<and>
      (ip_names plan \<noteq> [] \<longrightarrow> Ran (dp_AptPath deps # root_opts tmp (io_Fast opts) @ (if io_Yes opts then [''-y''] else []) @ [''install''] @ ip_names plan)
       (buildEnv (iw_environ w) (io_Fast opts)) \<in> set (ex_trace t'))" for t
    using co p by (simp add: cooperative_def install_packages_def applyApt_def andThen_def give_def runProcess_def process_error_def AptArgs_def Let_def)
  obtain t where t: "install_packages w deps opts plan s = (Inr None, t)" "ex_report t = ex_report s"
      "ip_names plan \<noteq> [] \<Longrightarrow> Ran (dp_AptPath deps # root_opts tmp (io_Fast opts) @ (if io_Yes opts then [''-y''] else []) @ [''install''] @ ip_names plan)
       (buildEnv (iw_environ w) (io_Fast opts)) \<in> set (ex_trace t)" using apt by blast
  define u where "u = snd (andThen (on_report (\<lambda>r. r\<lparr>ir_Applied := True, ir_OK := True, ir_Problems := ir_Problems r @ []\<rparr>)) (\<lambda>_.
      andThen (digestSoFar w) (\<lambda>_. emit w TypeInstallResult)) t)"
  have u: "ir_OK (ex_report u)" "ir_Applied (ex_report u)" "ir_Problems (ex_report u) = []" "set (ex_trace t) \<subseteq> set (ex_trace u)"
    using t(2) s(2) by (auto simp: u_def andThen_def on_report_def digestSoFar_def emit_def)
  obtain u' where u': "recordEvidence w opts u = (Inr (), u')" "ex_report u' = ex_report u" "set (ex_trace u) \<subseteq> set (ex_trace u')"
    using ev by blast
  have "apply_plan w deps opts plan s = (Inl None, u')"
    using s co t(1) u' unfolding apply_plan_def
    by (simp add: andThen_def get_report_def finish_def on_report_def digestSoFar_def emit_def u_def)
  then show ?thesis using u u' t(3) by (intro exI [of _ u']) auto
qed

text \<open>The command an installation runs.\<close>

definition install_command :: "install_deps \<Rightarrow> install_options \<Rightarrow> path \<Rightarrow> lock_package list \<Rightarrow> string list" where
  "install_command deps opts tmp pkgs =
     dp_AptPath deps # root_opts tmp (io_Fast opts) @ (if io_Yes opts then [''-y''] else []) @ [''install''] @ map pkg_entry pkgs"

lemma honest_install:
  assumes env: "ve_locks env = iw_locks w" "wf_tree tree"
    and path: "\<not> list_ex (\<lambda>c. c = CHR '' '' \<or> c = CHR 0x09 \<or> c = newline) bundlePath" "resolveBundleDir w bundlePath = Inr bundlePath"
      "iw_Abs w bundlePath = Some dir" "iw_bundle w dir = Some (root, tree)"
    and verified: "\<not> vo_SkipFileDigests (io_Verify opts)" "runVerify env dir (Some (root, tree)) (io_Verify opts) = Inr v" "vr_OK v"
    and lk: "tree_lock (ve_locks env) tree = Inr lk" "lock_Validate (Some lk) = None" and r: "ready w deps opts dir v lk tmp"
  shows "\<exists>report trace pkgs environ. execute w (standardVerifier env w) deps bundlePath opts True = (report, None, trace) \<and>
    ir_OK report \<and> ir_Applied report \<and> ir_Problems report = [] \<and> good_request lk pkgs \<and> set pkgs = request_of opts lk \<and>
    (pkgs \<noteq> [] \<longrightarrow> Ran (install_command deps opts tmp pkgs) environ \<in> set trace)"
proof -
  have wf: "lock_wf lk" using lk(2) lock_Validate_wf by blast
  have tree: "bundle_tree w dir = tree" using path(4) by (simp add: bundle_tree_def)
  have "standardVerifier env w dir (io_Verify opts) = (Some v, None)" using verified path(4) by (simp add: standardVerifier_def)
  then have o: "goes_on (open_verified w (standardVerifier env w) bundlePath opts) (\<lambda>x. x = (dir, v, lk))"
    using path verified lk env tree wf by (intro open_verified_ok) (simp_all add: loadLock_Inr)
  have "pool_problem (iw_links w) (bundle_tree w dir) p = []" if "p \<in> set (lk_Packages lk)" for p
  proof -
    have "genuine env tree p" using verified_lock [OF env(2) verified] lk(1) that by (auto simp: genuine_def list_all_iff)
    then show ?thesis unfolding tree using genuine_in_pool [OF env(2)] wf that by (auto simp: lock_wf_def)
  qed
  note plan = make_plan_succeeds [OF o r wf this]
  have "ir_Problems (ex_report (start_exec bundlePath)) = []" by (simp add: start_exec_def zero_install_report_def)
  then obtain p s pr qs where p: "make_plan w (standardVerifier env w) deps bundlePath opts (start_exec bundlePath) = (Inr p, s)"
    "ir_Problems (ex_report s) = []" "ip_root p = Some pr" "pr_baseOpts pr = root_opts tmp (io_Fast opts)"
    and qs: "ip_names p = map pkg_entry qs" "good_request lk qs" "set qs = request_of opts lk"
    using goes_onD [OF plan] by blast
  have "ir_OK (ex_report s)" using make_plan_report [OF p(1)] p(2) by blast
  then obtain t where t: "apply_plan w deps opts p s = (Inl None, t)" "ir_OK (ex_report t)" "ir_Applied (ex_report t)" "ir_Problems (ex_report t) = []"
    "ip_names p \<noteq> [] \<longrightarrow> Ran (dp_AptPath deps # root_opts tmp (io_Fast opts) @ (if io_Yes opts then [''-y''] else []) @ [''install''] @ ip_names p)
       (buildEnv (iw_environ w) (io_Fast opts)) \<in> set (ex_trace t)"
    using apply_plan_succeeds [OF r p(3,4) _ p(2)] by blast
  have "execute w (standardVerifier env w) deps bundlePath opts True = (ex_report t, None, ex_trace t @ close_root t)"
    using p(1) t(1) by (simp add: execute_def run_steps_def andThen_def)
  then show ?thesis
    by (intro exI [of _ "ex_report t"] exI [of _ "ex_trace t @ close_root t"] exI [of _ qs] exI [of _ "buildEnv (iw_environ w) (io_Fast opts)"])
      (use t qs in \<open>auto simp: install_command_def\<close>)
qed

definition demo_world :: install_world where
  "demo_world = \<lparr>iw_bundle = (\<lambda>_. Some (''/b'', demo_tree)), iw_links = (\<lambda>_. False), iw_Abs = Some, iw_Stat = (\<lambda>_. Inr True),
     iw_LookPath = (\<lambda>_. None),
     iw_run = (\<lambda>_ argv _. \<lparr>pc_end = Exited 0, pc_output = (if last argv = ''--print-architecture'' then ''amd64'' else '''')\<rparr>),
     iw_ReadFile = (\<lambda>_. None), iw_modes = (\<lambda>_. Inl ''''), iw_diskFree = (\<lambda>_. None), iw_fault = (\<lambda>_ _. None),
     iw_MkdirTemp = Inr ''/tmp/x'', iw_terminal = False, iw_environ = [], iw_getenv = (\<lambda>_. ''''), iw_home = Some ''/root'',
     iw_TempDir = ''/tmp'', iw_origin = (\<lambda>_. None), iw_locks = ve_locks demo_verify_env, iw_sha256 = toy_hash, iw_fold = (\<lambda>r. r)\<rparr>"

definition demo_install :: install_options where
  "demo_install = \<lparr>io_Verify = demo_options, io_Upgrade = False, io_All = False, io_Only = [], io_KeepSource = False, io_Fast = False,
     io_Dpkg = False, io_Yes = True, io_EvidencePath = ''/log''\<rparr>"

definition demo_deps :: install_deps where
  "demo_deps = \<lparr>dp_AptPath = ''apt-get'', dp_DpkgPath = ''dpkg'', dp_DpkgQueryPath = ''dpkg-query'', dp_Root = ''''\<rparr>"

lemma demo_ready: "ready demo_world demo_deps demo_install ''/b'' demo_report demo_bundle_lock ''/tmp/x''"
proof -
  have "parseAptSim '''' = ([], [], [], [])" "parseAptSim ''amd64'' = ([], [], [], [])" by code_simp+
  then have "cooperative demo_world" by (simp add: cooperative_def demo_world_def)
  moreover have "requiredForeign demo_bundle_lock demo_report = []" "trim_space ''amd64'' = ''amd64''"
    "lookExecutable demo_world (dp_DpkgPath demo_deps) = None" "lookExecutable demo_world (dp_AptPath demo_deps) = None" by code_simp+
  ultimately show ?thesis
    by (simp add: ready_def demo_install_def requireConfirmation_def demo_deps_def) (simp add: demo_world_def demo_bundle_lock_def demo_lock_def)
qed

section \<open>Planning and applying\<close>

text \<open>How a step may end a run.\<close>

named_theorems ends_intros

definition ends :: "(install_error option \<Rightarrow> bool) \<Rightarrow> 'a step \<Rightarrow> bool" where
  "ends P m \<longleftrightarrow> (\<forall>s e s'. m s = (Inl e, s') \<longrightarrow> P e)"

lemma ends_basic [ends_intros]:
  "ends P (give x)" "ends P (on_report f)" "ends P get_report" "ends P (warn v)" "ends P (trouble ps)" "ends P (digestSoFar w)" "ends P (emit w kind)"
  "ends P (perform w effect)" "ends P (runProcess w path args fast)" "ends P (defer_close pr)"
  by (simp_all add: ends_def give_def on_report_def get_report_def warn_def trouble_def digestSoFar_def emit_def perform_def runProcess_def
    defer_close_def Let_def)

lemma ends_finish [ends_intros]: "P e \<Longrightarrow> ends P (finish e)"
  by (simp add: ends_def finish_def)

lemma ends_andThen [ends_intros]: "ends P m \<Longrightarrow> (\<And>x. ends P (f x)) \<Longrightarrow> ends P (andThen m f)"
  unfolding ends_def andThen_Inl by blast

lemma ends_cases [ends_intros]:
  "(b \<Longrightarrow> ends P m) \<Longrightarrow> (\<not> b \<Longrightarrow> ends P n) \<Longrightarrow> ends P (if b then m else n)"
  "(opt = None \<Longrightarrow> ends P m) \<Longrightarrow> (\<And>x. opt = Some x \<Longrightarrow> ends P (f x)) \<Longrightarrow> ends P (case opt of None \<Rightarrow> m | Some x \<Rightarrow> f x)"
  "(\<And>x. res = Inl x \<Longrightarrow> ends P (g x)) \<Longrightarrow> (\<And>y. res = Inr y \<Longrightarrow> ends P (h y)) \<Longrightarrow> ends P (case res of Inl x \<Rightarrow> g x | Inr y \<Rightarrow> h y)"
  "(\<And>x y. pair = (x, y) \<Longrightarrow> ends P (k x y)) \<Longrightarrow> ends P (case pair of (x, y) \<Rightarrow> k x y)"
  "(\<And>c. fault = Classified c \<Longrightarrow> ends P (l c)) \<Longrightarrow> (fault = Unclassified \<Longrightarrow> ends P m) \<Longrightarrow>
    ends P (case fault of Classified c \<Rightarrow> l c | Unclassified \<Rightarrow> m)"
  "(xs = [] \<Longrightarrow> ends P m) \<Longrightarrow> (\<And>y ys. xs = y # ys \<Longrightarrow> ends P (k' y ys)) \<Longrightarrow> ends P (case xs of [] \<Rightarrow> m | y # ys \<Rightarrow> k' y ys)"
  by (auto split: option.splits sum.splits prod.splits verifier_fault.splits list.splits)

lemma ends_loops [ends_intros]: "ends P (make_dirs w dir subs)" "ends P (unpack_chunks w dpkg fast cs)"
  by (induction subs, auto intro!: ends_intros) (induction cs, auto intro!: ends_intros)

lemma make_plan_fails: "ends (\<lambda>e. e \<noteq> None) (make_plan w verifier deps bundlePath opts)"
  unfolding make_plan_def open_verified_def find_tools_def query_machine_def check_target_def noteBaseDivergence_def check_keep_source_def
    plan_packages_def select_request_def apt_view_def newPrivateRoot_def unwind_def simulate_def Let_def
  by (intro ends_intros) simp_all

lemma install_goes_on: "ends (\<lambda>_. False) (install_packages w deps opts plan)" "ends (\<lambda>_. False) (recordEvidence w opts)"
  unfolding install_packages_def applyApt_def applyDpkg_def keep_source_def PersistSource_def recordEvidence_def appendEvidenceLog_def Let_def
  by (intro ends_intros)+

lemma endsD: "ends (\<lambda>_. False) m \<Longrightarrow> \<exists>x s'. m s = (Inr x, s')"
  unfolding ends_def by (metis prod.collapse sumE)

lemma recordEvidence_report:
  "recordEvidence w opts s = (r, s') \<Longrightarrow> ir_OK (ex_report s') = ir_OK (ex_report s) \<and> ir_Applied (ex_report s') = ir_Applied (ex_report s)"
  by (auto simp: recordEvidence_def appendEvidenceLog_def andThen_def perform_def get_report_def give_def warn_def on_report_def
    split: if_splits option.splits)

lemma apply_plan_installs:
  assumes "ir_OK (ex_report s)" "requireConfirmation w opts"
  shows "\<exists>e s'. apply_plan w deps opts plan s = (Inl e, s') \<and> ir_Applied (ex_report s') \<and> (e = None \<longleftrightarrow> ir_OK (ex_report s'))"
proof -
  obtain err t where t: "install_packages w deps opts plan s = (Inr err, t)" using endsD [OF install_goes_on(1)] by blast
  define u where "u = snd (andThen (on_report (\<lambda>r. r\<lparr>ir_Applied := True, ir_OK := (err = None),
      ir_Problems := ir_Problems r @ (case err of None \<Rightarrow> [] | Some e \<Rightarrow> [ProbApply e])\<rparr>)) (\<lambda>_.
      andThen (digestSoFar w) (\<lambda>_. emit w TypeInstallResult)) t)"
  have u: "ir_OK (ex_report u) \<longleftrightarrow> err = None" "ir_Applied (ex_report u)"
    by (simp_all add: u_def andThen_def on_report_def digestSoFar_def emit_def)
  obtain v where v: "recordEvidence w opts u = (Inr (), v)" using endsD [OF install_goes_on(2)] by (metis (full_types) old.unit.exhaust)
  have "apply_plan w deps opts plan s = (Inl (map_option (\<lambda>e. (Resolution, MsgApply e)) err), v)"
    using assms t v unfolding apply_plan_def
    by (simp add: andThen_def get_report_def finish_def on_report_def digestSoFar_def emit_def u_def)
  then show ?thesis using u recordEvidence_report [OF v] by (cases err) auto
qed


section \<open>Theorems on the whole run\<close>


lemma demo_setting:
  "ve_locks demo_verify_env = iw_locks demo_world" "\<not> list_ex (\<lambda>c. c = CHR '' '' \<or> c = CHR 0x09 \<or> c = newline) ''/b''"
  "resolveBundleDir demo_world ''/b'' = Inr ''/b''" "iw_Abs demo_world ''/b'' = Some ''/b''" "iw_bundle demo_world ''/b'' = Some (''/b'', demo_tree)"
  "\<not> vo_SkipFileDigests (io_Verify demo_install)" "io_Verify demo_install = demo_options"
  "runVerify demo_verify_env ''/b'' (Some (''/b'', demo_tree)) (io_Verify demo_install) = Inr demo_report"
  "tree_lock (ve_locks demo_verify_env) demo_tree = Inr demo_bundle_lock" "lock_Validate (Some demo_bundle_lock) = None"
proof -
  have "is_dir demo_tree" by code_simp
  then show "resolveBundleDir demo_world ''/b'' = Inr ''/b''" by (simp add: resolveBundleDir_def demo_world_def)
  show "tree_lock (ve_locks demo_verify_env) demo_tree = Inr demo_bundle_lock" "lock_Validate (Some demo_bundle_lock) = None" by code_simp+
qed (simp_all add: demo_world_def demo_install_def demo_options_def newline_def demo_verified [unfolded demo_options_def])


lemma demo_request: "request_of demo_install demo_bundle_lock = set (lk_Packages demo_bundle_lock)"
proof -
  have "list_all (\<lambda>p. pkg_entry p \<in> set (lk_Install demo_bundle_lock)) (lk_Packages demo_bundle_lock)" by code_simp
  then show ?thesis by (auto simp: request_of_def asked_for_def demo_install_def list_all_iff)
qed

lemma demo_not_query: "\<not> query demo_world demo_deps (install_command demo_deps demo_install ''/tmp/x'' pkgs)"
  by (auto simp: query_def install_command_def demo_deps_def demo_install_def demo_world_def root_opts_def)


theorem Plan_changes_nothing_witness:
  "list_all (plan_effect demo_world demo_deps) (snd (snd (install_Plan demo_world (standardVerifier demo_verify_env demo_world) demo_deps ''/b'' demo_install)))"
proof -
  obtain report err trace where "install_Plan demo_world (standardVerifier demo_verify_env demo_world) demo_deps ''/b'' demo_install = (report, err, trace)"
    using prod_cases3 by blast
  then show ?thesis using Plan_changes_nothing by simp
qed

section \<open>The raw dpkg path\<close>

text \<open>With \<^verbatim>\<open>--dpkg\<close> every archive of the pool is unpacked, whether the lock names it or not.\<close>

lemma unpack_chunks_all:
  "cooperative w \<Longrightarrow> \<exists>s'. unpack_chunks w dpkg fast cs s = (Inr None, s') \<and> set (ex_trace s) \<subseteq> set (ex_trace s') \<and>
    (\<forall>c \<in> set cs. Ran (dpkg # fastArgs fast @ [''--unpack''] @ c) (buildEnv (iw_environ w) fast) \<in> set (ex_trace s'))"
proof (induction cs arbitrary: s)
  case (Cons c cs)
  obtain s1 where s1: "runProcess w dpkg (fastArgs fast @ [''--unpack''] @ c) fast s = s1" by blast
  then have "\<exists>out t. s1 = (Inr (out, None), t) \<and> set (ex_trace s) \<subseteq> set (ex_trace t) \<and>
      Ran (dpkg # fastArgs fast @ [''--unpack''] @ c) (buildEnv (iw_environ w) fast) \<in> set (ex_trace t)"
    using Cons.prems by (auto simp: runProcess_def process_error_def cooperative_def Let_def)
  then obtain out t where t: "s1 = (Inr (out, None), t)" "set (ex_trace s) \<subseteq> set (ex_trace t)"
    "Ran (dpkg # fastArgs fast @ [''--unpack''] @ c) (buildEnv (iw_environ w) fast) \<in> set (ex_trace t)" by blast
  show ?case using Cons.IH [OF Cons.prems, of t] s1 t by (auto simp: andThen_def)
qed (simp add: give_def)

lemma dpkg_unpacks_pool:
  assumes "cooperative w" "poolDebFiles (repo_dir dir) (bundle_tree w dir) = Inr files" "f \<in> set files"
  shows "\<exists>s' c env. applyDpkg w deps opts dir s = (Inr None, s') \<and> f \<in> set c \<and>
    Ran (dp_DpkgPath deps # fastArgs (io_Fast opts) @ [''--unpack''] @ c) env \<in> set (ex_trace s')"
proof -
  have "f \<in> set (concat (chunks chunkSize files))" using assms(3) by (simp add: chunks_concat chunkSize_def)
  then obtain c where c: "c \<in> set (chunks chunkSize files)" "f \<in> set c" by auto
  obtain t where t: "unpack_chunks w (dp_DpkgPath deps) (io_Fast opts) (chunks chunkSize files) s = (Inr None, t)"
    "Ran (dp_DpkgPath deps # fastArgs (io_Fast opts) @ [''--unpack''] @ c) (buildEnv (iw_environ w) (io_Fast opts)) \<in> set (ex_trace t)"
    using unpack_chunks_all [OF assms(1)] c(1) by blast
  obtain g gs where "files = g # gs" using assms(3) by (cases files) auto
  then have "\<exists>s'. applyDpkg w deps opts dir s = (Inr None, s') \<and> set (ex_trace t) \<subseteq> set (ex_trace s')"
    using assms(1,2) t(1) by (auto simp: applyDpkg_def andThen_def runProcess_def process_error_def cooperative_def give_def Let_def)
  then show ?thesis using t(2) c(2) by blast
qed

text \<open>A leftover of an earlier run comes after the locked version when its name sorts higher.\<close>

definition leftover_tree :: entry where
  "leftover_tree = Dir None [(''repo'', Dir None [(''pool'', Dir None [(''a_9_amd64.deb'', RegularFile ''old''), (''a_10_amd64.deb'', RegularFile ''new'')])])]"

lemma leftover_unpacked_last: "poolDebFiles ''/b/repo'' leftover_tree = Inr [''/b/repo/pool/a_10_amd64.deb'', ''/b/repo/pool/a_9_amd64.deb'']"
  by code_simp

end
