(* ===== verification/Spec2Isabelle.thy ===== *)
theory Spec2Isabelle
  imports Dpkg_Version Dferr Resolve Verify Store_Index Policy_Eval Bundle_Tar Repository Bundle_Pool Install
begin

text \<open>
  A verification development for debark, which resolves Debian packages online, writes them into a
  signed bundle and verifies and installs that bundle offline.
\<close>

end
